(* ===== verification/Prelude.thy ===== *)
theory Prelude
  imports Main "HOL-Library.Word"
begin

text \<open>
  What the components share: the machine types of \<^verbatim>\<open>xio/raft/basic_types.h\<close>, the errors a
  C++ operation can end in, a state-and-exception monad in which a throw keeps the state
  reached so far (as a C++ exception leaves the object it was thrown from), unsigned 64-bit
  subtraction, bytes of machine words in both byte orders, and sorted association lists for
  \<^verbatim>\<open>std::map\<close>.

  Indexes, terms and sizes are \<open>nat\<close> and server ids are \<open>int\<close>; where the code can wrap
  around, the wrap is written out (\<open>sub64\<close>, conversions through \<open>w word\<close>).
\<close>

unbundle bit_operations_syntax

named_theorems buf_simps \<open>equations of the buffer operations on well-formed blocks\<close>
named_theorems codec_simps \<open>what the readers return on bytes the writers produced\<close>

type_synonym u8 = "8 word"
type_synonym u16 = "16 word"
type_synonym u32 = "32 word"
type_synonym u64 = "64 word"

subsection \<open>Errors and the state-and-exception monad\<close>

text \<open>
  The C++ exceptions with their messages, and the three ways a C++ program can go wrong
  without an exception that the models keep apart: an access outside an allocation, a
  dereferenced null pointer and a failed \<^verbatim>\<open>assert\<close>.
\<close>

datatype cpp_error =
    Overflow_Error string
  | Out_Of_Range string
  | Runtime_Error string
  | Length_Error
  | Bad_Access
  | Nil_Deref
  | Assert_Failure

type_synonym ('s, 'a) cmd = "'s \<Rightarrow> (cpp_error + 'a) \<times> 's"

definition ret :: "'a \<Rightarrow> ('s, 'a) cmd" where
  "ret x s = (Inr x, s)"

definition throw :: "cpp_error \<Rightarrow> ('s, 'a) cmd" where
  "throw e s = (Inl e, s)"

definition bnd :: "('s, 'a) cmd \<Rightarrow> ('a \<Rightarrow> ('s, 'b) cmd) \<Rightarrow> ('s, 'b) cmd" where
  "bnd m f s = (case m s of (Inl e, s') \<Rightarrow> (Inl e, s') | (Inr x, s') \<Rightarrow> f x s')"

definition thn :: "('s, 'a) cmd \<Rightarrow> ('s, 'b) cmd \<Rightarrow> ('s, 'b) cmd" where
  "thn m k = bnd m (\<lambda>_. k)"

definition lift :: "cpp_error + 'a \<Rightarrow> ('s, 'a) cmd" where
  "lift r s = (r, s)"

text \<open>A range-based \<^verbatim>\<open>for\<close> over a sequence: the body once per element, in order.\<close>

fun for_each :: "'b list \<Rightarrow> ('b \<Rightarrow> ('s, unit) cmd) \<Rightarrow> ('s, unit) cmd" where
  "for_each [] f = ret ()"
| "for_each (x # xs) f = thn (f x) (for_each xs f)"

text \<open>The same for a loop that collects one value per round.\<close>

fun repeat_get :: "nat \<Rightarrow> ('s, 'a) cmd \<Rightarrow> ('s, 'a list) cmd" where
  "repeat_get 0 m = ret []"
| "repeat_get (Suc n) m = bnd m (\<lambda>x. bnd (repeat_get n m) (\<lambda>xs. ret (x # xs)))"

lemma ret_simp [simp]: "ret x s = (Inr x, s)"
  by (simp add: ret_def)

lemma throw_simp [simp]: "throw e s = (Inl e, s)"
  by (simp add: throw_def)

lemma lift_simp [simp]: "lift r s = (r, s)"
  by (simp add: lift_def)

lemma bnd_Inr: "m s = (Inr x, s') \<Longrightarrow> bnd m f s = f x s'"
  by (simp add: bnd_def)

lemma bnd_Inl: "m s = (Inl e, s') \<Longrightarrow> bnd m f s = (Inl e, s')"
  by (simp add: bnd_def)

lemma thn_Inr: "m s = (Inr x, s') \<Longrightarrow> thn m k s = k s'"
  by (simp add: thn_def bnd_def)

lemma thn_Inl: "m s = (Inl e, s') \<Longrightarrow> thn m k s = (Inl e, s')"
  by (simp add: thn_def bnd_def)

lemma bnd_eq_Inr:
  "bnd m f s = (Inr y, t) \<longleftrightarrow> (\<exists>x s'. m s = (Inr x, s') \<and> f x s' = (Inr y, t))"
  by (auto simp: bnd_def split: prod.splits sum.splits)

lemma thn_assoc: "thn (thn a b) c = thn a (thn b c)"
  by (rule ext) (auto simp: thn_def bnd_def split: prod.splits sum.splits)

lemma for_each_append: "for_each (xs @ ys) f = thn (for_each xs f) (for_each ys f)"
proof (induction xs)
  case Nil
  show ?case by (rule ext) (simp add: thn_def bnd_def)
next
  case (Cons x xs)
  then show ?case by (simp add: thn_assoc)
qed

subsection \<open>Unsigned 64-bit subtraction\<close>

text \<open>\<^verbatim>\<open>size_t\<close> subtraction wraps: \<open>3 - 5\<close> is \<open>2 ^ 64 - 2\<close>.\<close>

definition sub64 :: "nat \<Rightarrow> nat \<Rightarrow> nat" where
  "sub64 a b = (if b \<le> a then a - b else 2 ^ 64 - (b - a))"

lemma sub64_le [simp]: "b \<le> a \<Longrightarrow> sub64 a b = a - b"
  by (simp add: sub64_def)

text \<open>\<^verbatim>\<open>size_t\<close> addition.\<close>

definition add64 :: "nat \<Rightarrow> nat \<Rightarrow> nat" where
  "add64 a b = (a + b) mod 2 ^ 64"

lemma add64_small [simp]: "a + b < 2 ^ 64 \<Longrightarrow> add64 a b = a + b"
  by (simp add: add64_def)

lemma sub64_unsigned:
  assumes "a < 2 ^ 64" and "b < 2 ^ 64"
  shows "sub64 a b = unat (word_of_nat a - word_of_nat b :: u64)"
proof -
  have "int (sub64 a b) = (int a - int b) mod 2 ^ 64"
  proof (cases "b \<le> a")
    case True
    then show ?thesis using assms(1) by simp
  next
    case False
    then have "(int a - int b) mod 2 ^ 64 = (int a - int b + 2 ^ 64) mod 2 ^ 64"
      by simp
    also have "\<dots> = int a - int b + 2 ^ 64"
      using False assms by (intro mod_pos_pos_trivial) auto
    finally show ?thesis using False assms by (simp add: sub64_def of_nat_diff)
  qed
  also have "\<dots> = uint (word_of_int (int a - int b) :: u64)"
    by (simp only: unsigned_of_int take_bit_eq_mod) simp
  also have "\<dots> = int (unat (word_of_nat a - word_of_nat b :: u64))"
    by simp
  finally show ?thesis by linarith
qed

subsection \<open>Bytes of machine words\<close>

text \<open>
  \<open>bytes_le n v\<close> are the bytes \<^verbatim>\<open>(byte)(v >> (i * 8))\<close> for \<open>i < n\<close>, and \<open>word_le\<close> is the
  loop \<^verbatim>\<open>val += (byte_val << (i * 8))\<close> at the width of the result.
\<close>

definition bytes_le :: "nat \<Rightarrow> int \<Rightarrow> u8 list" where
  "bytes_le n v = map (\<lambda>i. word_of_int (drop_bit (8 * i) v)) [0..<n]"

definition word_le :: "u8 list \<Rightarrow> 'a::len word" where
  "word_le bs = foldl (\<lambda>val i. val + push_bit (8 * i) (ucast (bs ! i))) 0 [0..<length bs]"

lemma length_bytes_le [simp]: "length (bytes_le n v) = n"
  by (simp add: bytes_le_def)

lemma nth_bytes_le: "i < n \<Longrightarrow> bytes_le n v ! i = word_of_int (drop_bit (8 * i) v)"
  by (simp add: bytes_le_def)

lemma bytes_le_eq_Nil [simp]: "bytes_le n v = [] \<longleftrightarrow> n = 0"
  by (simp add: bytes_le_def)

lemma take_bit_add_slice:
  "take_bit m v + push_bit m (take_bit k (drop_bit m v)) = take_bit (m + k) (v :: int)"
proof -
  have "push_bit m (take_bit k (drop_bit m v)) = push_bit m (drop_bit m (take_bit (m + k) v))"
    by (simp add: drop_bit_take_bit)
  moreover have "take_bit m v = take_bit m (take_bit (m + k) v)"
    by simp
  ultimately show ?thesis
    by (metis add.commute bits_ident)
qed

lemma word_le_foldl:
  "k \<le> n \<Longrightarrow>
    foldl (\<lambda>val i. val + push_bit (8 * i) (ucast (bytes_le n v ! i))) 0 [0..<k]
      = (word_of_int (take_bit (8 * k) v) :: 'a::len word)"
proof (induction k)
  case 0
  show ?case by simp
next
  case (Suc k)
  have "push_bit (8 * k) (ucast (word_of_int (drop_bit (8 * k) v) :: u8))
      = (word_of_int (push_bit (8 * k) (take_bit 8 (drop_bit (8 * k) v))) :: 'a word)"
    by (simp add: unsigned_of_int push_bit_word_beyond flip: push_bit_of_int)
  moreover have "take_bit (8 * Suc k) v
      = take_bit (8 * k) v + push_bit (8 * k) (take_bit 8 (drop_bit (8 * k) v))"
    by (simp add: take_bit_add_slice add.commute)
  ultimately show ?case
    using Suc by (simp add: nth_bytes_le)
qed

lemma word_le_bytes_le:
  "word_le (bytes_le n v) = (word_of_int (take_bit (8 * n) v) :: 'a::len word)"
  by (simp add: word_le_def word_le_foldl)

lemma word_le_bytes_le_full:
  "LENGTH('a) \<le> 8 * n \<Longrightarrow> word_le (bytes_le n v) = (word_of_int v :: 'a::len word)"
  by (simp add: word_le_bytes_le word_of_int_eq_iff min_def)

lemma word_le_Nil [simp]: "word_le [] = 0"
  by (simp add: word_le_def)

lemma word_le_snoc:
  "word_le (bs @ [b]) = word_le bs + push_bit (8 * length bs) (ucast b)"
proof -
  have "foldl (\<lambda>val i. val + push_bit (8 * i) (ucast ((bs @ [b]) ! i))) c [0..<length bs]
      = foldl (\<lambda>val i. val + push_bit (8 * i) (ucast (bs ! i))) c [0..<length bs]" for c :: "'a word"
    by (rule foldl_cong) (auto simp: nth_append)
  then show ?thesis by (simp add: word_le_def nth_append)
qed

lemma word_le_append:
  "word_le (xs @ ys) = (word_le xs + push_bit (8 * length xs) (word_le ys) :: 'a::len word)"
proof (induction ys rule: rev_induct)
  case Nil
  show ?case by simp
next
  case (snoc y ys)
  have "word_le (xs @ ys @ [y]) = (word_le ((xs @ ys) @ [y]) :: 'a word)"
    by simp
  also have "\<dots> = word_le (xs @ ys) + push_bit (8 * (length xs + length ys)) (ucast y)"
    by (simp only: word_le_snoc length_append)
  finally show ?case
    by (simp add: snoc.IH word_le_snoc push_bit_add distrib_left add.assoc add.commute)
qed

lemma word_le_Cons: "word_le (b # bs) = (ucast b + push_bit 8 (word_le bs) :: 'a::len word)"
  using word_le_append [of "[b]" bs] by (simp add: word_le_snoc [of "[]", simplified])

subsection \<open>Memory as a list of bytes\<close>

text \<open>\<open>poke m ofs bs\<close> stores the bytes \<open>bs\<close> at offset \<open>ofs\<close>, \<open>peek m ofs n\<close> reads \<open>n\<close> bytes there.\<close>

definition poke :: "u8 list \<Rightarrow> nat \<Rightarrow> u8 list \<Rightarrow> u8 list" where
  "poke m ofs bs = take ofs m @ bs @ drop (ofs + length bs) m"

definition peek :: "u8 list \<Rightarrow> nat \<Rightarrow> nat \<Rightarrow> u8 list" where
  "peek m ofs n = take n (drop ofs m)"

lemma length_poke [simp]: "ofs + length bs \<le> length m \<Longrightarrow> length (poke m ofs bs) = length m"
  by (simp add: poke_def)

lemma length_peek [simp]: "ofs + n \<le> length m \<Longrightarrow> length (peek m ofs n) = n"
  by (simp add: peek_def)

lemma peek_0 [simp]: "peek m ofs 0 = []"
  by (simp add: peek_def)

lemma poke_Nil [simp]: "ofs \<le> length m \<Longrightarrow> poke m ofs [] = m"
  by (simp add: poke_def)

lemma peek_poke_same:
  "ofs + length bs \<le> length m \<Longrightarrow> n = length bs \<Longrightarrow> peek (poke m ofs bs) ofs n = bs"
  by (simp add: peek_def poke_def)

lemma peek_poke_before:
  "i + n \<le> ofs \<Longrightarrow> ofs + length bs \<le> length m \<Longrightarrow> peek (poke m ofs bs) i n = peek m i n"
  by (simp add: peek_def poke_def drop_take min_absorb1 min_absorb2)

lemma peek_poke_after:
  "ofs + length bs \<le> i \<Longrightarrow> ofs + length bs \<le> length m \<Longrightarrow> peek (poke m ofs bs) i n = peek m i n"
  by (simp add: peek_def poke_def)

lemma poke_append_right:
  "length h \<le> ofs \<Longrightarrow> poke (h @ d) ofs bs = h @ poke d (ofs - length h) bs"
  by (simp add: poke_def)

lemma peek_append_right:
  "length h \<le> ofs \<Longrightarrow> peek (h @ d) ofs n = peek d (ofs - length h) n"
  by (simp add: peek_def)

lemma poke_poke_next:
  "ofs + length xs + length ys \<le> length m \<Longrightarrow>
    poke (poke m ofs xs) (ofs + length xs) ys = poke m ofs (xs @ ys)"
  by (simp add: poke_def ac_simps)

lemma poke_0_full: "length bs = length m \<Longrightarrow> poke m 0 bs = bs"
  by (simp add: poke_def)

end
