(* ===== verification/Raft_Buffer.thy ===== *)
theory Raft_Buffer
  imports Prelude
begin

text \<open>
  The class \<^verbatim>\<open>buffer\<close> of \<^verbatim>\<open>xio/raft/buffer.h\<close> and \<^verbatim>\<open>xio/raft/buffer.cc\<close>. A buffer is one
  allocation: a header of two \<^verbatim>\<open>ushort\<close>s (data size, cursor) for a small block or of two
  \<^verbatim>\<open>uint\<close>s for a big one, told apart by bit 31 of the first 32-bit word, and then the data. The
  model is that memory, byte for byte, on a little-endian machine; the macros are functions of
  it. Access outside the allocation ends in \<open>Bad_Access\<close>. Pointers into the data that the
  readers return are modelled by the bytes they point to. The counters of \<^verbatim>\<open>stat_mgr\<close> are not
  part of the model.

  \<open>blk p d\<close> is the memory of a buffer with cursor \<open>p\<close> and data \<open>d\<close>. The lemmas of
  \<open>buf_simps\<close> compute every operation on it, so that the memory layout does not show in the
  proofs about clients.
\<close>

type_synonym block = "u8 list"

abbreviation (input) sz_int :: nat where "sz_int \<equiv> 4"
abbreviation (input) sz_ulong :: nat where "sz_ulong \<equiv> 8"
abbreviation (input) sz_byte :: nat where "sz_byte \<equiv> 1"

subsection \<open>The block macros\<close>

definition is_big_block :: "block \<Rightarrow> bool" where
  "is_big_block m = (0x80000000 AND (word_le (peek m 0 4) :: u32) \<noteq> 0)"

definition init_s_block :: "block \<Rightarrow> nat \<Rightarrow> block" where
  "init_s_block m l = poke (poke m 0 (bytes_le 2 (int l))) 2 (bytes_le 2 0)"

definition init_b_block :: "block \<Rightarrow> nat \<Rightarrow> block" where
  "init_b_block m l =
     (let m' = poke (poke m 0 (bytes_le 4 (int l))) 4 (bytes_le 4 0)
      in poke m' 0 (bytes_le 4 (uint ((word_le (peek m' 0 4) :: u32) OR 0x80000000))))"

definition pos_of_s_block :: "block \<Rightarrow> u16" where
  "pos_of_s_block m = word_le (peek m 2 2)"

definition pos_of_b_block :: "block \<Rightarrow> u32" where
  "pos_of_b_block m = word_le (peek m 4 4)"

definition size_of_block :: "block \<Rightarrow> nat" where
  "size_of_block m =
     (if is_big_block m then unat ((word_le (peek m 0 4) :: u32) XOR 0x80000000)
      else unat (word_le (peek m 0 2) :: u16))"

definition pos_of_block :: "block \<Rightarrow> nat" where
  "pos_of_block m =
     (if is_big_block m then unat (pos_of_b_block m) else unat (pos_of_s_block m))"

definition mv_fw_block :: "nat \<Rightarrow> (block, unit) cmd" where
  "mv_fw_block delta m =
     (if is_big_block m
      then ret () (poke m 4 (bytes_le 4 (uint (pos_of_b_block m + word_of_nat delta))))
      else ret () (poke m 2 (bytes_le 2 (uint (pos_of_s_block m + word_of_nat delta)))))"

definition set_block_pos :: "nat \<Rightarrow> (block, unit) cmd" where
  "set_block_pos p m =
     (if is_big_block m then ret () (poke m 4 (bytes_le 4 (int p)))
      else ret () (poke m 2 (bytes_le 2 (int p))))"

text \<open>The macros for pointers into the block: offsets from its start.\<close>

definition data_of_block :: "block \<Rightarrow> nat" where
  "data_of_block m =
     (if is_big_block m then 8 + unat (pos_of_b_block m) else 4 + unat (pos_of_s_block m))"

definition entire_data_of_block :: "block \<Rightarrow> nat" where
  "entire_data_of_block m = (if is_big_block m then 8 else 4)"

subsection \<open>Access through a pointer\<close>

text \<open>An access to no byte at all never fails, wherever the pointer points.\<close>

definition rd :: "nat \<Rightarrow> nat \<Rightarrow> (block, u8 list) cmd" where
  "rd ofs n m = (if n = 0 \<or> ofs + n \<le> length m then (Inr (peek m ofs n), m) else (Inl Bad_Access, m))"

definition wr :: "nat \<Rightarrow> u8 list \<Rightarrow> (block, unit) cmd" where
  "wr ofs bs m =
     (if bs = [] then (Inr (), m)
      else if ofs + length bs \<le> length m then (Inr (), poke m ofs bs) else (Inl Bad_Access, m))"

subsection \<open>Allocation and size\<close>

text \<open>
  \<^verbatim>\<open>new char[len]\<close> does not initialise its memory: the parameter \<open>uninit\<close> gives the byte that
  happens to be at each position.
\<close>

definition new_chars :: "(nat \<Rightarrow> u8) \<Rightarrow> nat \<Rightarrow> block" where
  "new_chars uninit len = map uninit [0..<len]"

definition buf_alloc :: "(nat \<Rightarrow> u8) \<Rightarrow> nat \<Rightarrow> cpp_error + block" where
  "buf_alloc uninit sz =
     (if sz \<ge> 0x80000000
      then Inl (Out_Of_Range ''size exceed the max size that xio::raft::buffer could support'')
      else if sz \<ge> 0x8000 then Inr (init_b_block (new_chars uninit (sz + 4 * 2)) sz)
      else Inr (init_s_block (new_chars uninit (sz + 2 * 2)) sz))"

definition buf_size :: "block \<Rightarrow> nat" where
  "buf_size m = size_of_block m"

definition buf_pos :: "block \<Rightarrow> nat" where
  "buf_pos m = pos_of_block m"

text \<open>
  \<^verbatim>\<open>__size_of_block(p)\<close> expands to an unparenthesised \<open>c ? a : b\<close>, so in the sum of
  \<^verbatim>\<open>container_size\<close> the header size is added in the else branch only.
\<close>

definition container_size :: "block \<Rightarrow> nat" where
  "container_size m =
     (if is_big_block m then unat ((word_le (peek m 0 4) :: u32) XOR 0x80000000)
      else unat (word_le (peek m 0 2) :: u16) + (if is_big_block m then 4 * 2 else 2 * 2))"

definition buf_set_pos :: "nat \<Rightarrow> (block, unit) cmd" where
  "buf_set_pos p m = set_block_pos (if p > buf_size m then buf_size m else p) m"

subsection \<open>Readers\<close>

definition get_int :: "(block, int) cmd" where
  "get_int m =
     (if sub64 (buf_size m) (buf_pos m) < sz_int
      then throw (Overflow_Error ''insufficient buffer available for an int32 value'') m
      else bnd (rd (data_of_block m) sz_int) (\<lambda>d.
           thn (mv_fw_block sz_int) (ret (sint (word_le d :: u32)))) m)"

definition get_ulong :: "(block, nat) cmd" where
  "get_ulong m =
     (if sub64 (buf_size m) (buf_pos m) < sz_ulong
      then throw (Overflow_Error ''insufficient buffer available for an ulong value'') m
      else bnd (rd (data_of_block m) sz_ulong) (\<lambda>d.
           thn (mv_fw_block sz_ulong) (ret (unat (word_le d :: u64)))) m)"

definition get_byte :: "(block, u8) cmd" where
  "get_byte m =
     (if sub64 (buf_size m) (buf_pos m) < sz_byte
      then throw (Overflow_Error ''insufficient buffer available for a byte'') m
      else bnd (rd (data_of_block m) 1) (\<lambda>d. thn (mv_fw_block sz_byte) (ret (d ! 0))) m)"

text \<open>The \<^verbatim>\<open>int32\<close> length is converted to \<^verbatim>\<open>size_t\<close>, so a negative one becomes huge.\<close>

definition get_bytes :: "(block, u8 list) cmd" where
  "get_bytes m =
     (if sub64 (buf_size m) (buf_pos m) < sz_int
      then throw (Overflow_Error ''insufficient buffer available for a bytes length (int32)'') m
      else bnd (rd (data_of_block m) sz_int) (\<lambda>d.
           thn (mv_fw_block sz_int) (\<lambda>m'.
             (let len = nat (sint (word_le d :: u32) mod 2 ^ 64)
              in if sub64 (buf_size m') (buf_pos m') < len
                 then throw (Overflow_Error ''insufficient buffer available for a byte array'') m'
                 else bnd (rd (data_of_block m') len) (\<lambda>bs.
                      thn (mv_fw_block len) (ret bs)) m'))) m)"

fun scan_str :: "u8 list \<Rightarrow> nat" where
  "scan_str [] = 0"
| "scan_str (b # bs) = (if b = 0 then 0 else Suc (scan_str bs))"

text \<open>
  \<open>None\<close> is the null pointer. The scan looks at the bytes between the cursor and the size; with
  the cursor at or past the size it looks at none.
\<close>

definition get_str :: "(block, u8 list option) cmd" where
  "get_str m =
     (let p = buf_pos m; s = buf_size m
      in bnd (rd (data_of_block m) (s - p)) (\<lambda>d.
           (let i = scan_str d
            in thn (if i = 0 then mv_fw_block (i + 1) else ret ())
                 (if p + i \<ge> s \<or> i = 0 then ret None
                  else thn (mv_fw_block (i + 1)) (ret (Some (take i d)))))) m)"

definition get_raw :: "nat \<Rightarrow> (block, u8 list) cmd" where
  "get_raw len m =
     (if sub64 (buf_size m) (buf_pos m) < len
      then throw (Overflow_Error ''insufficient buffer available for a raw byte array'') m
      else bnd (rd (data_of_block m) len) (\<lambda>d. thn (mv_fw_block len) (ret d)) m)"

text \<open>\<^verbatim>\<open>get(ptr<buffer>& dst)\<close> fills \<open>dst\<close> from its cursor on and returns the filled buffer.\<close>

definition buf_get :: "block \<Rightarrow> (block, block) cmd" where
  "buf_get dst m =
     (let sz = sub64 (buf_size dst) (buf_pos dst)
      in bnd (rd (data_of_block m) sz) (\<lambda>d.
         bnd (lift (case wr (data_of_block dst) d dst of
                (Inl e, _) \<Rightarrow> Inl e | (Inr _, dst') \<Rightarrow> Inr dst')) (\<lambda>dst'.
         thn (mv_fw_block sz) (ret dst'))) m)"

subsection \<open>Writers\<close>

definition put_byte :: "u8 \<Rightarrow> (block, unit) cmd" where
  "put_byte b m =
     (if sub64 (buf_size m) (buf_pos m) < sz_byte
      then throw (Overflow_Error ''insufficient buffer to store byte'') m
      else thn (wr (data_of_block m) [b]) (mv_fw_block sz_byte) m)"

definition put_raw :: "u8 list \<Rightarrow> (block, unit) cmd" where
  "put_raw ba m =
     (if sub64 (buf_size m) (buf_pos m) < length ba
      then throw (Overflow_Error ''insufficient buffer to store a raw byte array'') m
      else thn (wr (data_of_block m) ba) (mv_fw_block (length ba)) m)"

definition put_bytes :: "u8 list \<Rightarrow> (block, unit) cmd" where
  "put_bytes ba m =
     (if sub64 (buf_size m) (buf_pos m) < sz_int
      then throw (Overflow_Error ''insufficient buffer to store int32 length'') m
      else thn (wr (data_of_block m) (bytes_le sz_int (int (length ba))))
             (thn (mv_fw_block sz_int) (put_raw ba)) m)"

definition put_int :: "int \<Rightarrow> (block, unit) cmd" where
  "put_int val m =
     (if sub64 (buf_size m) (buf_pos m) < sz_int
      then throw (Overflow_Error ''insufficient buffer to store int32'') m
      else thn (wr (data_of_block m) (bytes_le sz_int val)) (mv_fw_block sz_int) m)"

definition put_ulong :: "nat \<Rightarrow> (block, unit) cmd" where
  "put_ulong val m =
     (if sub64 (buf_size m) (buf_pos m) < sz_ulong
      then throw (Overflow_Error ''insufficient buffer to store unsigned long'') m
      else thn (wr (data_of_block m) (bytes_le sz_ulong (int val))) (mv_fw_block sz_ulong) m)"

definition put_str :: "u8 list \<Rightarrow> (block, unit) cmd" where
  "put_str str m =
     (if sub64 (buf_size m) (buf_pos m) < length str + 1
      then throw (Overflow_Error ''insufficient buffer to store a string'') m
      else thn (wr (data_of_block m) str)
             (thn (wr (data_of_block m + length str) [0]) (mv_fw_block (length str + 1))) m)"

definition put_buf :: "block \<Rightarrow> (block, unit) cmd" where
  "put_buf src m =
     (if sub64 (buf_size m) (buf_pos m) < sub64 (buf_size src) (buf_pos src)
      then throw (Overflow_Error ''insufficient buffer to hold the other buffer'') m
      else bnd (lift (fst (rd (data_of_block src) (sub64 (buf_size src) (buf_pos src)) src))) (\<lambda>d.
           thn (wr (data_of_block m) d) (mv_fw_block (sub64 (buf_size src) (buf_pos src)))) m)"

subsection \<open>Copies\<close>

definition run_on :: "cpp_error + block \<Rightarrow> (block, unit) cmd \<Rightarrow> cpp_error + block" where
  "run_on r c = (case r of Inl e \<Rightarrow> Inl e
                 | Inr m \<Rightarrow> (case c m of (Inl e, _) \<Rightarrow> Inl e | (Inr _, m') \<Rightarrow> Inr m'))"

definition buf_copy :: "(nat \<Rightarrow> u8) \<Rightarrow> block \<Rightarrow> cpp_error + block" where
  "buf_copy uninit buf =
     run_on (buf_alloc uninit (sub64 (buf_size buf) (buf_pos buf)))
       (thn (put_buf buf) (buf_set_pos 0))"

definition memcpy_begin :: "block \<Rightarrow> (block, unit) cmd" where
  "memcpy_begin buf m =
     bnd (lift (fst (rd (entire_data_of_block buf) (buf_size buf) buf)))
       (\<lambda>d. wr (entire_data_of_block m) d) m"

definition buf_clone :: "(nat \<Rightarrow> u8) \<Rightarrow> block \<Rightarrow> cpp_error + block" where
  "buf_clone uninit buf =
     run_on (buf_alloc uninit (buf_size buf)) (thn (memcpy_begin buf) (buf_set_pos 0))"

definition buf_expand :: "(nat \<Rightarrow> u8) \<Rightarrow> block \<Rightarrow> nat \<Rightarrow> cpp_error + block" where
  "buf_expand uninit buf new_size =
     (if new_size \<ge> 0x80000000
      then Inl (Out_Of_Range ''size exceed the max size that xio::raft::buffer could support'')
      else if new_size < buf_size buf
      then Inl (Out_Of_Range ''realloc() new_size is less than old size'')
      else run_on (buf_alloc uninit new_size)
             (thn (memcpy_begin buf) (buf_set_pos (buf_pos buf))))"

subsection \<open>Well-formed blocks\<close>

definition blk :: "nat \<Rightarrow> u8 list \<Rightarrow> block" where
  "blk p d = (if length d < 0x8000 then bytes_le 2 (int (length d)) @ bytes_le 2 (int p)
              else bytes_le 4 (int (length d) + 2 ^ 31) @ bytes_le 4 (int p)) @ d"

text \<open>The cursor values the header of a block can hold without changing the block's kind.\<close>

definition pos_fits :: "nat \<Rightarrow> u8 list \<Rightarrow> bool" where
  "pos_fits p d \<longleftrightarrow> length d < 2 ^ 31 \<and> p < (if length d < 0x8000 then 0x8000 else 2 ^ 32)"

definition wf_block :: "block \<Rightarrow> bool" where
  "wf_block m \<longleftrightarrow> (\<exists>p d. m = blk p d \<and> p \<le> length d \<and> length d < 2 ^ 31)"

definition hdr_len :: "u8 list \<Rightarrow> nat" where
  "hdr_len d = (if length d < 0x8000 then 4 else 8)"

subsection \<open>The header of a well-formed block\<close>

lemma bit31_iff: "0x80000000 AND w \<noteq> 0 \<longleftrightarrow> bit (w :: u32) 31"
  using and_exp_eq_0_iff_not_bit [of w 31] by (simp add: and.commute)

lemma length_blk: "length (blk p d) = hdr_len d + length d"
  by (simp add: blk_def hdr_len_def)

lemma blk_small_word:
  assumes "length d < 0x8000" "p < 0x8000"
  shows "word_le (peek (blk p d) 0 4) = (word_of_int (int (length d) + 65536 * int p) :: u32)"
proof -
  have "peek (blk p d) 0 4 = bytes_le 2 (int (length d)) @ bytes_le 2 (int p)"
    using assms by (simp add: peek_def blk_def)
  moreover have "take_bit 16 (int (length d)) = int (length d)" "take_bit 16 (int p) = int p"
    using assms by (simp_all add: take_bit_int_eq_self)
  ultimately have "word_le (peek (blk p d) 0 4)
      = (word_of_int (int (length d)) + push_bit 16 (word_of_int (int p)) :: u32)"
    by (simp add: word_le_append word_le_bytes_le)
  then show ?thesis
    by (simp add: push_bit_eq_mult)
qed

lemma blk_big_word:
  assumes "\<not> length d < 0x8000"
  shows "word_le (peek (blk p d) 0 4) = (word_of_int (int (length d) + 2 ^ 31) :: u32)"
proof -
  have "peek (blk p d) 0 4 = bytes_le 4 (int (length d) + 2 ^ 31)"
    using assms by (simp add: peek_def blk_def)
  then show ?thesis by (simp add: word_le_bytes_le_full)
qed

lemma bit31_word_of_int:
  assumes "0 \<le> x" "x < 2 ^ 31"
  shows "\<not> bit (word_of_int x :: u32) 31" and "bit (word_of_int (x + 2 ^ 31) :: u32) 31"
proof -
  have "x div 2 ^ 31 = 0" "(x + 2 ^ 31) div 2 ^ 31 = 1"
    using assms by auto
  then show "\<not> bit (word_of_int x :: u32) 31" "bit (word_of_int (x + 2 ^ 31) :: u32) 31"
    unfolding bit_word_of_int_iff by (simp_all add: bit_iff_odd)
qed

lemma is_big_blk [buf_simps]:
  assumes "pos_fits p d"
  shows "is_big_block (blk p d) \<longleftrightarrow> \<not> length d < 0x8000"
proof (cases "length d < 0x8000")
  case True
  with assms have p: "p < 0x8000" by (simp add: pos_fits_def)
  have "\<not> bit (word_of_int (int (length d) + 65536 * int p) :: u32) 31"
    using True p by (intro bit31_word_of_int(1)) auto
  with True p show ?thesis
    by (simp add: is_big_block_def bit31_iff blk_small_word del: of_int_add of_int_mult)
next
  case False
  have "bit (word_of_int (int (length d) + 2 ^ 31) :: u32) 31"
    using assms by (intro bit31_word_of_int(2)) (auto simp: pos_fits_def)
  with False show ?thesis
    by (simp add: is_big_block_def bit31_iff blk_big_word del: of_int_add)
qed

lemma xor_bit31:
  assumes "x < 2 ^ 31"
  shows "unat ((word_of_int (int x + 2 ^ 31) :: u32) XOR 0x80000000) = x"
proof -
  have "(word_of_int (int x + 2 ^ 31) :: u32) = word_of_nat x + 2 ^ 31"
    by simp
  moreover have "\<not> bit (word_of_int (int x) :: u32) 31"
    using assms by (intro bit31_word_of_int(1)) auto
  then have "word_of_nat x AND (2 ^ 31 :: u32) = 0"
    by (simp only: and_exp_eq_0_iff_not_bit of_int_of_nat_eq not_False_eq_True)
  then have "word_of_nat x + (2 ^ 31 :: u32) = word_of_nat x XOR 2 ^ 31"
    by (rule disjunctive_add_eq_xor)
  ultimately show ?thesis
    using assms by (simp add: unsigned_of_nat take_bit_nat_eq_self xor.assoc)
qed

lemma size_of_blk [buf_simps]: "pos_fits p d \<Longrightarrow> buf_size (blk p d) = length d"
proof (cases "length d < 0x8000")
  case True
  assume f: "pos_fits p d"
  have "peek (blk p d) 0 2 = bytes_le 2 (int (length d))"
    using True by (simp add: peek_def blk_def)
  then have "(word_le (peek (blk p d) 0 2) :: u16) = word_of_nat (length d)"
    by (simp add: word_le_bytes_le_full)
  then show ?thesis
    using True f
    by (simp add: buf_size_def size_of_block_def is_big_blk unsigned_of_nat take_bit_nat_eq_self)
next
  case False
  assume f: "pos_fits p d"
  then have "length d < 2 ^ 31" by (simp add: pos_fits_def)
  then show ?thesis
    using False f xor_bit31 [of "length d"]
    by (simp add: buf_size_def size_of_block_def is_big_blk blk_big_word)
qed

lemma pos_s_blk: "length d < 0x8000 \<Longrightarrow> pos_of_s_block (blk p d) = word_of_nat p"
  by (simp add: pos_of_s_block_def peek_def blk_def word_le_bytes_le_full)

lemma pos_b_blk: "\<not> length d < 0x8000 \<Longrightarrow> pos_of_b_block (blk p d) = word_of_nat p"
  by (simp add: pos_of_b_block_def peek_def blk_def word_le_bytes_le_full)

lemma pos_of_blk [buf_simps]: "pos_fits p d \<Longrightarrow> buf_pos (blk p d) = p"
  by (auto simp: buf_pos_def pos_of_block_def is_big_blk pos_s_blk pos_b_blk pos_fits_def
      unsigned_of_nat take_bit_nat_eq_self split: if_splits)

lemma data_of_blk [buf_simps]: "pos_fits p d \<Longrightarrow> data_of_block (blk p d) = hdr_len d + p"
  by (auto simp: data_of_block_def is_big_blk hdr_len_def pos_s_blk pos_b_blk pos_fits_def
      unsigned_of_nat take_bit_nat_eq_self split: if_splits)

lemma entire_data_of_blk [buf_simps]:
  "pos_fits p d \<Longrightarrow> entire_data_of_block (blk p d) = hdr_len d"
  by (simp add: entire_data_of_block_def is_big_blk hdr_len_def)

lemma poke_pos_blk:
  shows "length d < 0x8000 \<Longrightarrow> poke (blk p d) 2 (bytes_le 2 (int q)) = blk q d"
    and "\<not> length d < 0x8000 \<Longrightarrow> poke (blk p d) 4 (bytes_le 4 (int q)) = blk q d"
  by (simp_all add: poke_def blk_def)

lemma uint_word_of_nat_small: "n < 2 ^ LENGTH('a) \<Longrightarrow> uint (word_of_nat n :: 'a::len word) = int n"
  by (simp add: unsigned_of_nat take_bit_nat_eq_self)

lemma mv_fw_blk [buf_simps]:
  assumes "pos_fits p d" and "pos_fits (p + n) d"
  shows "mv_fw_block n (blk p d) = (Inr (), blk (p + n) d)"
proof (cases "length d < 0x8000")
  case True
  have "pos_of_s_block (blk p d) + word_of_nat n = (word_of_nat (p + n) :: u16)"
    using True by (simp add: pos_s_blk)
  moreover have "uint (word_of_nat (p + n) :: u16) = int (p + n)"
    using assms(2) True by (intro uint_word_of_nat_small) (simp add: pos_fits_def)
  ultimately show ?thesis
    using True assms by (simp add: mv_fw_block_def is_big_blk poke_pos_blk del: of_nat_add)
next
  case False
  have "pos_of_b_block (blk p d) + word_of_nat n = (word_of_nat (p + n) :: u32)"
    using False by (simp add: pos_b_blk)
  moreover have "uint (word_of_nat (p + n) :: u32) = int (p + n)"
    using assms(2) False by (intro uint_word_of_nat_small) (simp add: pos_fits_def)
  ultimately show ?thesis
    using False assms by (simp add: mv_fw_block_def is_big_blk poke_pos_blk del: of_nat_add)
qed

lemma set_block_pos_blk [buf_simps]:
  "pos_fits p d \<Longrightarrow> set_block_pos q (blk p d) = (Inr (), blk q d)"
  by (simp add: set_block_pos_def is_big_blk poke_pos_blk)

lemma pos_fitsI [simp, intro]: "p \<le> length d \<Longrightarrow> length d < 2 ^ 31 \<Longrightarrow> pos_fits p d"
  by (auto simp: pos_fits_def)

lemma hdr_len_poke [simp]: "p + length bs \<le> length d \<Longrightarrow> hdr_len (poke d p bs) = hdr_len d"
  by (simp add: hdr_len_def)

lemma rd_blk [buf_simps]:
  "p + n \<le> length d \<Longrightarrow> rd (hdr_len d + p) n (blk q d) = (Inr (peek d p n), blk q d)"
  by (auto simp: rd_def blk_def peek_def hdr_len_def)

lemma rd_blk_begin [buf_simps]: "rd (hdr_len d) (length d) (blk q d) = (Inr d, blk q d)"
  using rd_blk [of 0 "length d" d q] by (simp add: peek_def)

lemma wr_blk [buf_simps]:
  "length e = length d \<Longrightarrow> p + length bs \<le> length d \<Longrightarrow>
    wr (hdr_len d + p) bs (blk q e) = (Inr (), blk q (poke e p bs))"
  by (auto simp: wr_def blk_def hdr_len_def poke_append_right)

lemma wr_blk_begin [buf_simps]:
  "length bs \<le> length d \<Longrightarrow> wr (hdr_len d) bs (blk q d) = (Inr (), blk q (poke d 0 bs))"
  using wr_blk [of d d 0 bs q] by simp

subsection \<open>The operations on a well-formed block\<close>

text \<open>
  Each operation on a block with cursor \<open>p\<close> inside its data \<open>d\<close>: the exception when too few bytes
  are left, and otherwise the bytes at the cursor and the moved cursor.
\<close>

lemmas bind_simps = bnd_def thn_def

lemma alloc_small: "n < 0x8000 \<Longrightarrow> buf_alloc u n = Inr (blk 0 (map (\<lambda>i. u (i + 4)) [0..<n]))"
proof -
  assume n: "n < 0x8000"
  have "drop 4 (new_chars u (n + 4)) = map (\<lambda>i. u (i + 4)) [0..<n]"
    by (simp add: new_chars_def drop_map map_add_upt [symmetric] comp_def)
  then show ?thesis
    using n by (simp add: buf_alloc_def init_s_block_def blk_def poke_def new_chars_def)
qed

lemma alloc_big:
  assumes "\<not> n < 0x8000" "n < 2 ^ 31"
  shows "buf_alloc u n = Inr (blk 0 (map (\<lambda>i. u (i + 8)) [0..<n]))"
proof -
  let ?m = "poke (poke (new_chars u (n + 8)) 0 (bytes_le 4 (int n))) 4 (bytes_le 4 0)"
  have d: "drop 8 (new_chars u (n + 8)) = map (\<lambda>i. u (i + 8)) [0..<n]"
    by (simp add: new_chars_def drop_map map_add_upt [symmetric] comp_def)
  have m: "?m = bytes_le 4 (int n) @ bytes_le 4 0 @ map (\<lambda>i. u (i + 8)) [0..<n]"
    using d by (simp add: poke_def new_chars_def)
  have w: "(word_le (peek ?m 0 4) :: u32) = word_of_nat n"
    by (simp add: m peek_def word_le_bytes_le_full)
  have "\<not> bit (word_of_int (int n) :: u32) 31"
    using assms by (intro bit31_word_of_int(1)) auto
  then have "word_of_nat n AND (2 ^ 31 :: u32) = 0"
    by (simp only: and_exp_eq_0_iff_not_bit of_int_of_nat_eq not_False_eq_True)
  then have "word_of_nat n OR (2 ^ 31 :: u32) = word_of_nat (n + 2 ^ 31)"
    by (simp add: disjunctive_add_eq_or [symmetric])
  then have "uint (word_of_nat n OR 0x80000000 :: u32) = int n + 2 ^ 31"
    using assms by (simp add: uint_word_of_nat_small del: of_nat_add)
  then have "init_b_block (new_chars u (n + 8)) n
      = bytes_le 4 (int n + 2 ^ 31) @ bytes_le 4 0 @ map (\<lambda>i. u (i + 8)) [0..<n]"
    using w m by (simp add: init_b_block_def Let_def poke_def [of "_ @ _"])
  then show ?thesis
    using assms by (simp add: buf_alloc_def blk_def)
qed

text \<open>What a successful allocation returns, whatever the memory held before.\<close>

lemma alloc_blk:
  assumes "n < 2 ^ 31"
  obtains d where "length d = n" and "buf_alloc u n = Inr (blk 0 d)"
proof (cases "n < 0x8000")
  case True
  show ?thesis
    by (rule that [OF _ alloc_small [OF True]]) simp
next
  case False
  show ?thesis
    by (rule that [OF _ alloc_big [OF False assms]]) simp
qed

lemma set_pos_blk [buf_simps]:
  "p \<le> length d \<Longrightarrow> length d < 2 ^ 31 \<Longrightarrow>
    buf_set_pos q (blk p d) = (Inr (), blk (min q (length d)) d)"
  by (simp add: buf_set_pos_def buf_simps min_def)

lemma get_int_blk [buf_simps]:
  "p \<le> length d \<Longrightarrow> length d < 2 ^ 31 \<Longrightarrow> get_int (blk p d) =
    (if length d - p < 4
     then (Inl (Overflow_Error ''insufficient buffer available for an int32 value''), blk p d)
     else (Inr (sint (word_le (peek d p 4) :: u32)), blk (p + 4) d))"
  by (simp add: get_int_def buf_simps bind_simps)

lemma get_ulong_blk [buf_simps]:
  "p \<le> length d \<Longrightarrow> length d < 2 ^ 31 \<Longrightarrow> get_ulong (blk p d) =
    (if length d - p < 8
     then (Inl (Overflow_Error ''insufficient buffer available for an ulong value''), blk p d)
     else (Inr (unat (word_le (peek d p 8) :: u64)), blk (p + 8) d))"
  by (simp add: get_ulong_def buf_simps bind_simps)

lemma get_byte_blk [buf_simps]:
  "p \<le> length d \<Longrightarrow> length d < 2 ^ 31 \<Longrightarrow> get_byte (blk p d) =
    (if length d - p < 1
     then (Inl (Overflow_Error ''insufficient buffer available for a byte''), blk p d)
     else (Inr (d ! p), blk (p + 1) d))"
  by (simp add: get_byte_def buf_simps bind_simps peek_def hd_drop_conv_nth take_Suc)

lemma get_raw_blk [buf_simps]:
  "p \<le> length d \<Longrightarrow> length d < 2 ^ 31 \<Longrightarrow> get_raw n (blk p d) =
    (if length d - p < n
     then (Inl (Overflow_Error ''insufficient buffer available for a raw byte array''), blk p d)
     else (Inr (peek d p n), blk (p + n) d))"
  by (simp add: get_raw_def buf_simps bind_simps)

lemma put_byte_blk [buf_simps]:
  "p \<le> length d \<Longrightarrow> length d < 2 ^ 31 \<Longrightarrow> put_byte b (blk p d) =
    (if length d - p < 1
     then (Inl (Overflow_Error ''insufficient buffer to store byte''), blk p d)
     else (Inr (), blk (p + 1) (poke d p [b])))"
  by (simp add: put_byte_def buf_simps bind_simps)

lemma put_raw_blk [buf_simps]:
  "p \<le> length d \<Longrightarrow> length d < 2 ^ 31 \<Longrightarrow> put_raw bs (blk p d) =
    (if length d - p < length bs
     then (Inl (Overflow_Error ''insufficient buffer to store a raw byte array''), blk p d)
     else (Inr (), blk (p + length bs) (poke d p bs)))"
  by (simp add: put_raw_def buf_simps bind_simps)

lemma put_int_blk [buf_simps]:
  "p \<le> length d \<Longrightarrow> length d < 2 ^ 31 \<Longrightarrow> put_int v (blk p d) =
    (if length d - p < 4
     then (Inl (Overflow_Error ''insufficient buffer to store int32''), blk p d)
     else (Inr (), blk (p + 4) (poke d p (bytes_le 4 v))))"
  by (simp add: put_int_def buf_simps bind_simps)

lemma put_ulong_blk [buf_simps]:
  "p \<le> length d \<Longrightarrow> length d < 2 ^ 31 \<Longrightarrow> put_ulong v (blk p d) =
    (if length d - p < 8
     then (Inl (Overflow_Error ''insufficient buffer to store unsigned long''), blk p d)
     else (Inr (), blk (p + 8) (poke d p (bytes_le 8 (int v)))))"
  by (simp add: put_ulong_def buf_simps bind_simps)

lemma put_bytes_blk [buf_simps]:
  "p \<le> length d \<Longrightarrow> length d < 2 ^ 31 \<Longrightarrow> put_bytes bs (blk p d) =
    (if length d - p < 4
     then (Inl (Overflow_Error ''insufficient buffer to store int32 length''), blk p d)
     else if length d - p < 4 + length bs
     then (Inl (Overflow_Error ''insufficient buffer to store a raw byte array''),
           blk (p + 4) (poke d p (bytes_le 4 (int (length bs)))))
     else (Inr (), blk (p + 4 + length bs) (poke d p (bytes_le 4 (int (length bs)) @ bs))))"
  using poke_poke_next [of p "bytes_le 4 (int (length bs))" bs d]
  by (auto simp: put_bytes_def buf_simps bind_simps)

lemma put_str_blk [buf_simps]:
  "p \<le> length d \<Longrightarrow> length d < 2 ^ 31 \<Longrightarrow> put_str str (blk p d) =
    (if length d - p < length str + 1
     then (Inl (Overflow_Error ''insufficient buffer to store a string''), blk p d)
     else (Inr (), blk (p + (length str + 1)) (poke d p (str @ [0]))))"
  using poke_poke_next [of p str "[0]" d]
  by (auto simp: put_str_def buf_simps bind_simps add.assoc)

lemma put_buf_blk [buf_simps]:
  "p \<le> length d \<Longrightarrow> length d < 2 ^ 31 \<Longrightarrow> q \<le> length e \<Longrightarrow> length e < 2 ^ 31 \<Longrightarrow>
    put_buf (blk q e) (blk p d) =
    (if length d - p < length e - q
     then (Inl (Overflow_Error ''insufficient buffer to hold the other buffer''), blk p d)
     else (Inr (), blk (p + (length e - q)) (poke d p (drop q e))))"
  by (simp add: put_buf_def buf_simps bind_simps peek_def)

lemma get_bytes_blk [buf_simps]:
  "p \<le> length d \<Longrightarrow> length d < 2 ^ 31 \<Longrightarrow> get_bytes (blk p d) =
    (if length d - p < 4
     then (Inl (Overflow_Error ''insufficient buffer available for a bytes length (int32)''), blk p d)
     else let len = nat (sint (word_le (peek d p 4) :: u32) mod 2 ^ 64) in
       if length d - (p + 4) < len
       then (Inl (Overflow_Error ''insufficient buffer available for a byte array''), blk (p + 4) d)
       else (Inr (peek d (p + 4) len), blk (p + 4 + len) d))"
  by (simp add: get_bytes_def buf_simps bind_simps Let_def)

lemma scan_str_le: "scan_str bs \<le> length bs"
  by (induction bs) auto

lemma get_str_blk [buf_simps]:
  "p \<le> length d \<Longrightarrow> length d < 2 ^ 31 \<Longrightarrow> pos_fits (Suc p) d \<Longrightarrow> get_str (blk p d) =
    (let i = scan_str (drop p d) in
     if i = 0 then (Inr None, blk (Suc p) d)
     else if p + i \<ge> length d then (Inr None, blk p d)
     else (Inr (Some (take i (drop p d))), blk (p + i + 1) d))"
  using scan_str_le [of "drop p d"]
  by (auto simp: get_str_def buf_simps bind_simps Let_def peek_def)

lemma get_str_inside:
  "p < length d \<Longrightarrow> length d < 2 ^ 31 \<Longrightarrow> pos_fits (Suc p) d"
  by (auto simp: pos_fits_def)

lemma buf_get_blk [buf_simps]:
  "p \<le> length d \<Longrightarrow> length d < 2 ^ 31 \<Longrightarrow> q \<le> length e \<Longrightarrow> length e < 2 ^ 31 \<Longrightarrow>
    p + (length e - q) \<le> length d \<Longrightarrow>
    buf_get (blk q e) (blk p d)
      = (Inr (blk q (poke e q (peek d p (length e - q)))), blk (p + (length e - q)) d)"
  by (simp add: buf_get_def buf_simps bind_simps Let_def)

lemma memcpy_begin_blk [buf_simps]:
  "p \<le> length d \<Longrightarrow> length d < 2 ^ 31 \<Longrightarrow> q \<le> length e \<Longrightarrow> length e < 2 ^ 31 \<Longrightarrow>
    length e \<le> length d \<Longrightarrow> memcpy_begin (blk q e) (blk p d) = (Inr (), blk p (poke d 0 e))"
  by (simp add: memcpy_begin_def buf_simps bind_simps)

lemma wf_blockI [intro]: "p \<le> length d \<Longrightarrow> length d < 2 ^ 31 \<Longrightarrow> wf_block (blk p d)"
  by (auto simp: wf_block_def)

lemma wf_blockE:
  assumes "wf_block m"
  obtains p d where "m = blk p d" and "p \<le> length d" and "length d < 2 ^ 31"
  using assms by (auto simp: wf_block_def)

subsection \<open>Clients of a buffer\<close>

text \<open>The calls a client can make on a buffer, \<^verbatim>\<open>get_str\<close> and \<^verbatim>\<open>get\<close> apart.\<close>

datatype buf_call =
    Get_Int | Get_Ulong | Get_Byte | Get_Bytes | Get_Raw nat | Set_Pos nat
  | Put_Byte u8 | Put_Raw "u8 list" | Put_Bytes "u8 list" | Put_Int int | Put_Ulong nat
  | Put_Str "u8 list" | Put_Buf block

fun run_call :: "buf_call \<Rightarrow> (block, unit) cmd" where
  "run_call Get_Int = thn get_int (ret ())"
| "run_call Get_Ulong = thn get_ulong (ret ())"
| "run_call Get_Byte = thn get_byte (ret ())"
| "run_call Get_Bytes = thn get_bytes (ret ())"
| "run_call (Get_Raw n) = thn (get_raw n) (ret ())"
| "run_call (Set_Pos p) = buf_set_pos p"
| "run_call (Put_Byte b) = put_byte b"
| "run_call (Put_Raw bs) = put_raw bs"
| "run_call (Put_Bytes bs) = put_bytes bs"
| "run_call (Put_Int v) = put_int v"
| "run_call (Put_Ulong v) = put_ulong v"
| "run_call (Put_Str s) = put_str s"
| "run_call (Put_Buf b) = put_buf b"

fun call_ok :: "buf_call \<Rightarrow> bool" where
  "call_ok (Put_Buf b) = wf_block b"
| "call_ok _ = True"

text \<open>A client that catches each exception and goes on with its next call.\<close>

fun run_calls :: "buf_call list \<Rightarrow> block \<Rightarrow> cpp_error list \<times> block" where
  "run_calls [] m = ([], m)"
| "run_calls (c # cs) m =
     (case run_call c m of
        (Inl e, m') \<Rightarrow> (let (es, m'') = run_calls cs m' in (e # es, m''))
      | (Inr _, m') \<Rightarrow> run_calls cs m')"

definition is_overflow :: "cpp_error \<Rightarrow> bool" where
  "is_overflow e \<longleftrightarrow> (\<exists>msg. e = Overflow_Error msg)"

lemma run_call_safe:
  assumes "wf_block m" and "call_ok c"
  shows "wf_block (snd (run_call c m)) \<and> (\<forall>e. fst (run_call c m) = Inl e \<longrightarrow> is_overflow e)"
proof -
  obtain p d where m: "m = blk p d" "p \<le> length d" "length d < 2 ^ 31"
    using assms(1) by (rule wf_blockE)
  show ?thesis
  proof (cases c)
    case (Put_Buf b)
    with assms(2) obtain q e where "b = blk q e" "q \<le> length e" "length e < 2 ^ 31"
      by (auto elim: wf_blockE)
    with Put_Buf m show ?thesis
      by (auto simp: buf_simps is_overflow_def)
  qed (use m in \<open>auto simp: buf_simps bind_simps is_overflow_def Let_def\<close>)
qed

text \<open>
  C12. Memory safety of the buffer: starting from a well-formed buffer, no sequence of calls to
  the checked readers and writers, with any arguments, reads or writes outside the allocation;
  the only errors are the \<^verbatim>\<open>overflow_error\<close> exceptions, and the buffer is well-formed at the end
  (header and data length agree, cursor within the data).
\<close>

theorem buffer_calls_safe:
  assumes "wf_block m" and "list_all call_ok cs"
  shows "wf_block (snd (run_calls cs m)) \<and> list_all is_overflow (fst (run_calls cs m))"
  using assms
proof (induction cs arbitrary: m)
  case Nil
  then show ?case by simp
next
  case (Cons c cs)
  obtain r m' where r: "run_call c m = (r, m')" by fastforce
  with Cons.prems run_call_safe [of m c] have "wf_block m'" "\<forall>e. r = Inl e \<longrightarrow> is_overflow e"
    by auto
  with Cons.IH [of m'] Cons.prems r show ?case
    by (auto split: sum.splits prod.splits)
qed

theorem buffer_calls_safe_witness:
  "wf_block (blk 0 [1, 2, 3, 4, 5]) \<and>
   wf_block (snd (run_calls [Put_Int 7, Get_Int, Set_Pos 9, Get_Byte] (blk 0 [1, 2, 3, 4, 5]))) \<and>
   list_all is_overflow (fst (run_calls [Put_Int 7, Get_Int, Set_Pos 9, Get_Byte] (blk 0 [1, 2, 3, 4, 5])))"
proof -
  have wf: "wf_block (blk 0 [1, 2, 3, 4, 5])"
    by (rule wf_blockI) simp_all
  have ok: "list_all call_ok [Put_Int 7, Get_Int, Set_Pos 9, Get_Byte]"
    by simp
  show ?thesis
    using wf buffer_calls_safe [OF wf ok] by simp
qed

lemma buf_clone_blk:
  assumes "p \<le> length d" and "length d < 2 ^ 31"
  shows "buf_clone u (blk p d) = Inr (blk 0 d)"
proof -
  obtain e where "length e = length d" "buf_alloc u (length d) = Inr (blk 0 e)"
    using assms(2) by (rule alloc_blk)
  then show ?thesis
    using assms by (simp add: buf_clone_def buf_simps run_on_def bind_simps poke_0_full)
qed

lemma buf_copy_blk:
  assumes "p \<le> length d" and "length d < 2 ^ 31"
  shows "buf_copy u (blk p d) = Inr (blk 0 (drop p d))"
proof -
  have "length d - p < 2 ^ 31"
    using assms(2) by simp
  then obtain f where "length f = length d - p" "buf_alloc u (length d - p) = Inr (blk 0 f)"
    by (rule alloc_blk)
  then show ?thesis
    using assms by (simp add: buf_copy_def buf_simps run_on_def bind_simps poke_0_full)
qed

text \<open>
  \<^verbatim>\<open>buffer::clone\<close> returns a well-formed buffer with the whole data of the original and the
  cursor at its start, \<^verbatim>\<open>buffer::copy\<close> one with the data from the original's cursor on, and
  \<^verbatim>\<open>buffer::expand\<close> one of the new size that starts with the original's data and keeps its cursor;
  none of the three leaves an uninitialised byte inside the copied range.
\<close>

lemma buffer_copies:
  assumes "p \<le> length d" and "length d < 2 ^ 31"
  shows "buf_clone u (blk p d) = Inr (blk 0 d) \<and>
    buf_copy u (blk p d) = Inr (blk 0 (drop p d)) \<and>
    (length d \<le> n \<and> n < 2 ^ 31 \<longrightarrow>
      (\<exists>rest. length rest = n - length d \<and> buf_expand u (blk p d) n = Inr (blk p (d @ rest))))"
proof (intro conjI impI)
  show "buf_clone u (blk p d) = Inr (blk 0 d)" and "buf_copy u (blk p d) = Inr (blk 0 (drop p d))"
    using assms by (simp_all add: buf_clone_blk buf_copy_blk)
  assume n: "length d \<le> n \<and> n < 2 ^ 31"
  then have "n < 2 ^ 31" by simp
  then obtain g where g: "length g = n" "buf_alloc u n = Inr (blk 0 g)"
    by (rule alloc_blk)
  then have "buf_expand u (blk p d) n = Inr (blk p (d @ drop (length d) g))"
    using assms n by (simp add: buf_expand_def buf_simps run_on_def bind_simps poke_def)
  then show "\<exists>rest. length rest = n - length d \<and> buf_expand u (blk p d) n = Inr (blk p (d @ rest))"
    using g(1) by (intro exI [where x = "drop (length d) g"]) simp
qed

subsection \<open>Where the buffer does not keep its promise\<close>

lemma scan_str_unterminated: "0 \<notin> set d \<Longrightarrow> scan_str d = length d"
  by (induction d) auto

lemma get_int_past_end:
  assumes "pos_fits (Suc (length d)) d"
  shows "get_int (blk (Suc (length d)) d) = (Inl Bad_Access, blk (Suc (length d)) d)"
  using assms
  by (simp add: get_int_def buf_simps sub64_def bind_simps rd_def length_blk hdr_len_def)



text \<open>
  C39. \<^verbatim>\<open>container_size()\<close> is documented as the size of the whole container with its meta section. It
  is that for a small block; for a big block it leaves out the eight header bytes.
\<close>

theorem container_size_big_block:
  assumes "p \<le> length d" and "length d < 2 ^ 31"
  shows "container_size (blk p d) =
    (if length d < 0x8000 then length (blk p d) else length (blk p d) - 8)"
proof (cases "length d < 0x8000")
  case True
  then show ?thesis
    using assms size_of_blk [of p d]
    by (simp add: container_size_def is_big_blk length_blk hdr_len_def buf_size_def size_of_block_def)
next
  case False
  then show ?thesis
    using assms size_of_blk [of p d]
    by (simp add: container_size_def is_big_blk length_blk hdr_len_def buf_size_def size_of_block_def)
qed

theorem container_size_big_block_witness:
  "container_size (blk 0 (replicate 0x8000 0)) = length (blk 0 (replicate 0x8000 0)) - 8"
  using container_size_big_block [of 0 "replicate 0x8000 0"] by simp

end
