(* ===== verification/Raft_Buffer_Codec.thy ===== *)
theory Raft_Buffer_Codec
  imports Raft_Buffer
begin

text \<open>
  Writing and reading back through a cursor. \<open>mk p d\<close> is a state with cursor \<open>p\<close> in the data \<open>d\<close>
  (\<open>blk\<close> for a \<^verbatim>\<open>buffer\<close>; a \<^verbatim>\<open>buffer_serializer\<close> has its own). \<open>emits mk c bs\<close> says that the command
  \<open>c\<close> stores the bytes \<open>bs\<close> at the cursor and moves it behind them; \<open>parses mk c bs x\<close> says
  that \<open>c\<close>, with \<open>bs\<close> at the cursor, returns \<open>x\<close> and moves the cursor behind them. The locale
  \<open>buf_codec\<close> is the contract between a writer and a reader of one kind of value; every pair of
  the two classes is an instance of it.
\<close>

definition emits :: "(nat \<Rightarrow> u8 list \<Rightarrow> 's) \<Rightarrow> ('s, unit) cmd \<Rightarrow> u8 list \<Rightarrow> bool" where
  "emits mk c bs \<longleftrightarrow> (\<forall>w r. length bs \<le> length r \<longrightarrow> length w + length r < 2 ^ 31 \<longrightarrow>
     c (mk (length w) (w @ r)) = (Inr (), mk (length (w @ bs)) (w @ bs @ drop (length bs) r)))"

definition parses :: "(nat \<Rightarrow> u8 list \<Rightarrow> 's) \<Rightarrow> ('s, 'a) cmd \<Rightarrow> u8 list \<Rightarrow> 'a \<Rightarrow> bool" where
  "parses mk c bs x \<longleftrightarrow> (\<forall>w r. length (w @ bs @ r) < 2 ^ 31 \<longrightarrow>
     c (mk (length w) (w @ bs @ r)) = (Inr x, mk (length (w @ bs)) (w @ bs @ r)))"

lemma parsesD:
  "parses mk c bs x \<Longrightarrow> length w + length bs + length r < 2 ^ 31 \<Longrightarrow>
    c (mk (length w) (w @ bs @ r)) = (Inr x, mk (length (w @ bs)) (w @ bs @ r))"
  by (simp add: parses_def)

lemma emits_ret: "emits mk (ret ()) []"
  by (simp add: emits_def)

lemma emits_thn:
  assumes "emits mk c bs" and "emits mk k cs"
  shows "emits mk (thn c k) (bs @ cs)"
  unfolding emits_def
proof (intro allI impI)
  fix w r :: "u8 list"
  assume len: "length (bs @ cs) \<le> length r" "length w + length r < 2 ^ 31"
  have "c (mk (length w) (w @ r)) = (Inr (), mk (length (w @ bs)) ((w @ bs) @ drop (length bs) r))"
    using assms(1) len by (simp add: emits_def)
  moreover have "k (mk (length (w @ bs)) ((w @ bs) @ drop (length bs) r)) =
      (Inr (), mk (length ((w @ bs) @ cs)) ((w @ bs) @ cs @ drop (length cs) (drop (length bs) r)))"
    using assms(2) len unfolding emits_def
    by (elim allE [where x = "w @ bs"] allE [where x = "drop (length bs) r"]) simp
  ultimately show "thn c k (mk (length w) (w @ r)) =
      (Inr (), mk (length (w @ bs @ cs)) (w @ (bs @ cs) @ drop (length (bs @ cs)) r))"
    by (simp add: thn_Inr add.commute)
qed

lemma emits_for_each: "(\<And>x. x \<in> set xs \<Longrightarrow> emits mk (f x) (g x)) \<Longrightarrow> emits mk (for_each xs f) (concat (map g xs))"
  by (induction xs) (auto intro: emits_ret emits_thn)

lemma parses_ret: "parses mk (ret x) [] x"
  by (simp add: parses_def)

lemma parses_bnd:
  assumes "parses mk c bs x" and "parses mk (f x) cs y"
  shows "parses mk (bnd c f) (bs @ cs) y"
  unfolding parses_def
proof (intro allI impI)
  fix w r :: "u8 list"
  assume len: "length (w @ (bs @ cs) @ r) < 2 ^ 31"
  have "c (mk (length w) (w @ bs @ cs @ r)) = (Inr x, mk (length (w @ bs)) (w @ bs @ cs @ r))"
    using assms(1) len by (simp add: parses_def)
  moreover have "f x (mk (length (w @ bs)) ((w @ bs) @ cs @ r)) =
      (Inr y, mk (length ((w @ bs) @ cs)) ((w @ bs) @ cs @ r))"
    using assms(2) len by (intro parsesD) simp_all
  ultimately show "bnd c f (mk (length w) (w @ (bs @ cs) @ r)) =
      (Inr y, mk (length (w @ bs @ cs)) (w @ (bs @ cs) @ r))"
    by (simp add: bnd_Inr)
qed

lemma parses_thn: "parses mk c bs x \<Longrightarrow> parses mk k cs y \<Longrightarrow> parses mk (thn c k) (bs @ cs) y"
  unfolding thn_def by (rule parses_bnd)

lemma parses_bnd_ret: "parses mk c bs x \<Longrightarrow> parses mk (bnd c (\<lambda>x. ret (f x))) bs (f x)"
proof -
  assume "parses mk c bs x"
  then have "parses mk (bnd c (\<lambda>x. ret (f x))) (bs @ []) (f x)"
    by (rule parses_bnd) (rule parses_ret)
  then show ?thesis by simp
qed

lemma emitsD:
  "emits mk c bs \<Longrightarrow> length bs \<le> length r \<Longrightarrow> length r < 2 ^ 31 \<Longrightarrow>
    c (mk 0 r) = (Inr (), mk (length bs) (bs @ drop (length bs) r))"
  unfolding emits_def by (elim allE [where x = "[]"] allE [where x = r]) simp

text \<open>A serialiser: allocate as many bytes as will be put, put them, rewind.\<close>

lemma alloc_emits:
  assumes "emits blk c bs" and "length bs = n" and "n < 2 ^ 31"
  shows "run_on (buf_alloc u n) (thn c (buf_set_pos 0)) = Inr (blk 0 bs)"
proof -
  obtain r where r: "length r = n" "buf_alloc u n = Inr (blk 0 r)"
    using assms(3) by (rule alloc_blk)
  with emitsD [OF assms(1), of r] assms(2,3) have "c (blk 0 r) = (Inr (), blk n bs)"
    by simp
  with r assms(2,3) show ?thesis
    by (simp add: run_on_def bind_simps buf_simps)
qed

subsection \<open>The contract of a writer and its reader\<close>

locale buf_reader =
  fixes mk :: "nat \<Rightarrow> u8 list \<Rightarrow> 's"
    and enc :: "'a \<Rightarrow> u8 list"
    and get :: "('s, 'a) cmd"
    and ok :: "'a \<Rightarrow> bool"
  assumes get_parses: "ok x \<Longrightarrow> parses mk get (enc x) x"
begin

lemma gets_parse: "list_all ok xs \<Longrightarrow> parses mk (repeat_get (length xs) get) (concat (map enc xs)) xs"
proof (induction xs)
  case Nil
  show ?case by (simp only: list.map list.size repeat_get.simps concat.simps parses_ret)
next
  case (Cons x xs)
  have "parses mk (bnd (repeat_get (length xs) get) (\<lambda>xs. ret (x # xs)))
      (concat (map enc xs) @ []) (x # xs)"
    by (rule parses_bnd [OF Cons.IH parses_ret]) (use Cons.prems in simp)
  moreover have "parses mk get (enc x) x"
    using Cons.prems by (simp add: get_parses)
  ultimately have "parses mk (bnd get (\<lambda>x. bnd (repeat_get (length xs) get) (\<lambda>xs. ret (x # xs))))
      (enc x @ concat (map enc xs) @ []) (x # xs)"
    by (rule parses_bnd [rotated])
  then show ?case by simp
qed

end

locale buf_codec = buf_reader mk enc get ok
  for mk :: "nat \<Rightarrow> u8 list \<Rightarrow> 's"
    and enc :: "'a \<Rightarrow> u8 list"
    and put :: "'a \<Rightarrow> ('s, unit) cmd"
    and get :: "('s, 'a) cmd"
    and ok :: "'a \<Rightarrow> bool" +
  assumes put_emits: "ok x \<Longrightarrow> emits mk (put x) (enc x)"
begin

lemma puts_emit: "list_all ok xs \<Longrightarrow> emits mk (for_each xs put) (concat (map enc xs))"
  by (rule emits_for_each) (auto simp: list_all_iff intro: put_emits)

lemma put_get_at_cursor:
  assumes "ok x" and "p + length (enc x) \<le> length d" and "length d < 2 ^ 31"
  shows "\<exists>e. put x (mk p d) = (Inr (), mk (p + length (enc x)) e) \<and> length e = length d \<and>
    get (mk p e) = (Inr x, mk (p + length (enc x)) e)"
proof -
  let ?w = "take p d" and ?r = "drop p d"
  have w: "length ?w = p" "?w @ ?r = d"
    using assms(2) by simp_all
  have "put x (mk (length ?w) (?w @ ?r)) =
      (Inr (), mk (length (?w @ enc x)) (?w @ enc x @ drop (length (enc x)) ?r))"
    using put_emits [OF assms(1)] assms(2,3) unfolding emits_def
    by (elim allE [where x = ?w] allE [where x = ?r]) simp
  moreover have "get (mk (length ?w) (?w @ enc x @ drop (length (enc x)) ?r)) =
      (Inr x, mk (length (?w @ enc x)) (?w @ enc x @ drop (length (enc x)) ?r))"
    using get_parses [OF assms(1)] assms(2,3) by (intro parsesD) simp_all
  ultimately show ?thesis
    using w assms(2) by (intro exI [where x = "?w @ enc x @ drop (length (enc x)) ?r"]) simp
qed

end

subsection \<open>The writers and readers of the class\<close>

lemma poke_prefix:
  "length bs \<le> length r \<Longrightarrow> poke (w @ r) (length w) bs = w @ bs @ drop (length bs) r"
  by (simp add: poke_def)

lemma peek_prefix: "peek (w @ bs @ r) (length w) (length bs) = bs"
  by (simp add: peek_def)

lemma emits_put_byte: "emits blk (put_byte b) [b]"
  by (auto simp: emits_def buf_simps poke_prefix)

lemma emits_put_int: "emits blk (put_int v) (bytes_le 4 v)"
  by (auto simp: emits_def buf_simps poke_prefix)

lemma emits_put_ulong: "emits blk (put_ulong v) (bytes_le 8 (int v))"
  by (auto simp: emits_def buf_simps poke_prefix)

lemma emits_put_raw: "emits blk (put_raw bs) bs"
  by (auto simp: emits_def buf_simps poke_prefix)

lemma emits_put_bytes: "emits blk (put_bytes bs) (bytes_le 4 (int (length bs)) @ bs)"
  by (auto simp: emits_def buf_simps poke_prefix add.assoc)

lemma emits_put_str: "emits blk (put_str s) (s @ [0])"
  by (auto simp: emits_def buf_simps poke_prefix)

lemma emits_put_buf: "q \<le> length e \<Longrightarrow> length e < 2 ^ 31 \<Longrightarrow> emits blk (put_buf (blk q e)) (drop q e)"
  by (auto simp: emits_def buf_simps poke_prefix)

lemma parses_get_byte: "parses blk get_byte [b] b"
  by (auto simp: parses_def buf_simps nth_append)

lemma sint_word_le: "- (2 ^ 31) \<le> v \<Longrightarrow> v < 2 ^ 31 \<Longrightarrow> sint (word_le (bytes_le 4 v) :: u32) = v"
  by (simp add: word_le_bytes_le_full sint_sbintrunc' signed_of_int signed_take_bit_int_eq_self)

lemma unat_word_le: "v < 2 ^ 64 \<Longrightarrow> unat (word_le (bytes_le 8 (int v)) :: u64) = v"
  by (simp add: word_le_bytes_le_full unsigned_of_nat take_bit_nat_eq_self)

lemma parses_get_int:
  assumes "- (2 ^ 31) \<le> v" and "v < 2 ^ 31"
  shows "parses blk get_int (bytes_le 4 v) v"
  unfolding parses_def
proof (intro allI impI)
  fix w r :: "u8 list"
  assume len: "length (w @ bytes_le 4 v @ r) < 2 ^ 31"
  have "peek (w @ bytes_le 4 v @ r) (length w) 4 = bytes_le 4 v"
    using peek_prefix [of w "bytes_le 4 v" r] by simp
  then show "get_int (blk (length w) (w @ bytes_le 4 v @ r)) =
      (Inr v, blk (length (w @ bytes_le 4 v)) (w @ bytes_le 4 v @ r))"
    using len assms sint_word_le [of v] by (simp add: buf_simps)
qed

lemma parses_get_ulong:
  assumes "v < 2 ^ 64"
  shows "parses blk get_ulong (bytes_le 8 (int v)) v"
  unfolding parses_def
proof (intro allI impI)
  fix w r :: "u8 list"
  assume len: "length (w @ bytes_le 8 (int v) @ r) < 2 ^ 31"
  have "peek (w @ bytes_le 8 (int v) @ r) (length w) 8 = bytes_le 8 (int v)"
    using peek_prefix [of w "bytes_le 8 (int v)" r] by simp
  then show "get_ulong (blk (length w) (w @ bytes_le 8 (int v) @ r)) =
      (Inr v, blk (length (w @ bytes_le 8 (int v))) (w @ bytes_le 8 (int v) @ r))"
    using len assms unat_word_le [of v] by (simp add: buf_simps)
qed

lemma parses_get_raw: "parses blk (get_raw (length bs)) bs bs"
  by (auto simp: parses_def buf_simps peek_prefix)

lemma parses_get_bytes:
  assumes "length bs < 2 ^ 31"
  shows "parses blk get_bytes (bytes_le 4 (int (length bs)) @ bs) bs"
  unfolding parses_def
proof (intro allI impI)
  fix w r :: "u8 list"
  let ?l = "bytes_le 4 (int (length bs))"
  assume len: "length (w @ (?l @ bs) @ r) < 2 ^ 31"
  have 1: "peek (w @ ?l @ bs @ r) (length w) 4 = ?l"
    using peek_prefix [of w ?l "bs @ r"] by simp
  have 2: "peek (w @ ?l @ bs @ r) (length w + 4) (length bs) = bs"
    using peek_prefix [of "w @ ?l" bs r] by simp
  have "sint (word_le ?l :: u32) = int (length bs)"
    using assms by (intro sint_word_le) simp_all
  then show "get_bytes (blk (length w) (w @ (?l @ bs) @ r)) =
      (Inr bs, blk (length (w @ ?l @ bs)) (w @ (?l @ bs) @ r))"
    using len 1 2 assms by (simp add: buf_simps Let_def nat_mod_as_int add.assoc)
qed

lemma scan_str_nul: "0 \<notin> set s \<Longrightarrow> scan_str (s @ 0 # r) = length s"
  by (induction s) auto

lemma parses_get_str:
  assumes "s \<noteq> []" and "0 \<notin> set s"
  shows "parses blk get_str (s @ [0]) (Some s)"
  unfolding parses_def
proof (intro allI impI)
  fix w r :: "u8 list"
  assume len: "length (w @ (s @ [0]) @ r) < 2 ^ 31"
  then have "pos_fits (Suc (length w)) (w @ s @ 0 # r)"
    by (intro get_str_inside) simp_all
  then show "get_str (blk (length w) (w @ (s @ [0]) @ r)) =
      (Inr (Some s), blk (length (w @ s @ [0])) (w @ (s @ [0]) @ r))"
    using len assms by (simp add: buf_simps scan_str_nul Let_def)
qed

interpretation int_codec: buf_codec blk "bytes_le 4" put_int get_int "\<lambda>v. - (2 ^ 31) \<le> v \<and> v < 2 ^ 31"
  by unfold_locales (auto intro: emits_put_int parses_get_int)

interpretation ulong_codec: buf_codec blk "\<lambda>v. bytes_le 8 (int v)" put_ulong get_ulong "\<lambda>v. v < 2 ^ 64"
  by unfold_locales (auto intro: emits_put_ulong parses_get_ulong)

interpretation byte_codec: buf_codec blk "\<lambda>b. [b]" put_byte get_byte "\<lambda>_. True"
  by unfold_locales (auto intro: emits_put_byte parses_get_byte)

interpretation bytes_codec: buf_codec blk "\<lambda>bs. bytes_le 4 (int (length bs)) @ bs" put_bytes get_bytes
  "\<lambda>bs. length bs < 2 ^ 31"
  by unfold_locales (auto intro: emits_put_bytes parses_get_bytes)

interpretation str_codec: buf_codec blk "\<lambda>s. the s @ [0]" "\<lambda>s. put_str (the s)" get_str
  "\<lambda>s. \<exists>t. s = Some t \<and> t \<noteq> [] \<and> 0 \<notin> set t"
  by unfold_locales (auto intro: emits_put_str parses_get_str)

subsection \<open>Sequences of values of different kinds\<close>

datatype buf_val = V_Int int | V_Ulong nat | V_Byte u8 | V_Bytes "u8 list" | V_Str "u8 list"

fun put_val :: "buf_val \<Rightarrow> (block, unit) cmd" where
  "put_val (V_Int v) = put_int v"
| "put_val (V_Ulong v) = put_ulong v"
| "put_val (V_Byte b) = put_byte b"
| "put_val (V_Bytes bs) = put_bytes bs"
| "put_val (V_Str s) = put_str s"

text \<open>The reader for the kind of the given value.\<close>

fun get_like :: "buf_val \<Rightarrow> (block, buf_val) cmd" where
  "get_like (V_Int _) = bnd get_int (\<lambda>v. ret (V_Int v))"
| "get_like (V_Ulong _) = bnd get_ulong (\<lambda>v. ret (V_Ulong v))"
| "get_like (V_Byte _) = bnd get_byte (\<lambda>b. ret (V_Byte b))"
| "get_like (V_Bytes _) = bnd get_bytes (\<lambda>bs. ret (V_Bytes bs))"
| "get_like (V_Str _) = bnd get_str (\<lambda>r. ret (V_Str (case r of None \<Rightarrow> [] | Some s \<Rightarrow> s)))"

fun get_likes :: "buf_val list \<Rightarrow> (block, buf_val list) cmd" where
  "get_likes [] = ret []"
| "get_likes (v # vs) = bnd (get_like v) (\<lambda>x. bnd (get_likes vs) (\<lambda>xs. ret (x # xs)))"

fun enc_val :: "buf_val \<Rightarrow> u8 list" where
  "enc_val (V_Int v) = bytes_le 4 v"
| "enc_val (V_Ulong v) = bytes_le 8 (int v)"
| "enc_val (V_Byte b) = [b]"
| "enc_val (V_Bytes bs) = bytes_le 4 (int (length bs)) @ bs"
| "enc_val (V_Str s) = s @ [0]"

fun val_ok :: "buf_val \<Rightarrow> bool" where
  "val_ok (V_Int v) = (- (2 ^ 31) \<le> v \<and> v < 2 ^ 31)"
| "val_ok (V_Ulong v) = (v < 2 ^ 64)"
| "val_ok (V_Byte b) = True"
| "val_ok (V_Bytes bs) = (length bs < 2 ^ 31)"
| "val_ok (V_Str s) = (0 \<notin> set s)"

lemma emits_put_val: "emits blk (put_val v) (enc_val v)"
  by (cases v) (simp_all add: emits_put_int emits_put_ulong emits_put_byte emits_put_bytes emits_put_str)

lemma parses_get_str_case:
  assumes "0 \<notin> set s"
  shows "parses blk (bnd get_str (\<lambda>r. ret (V_Str (case r of None \<Rightarrow> [] | Some s \<Rightarrow> s)))) (s @ [0]) (V_Str s)"
proof (cases "s = []")
  case True
  have "parses blk get_str [0] None"
    unfolding parses_def
    by (intro allI impI) (simp add: buf_simps get_str_inside Let_def)
  then have "parses blk (bnd get_str (\<lambda>r. ret (V_Str (case r of None \<Rightarrow> [] | Some s \<Rightarrow> s)))) [0]
      (V_Str (case None of None \<Rightarrow> [] | Some s \<Rightarrow> s))"
    by (rule parses_bnd_ret)
  with True show ?thesis by simp
next
  case False
  have "parses blk (bnd get_str (\<lambda>r. ret (V_Str (case r of None \<Rightarrow> [] | Some s \<Rightarrow> s)))) (s @ [0])
      (V_Str (case Some s of None \<Rightarrow> [] | Some s \<Rightarrow> s))"
    using False assms by (intro parses_bnd_ret parses_get_str)
  then show ?thesis by simp
qed

lemma parses_get_like: "val_ok v \<Longrightarrow> parses blk (get_like v) (enc_val v) v"
  by (cases v) (simp_all add: parses_bnd_ret parses_get_int parses_get_ulong parses_get_byte
      parses_get_bytes parses_get_str_case del: ret_simp)

lemma parses_get_likes:
  "list_all val_ok vs \<Longrightarrow> parses blk (get_likes vs) (concat (map enc_val vs)) vs"
proof (induction vs)
  case Nil
  show ?case by (simp add: parses_ret del: ret_simp)
next
  case (Cons v vs)
  then have "parses blk (bnd (get_likes vs) (\<lambda>xs. ret (v # xs))) (concat (map enc_val vs)) (v # vs)"
    by (intro parses_bnd_ret) simp
  moreover have "parses blk (get_like v) (enc_val v) v"
    using Cons.prems by (simp add: parses_get_like)
  ultimately show ?case
    by (simp add: parses_bnd [rotated])
qed



end
