(* ===== verification/Raft_Serializer.thy ===== *)
theory Raft_Serializer
  imports Raft_Buffer_Codec
begin

text \<open>
  The class \<^verbatim>\<open>buffer_serializer\<close> of \<^verbatim>\<open>xio/raft/buffer_serializer.h\<close> and
  \<^verbatim>\<open>xio/raft/buffer_serializer.cc\<close>: a cursor of its own over the data of a referenced buffer, in
  little- or big-endian byte order. The buffer's own cursor, in its header, is not touched.
\<close>

datatype endianness = LITTLE | BIG

record serializer =
  bs_endian :: endianness
  bs_buf :: block
  bs_pos :: nat

subsection \<open>The byte-order macros\<close>

definition byte_at :: "nat \<Rightarrow> int \<Rightarrow> u8" where
  "byte_at k val = word_of_int (drop_bit k val AND 0xff)"

definition put16l :: "int \<Rightarrow> u8 list" where
  "put16l val = [byte_at 0 val, byte_at 8 val]"

definition put16b :: "int \<Rightarrow> u8 list" where
  "put16b val = [byte_at 8 val, byte_at 0 val]"

definition put32l :: "int \<Rightarrow> u8 list" where
  "put32l val = [byte_at 0 val, byte_at 8 val, byte_at 16 val, byte_at 24 val]"

definition put32b :: "int \<Rightarrow> u8 list" where
  "put32b val = [byte_at 24 val, byte_at 16 val, byte_at 8 val, byte_at 0 val]"

definition put64l :: "int \<Rightarrow> u8 list" where
  "put64l val = [byte_at 0 val, byte_at 8 val, byte_at 16 val, byte_at 24 val,
                 byte_at 32 val, byte_at 40 val, byte_at 48 val, byte_at 56 val]"

definition put64b :: "int \<Rightarrow> u8 list" where
  "put64b val = [byte_at 56 val, byte_at 48 val, byte_at 40 val, byte_at 32 val,
                 byte_at 24 val, byte_at 16 val, byte_at 8 val, byte_at 0 val]"

text \<open>\<^verbatim>\<open>tmp <<= 8; tmp |= b\<close>\<close>

definition shift_in :: "'a::len word \<Rightarrow> u8 \<Rightarrow> 'a word" where
  "shift_in tmp b = push_bit 8 tmp OR ucast b"

definition get16l :: "u8 list \<Rightarrow> u16" where
  "get16l p = shift_in (ucast (p ! 1)) (p ! 0)"

definition get16b :: "u8 list \<Rightarrow> u16" where
  "get16b p = shift_in (ucast (p ! 0)) (p ! 1)"

definition get32l :: "u8 list \<Rightarrow> u32" where
  "get32l p = shift_in (shift_in (shift_in (ucast (p ! 3)) (p ! 2)) (p ! 1)) (p ! 0)"

definition get32b :: "u8 list \<Rightarrow> u32" where
  "get32b p = shift_in (shift_in (shift_in (ucast (p ! 0)) (p ! 1)) (p ! 2)) (p ! 3)"

definition get64l :: "u8 list \<Rightarrow> u64" where
  "get64l p = shift_in (shift_in (shift_in (shift_in (shift_in (shift_in (shift_in
     (ucast (p ! 7)) (p ! 6)) (p ! 5)) (p ! 4)) (p ! 3)) (p ! 2)) (p ! 1)) (p ! 0)"

definition get64b :: "u8 list \<Rightarrow> u64" where
  "get64b p = shift_in (shift_in (shift_in (shift_in (shift_in (shift_in (shift_in
     (ucast (p ! 0)) (p ! 1)) (p ! 2)) (p ! 3)) (p ! 4)) (p ! 5)) (p ! 6)) (p ! 7)"

subsection \<open>Construction and cursor\<close>

definition new_serializer :: "endianness \<Rightarrow> block \<Rightarrow> serializer" where
  "new_serializer e src = \<lparr>bs_endian = e, bs_buf = src, bs_pos = 0\<rparr>"

definition bs_size :: "serializer \<Rightarrow> nat" where
  "bs_size s = buf_size (bs_buf s)"

definition bs_set_pos :: "nat \<Rightarrow> (serializer, unit) cmd" where
  "bs_set_pos new_pos s =
     (if new_pos > buf_size (bs_buf s) then throw (Overflow_Error ''invalid position'') s
      else ret () (s\<lparr>bs_pos := new_pos\<rparr>))"

text \<open>\<^verbatim>\<open>data()\<close> as an offset into the block.\<close>

definition bs_data :: "serializer \<Rightarrow> nat" where
  "bs_data s = entire_data_of_block (bs_buf s) + bs_pos s"

definition is_valid :: "serializer \<Rightarrow> nat \<Rightarrow> bool" where
  "is_valid s len = (if add64 (bs_pos s) len > buf_size (bs_buf s) then False else True)"

text \<open>Access to the referenced buffer.\<close>

definition bs_wr :: "nat \<Rightarrow> u8 list \<Rightarrow> (serializer, unit) cmd" where
  "bs_wr ofs bs s = (let (r, m) = wr ofs bs (bs_buf s) in (r, s\<lparr>bs_buf := m\<rparr>))"

definition bs_rd :: "nat \<Rightarrow> nat \<Rightarrow> (serializer, u8 list) cmd" where
  "bs_rd ofs n s = (fst (rd ofs n (bs_buf s)), s)"

definition not_enough :: cpp_error where
  "not_enough = Overflow_Error ''not enough space''"

subsection \<open>Writers\<close>

text \<open>
  The common body of \<^verbatim>\<open>put_u8\<close> to \<^verbatim>\<open>put_i64\<close>: \<^verbatim>\<open>chk_length\<close>, store in the byte order of the
  serializer, move the cursor.
\<close>

definition put_fixed :: "u8 list \<Rightarrow> u8 list \<Rightarrow> (serializer, unit) cmd" where
  "put_fixed little big s =
     (if \<not> is_valid s (length little) then throw not_enough s
      else thn (bs_wr (bs_data s) (if bs_endian s = LITTLE then little else big))
             (\<lambda>s'. bs_set_pos (add64 (bs_pos s') (length little)) s') s)"

definition put_u8 :: "u8 \<Rightarrow> (serializer, unit) cmd" where
  "put_u8 val = put_fixed [val] [val]"

definition put_u16 :: "u16 \<Rightarrow> (serializer, unit) cmd" where
  "put_u16 val = put_fixed (put16l (uint val)) (put16b (uint val))"

definition put_u32 :: "u32 \<Rightarrow> (serializer, unit) cmd" where
  "put_u32 val = put_fixed (put32l (uint val)) (put32b (uint val))"

definition put_u64 :: "nat \<Rightarrow> (serializer, unit) cmd" where
  "put_u64 val = put_fixed (put64l (int val)) (put64b (int val))"

definition put_i8 :: "int \<Rightarrow> (serializer, unit) cmd" where
  "put_i8 val = put_fixed [word_of_int val] [word_of_int val]"

definition put_i16 :: "int \<Rightarrow> (serializer, unit) cmd" where
  "put_i16 val = put_fixed (put16l val) (put16b val)"

definition put_i32 :: "int \<Rightarrow> (serializer, unit) cmd" where
  "put_i32 val = put_fixed (put32l val) (put32b val)"

definition put_i64 :: "int \<Rightarrow> (serializer, unit) cmd" where
  "put_i64 val = put_fixed (put64l val) (put64b val)"

definition bs_put_raw :: "u8 list \<Rightarrow> (serializer, unit) cmd" where
  "bs_put_raw raw s =
     (if \<not> is_valid s (length raw) then throw not_enough s
      else thn (bs_wr (bs_data s) raw) (\<lambda>s'. bs_set_pos (add64 (bs_pos s') (length raw)) s') s)"

definition put_buffer :: "block \<Rightarrow> (serializer, unit) cmd" where
  "put_buffer buf =
     bnd (lift (fst (rd (data_of_block buf) (sub64 (buf_size buf) (buf_pos buf)) buf))) bs_put_raw"

definition bs_put_bytes :: "u8 list \<Rightarrow> (serializer, unit) cmd" where
  "bs_put_bytes raw s =
     (if \<not> is_valid s (length raw + 4) then throw not_enough s
      else thn (put_u32 (word_of_nat (length raw))) (bs_put_raw raw) s)"

definition bs_put_str :: "u8 list \<Rightarrow> (serializer, unit) cmd" where
  "bs_put_str str = bs_put_bytes str"

text \<open>
  The argument of \<^verbatim>\<open>put_cstr\<close> is a C string, given by the characters before its null. A throw in
  the middle leaves the characters written so far in the buffer and the cursor where it was.
\<close>

fun cstr_loop :: "u8 list \<Rightarrow> nat \<Rightarrow> (serializer, nat) cmd" where
  "cstr_loop [] local_pos = ret local_pos"
| "cstr_loop (c # str) local_pos =
     (\<lambda>s. if local_pos \<ge> buf_size (bs_buf s) then throw not_enough s
          else thn (bs_wr (entire_data_of_block (bs_buf s) + local_pos) [c])
                 (cstr_loop str (local_pos + 1)) s)"

definition put_cstr :: "u8 list \<Rightarrow> (serializer, unit) cmd" where
  "put_cstr str s =
     bnd (cstr_loop str (bs_pos s)) (\<lambda>local_pos s'.
       if local_pos \<ge> buf_size (bs_buf s') then throw not_enough s'
       else thn (bs_wr (entire_data_of_block (bs_buf s') + local_pos) [0])
              (bs_set_pos (local_pos + 1)) s') s"

subsection \<open>Readers\<close>

definition get_fixed :: "nat \<Rightarrow> (u8 list \<Rightarrow> 'a) \<Rightarrow> (u8 list \<Rightarrow> 'a) \<Rightarrow> (serializer, 'a) cmd" where
  "get_fixed n little big s =
     (if \<not> is_valid s n then throw not_enough s
      else bnd (bs_rd (bs_data s) n) (\<lambda>p.
           thn (\<lambda>s'. bs_set_pos (add64 (bs_pos s') n) s')
             (ret (if bs_endian s = LITTLE then little p else big p))) s)"

definition get_u8 :: "(serializer, u8) cmd" where
  "get_u8 = get_fixed 1 (\<lambda>p. p ! 0) (\<lambda>p. p ! 0)"

definition get_u16 :: "(serializer, u16) cmd" where
  "get_u16 = get_fixed 2 get16l get16b"

definition get_u32 :: "(serializer, u32) cmd" where
  "get_u32 = get_fixed 4 get32l get32b"

definition get_u64 :: "(serializer, nat) cmd" where
  "get_u64 = get_fixed 8 (\<lambda>p. unat (get64l p)) (\<lambda>p. unat (get64b p))"

definition get_i8 :: "(serializer, int) cmd" where
  "get_i8 = get_fixed 1 (\<lambda>p. sint (p ! 0)) (\<lambda>p. sint (p ! 0))"

definition get_i16 :: "(serializer, int) cmd" where
  "get_i16 = get_fixed 2 (\<lambda>p. sint (get16l p)) (\<lambda>p. sint (get16b p))"

definition get_i32 :: "(serializer, int) cmd" where
  "get_i32 = get_fixed 4 (\<lambda>p. sint (get32l p)) (\<lambda>p. sint (get32b p))"

definition get_i64 :: "(serializer, int) cmd" where
  "get_i64 = get_fixed 8 (\<lambda>p. sint (get64l p)) (\<lambda>p. sint (get64b p))"

text \<open>
  \<^verbatim>\<open>get_raw\<close> itself reads nothing: it returns a pointer after moving the cursor, which throws when
  the end lies behind the data. The bytes the pointer denotes are those at the old cursor.
\<close>

definition bs_get_raw :: "nat \<Rightarrow> (serializer, u8 list) cmd" where
  "bs_get_raw len s =
     thn (bs_set_pos (add64 (bs_pos s) len)) (bs_rd (bs_data s) len) s"

definition get_buffer :: "block \<Rightarrow> (serializer, block) cmd" where
  "get_buffer dst =
     bnd (bs_get_raw (sub64 (buf_size dst) (buf_pos dst))) (\<lambda>p.
       lift (case wr (data_of_block dst) p dst of (Inl e, _) \<Rightarrow> Inl e | (Inr _, dst') \<Rightarrow> Inr dst'))"

definition bs_get_bytes :: "(serializer, u8 list) cmd" where
  "bs_get_bytes =
     bnd get_u32 (\<lambda>len s. if \<not> is_valid s (unat len) then throw not_enough s
                           else bs_get_raw (unat len) s)"

definition bs_get_str :: "(serializer, u8 list) cmd" where
  "bs_get_str = bs_get_bytes"

text \<open>
  \<^verbatim>\<open>strlen\<close> has no bound: it runs to the first null character, and out of the allocation when there
  is none.
\<close>

definition get_cstr :: "(serializer, u8 list) cmd" where
  "get_cstr s =
     (let mem = drop (bs_data s) (bs_buf s); len = scan_str mem
      in if len \<ge> length mem then throw Bad_Access s
         else thn (bs_set_pos (add64 (add64 (bs_pos s) len) 1)) (ret (take len mem)) s)"

subsection \<open>The macros against the byte lists of the prelude\<close>

lemma byte_at_eq: "byte_at k val = word_of_int (drop_bit k val)"
  unfolding byte_at_def by (rule word_of_int_eq_iff [THEN iffD2]) (simp add: take_bit_eq_mask mask_eq_exp_minus_1 and.assoc)

lemmas put_defs = put16l_def put16b_def put32l_def put32b_def put64l_def put64b_def

lemma put_little:
  "put16l v = bytes_le 2 v" "put32l v = bytes_le 4 v" "put64l v = bytes_le 8 v"
  by (simp_all add: put_defs byte_at_eq bytes_le_def upt_rec)

lemma put_big:
  "put16b v = rev (bytes_le 2 v)" "put32b v = rev (bytes_le 4 v)" "put64b v = rev (bytes_le 8 v)"
  by (simp_all add: put_defs byte_at_eq bytes_le_def upt_rec)

lemma shift_in_add: "shift_in t b = push_bit 8 t + ucast b"
proof -
  have "push_bit 8 t AND ucast b = 0"
    by (rule bit_eqI) (auto simp: bit_simps dest: bit_imp_le_length)
  then show ?thesis
    by (simp add: shift_in_def disjunctive_add_eq_or)
qed

lemma list4: "length p = 4 \<Longrightarrow> \<exists>a b c d. p = [a, b, c, d]"
  by (auto simp: length_Suc_conv numeral_eq_Suc)

lemma list2: "length p = 2 \<Longrightarrow> \<exists>a b. p = [a, b]"
  by (auto simp: length_Suc_conv numeral_eq_Suc)

lemma list8: "length p = 8 \<Longrightarrow> \<exists>a b c d e f g h. p = [a, b, c, d, e, f, g, h]"
  by (auto simp: length_Suc_conv numeral_eq_Suc)

lemmas get_defs = get16l_def get16b_def get32l_def get32b_def get64l_def get64b_def

lemma get16_le: "length p = 2 \<Longrightarrow> get16l p = word_le p \<and> get16b p = word_le (rev p)"
  using list2 [of p] by (auto simp: get_defs shift_in_add word_le_Cons add.commute)

lemma get32_le: "length p = 4 \<Longrightarrow> get32l p = word_le p \<and> get32b p = word_le (rev p)"
  using list4 [of p] by (auto simp: get_defs shift_in_add word_le_Cons add.commute)

lemma get64_le: "length p = 8 \<Longrightarrow> get64l p = word_le p \<and> get64b p = word_le (rev p)"
  using list8 [of p] by (auto simp: get_defs shift_in_add word_le_Cons add.commute)

subsection \<open>The serializer on a well-formed buffer\<close>

definition srl :: "endianness \<Rightarrow> nat \<Rightarrow> nat \<Rightarrow> u8 list \<Rightarrow> serializer" where
  "srl e q p d = \<lparr>bs_endian = e, bs_buf = blk (min q (length d)) d, bs_pos = p\<rparr>"

definition order_bytes :: "endianness \<Rightarrow> u8 list \<Rightarrow> u8 list" where
  "order_bytes e bs = (if e = LITTLE then bs else rev bs)"

lemma length_order_bytes [simp]: "length (order_bytes e bs) = length bs"
  by (simp add: order_bytes_def)

lemma order_bytes_single [simp]: "order_bytes e [b] = [b]"
  by (simp add: order_bytes_def)

lemma srl_fields [simp]:
  "bs_endian (srl e q p d) = e" "bs_pos (srl e q p d) = p"
  "bs_buf (srl e q p d) = blk (min q (length d)) d"
  by (simp_all add: srl_def)

lemma srl_size [simp]: "length d < 2 ^ 31 \<Longrightarrow> buf_size (bs_buf (srl e q p d)) = length d"
  by (simp add: buf_simps)

lemma is_valid_srl [simp]:
  "p \<le> length d \<Longrightarrow> length d < 2 ^ 31 \<Longrightarrow> n < 2 ^ 63 \<Longrightarrow>
    is_valid (srl e q p d) n \<longleftrightarrow> p + n \<le> length d"
  by (simp add: is_valid_def buf_simps)

lemma bs_set_pos_srl [simp]:
  "n \<le> length d \<Longrightarrow> length d < 2 ^ 31 \<Longrightarrow> bs_set_pos n (srl e q p d) = (Inr (), srl e q n d)"
  by (simp add: bs_set_pos_def buf_simps srl_def)

lemma bs_data_srl [simp]: "length d < 2 ^ 31 \<Longrightarrow> bs_data (srl e q p d) = hdr_len d + p"
  by (simp add: bs_data_def buf_simps)

lemma bs_wr_srl [simp]:
  "length d' = length d \<Longrightarrow> p + length bs \<le> length d \<Longrightarrow>
    bs_wr (hdr_len d + p) bs (srl e q p' d') = (Inr (), srl e q p' (poke d' p bs))"
  by (simp add: bs_wr_def buf_simps srl_def)

lemma bs_rd_srl [simp]:
  "p + n \<le> length d \<Longrightarrow> bs_rd (hdr_len d + p) n (srl e q p' d) = (Inr (peek d p n), srl e q p' d)"
  by (simp add: bs_rd_def buf_simps)

lemma put_fixed_srl:
  assumes "p + length l \<le> length d" "length d < 2 ^ 31" "length b = length l"
  shows "put_fixed l b (srl e q p d) =
    (Inr (), srl e q (p + length l) (poke d p (if e = LITTLE then l else b)))"
  using assms by (simp add: put_fixed_def bind_simps)

lemma get_fixed_srl:
  assumes "p + n \<le> length d" "length d < 2 ^ 31"
  shows "get_fixed n l b (srl e q p d) =
    (Inr ((if e = LITTLE then l else b) (peek d p n)), srl e q (p + n) d)"
  using assms by (simp add: get_fixed_def bind_simps)

lemma emits_put_fixed:
  assumes "b = rev l"
  shows "emits (srl e q) (put_fixed l b) (order_bytes e l)"
  unfolding emits_def
proof (intro allI impI)
  fix w r :: "u8 list"
  let ?o = "order_bytes e l"
  assume len: "length ?o \<le> length r" "length w + length r < 2 ^ 31"
  have "put_fixed l b (srl e q (length w) (w @ r)) =
      (Inr (), srl e q (length w + length l) (poke (w @ r) (length w) (if e = LITTLE then l else b)))"
    using len assms by (intro put_fixed_srl) simp_all
  moreover have "(if e = LITTLE then l else b) = ?o"
    using assms by (simp add: order_bytes_def)
  ultimately show "put_fixed l b (srl e q (length w) (w @ r)) =
      (Inr (), srl e q (length (w @ ?o)) (w @ ?o @ drop (length ?o) r))"
    using poke_prefix [OF len(1), of w] by simp
qed

lemma parses_get_fixed:
  assumes "length bs = n" and "e = LITTLE \<Longrightarrow> l bs = x" and "e \<noteq> LITTLE \<Longrightarrow> b (rev bs) = x"
  shows "parses (srl e q) (get_fixed n l b) (order_bytes e bs) x"
  unfolding parses_def
proof (intro allI impI)
  fix w r :: "u8 list"
  let ?o = "order_bytes e bs"
  assume len: "length (w @ ?o @ r) < 2 ^ 31"
  have "peek (w @ ?o @ r) (length w) n = ?o"
    using peek_prefix [of w ?o r] assms(1) by simp
  moreover have "(if e = LITTLE then l else b) ?o = x"
    using assms(2,3) by (simp add: order_bytes_def)
  ultimately show "get_fixed n l b (srl e q (length w) (w @ ?o @ r)) =
      (Inr x, srl e q (length (w @ ?o)) (w @ ?o @ r))"
    using len assms(1) by (simp add: get_fixed_srl)
qed

lemma emits_put_ints:
  "emits (srl e q) (put_u8 b) [b]"
  "emits (srl e q) (put_u16 w16) (order_bytes e (bytes_le 2 (uint w16)))"
  "emits (srl e q) (put_u32 w32) (order_bytes e (bytes_le 4 (uint w32)))"
  "emits (srl e q) (put_u64 n) (order_bytes e (bytes_le 8 (int n)))"
  "emits (srl e q) (put_i8 i) [word_of_int i]"
  "emits (srl e q) (put_i16 i) (order_bytes e (bytes_le 2 i))"
  "emits (srl e q) (put_i32 i) (order_bytes e (bytes_le 4 i))"
  "emits (srl e q) (put_i64 i) (order_bytes e (bytes_le 8 i))"
  using emits_put_fixed [of "[b]" "[b]" e q] emits_put_fixed [of "[word_of_int i]" "[word_of_int i]" e q]
  by (simp_all add: put_u8_def put_u16_def put_u32_def put_u64_def put_i8_def put_i16_def
      put_i32_def put_i64_def put_little put_big emits_put_fixed)

lemma sint_word_of_int:
  "- (2 ^ (LENGTH('a) - 1)) \<le> v \<Longrightarrow> v < 2 ^ (LENGTH('a) - 1) \<Longrightarrow> sint (word_of_int v :: 'a::len word) = v"
  by (simp add: signed_of_int signed_take_bit_int_eq_self)

lemma parses_get_ints:
  "parses (srl e q) get_u8 [b] b"
  "parses (srl e q) get_u16 (order_bytes e (bytes_le 2 (uint w16))) w16"
  "parses (srl e q) get_u32 (order_bytes e (bytes_le 4 (uint w32))) w32"
  "n < 2 ^ 64 \<Longrightarrow> parses (srl e q) get_u64 (order_bytes e (bytes_le 8 (int n))) n"
  "- (2 ^ 7) \<le> i \<Longrightarrow> i < 2 ^ 7 \<Longrightarrow> parses (srl e q) get_i8 [word_of_int i] i"
  "- (2 ^ 15) \<le> i \<Longrightarrow> i < 2 ^ 15 \<Longrightarrow> parses (srl e q) get_i16 (order_bytes e (bytes_le 2 i)) i"
  "- (2 ^ 31) \<le> i \<Longrightarrow> i < 2 ^ 31 \<Longrightarrow> parses (srl e q) get_i32 (order_bytes e (bytes_le 4 i)) i"
  "- (2 ^ 63) \<le> i \<Longrightarrow> i < 2 ^ 63 \<Longrightarrow> parses (srl e q) get_i64 (order_bytes e (bytes_le 8 i)) i"
proof -
  have one: "parses (srl e q) (get_fixed 1 (\<lambda>p. f (p ! 0)) (\<lambda>p. f (p ! 0))) [b] (f b)"
    for f :: "u8 \<Rightarrow> 'c" and b
    using parses_get_fixed [of "[b]" 1 e "\<lambda>p. f (p ! 0)" "f b" "\<lambda>p. f (p ! 0)" q]
    by simp
  show "parses (srl e q) get_u8 [b] b"
    using one [of "\<lambda>x. x"] by (simp add: get_u8_def)
  show "parses (srl e q) get_u16 (order_bytes e (bytes_le 2 (uint w16))) w16"
    unfolding get_u16_def
    by (rule parses_get_fixed) (simp_all add: get16_le word_le_bytes_le_full)
  show "parses (srl e q) get_u32 (order_bytes e (bytes_le 4 (uint w32))) w32"
    unfolding get_u32_def
    by (rule parses_get_fixed) (simp_all add: get32_le word_le_bytes_le_full)
  show "n < 2 ^ 64 \<Longrightarrow> parses (srl e q) get_u64 (order_bytes e (bytes_le 8 (int n))) n"
    unfolding get_u64_def
    by (rule parses_get_fixed) (simp_all add: get64_le unat_word_le)
  show "- (2 ^ 7) \<le> i \<Longrightarrow> i < 2 ^ 7 \<Longrightarrow> parses (srl e q) get_i8 [word_of_int i] i"
    using one [of sint "word_of_int i"] sint_word_of_int [where 'a = 8, of i] by (simp add: get_i8_def)
  show "- (2 ^ 15) \<le> i \<Longrightarrow> i < 2 ^ 15 \<Longrightarrow> parses (srl e q) get_i16 (order_bytes e (bytes_le 2 i)) i"
    unfolding get_i16_def
    by (rule parses_get_fixed) (simp_all add: get16_le word_le_bytes_le_full sint_word_of_int)
  show "- (2 ^ 31) \<le> i \<Longrightarrow> i < 2 ^ 31 \<Longrightarrow> parses (srl e q) get_i32 (order_bytes e (bytes_le 4 i)) i"
    unfolding get_i32_def
    by (rule parses_get_fixed) (simp_all add: get32_le word_le_bytes_le_full sint_word_of_int)
  show "- (2 ^ 63) \<le> i \<Longrightarrow> i < 2 ^ 63 \<Longrightarrow> parses (srl e q) get_i64 (order_bytes e (bytes_le 8 i)) i"
    unfolding get_i64_def
    by (rule parses_get_fixed) (simp_all add: get64_le word_le_bytes_le_full sint_word_of_int)
qed

lemma emits_bs_put_raw: "length raw < 2 ^ 31 \<Longrightarrow> emits (srl e q) (bs_put_raw raw) raw"
  by (auto simp: emits_def bs_put_raw_def bind_simps poke_prefix)

lemma parses_bs_get_raw: "parses (srl e q) (bs_get_raw (length bs)) bs bs"
  by (auto simp: parses_def bs_get_raw_def bind_simps peek_prefix)

lemma emits_bs_put_bytes:
  assumes "length raw < 2 ^ 31"
  shows "emits (srl e q) (bs_put_bytes raw) (order_bytes e (bytes_le 4 (int (length raw))) @ raw)"
proof -
  let ?c = "thn (put_u32 (word_of_nat (length raw))) (bs_put_raw raw)"
  have "uint (word_of_nat (length raw) :: u32) = int (length raw)"
    using assms by (simp add: uint_word_of_nat_small)
  then have "emits (srl e q) ?c (order_bytes e (bytes_le 4 (int (length raw))) @ raw)"
    using emits_put_ints(3) [of e q "word_of_nat (length raw)"] assms
    by (metis emits_thn emits_bs_put_raw)
  moreover have "bs_put_bytes raw (srl e q (length w) (w @ r)) = ?c (srl e q (length w) (w @ r))"
    if "4 + length raw \<le> length r" "length w + length r < 2 ^ 31" for w r
    using that by (simp add: bs_put_bytes_def)
  ultimately show ?thesis
    by (simp add: emits_def)
qed

lemma parses_bs_get_bytes:
  assumes "length raw < 2 ^ 31"
  shows "parses (srl e q) bs_get_bytes (order_bytes e (bytes_le 4 (int (length raw))) @ raw) raw"
proof -
  have len: "uint (word_of_nat (length raw) :: u32) = int (length raw)"
    "unat (word_of_nat (length raw) :: u32) = length raw"
    using assms by (simp_all add: unsigned_of_nat take_bit_nat_eq_self)
  let ?n = "word_of_nat (length raw) :: u32"
  have "parses (srl e q) (\<lambda>s. if \<not> is_valid s (unat ?n) then throw not_enough s
      else bs_get_raw (unat ?n) s) raw raw"
    using parses_bs_get_raw [of e q raw] assms len(2) by (simp add: parses_def)
  moreover have "parses (srl e q) get_u32 (order_bytes e (bytes_le 4 (int (length raw)))) ?n"
    using parses_get_ints(3) [of e q ?n] len(1) by simp
  ultimately show ?thesis
    unfolding bs_get_bytes_def by (intro parses_bnd)
qed

lemma cstr_loop_srl:
  "lp + length str \<le> length d \<Longrightarrow> length d < 2 ^ 31 \<Longrightarrow>
    cstr_loop str lp (srl e q p d) = (Inr (lp + length str), srl e q p (poke d lp str))"
proof (induction str arbitrary: lp d)
  case Nil
  then show ?case by simp
next
  case (Cons c str)
  have "cstr_loop str (Suc lp) (srl e q p (poke d lp [c])) =
      (Inr (Suc lp + length str), srl e q p (poke (poke d lp [c]) (Suc lp) str))"
    using Cons.prems by (intro Cons.IH) simp_all
  moreover have "poke (poke d lp [c]) (Suc lp) str = poke d lp (c # str)"
    using poke_poke_next [of lp "[c]" str d] Cons.prems by simp
  ultimately show ?case
    using Cons.prems by (simp add: bind_simps buf_simps)
qed

lemma emits_put_cstr: "emits (srl e q) (put_cstr str) (str @ [0])"
  unfolding emits_def
proof (intro allI impI)
  fix w r :: "u8 list"
  assume len: "length (str @ [0]) \<le> length r" "length w + length r < 2 ^ 31"
  have loop: "cstr_loop str (length w) (srl e q (length w) (w @ r)) =
      (Inr (length w + length str), srl e q (length w) (poke (w @ r) (length w) str))"
    using len by (intro cstr_loop_srl) simp_all
  have "poke (poke (w @ r) (length w) str) (length w + length str) [0] = poke (w @ r) (length w) (str @ [0])"
    using len by (intro poke_poke_next) simp
  also have "\<dots> = w @ (str @ [0]) @ drop (length (str @ [0])) r"
    using len by (intro poke_prefix)
  finally show "put_cstr str (srl e q (length w) (w @ r)) =
      (Inr (), srl e q (length (w @ str @ [0])) (w @ (str @ [0]) @ drop (length (str @ [0])) r))"
    using loop len by (simp add: put_cstr_def bind_simps buf_simps hdr_len_poke [symmetric])
qed

lemma parses_get_cstr:
  assumes "0 \<notin> set str"
  shows "parses (srl e q) get_cstr (str @ [0]) str"
  unfolding parses_def
proof (intro allI impI)
  fix w r :: "u8 list"
  let ?d = "w @ (str @ [0]) @ r"
  assume len: "length ?d < 2 ^ 31"
  have "drop (hdr_len ?d + length w) (blk (min q (length ?d)) ?d) = str @ 0 # r"
    by (simp add: blk_def hdr_len_def)
  then show "get_cstr (srl e q (length w) ?d) = (Inr str, srl e q (length (w @ str @ [0])) ?d)"
    using len assms by (simp add: get_cstr_def Let_def scan_str_nul bind_simps)
qed

subsection \<open>The writers and readers as codecs\<close>

interpretation s_u8: buf_codec "srl e q" "\<lambda>b. [b]" put_u8 get_u8 "\<lambda>_. True" for e q
  by unfold_locales (auto intro: emits_put_ints parses_get_ints)

interpretation s_u16: buf_codec "srl e q" "\<lambda>w. order_bytes e (bytes_le 2 (uint w))" put_u16 get_u16
  "\<lambda>_. True" for e q
  by unfold_locales (auto intro: emits_put_ints parses_get_ints)

interpretation s_u32: buf_codec "srl e q" "\<lambda>w. order_bytes e (bytes_le 4 (uint w))" put_u32 get_u32
  "\<lambda>_. True" for e q
  by unfold_locales (auto intro: emits_put_ints parses_get_ints)

interpretation s_u64: buf_codec "srl e q" "\<lambda>n. order_bytes e (bytes_le 8 (int n))" put_u64 get_u64
  "\<lambda>n. n < 2 ^ 64" for e q
  by unfold_locales (auto intro: emits_put_ints parses_get_ints)

interpretation s_i8: buf_codec "srl e q" "\<lambda>i. [word_of_int i]" put_i8 get_i8
  "\<lambda>i. - (2 ^ 7) \<le> i \<and> i < 2 ^ 7" for e q
  by unfold_locales (auto intro: emits_put_ints parses_get_ints)

interpretation s_i16: buf_codec "srl e q" "\<lambda>i. order_bytes e (bytes_le 2 i)" put_i16 get_i16
  "\<lambda>i. - (2 ^ 15) \<le> i \<and> i < 2 ^ 15" for e q
  by unfold_locales (auto intro: emits_put_ints parses_get_ints)

interpretation s_i32: buf_codec "srl e q" "\<lambda>i. order_bytes e (bytes_le 4 i)" put_i32 get_i32
  "\<lambda>i. - (2 ^ 31) \<le> i \<and> i < 2 ^ 31" for e q
  by unfold_locales (auto intro: emits_put_ints parses_get_ints)

interpretation s_i64: buf_codec "srl e q" "\<lambda>i. order_bytes e (bytes_le 8 i)" put_i64 get_i64
  "\<lambda>i. - (2 ^ 63) \<le> i \<and> i < 2 ^ 63" for e q
  by unfold_locales (auto intro: emits_put_ints parses_get_ints)

interpretation s_bytes: buf_codec "srl e q" "\<lambda>bs. order_bytes e (bytes_le 4 (int (length bs))) @ bs"
  bs_put_bytes bs_get_bytes "\<lambda>bs. length bs < 2 ^ 31" for e q
  by unfold_locales (auto intro: emits_bs_put_bytes parses_bs_get_bytes)

interpretation s_cstr: buf_codec "srl e q" "\<lambda>str. str @ [0]" put_cstr get_cstr "\<lambda>str. 0 \<notin> set str" for e q
  by unfold_locales (auto intro: emits_put_cstr parses_get_cstr)

datatype ser_val =
    S_U8 u8 | S_U16 u16 | S_U32 u32 | S_U64 nat | S_I8 int | S_I16 int | S_I32 int | S_I64 int
  | S_Bytes "u8 list" | S_Cstr "u8 list"

fun put_sval :: "ser_val \<Rightarrow> (serializer, unit) cmd" where
  "put_sval (S_U8 v) = put_u8 v"
| "put_sval (S_U16 v) = put_u16 v"
| "put_sval (S_U32 v) = put_u32 v"
| "put_sval (S_U64 v) = put_u64 v"
| "put_sval (S_I8 v) = put_i8 v"
| "put_sval (S_I16 v) = put_i16 v"
| "put_sval (S_I32 v) = put_i32 v"
| "put_sval (S_I64 v) = put_i64 v"
| "put_sval (S_Bytes v) = bs_put_bytes v"
| "put_sval (S_Cstr v) = put_cstr v"

fun get_slike :: "ser_val \<Rightarrow> (serializer, ser_val) cmd" where
  "get_slike (S_U8 _) = bnd get_u8 (\<lambda>v. ret (S_U8 v))"
| "get_slike (S_U16 _) = bnd get_u16 (\<lambda>v. ret (S_U16 v))"
| "get_slike (S_U32 _) = bnd get_u32 (\<lambda>v. ret (S_U32 v))"
| "get_slike (S_U64 _) = bnd get_u64 (\<lambda>v. ret (S_U64 v))"
| "get_slike (S_I8 _) = bnd get_i8 (\<lambda>v. ret (S_I8 v))"
| "get_slike (S_I16 _) = bnd get_i16 (\<lambda>v. ret (S_I16 v))"
| "get_slike (S_I32 _) = bnd get_i32 (\<lambda>v. ret (S_I32 v))"
| "get_slike (S_I64 _) = bnd get_i64 (\<lambda>v. ret (S_I64 v))"
| "get_slike (S_Bytes _) = bnd bs_get_bytes (\<lambda>v. ret (S_Bytes v))"
| "get_slike (S_Cstr _) = bnd get_cstr (\<lambda>v. ret (S_Cstr v))"

fun get_slikes :: "ser_val list \<Rightarrow> (serializer, ser_val list) cmd" where
  "get_slikes [] = ret []"
| "get_slikes (v # vs) = bnd (get_slike v) (\<lambda>x. bnd (get_slikes vs) (\<lambda>xs. ret (x # xs)))"

fun enc_sval :: "endianness \<Rightarrow> ser_val \<Rightarrow> u8 list" where
  "enc_sval e (S_U8 v) = [v]"
| "enc_sval e (S_U16 v) = order_bytes e (bytes_le 2 (uint v))"
| "enc_sval e (S_U32 v) = order_bytes e (bytes_le 4 (uint v))"
| "enc_sval e (S_U64 v) = order_bytes e (bytes_le 8 (int v))"
| "enc_sval e (S_I8 v) = [word_of_int v]"
| "enc_sval e (S_I16 v) = order_bytes e (bytes_le 2 v)"
| "enc_sval e (S_I32 v) = order_bytes e (bytes_le 4 v)"
| "enc_sval e (S_I64 v) = order_bytes e (bytes_le 8 v)"
| "enc_sval e (S_Bytes v) = order_bytes e (bytes_le 4 (int (length v))) @ v"
| "enc_sval e (S_Cstr v) = v @ [0]"

fun sval_ok :: "ser_val \<Rightarrow> bool" where
  "sval_ok (S_U64 v) = (v < 2 ^ 64)"
| "sval_ok (S_I8 v) = (- (2 ^ 7) \<le> v \<and> v < 2 ^ 7)"
| "sval_ok (S_I16 v) = (- (2 ^ 15) \<le> v \<and> v < 2 ^ 15)"
| "sval_ok (S_I32 v) = (- (2 ^ 31) \<le> v \<and> v < 2 ^ 31)"
| "sval_ok (S_I64 v) = (- (2 ^ 63) \<le> v \<and> v < 2 ^ 63)"
| "sval_ok (S_Bytes v) = (length v < 2 ^ 31)"
| "sval_ok (S_Cstr v) = (0 \<notin> set v)"
| "sval_ok _ = True"

lemma emits_put_sval: "sval_ok v \<Longrightarrow> emits (srl e q) (put_sval v) (enc_sval e v)"
  by (cases v) (simp_all add: emits_put_ints emits_bs_put_bytes emits_put_cstr)

lemma parses_get_slike: "sval_ok v \<Longrightarrow> parses (srl e q) (get_slike v) (enc_sval e v) v"
  by (cases v) (simp_all add: parses_bnd_ret parses_get_ints parses_bs_get_bytes parses_get_cstr
      del: ret_simp)

lemma parses_get_slikes:
  "list_all sval_ok vs \<Longrightarrow> parses (srl e q) (get_slikes vs) (concat (map (enc_sval e) vs)) vs"
proof (induction vs)
  case Nil
  show ?case by (simp add: parses_ret del: ret_simp)
next
  case (Cons v vs)
  then have "parses (srl e q) (bnd (get_slikes vs) (\<lambda>xs. ret (v # xs))) (concat (map (enc_sval e) vs)) (v # vs)"
    by (intro parses_bnd_ret) simp
  moreover have "parses (srl e q) (get_slike v) (enc_sval e v) v"
    using Cons.prems by (simp add: parses_get_slike)
  ultimately show ?case
    by (simp add: parses_bnd [rotated])
qed

lemma new_serializer_srl: "q \<le> length d \<Longrightarrow> new_serializer e (blk q d) = srl e q 0 d"
  by (simp add: new_serializer_def srl_def)

text \<open>
  C18. Round trip through a serializer, in both byte orders: any sequence of the fixed-width
  signed and unsigned integers, length-prefixed byte arrays and C strings that fits into the
  buffer is read back as written, and the cursor in the buffer's own header is not moved.
\<close>

theorem serializer_roundtrip:
  assumes "list_all sval_ok vs" and "length (concat (map (enc_sval e) vs)) \<le> length d"
    and "length d < 2 ^ 31" and "q \<le> length d"
  shows "\<exists>s. thn (for_each vs put_sval) (thn (bs_set_pos 0) (get_slikes vs))
      (new_serializer e (blk q d)) = (Inr vs, s) \<and> buf_pos (bs_buf s) = q"
proof -
  let ?bs = "concat (map (enc_sval e) vs)"
  let ?r = "drop (length ?bs) d"
  have "emits (srl e q) (for_each vs put_sval) ?bs"
    using assms(1) by (intro emits_for_each emits_put_sval) (simp add: list_all_iff)
  with assms(2,3) have put: "for_each vs put_sval (srl e q 0 d) = (Inr (), srl e q (length ?bs) (?bs @ ?r))"
    by (intro emitsD)
  have pos: "bs_set_pos 0 (srl e q (length ?bs) (?bs @ ?r)) = (Inr (), srl e q 0 (?bs @ ?r))"
    using assms(2,3) by simp
  have get: "get_slikes vs (srl e q 0 (?bs @ ?r)) = (Inr vs, srl e q (length ?bs) (?bs @ ?r))"
    using parsesD [OF parses_get_slikes [OF assms(1), of e q], of "[]" ?r] assms(2,3) by simp
  have "buf_pos (bs_buf (srl e q (length ?bs) (?bs @ ?r))) = q"
    using assms(2,3,4) by (simp add: buf_simps min_def)
  with put pos get show ?thesis
    using assms(4) by (simp add: thn_Inr new_serializer_srl)
qed

theorem serializer_roundtrip_witness:
  "\<exists>s. thn (for_each [S_U8 9, S_I32 (-7), S_U64 1000, S_Bytes [1, 2], S_Cstr [65]] put_sval)
     (thn (bs_set_pos 0) (get_slikes [S_U8 9, S_I32 (-7), S_U64 1000, S_Bytes [1, 2], S_Cstr [65]]))
     (new_serializer BIG (blk 3 (replicate 21 0)))
   = (Inr [S_U8 9, S_I32 (-7), S_U64 1000, S_Bytes [1, 2], S_Cstr [65]], s) \<and> buf_pos (bs_buf s) = 3"
  by (rule serializer_roundtrip) simp_all

subsection \<open>Safety of the serializer\<close>

definition wf_serializer :: "serializer \<Rightarrow> bool" where
  "wf_serializer s \<longleftrightarrow> wf_block (bs_buf s) \<and> bs_pos s \<le> buf_size (bs_buf s)"

lemma wf_srl: "p \<le> length d \<Longrightarrow> length d < 2 ^ 31 \<Longrightarrow> wf_serializer (srl e q p d)"
  by (auto simp: wf_serializer_def buf_simps)

lemma wf_serializerE:
  assumes "wf_serializer s"
  obtains e q p d where "s = srl e q p d" and "p \<le> length d" and "length d < 2 ^ 31"
proof -
  from assms obtain q d where b: "bs_buf s = blk q d" "q \<le> length d" "length d < 2 ^ 31"
    by (auto simp: wf_serializer_def elim: wf_blockE)
  with assms have "s = srl (bs_endian s) q (bs_pos s) d" "bs_pos s \<le> length d"
    by (auto simp: wf_serializer_def srl_def buf_simps min_def)
  with b(3) show thesis by (rule that [rotated 2])
qed

datatype ser_call =
    Call_Put ser_val | Call_Get ser_val | Call_Put_Raw "u8 list" | Call_Get_Raw nat
  | Call_Put_Buffer block | Call_Get_Buffer block | Call_Pos nat

fun run_scall :: "ser_call \<Rightarrow> (serializer, unit) cmd" where
  "run_scall (Call_Put v) = put_sval v"
| "run_scall (Call_Get v) = thn (get_slike v) (ret ())"
| "run_scall (Call_Put_Raw bs) = bs_put_raw bs"
| "run_scall (Call_Get_Raw n) = thn (bs_get_raw n) (ret ())"
| "run_scall (Call_Put_Buffer b) = put_buffer b"
| "run_scall (Call_Get_Buffer b) = thn (get_buffer b) (ret ())"
| "run_scall (Call_Pos p) = bs_set_pos p"

text \<open>
  What a call needs: well-formed buffers as arguments, sizes that exist on a 64-bit machine, and
  no \<^verbatim>\<open>get_cstr\<close>, whose \<^verbatim>\<open>strlen\<close> has no bound.
\<close>

fun scall_ok :: "ser_call \<Rightarrow> bool" where
  "scall_ok (Call_Put (S_Bytes bs)) = (length bs < 2 ^ 62)"
| "scall_ok (Call_Put_Raw bs) = (length bs < 2 ^ 62)"
| "scall_ok (Call_Get (S_Cstr _)) = False"
| "scall_ok (Call_Get_Raw n) = (n < 2 ^ 64 - 2 ^ 31)"
| "scall_ok (Call_Put_Buffer b) = wf_block b"
| "scall_ok (Call_Get_Buffer b) = wf_block b"
| "scall_ok _ = True"

definition safe_result :: "('a + 'b) \<times> serializer \<Rightarrow> ('a \<Rightarrow> bool) \<Rightarrow> bool" where
  "safe_result r ok \<longleftrightarrow> wf_serializer (snd r) \<and> (\<forall>e. fst r = Inl e \<longrightarrow> ok e)"

lemma safe_put_fixed:
  assumes "p \<le> length d" "length d < 2 ^ 31" "length b = length l" "length l < 2 ^ 31"
  shows "safe_result (put_fixed l b (srl e q p d)) is_overflow"
proof (cases "p + length l \<le> length d")
  case True
  then show ?thesis
    using assms by (simp add: put_fixed_srl safe_result_def wf_srl)
next
  case False
  then show ?thesis
    using assms by (simp add: put_fixed_def safe_result_def wf_srl is_overflow_def not_enough_def)
qed

lemma safe_get_fixed:
  assumes "p \<le> length d" "length d < 2 ^ 31" "n < 2 ^ 31"
  shows "safe_result (get_fixed n l b (srl e q p d)) is_overflow"
proof (cases "p + n \<le> length d")
  case True
  then show ?thesis
    using assms by (simp add: get_fixed_srl safe_result_def wf_srl)
next
  case False
  then show ?thesis
    using assms by (simp add: get_fixed_def safe_result_def wf_srl is_overflow_def not_enough_def)
qed

lemma bs_set_pos_beyond:
  "n > length d \<Longrightarrow> length d < 2 ^ 31 \<Longrightarrow>
    bs_set_pos n (srl e q p d) = (Inl (Overflow_Error ''invalid position''), srl e q p d)"
  by (simp add: bs_set_pos_def buf_simps)

lemma safe_put_raw:
  assumes "p \<le> length d" "length d < 2 ^ 31" "length bs < 2 ^ 62"
  shows "safe_result (bs_put_raw bs (srl e q p d)) is_overflow"
  using assms
  by (auto simp: bs_put_raw_def bind_simps safe_result_def wf_srl is_overflow_def not_enough_def)

lemma safe_get_raw:
  assumes "p \<le> length d" "length d < 2 ^ 31" "n < 2 ^ 64 - 2 ^ 31"
  shows "safe_result (bs_get_raw n (srl e q p d)) is_overflow"
  using assms bs_set_pos_beyond [of d "p + n" e q p]
  by (cases "p + n \<le> length d")
    (auto simp: bs_get_raw_def bind_simps safe_result_def wf_srl is_overflow_def)

lemma safe_bnd:
  assumes "safe_result (c s) ok" and "\<And>x s'. c s = (Inr x, s') \<Longrightarrow> wf_serializer s' \<Longrightarrow> safe_result (f x s') ok"
  shows "safe_result (bnd c f s) ok"
  using assms by (auto simp: safe_result_def bnd_def split: prod.splits sum.splits)

lemma safe_ret: "wf_serializer s \<Longrightarrow> safe_result (ret x s) ok"
  by (simp add: safe_result_def)

lemma safe_bnd_ret: "safe_result (c s) ok \<Longrightarrow> safe_result (bnd c (\<lambda>x. ret (f x)) s) ok"
  by (rule safe_bnd) (simp_all add: safe_result_def)

lemma safe_throw: "wf_serializer s \<Longrightarrow> safe_result (Inl not_enough, s) is_overflow"
  by (simp add: safe_result_def is_overflow_def not_enough_def)

lemma safe_thn_ret: "safe_result (c s) ok \<Longrightarrow> safe_result (thn c (ret x) s) ok"
  unfolding thn_def by (rule safe_bnd) (simp_all add: safe_result_def)

lemma safe_bs_put_bytes:
  assumes "p \<le> length d" "length d < 2 ^ 31" "length bs < 2 ^ 62"
  shows "safe_result (bs_put_bytes bs (srl e q p d)) is_overflow"
proof (cases "is_valid (srl e q p d) (length bs + 4)")
  case True
  have "safe_result (thn (put_u32 (word_of_nat (length bs))) (bs_put_raw bs) (srl e q p d)) is_overflow"
    unfolding thn_def
  proof (rule safe_bnd)
    show "safe_result (put_u32 (word_of_nat (length bs)) (srl e q p d)) is_overflow"
      using assms by (simp add: put_u32_def put_little put_big safe_put_fixed)
  next
    fix x s' assume "wf_serializer s'"
    then show "safe_result (bs_put_raw bs s') is_overflow"
      using assms(3) by (auto elim!: wf_serializerE intro: safe_put_raw)
  qed
  with True show ?thesis by (simp add: bs_put_bytes_def)
next
  case False
  with assms show ?thesis
    by (simp add: bs_put_bytes_def safe_result_def wf_srl is_overflow_def not_enough_def)
qed

lemma cstr_loop_cases:
  "length d < 2 ^ 31 \<Longrightarrow> \<exists>d'. length d' = length d \<and>
    cstr_loop str lp (srl e q p d) \<in> {(Inr (lp + length str), srl e q p d'), (Inl not_enough, srl e q p d')}"
proof (induction str arbitrary: lp d)
  case Nil
  then show ?case by auto
next
  case (Cons c str)
  show ?case
  proof (cases "lp \<ge> length d")
    case True
    with Cons.prems show ?thesis by (intro exI [where x = d]) (simp add: buf_simps)
  next
    case False
    then have "length (poke d lp [c]) < 2 ^ 31" "length (poke d lp [c]) = length d"
      using Cons.prems by simp_all
    with Cons.IH [of "poke d lp [c]" "Suc lp"] False Cons.prems show ?thesis
      by (auto simp: bind_simps buf_simps)
  qed
qed

lemma safe_put_cstr:
  assumes "p \<le> length d" "length d < 2 ^ 31"
  shows "safe_result (put_cstr str (srl e q p d)) is_overflow"
proof -
  obtain d' where d': "length d' = length d"
    "cstr_loop str p (srl e q p d) = (Inr (p + length str), srl e q p d') \<or>
     cstr_loop str p (srl e q p d) = (Inl not_enough, srl e q p d')"
    using cstr_loop_cases [OF assms(2), of str p e q p] by auto
  then show ?thesis
    using assms
    by (elim disjE; cases "p + length str < length d'")
      (simp_all add: put_cstr_def bind_simps buf_simps safe_result_def wf_srl is_overflow_def
        not_enough_def)
qed

lemma safe_bs_get_bytes:
  assumes "p \<le> length d" "length d < 2 ^ 31"
  shows "safe_result (bs_get_bytes (srl e q p d)) is_overflow"
  unfolding bs_get_bytes_def
proof (rule safe_bnd)
  show "safe_result (get_u32 (srl e q p d)) is_overflow"
    using assms by (simp add: get_u32_def safe_get_fixed)
next
  fix len :: u32 and s'
  have "unat len < 2 ^ 64 - 2 ^ 31"
    using unsigned_less [of len, where ?'a = nat] by simp
  moreover assume "wf_serializer s'"
  ultimately show "safe_result (if \<not> is_valid s' (unat len) then throw not_enough s'
      else bs_get_raw (unat len) s') is_overflow"
    by (auto elim!: wf_serializerE intro!: safe_get_raw
        simp: safe_throw wf_srl)
qed

lemma safe_put_buffer:
  assumes "p \<le> length d" "length d < 2 ^ 31" "wf_block b"
  shows "safe_result (put_buffer b (srl e q p d)) is_overflow"
proof -
  obtain r f where b: "b = blk r f" "r \<le> length f" "length f < 2 ^ 31"
    using assms(3) by (rule wf_blockE)
  then have "put_buffer b (srl e q p d) = bs_put_raw (peek f r (length f - r)) (srl e q p d)"
    by (simp add: put_buffer_def buf_simps bind_simps)
  then show ?thesis
    using safe_put_raw [of p d "peek f r (length f - r)" e q] assms b by simp
qed

lemma safe_get_buffer:
  assumes "p \<le> length d" "length d < 2 ^ 31" "wf_block b"
  shows "safe_result (get_buffer b (srl e q p d)) is_overflow"
proof -
  obtain r f where b: "b = blk r f" "r \<le> length f" "length f < 2 ^ 31"
    using assms(3) by (rule wf_blockE)
  show ?thesis
  proof (cases "p + (length f - r) \<le> length d")
    case True
    with assms b show ?thesis
      by (simp add: get_buffer_def bs_get_raw_def buf_simps bind_simps safe_result_def wf_srl)
  next
    case False
    with assms b bs_set_pos_beyond [of d "p + (length f - r)" e q p] show ?thesis
      by (simp add: get_buffer_def bs_get_raw_def buf_simps bind_simps safe_result_def wf_srl
          is_overflow_def)
  qed
qed

lemma safe_put_sval:
  assumes "p \<le> length d" "length d < 2 ^ 31" "scall_ok (Call_Put v)"
  shows "safe_result (put_sval v (srl e q p d)) is_overflow"
  using assms
  by (cases v) (simp_all add: put_u8_def put_u16_def put_u32_def put_u64_def put_i8_def put_i16_def
      put_i32_def put_i64_def put_little put_big safe_put_fixed safe_bs_put_bytes safe_put_cstr)

lemma safe_get_slike:
  assumes "p \<le> length d" "length d < 2 ^ 31" "scall_ok (Call_Get v)"
  shows "safe_result (thn (get_slike v) (ret ()) (srl e q p d)) is_overflow"
proof -
  have "safe_result (get_slike v (srl e q p d)) is_overflow"
    using assms
    by (cases v) (simp_all add: get_u8_def get_u16_def get_u32_def get_u64_def get_i8_def get_i16_def
        get_i32_def get_i64_def safe_bnd_ret safe_get_fixed safe_bs_get_bytes del: ret_simp)
  then show ?thesis by (rule safe_thn_ret)
qed

lemma run_scall_safe:
  assumes "wf_serializer s" and "scall_ok c"
  shows "safe_result (run_scall c s) is_overflow"
proof -
  obtain e q p d where s: "s = srl e q p d" "p \<le> length d" "length d < 2 ^ 31"
    using assms(1) by (rule wf_serializerE)
  show ?thesis
  proof (cases c)
    case (Call_Pos n)
    with s show ?thesis
      by (cases "n \<le> length d")
        (simp_all add: bs_set_pos_beyond safe_result_def wf_srl is_overflow_def)
  qed (use s assms(2) in \<open>simp_all add: safe_put_sval safe_get_slike safe_put_raw safe_get_raw
      safe_put_buffer safe_get_buffer safe_thn_ret\<close>)
qed

fun run_scalls :: "ser_call list \<Rightarrow> serializer \<Rightarrow> cpp_error list \<times> serializer" where
  "run_scalls [] s = ([], s)"
| "run_scalls (c # cs) s =
     (case run_scall c s of
        (Inl e, s') \<Rightarrow> (let (es, s'') = run_scalls cs s' in (e # es, s''))
      | (Inr _, s') \<Rightarrow> run_scalls cs s')"

text \<open>
  Over a well-formed buffer, no sequence of admissible calls accesses memory outside the buffer's
  allocation; the only errors are \<^verbatim>\<open>overflow_error\<close> exceptions, after each of which the client may go on,
  and the buffer and the serializer's cursor stay well-formed.
\<close>

lemma run_scalls_safe:
  assumes "wf_serializer s" and "list_all scall_ok cs"
  shows "wf_serializer (snd (run_scalls cs s)) \<and> list_all is_overflow (fst (run_scalls cs s))"
  using assms
proof (induction cs arbitrary: s)
  case Nil
  then show ?case by simp
next
  case (Cons c cs)
  obtain r s' where r: "run_scall c s = (r, s')" by fastforce
  with Cons.prems run_scall_safe [of s c] have "wf_serializer s'" "\<forall>e. r = Inl e \<longrightarrow> is_overflow e"
    by (auto simp: safe_result_def)
  with Cons.IH [of s'] Cons.prems r show ?case
    by (auto split: sum.splits prod.splits)
qed

text \<open>A length for which the new position wraps around passes the check of \<^verbatim>\<open>pos\<close>.\<close>

lemma get_raw_wraps:
  assumes "wf_serializer s" and "n < 2 ^ 64" and "2 ^ 64 \<le> bs_pos s + n"
  shows "fst (bs_get_raw n s) = Inl Bad_Access"
proof -
  obtain e q p d where s: "s = srl e q p d" "p \<le> length d" "length d < 2 ^ 31"
    using assms(1) by (rule wf_serializerE)
  then have "add64 p n = p + n - 2 ^ 64" "p + n - 2 ^ 64 \<le> length d" "length (bs_buf s) < n"
    using assms(2,3) by (simp_all add: add64_def length_blk hdr_len_def le_mod_geq)
  with s assms show ?thesis
    by (simp add: bs_get_raw_def bind_simps bs_rd_def rd_def)
qed

text \<open>
  C35. Memory safety of the serializer, and its limit. Over a well-formed buffer of less than 2 GB, take
  any sequence of calls without \<^verbatim>\<open>get_cstr\<close> that writes byte arrays of less than $2^{62}$ bytes, reads raw
  lengths below $2^{64} - 2^{31}$
  and has well-formed buffers as arguments. None of them accesses memory outside the buffer's
  allocation; the only errors are \<^verbatim>\<open>overflow_error\<close> exceptions, after each of which the client may go on,
  and the buffer and the serializer's cursor stay well-formed. Beyond that length \<^verbatim>\<open>get_raw\<close> is not safe:
  when the position plus the length wraps around, its check passes and it reads outside the allocation.
\<close>

theorem serializer_calls_safe:
  assumes "wf_serializer s" and "list_all scall_ok cs"
  shows "wf_serializer (snd (run_scalls cs s)) \<and> list_all is_overflow (fst (run_scalls cs s)) \<and>
    (\<forall>n < 2 ^ 64. 2 ^ 64 \<le> bs_pos s + n \<longrightarrow> fst (bs_get_raw n s) = Inl Bad_Access)"
  using run_scalls_safe [OF assms] get_raw_wraps [OF assms(1)] by blast

theorem serializer_calls_safe_witness:
  "wf_serializer (snd (run_scalls [Call_Put (S_U32 7), Call_Get (S_U64 0), Call_Pos 9, Call_Get_Raw 3]
      (srl LITTLE 0 1 [1, 2, 3, 4, 5]))) \<and>
   list_all is_overflow (fst (run_scalls [Call_Put (S_U32 7), Call_Get (S_U64 0), Call_Pos 9, Call_Get_Raw 3]
      (srl LITTLE 0 1 [1, 2, 3, 4, 5]))) \<and>
   fst (bs_get_raw (2 ^ 64 - 1) (srl LITTLE 0 1 [1, 2, 3, 4, 5])) = Inl Bad_Access"
proof -
  have "wf_serializer (srl LITTLE 0 1 [1, 2, 3, 4, 5])"
    by (simp add: wf_srl)
  then show ?thesis
    using serializer_calls_safe [of "srl LITTLE 0 1 [1, 2, 3, 4, 5]"
      "[Call_Put (S_U32 7), Call_Get (S_U64 0), Call_Pos 9, Call_Get_Raw 3]"] by simp
qed

text \<open>
  C40. \<^verbatim>\<open>get_cstr\<close> is not safe: when no null character follows the cursor, \<^verbatim>\<open>strlen\<close> runs out of the
  allocation, although every other reader throws \<^verbatim>\<open>overflow_error\<close> in that case.
\<close>

theorem get_cstr_unterminated:
  assumes "p \<le> length d" and "length d < 2 ^ 31" and "0 \<notin> set (drop p d)"
  shows "fst (get_cstr (srl e q p d)) = Inl Bad_Access"
proof -
  have "drop (hdr_len d + p) (blk (min q (length d)) d) = drop p d"
    by (simp add: blk_def hdr_len_def)
  then show ?thesis
    using assms scan_str_unterminated [of "drop p d"] by (simp add: get_cstr_def Let_def)
qed

theorem get_cstr_unterminated_witness:
  "fst (get_cstr (srl LITTLE 0 1 [0, 65, 66])) = Inl Bad_Access"
  by (rule get_cstr_unterminated) simp_all

end
