(* ===== verification/Raft_Codec.thy ===== *)
theory Raft_Codec
  imports Raft_Serializer Raft_Crc32
begin

unbundle bit_operations_syntax

text \<open>
  The records the raft server stores and sends, with their byte formats:
  \<^verbatim>\<open>log_entry\<close>, \<^verbatim>\<open>srv_config\<close>, \<^verbatim>\<open>cluster_config\<close>, \<^verbatim>\<open>snapshot\<close>, \<^verbatim>\<open>snapshot_sync_req\<close> and
  \<^verbatim>\<open>srv_state\<close>. A record is written with the cursor of a \<^verbatim>\<open>buffer\<close> and read back with a
  \<^verbatim>\<open>buffer_serializer\<close>, so each round trip joins the two codecs. Log indexes, terms and sizes are
  naturals, server ids integers, \<^verbatim>\<open>std::string\<close> a byte list. \<open>uninit\<close> stands for the content of
  fresh memory; the round trips hold for every value of it.
\<close>

subsection \<open>Results in sequence\<close>

definition bndE :: "cpp_error + 'a \<Rightarrow> ('a \<Rightarrow> cpp_error + 'b) \<Rightarrow> cpp_error + 'b" where
  "bndE r f = (case r of Inl e \<Rightarrow> Inl e | Inr x \<Rightarrow> f x)"

lemma bndE_simps [simp]: "bndE (Inl e) f = Inl e" "bndE (Inr x) f = f x"
  by (simp_all add: bndE_def)

fun mapE :: "('a \<Rightarrow> cpp_error + 'b) \<Rightarrow> 'a list \<Rightarrow> cpp_error + 'b list" where
  "mapE f [] = Inr []"
| "mapE f (x # xs) = bndE (f x) (\<lambda>y. bndE (mapE f xs) (\<lambda>ys. Inr (y # ys)))"

lemma mapE_Inr: "(\<And>x. x \<in> set xs \<Longrightarrow> f x = Inr (g x)) \<Longrightarrow> mapE f xs = Inr (map g xs)"
  by (induction xs) auto

subsection \<open>Log entries\<close>

text \<open>\<^verbatim>\<open>log_val_type\<close> is an enumeration over \<^verbatim>\<open>byte\<close>, so every byte is one of its values.\<close>

type_synonym log_val_type = u8

definition app_log :: log_val_type where "app_log = 1"
definition conf :: log_val_type where "conf = 2"
definition cluster_server :: log_val_type where "cluster_server = 3"
definition log_pack :: log_val_type where "log_pack = 4"
definition snp_sync_req :: log_val_type where "snp_sync_req = 5"
definition custom :: log_val_type where "custom = 231"

record log_entry =
  le_term :: nat
  le_type :: log_val_type
  le_buff :: "block option"
  le_timestamp_us :: nat
  le_has_crc32 :: bool
  le_crc32 :: u32

text \<open>\<^verbatim>\<open>crc32_8(buff->data_begin(), buff->size(), 0)\<close>.\<close>

definition payload :: "block \<Rightarrow> u8 list" where
  "payload m = peek m (entire_data_of_block m) (buf_size m)"

definition new_log_entry ::
    "nat \<Rightarrow> block option \<Rightarrow> log_val_type \<Rightarrow> nat \<Rightarrow> bool \<Rightarrow> u32 \<Rightarrow> bool \<Rightarrow> log_entry" where
  "new_log_entry term buff value_type log_timestamp has_crc32 crc32 compute_crc =
     (let e = \<lparr>le_term = term, le_type = value_type, le_buff = buff, le_timestamp_us = log_timestamp,
               le_has_crc32 = has_crc32, le_crc32 = crc32\<rparr>
      in case buff of
           None \<Rightarrow> e
         | Some m \<Rightarrow>
             if \<not> has_crc32 \<and> compute_crc
             then e\<lparr>le_has_crc32 := True, le_crc32 := crc32_8 (payload m) 0\<rparr>
             else e)"

definition change_buf :: "block option \<Rightarrow> log_entry \<Rightarrow> log_entry" where
  "change_buf buff e0 =
     (let e = e0\<lparr>le_buff := buff\<rparr>
      in case buff of
           None \<Rightarrow> e
         | Some m \<Rightarrow> if le_has_crc32 e then e\<lparr>le_crc32 := crc32_8 (payload m) 0\<rparr> else e)"

definition is_buf_null :: "log_entry \<Rightarrow> bool" where
  "is_buf_null e = (case le_buff e of None \<Rightarrow> True | Some _ \<Rightarrow> False)"

definition get_buf :: "log_entry \<Rightarrow> cpp_error + block" where
  "get_buf e = (case le_buff e of
     None \<Rightarrow> Inl (Runtime_Error ''get_buf cannot be called for a log_entry with nil buffer'')
   | Some m \<Rightarrow> Inr m)"

text \<open>\<^verbatim>\<open>serialize\<close> rewinds the entry's own buffer before it copies it.\<close>

definition log_entry_serialize :: "(nat \<Rightarrow> u8) \<Rightarrow> (log_entry, block) cmd" where
  "log_entry_serialize uninit e =
     (case le_buff e of
        None \<Rightarrow> (Inl Nil_Deref, e)
      | Some m \<Rightarrow>
          (case buf_set_pos 0 m of
             (Inl err, m') \<Rightarrow> (Inl err, e\<lparr>le_buff := Some m'\<rparr>)
           | (Inr _, m') \<Rightarrow>
               (run_on (buf_alloc uninit (sz_ulong + sz_byte + buf_size m'))
                  (thn (thn (put_ulong (le_term e)) (thn (put_byte (le_type e)) (put_buf m')))
                    (buf_set_pos 0)),
                e\<lparr>le_buff := Some m'\<rparr>)))"

definition log_entry_deserialize :: "(nat \<Rightarrow> u8) \<Rightarrow> (block, log_entry) cmd" where
  "log_entry_deserialize uninit =
     bnd get_ulong (\<lambda>term. bnd get_byte (\<lambda>t buf.
       bnd (lift (buf_copy uninit buf)) (\<lambda>data.
         ret (new_log_entry term (Some data) t 0 False 0 True)) buf))"

definition term_in_buffer :: "(block, nat) cmd" where
  "term_in_buffer = bnd get_ulong (\<lambda>term. thn (buf_set_pos 0) (ret term))"

subsection \<open>Server configuration\<close>

record srv_config =
  sc_id :: int
  sc_dc_id :: int
  sc_endpoint :: "u8 list"
  sc_aux :: "u8 list"
  sc_learner :: bool
  sc_new_joiner :: bool
  sc_priority :: int

definition INIT_PRIORITY :: int where "INIT_PRIORITY = 1"

definition LEARNER_FLAG :: u8 where "LEARNER_FLAG = 0x1"
definition NEW_JOINER_FLAG :: u8 where "NEW_JOINER_FLAG = 0x2"

definition new_srv_config :: "int \<Rightarrow> int \<Rightarrow> u8 list \<Rightarrow> u8 list \<Rightarrow> bool \<Rightarrow> int \<Rightarrow> srv_config" where
  "new_srv_config srv_id dc_id endpoint aux learner priority =
     \<lparr>sc_id = srv_id, sc_dc_id = dc_id, sc_endpoint = endpoint, sc_aux = aux, sc_learner = learner,
      sc_new_joiner = False, sc_priority = priority\<rparr>"

definition srv_type_byte :: "srv_config \<Rightarrow> u8" where
  "srv_type_byte c =
     (0 OR (if sc_learner c then LEARNER_FLAG else 0)) OR (if sc_new_joiner c then NEW_JOINER_FLAG else 0)"

definition srv_config_serialize :: "(nat \<Rightarrow> u8) \<Rightarrow> srv_config \<Rightarrow> cpp_error + block" where
  "srv_config_serialize uninit c =
     run_on (buf_alloc uninit
         (sz_int + sz_int + (length (sc_endpoint c) + 1) + (length (sc_aux c) + 1) + 1 + sz_int))
       (thn (thn (put_int (sc_id c)) (thn (put_int (sc_dc_id c)) (thn (put_str (sc_endpoint c))
          (thn (put_str (sc_aux c)) (thn (put_byte (srv_type_byte c)) (put_int (sc_priority c)))))))
        (buf_set_pos 0))"

definition srv_config_deserialize :: "(serializer, srv_config) cmd" where
  "srv_config_deserialize =
     bnd get_i32 (\<lambda>id. bnd get_i32 (\<lambda>dc_id. bnd get_cstr (\<lambda>endpoint. bnd get_cstr (\<lambda>aux.
     bnd get_u8 (\<lambda>srv_type. bnd get_i32 (\<lambda>priority.
       ret ((new_srv_config id dc_id endpoint aux (srv_type AND LEARNER_FLAG \<noteq> 0) priority)
              \<lparr>sc_new_joiner := (srv_type AND NEW_JOINER_FLAG \<noteq> 0)\<rparr>)))))))"

subsection \<open>Cluster configuration\<close>

record cluster_config =
  cc_log_idx :: nat
  cc_prev_log_idx :: nat
  cc_async_replication :: bool
  cc_user_ctx :: "u8 list"
  cc_servers :: "srv_config list"

definition new_cluster_config :: "nat \<Rightarrow> nat \<Rightarrow> bool \<Rightarrow> cluster_config" where
  "new_cluster_config log_idx prev_log_idx ec =
     \<lparr>cc_log_idx = log_idx, cc_prev_log_idx = prev_log_idx, cc_async_replication = ec,
      cc_user_ctx = [], cc_servers = []\<rparr>"

definition set_log_idx :: "nat \<Rightarrow> cluster_config \<Rightarrow> cluster_config" where
  "set_log_idx log_idx c = c\<lparr>cc_prev_log_idx := cc_log_idx c, cc_log_idx := log_idx\<rparr>"

definition get_server :: "int \<Rightarrow> cluster_config \<Rightarrow> srv_config option" where
  "get_server srv_id c = find (\<lambda>srv. sc_id srv = srv_id) (cc_servers c)"

definition cluster_config_serialize :: "(nat \<Rightarrow> u8) \<Rightarrow> cluster_config \<Rightarrow> cpp_error + block" where
  "cluster_config_serialize uninit c =
     bndE (mapE (srv_config_serialize uninit) (cc_servers c)) (\<lambda>srv_buffs.
       run_on (buf_alloc uninit
           (2 * sz_ulong + sz_int + sz_byte + sum_list (map buf_size srv_buffs) + sz_int
            + length (cc_user_ctx c)))
         (thn (thn (put_ulong (cc_log_idx c)) (thn (put_ulong (cc_prev_log_idx c))
            (thn (put_byte (if cc_async_replication c then 1 else 0))
            (thn (put_bytes (cc_user_ctx c)) (thn (put_int (int (length (cc_servers c))))
              (for_each srv_buffs put_buf))))))
          (buf_set_pos 0)))"

text \<open>\<^verbatim>\<open>while (cnt-- > 0)\<close> runs \<open>nat cnt\<close> times, not at all for a negative count.\<close>

definition cluster_config_deserialize :: "(serializer, cluster_config) cmd" where
  "cluster_config_deserialize =
     bnd get_u64 (\<lambda>log_idx. bnd get_u64 (\<lambda>prev_log_idx. bnd get_u8 (\<lambda>ec_byte.
     bnd bs_get_bytes (\<lambda>user_ctx. bnd get_i32 (\<lambda>cnt.
     bnd (repeat_get (nat cnt) srv_config_deserialize) (\<lambda>servers.
       ret ((new_cluster_config log_idx prev_log_idx (ec_byte \<noteq> 0))
              \<lparr>cc_servers := servers, cc_user_ctx := user_ctx\<rparr>)))))))"

subsection \<open>Snapshots\<close>

definition raw_binary :: u8 where "raw_binary = 0x1"
definition logical_object :: u8 where "logical_object = 0x2"

record snapshot =
  sn_last_log_idx :: nat
  sn_last_log_term :: nat
  sn_size :: nat
  sn_last_config :: cluster_config
  sn_type :: u8

definition snapshot_serialize :: "(nat \<Rightarrow> u8) \<Rightarrow> snapshot \<Rightarrow> cpp_error + block" where
  "snapshot_serialize uninit s =
     bndE (cluster_config_serialize uninit (sn_last_config s)) (\<lambda>conf_buf.
       run_on (buf_alloc uninit (buf_size conf_buf + sz_ulong * 3 + sz_byte))
         (thn (thn (put_byte (sn_type s)) (thn (put_ulong (sn_last_log_idx s))
            (thn (put_ulong (sn_last_log_term s)) (thn (put_ulong (sn_size s)) (put_buf conf_buf)))))
          (buf_set_pos 0)))"

definition snapshot_deserialize :: "(serializer, snapshot) cmd" where
  "snapshot_deserialize =
     bnd get_u8 (\<lambda>snp_type. bnd get_u64 (\<lambda>last_log_idx. bnd get_u64 (\<lambda>last_log_term.
     bnd get_u64 (\<lambda>size. bnd cluster_config_deserialize (\<lambda>conf.
       ret \<lparr>sn_last_log_idx = last_log_idx, sn_last_log_term = last_log_term, sn_size = size,
            sn_last_config = conf, sn_type = snp_type\<rparr>)))))"

record snapshot_sync_req =
  sr_snapshot :: snapshot
  sr_offset :: nat
  sr_data :: block
  sr_done :: bool

definition snapshot_sync_req_serialize :: "(nat \<Rightarrow> u8) \<Rightarrow> snapshot_sync_req \<Rightarrow> cpp_error + block" where
  "snapshot_sync_req_serialize uninit r =
     bndE (snapshot_serialize uninit (sr_snapshot r)) (\<lambda>snp_buf.
       run_on (buf_alloc uninit
           (buf_size snp_buf + sz_ulong + sz_byte + sub64 (buf_size (sr_data r)) (buf_pos (sr_data r))))
         (thn (thn (put_buf snp_buf) (thn (put_ulong (sr_offset r))
            (thn (put_byte (if sr_done r then 1 else 0)) (put_buf (sr_data r)))))
          (buf_set_pos 0)))"

text \<open>The rest of the message, copied into a buffer of its own.\<close>

definition sync_req_data :: "(nat \<Rightarrow> u8) \<Rightarrow> serializer \<Rightarrow> cpp_error + block" where
  "sync_req_data uninit bs =
     (if bs_pos bs < bs_size bs
      then (let src = bs_data bs; sz = bs_size bs - bs_pos bs
            in bndE (buf_alloc uninit sz) (\<lambda>b.
               bndE (fst (rd src sz (bs_buf bs))) (\<lambda>d.
               case wr (data_of_block b) d b of (Inl e, _) \<Rightarrow> Inl e | (Inr _, b') \<Rightarrow> Inr b')))
      else buf_alloc uninit 0)"

definition snapshot_sync_req_deserialize :: "(nat \<Rightarrow> u8) \<Rightarrow> (serializer, snapshot_sync_req) cmd" where
  "snapshot_sync_req_deserialize uninit =
     bnd snapshot_deserialize (\<lambda>snp. bnd get_u64 (\<lambda>offset. bnd get_u8 (\<lambda>dn. \<lambda>bs.
       bnd (lift (sync_req_data uninit bs)) (\<lambda>data.
         ret \<lparr>sr_snapshot = snp, sr_offset = offset, sr_data = data, sr_done = (dn = 1)\<rparr>) bs)))"

subsection \<open>Server state\<close>

text \<open>\<open>ss_inc_term_cb\<close> is the user's callback, when one is set.\<close>

record srv_state =
  ss_term :: nat
  ss_voted_for :: int
  ss_election_timer_allowed :: bool
  ss_catching_up :: bool
  ss_receiving_snapshot :: bool
  ss_inc_term_cb :: "(nat \<Rightarrow> nat) option"

definition new_srv_state :: "nat \<Rightarrow> int \<Rightarrow> bool \<Rightarrow> bool \<Rightarrow> bool \<Rightarrow> srv_state" where
  "new_srv_state term voted_for et_allowed catching_up receiving_snapshot =
     \<lparr>ss_term = term, ss_voted_for = voted_for, ss_election_timer_allowed = et_allowed,
      ss_catching_up = catching_up, ss_receiving_snapshot = receiving_snapshot,
      ss_inc_term_cb = None\<rparr>"

definition default_srv_state :: srv_state where
  "default_srv_state = new_srv_state 0 (-1) True False False"

definition inc_term :: "(srv_state, unit) cmd" where
  "inc_term s =
     (case ss_inc_term_cb s of
        Some cb \<Rightarrow>
          (let new_term = cb (ss_term s)
           in if \<not> new_term > ss_term s then (Inl Assert_Failure, s)
              else (Inr (), s\<lparr>ss_term := new_term\<rparr>))
      | None \<Rightarrow> (Inr (), s\<lparr>ss_term := add64 (ss_term s) 1\<rparr>))"

definition deserialize_v0 :: "(block, srv_state) cmd" where
  "deserialize_v0 =
     bnd get_ulong (\<lambda>term. bnd get_int (\<lambda>voted_for. ret (new_srv_state term voted_for True False False)))"

text \<open>The optional flags: one more byte when the version has it and there is one left.\<close>

definition get_flag_since_v2 :: "u8 \<Rightarrow> (serializer, bool) cmd" where
  "get_flag_since_v2 ver bs =
     (if ver \<ge> 2 \<and> bs_pos bs < buf_size (bs_buf bs)
      then bnd get_u8 (\<lambda>b. ret (b = 1)) bs else ret False bs)"

definition deserialize_v1p :: "(serializer, srv_state) cmd" where
  "deserialize_v1p =
     bnd get_u8 (\<lambda>ver. bnd get_u64 (\<lambda>term. bnd get_i32 (\<lambda>voted_for. bnd get_u8 (\<lambda>et.
     bnd (get_flag_since_v2 ver) (\<lambda>catching_up. bnd (get_flag_since_v2 ver) (\<lambda>receiving_snapshot.
       ret (new_srv_state term voted_for (et = 1) catching_up receiving_snapshot)))))))"

definition srv_state_deserialize :: "block \<Rightarrow> cpp_error + srv_state" where
  "srv_state_deserialize buf =
     (if buf_size buf > sz_ulong + sz_int
      then fst (deserialize_v1p (new_serializer LITTLE buf))
      else fst (deserialize_v0 buf))"

definition serialize_v0 :: "(nat \<Rightarrow> u8) \<Rightarrow> srv_state \<Rightarrow> cpp_error + block" where
  "serialize_v0 uninit s =
     run_on (buf_alloc uninit (sz_ulong + sz_int))
       (thn (thn (put_ulong (ss_term s)) (put_int (ss_voted_for s))) (buf_set_pos 0))"

definition state_puts :: "u8 \<Rightarrow> srv_state \<Rightarrow> (serializer, unit) cmd" where
  "state_puts version s =
     thn (put_u8 version) (thn (put_u64 (ss_term s)) (thn (put_i32 (ss_voted_for s))
       (thn (put_u8 (if ss_election_timer_allowed s then 1 else 0))
         (if version \<ge> 2
          then thn (put_u8 (if ss_catching_up s then 1 else 0))
                 (put_u8 (if ss_receiving_snapshot s then 1 else 0))
          else ret ()))))"

definition serialize_v1p :: "(nat \<Rightarrow> u8) \<Rightarrow> u8 \<Rightarrow> srv_state \<Rightarrow> cpp_error + block" where
  "serialize_v1p uninit version s =
     (let buf_len = 1 + 8 + 4 + 1 + (if version \<ge> 2 then 1 + 1 else 0)
      in bndE (buf_alloc uninit buf_len) (\<lambda>buf.
           case state_puts version s (new_serializer LITTLE buf) of
             (Inl e, _) \<Rightarrow> Inl e | (Inr _, bs) \<Rightarrow> Inr (bs_buf bs)))"

definition CURRENT_VERSION :: u8 where "CURRENT_VERSION = 2"

definition srv_state_serialize :: "(nat \<Rightarrow> u8) \<Rightarrow> srv_state \<Rightarrow> cpp_error + block" where
  "srv_state_serialize uninit s = serialize_v1p uninit CURRENT_VERSION s"

subsection \<open>Byte formats\<close>

definition i32 :: "int \<Rightarrow> bool" where
  "i32 v \<longleftrightarrow> - (2 ^ 31) \<le> v \<and> v < 2 ^ 31"

definition enc_srv :: "srv_config \<Rightarrow> u8 list" where
  "enc_srv c = bytes_le 4 (sc_id c) @ bytes_le 4 (sc_dc_id c) @ (sc_endpoint c @ [0]) @ (sc_aux c @ [0])
     @ [srv_type_byte c] @ bytes_le 4 (sc_priority c)"

definition srv_ok :: "srv_config \<Rightarrow> bool" where
  "srv_ok c \<longleftrightarrow> i32 (sc_id c) \<and> i32 (sc_dc_id c) \<and> i32 (sc_priority c) \<and>
     0 \<notin> set (sc_endpoint c) \<and> 0 \<notin> set (sc_aux c)"

definition enc_cluster :: "cluster_config \<Rightarrow> u8 list" where
  "enc_cluster c = bytes_le 8 (int (cc_log_idx c)) @ bytes_le 8 (int (cc_prev_log_idx c))
     @ [if cc_async_replication c then 1 else 0]
     @ (bytes_le 4 (int (length (cc_user_ctx c))) @ cc_user_ctx c)
     @ bytes_le 4 (int (length (cc_servers c))) @ concat (map enc_srv (cc_servers c))"

definition cluster_ok :: "cluster_config \<Rightarrow> bool" where
  "cluster_ok c \<longleftrightarrow> cc_log_idx c < 2 ^ 64 \<and> cc_prev_log_idx c < 2 ^ 64 \<and> list_all srv_ok (cc_servers c)"

definition enc_snapshot :: "snapshot \<Rightarrow> u8 list" where
  "enc_snapshot s = [sn_type s] @ bytes_le 8 (int (sn_last_log_idx s)) @ bytes_le 8 (int (sn_last_log_term s))
     @ bytes_le 8 (int (sn_size s)) @ enc_cluster (sn_last_config s)"

definition snapshot_ok :: "snapshot \<Rightarrow> bool" where
  "snapshot_ok s \<longleftrightarrow> sn_last_log_idx s < 2 ^ 64 \<and> sn_last_log_term s < 2 ^ 64 \<and> sn_size s < 2 ^ 64 \<and>
     cluster_ok (sn_last_config s)"

lemma bytes_order [simp]: "order_bytes LITTLE bs = bs"
  by (simp add: order_bytes_def)

lemma srv_type_byte_flags:
  "srv_type_byte c AND LEARNER_FLAG \<noteq> 0 \<longleftrightarrow> sc_learner c"
  "srv_type_byte c AND NEW_JOINER_FLAG \<noteq> 0 \<longleftrightarrow> sc_new_joiner c"
  by (simp_all add: srv_type_byte_def LEARNER_FLAG_def NEW_JOINER_FLAG_def)

subsection \<open>Server and cluster configuration\<close>

lemma srv_config_serialize_blk:
  assumes "length (enc_srv c) < 2 ^ 31"
  shows "srv_config_serialize u c = Inr (blk 0 (enc_srv c))"
  unfolding srv_config_serialize_def
proof (rule alloc_emits)
  show "emits blk (thn (put_int (sc_id c)) (thn (put_int (sc_dc_id c)) (thn (put_str (sc_endpoint c))
      (thn (put_str (sc_aux c)) (thn (put_byte (srv_type_byte c)) (put_int (sc_priority c)))))))
    (enc_srv c)"
    unfolding enc_srv_def by (intro emits_thn emits_put_int emits_put_str emits_put_byte)
qed (use assms in \<open>simp_all add: enc_srv_def\<close>)

lemma parses_i32_le: "i32 v \<Longrightarrow> parses (srl LITTLE q) get_i32 (bytes_le 4 v) v"
  using s_i32.get_parses [of v LITTLE q] by (simp add: i32_def)

lemma parses_u64_le: "v < 2 ^ 64 \<Longrightarrow> parses (srl LITTLE q) get_u64 (bytes_le 8 (int v)) v"
  using s_u64.get_parses [of v LITTLE q] by simp

lemma parses_bytes_le:
  "length bs < 2 ^ 31 \<Longrightarrow> parses (srl LITTLE q) bs_get_bytes (bytes_le 4 (int (length bs)) @ bs) bs"
  using s_bytes.get_parses [of bs LITTLE q] by simp

lemma parses_srv_config:
  assumes "srv_ok c"
  shows "parses (srl LITTLE q) srv_config_deserialize (enc_srv c) c"
proof -
  have c: "(new_srv_config (sc_id c) (sc_dc_id c) (sc_endpoint c) (sc_aux c)
        (srv_type_byte c AND LEARNER_FLAG \<noteq> 0) (sc_priority c))
      \<lparr>sc_new_joiner := (srv_type_byte c AND NEW_JOINER_FLAG \<noteq> 0)\<rparr> = c"
    unfolding srv_type_byte_flags by (simp add: new_srv_config_def)
  have i1: "parses (srl LITTLE q) get_i32 (bytes_le 4 (sc_id c)) (sc_id c)"
    and i2: "parses (srl LITTLE q) get_i32 (bytes_le 4 (sc_dc_id c)) (sc_dc_id c)"
    and i3: "parses (srl LITTLE q) get_i32 (bytes_le 4 (sc_priority c)) (sc_priority c)"
    and s1: "parses (srl LITTLE q) get_cstr (sc_endpoint c @ [0]) (sc_endpoint c)"
    and s2: "parses (srl LITTLE q) get_cstr (sc_aux c @ [0]) (sc_aux c)"
    using assms by (simp_all add: srv_ok_def parses_i32_le parses_get_cstr)
  have "parses (srl LITTLE q) srv_config_deserialize (enc_srv c)
     ((new_srv_config (sc_id c) (sc_dc_id c) (sc_endpoint c) (sc_aux c)
        (srv_type_byte c AND LEARNER_FLAG \<noteq> 0) (sc_priority c))
      \<lparr>sc_new_joiner := (srv_type_byte c AND NEW_JOINER_FLAG \<noteq> 0)\<rparr>)"
    unfolding srv_config_deserialize_def enc_srv_def
    by (rule parses_bnd parses_bnd_ret i1 i2 i3 s1 s2 parses_get_ints(1))+
  then show ?thesis by (simp only: c)
qed

lemma for_each_map: "for_each (map h xs) f = for_each xs (\<lambda>x. f (h x))"
  by (induction xs) simp_all

lemma sum_list_enc: "sum_list (map (\<lambda>c. length (enc_srv c)) cs) = length (concat (map enc_srv cs))"
  by (simp add: length_concat comp_def)

lemma enc_srv_le: "c \<in> set cs \<Longrightarrow> length (enc_srv c) \<le> length (concat (map enc_srv cs))"
  using member_le_sum_list [of "length (enc_srv c)" "map (\<lambda>c. length (enc_srv c)) cs"]
  by (simp add: length_concat comp_def)

lemma cluster_config_serialize_blk:
  assumes "length (enc_cluster c) < 2 ^ 31"
  shows "cluster_config_serialize u c = Inr (blk 0 (enc_cluster c))"
proof -
  let ?bs = "map (\<lambda>x. blk 0 (enc_srv x)) (cc_servers c)"
  have len: "length (enc_srv x) < 2 ^ 31" if "x \<in> set (cc_servers c)" for x
    using enc_srv_le [OF that] assms by (simp add: enc_cluster_def)
  then have srvs: "mapE (srv_config_serialize u) (cc_servers c) = Inr ?bs"
    by (intro mapE_Inr srv_config_serialize_blk)
  have sizes: "sum_list (map buf_size ?bs) = length (concat (map enc_srv (cc_servers c)))"
    using len by (simp add: sum_list_enc [symmetric] buf_simps comp_def cong: map_cong)
  have puts: "emits blk (for_each ?bs put_buf) (concat (map enc_srv (cc_servers c)))"
    unfolding for_each_map
  proof (rule emits_for_each)
    fix x assume "x \<in> set (cc_servers c)"
    then show "emits blk (put_buf (blk 0 (enc_srv x))) (enc_srv x)"
      using emits_put_buf [of 0 "enc_srv x"] len by simp
  qed
  have "run_on (buf_alloc u (2 * sz_ulong + sz_int + sz_byte + sum_list (map buf_size ?bs) + sz_int
            + length (cc_user_ctx c)))
         (thn (thn (put_ulong (cc_log_idx c)) (thn (put_ulong (cc_prev_log_idx c))
            (thn (put_byte (if cc_async_replication c then 1 else 0))
            (thn (put_bytes (cc_user_ctx c)) (thn (put_int (int (length (cc_servers c))))
              (for_each ?bs put_buf)))))) (buf_set_pos 0)) = Inr (blk 0 (enc_cluster c))"
  proof (rule alloc_emits)
    show "emits blk (thn (put_ulong (cc_log_idx c)) (thn (put_ulong (cc_prev_log_idx c))
            (thn (put_byte (if cc_async_replication c then 1 else 0))
            (thn (put_bytes (cc_user_ctx c)) (thn (put_int (int (length (cc_servers c))))
              (for_each ?bs put_buf)))))) (enc_cluster c)"
      unfolding enc_cluster_def
      by (intro emits_thn emits_put_ulong emits_put_byte emits_put_bytes emits_put_int puts)
  qed (use assms sizes in \<open>simp_all add: enc_cluster_def\<close>)
  with srvs show ?thesis
    by (simp add: cluster_config_serialize_def)
qed

interpretation srv_reader: buf_reader "srl LITTLE q" enc_srv srv_config_deserialize srv_ok for q
  by unfold_locales (rule parses_srv_config)

lemma length_enc_srv: "length (enc_srv c) = 15 + length (sc_endpoint c) + length (sc_aux c)"
  by (simp add: enc_srv_def)

lemma servers_le_enc: "length cs \<le> length (concat (map enc_srv cs))"
  by (induction cs) (simp_all add: length_enc_srv)

lemma parses_cluster_config:
  assumes "cluster_ok c" and "length (enc_cluster c) < 2 ^ 31"
  shows "parses (srl LITTLE q) cluster_config_deserialize (enc_cluster c) c"
proof -
  have u1: "parses (srl LITTLE q) get_u64 (bytes_le 8 (int (cc_log_idx c))) (cc_log_idx c)"
    and u2: "parses (srl LITTLE q) get_u64 (bytes_le 8 (int (cc_prev_log_idx c))) (cc_prev_log_idx c)"
    using assms(1) by (simp_all add: cluster_ok_def parses_u64_le)
  have ctx: "parses (srl LITTLE q) bs_get_bytes
      (bytes_le 4 (int (length (cc_user_ctx c))) @ cc_user_ctx c) (cc_user_ctx c)"
    using assms(2) by (intro parses_bytes_le) (simp add: enc_cluster_def)
  have cnt: "parses (srl LITTLE q) get_i32 (bytes_le 4 (int (length (cc_servers c)))) (int (length (cc_servers c)))"
    using assms(2) servers_le_enc [of "cc_servers c"]
    by (intro parses_i32_le) (simp add: i32_def enc_cluster_def)
  have srvs: "parses (srl LITTLE q) (repeat_get (nat (int (length (cc_servers c)))) srv_config_deserialize)
      (concat (map enc_srv (cc_servers c))) (cc_servers c)"
    using srv_reader.gets_parse [of "cc_servers c" q] assms(1) by (simp add: cluster_ok_def)
  have "parses (srl LITTLE q) cluster_config_deserialize (enc_cluster c)
     ((new_cluster_config (cc_log_idx c) (cc_prev_log_idx c)
         ((if cc_async_replication c then 1 else 0) \<noteq> (0 :: u8)))
       \<lparr>cc_servers := cc_servers c, cc_user_ctx := cc_user_ctx c\<rparr>)"
    unfolding cluster_config_deserialize_def enc_cluster_def
    by (rule parses_bnd parses_bnd_ret u1 u2 ctx cnt srvs parses_get_ints(1))+
  moreover have "(new_cluster_config (cc_log_idx c) (cc_prev_log_idx c)
         ((if cc_async_replication c then 1 else 0) \<noteq> (0 :: u8)))
       \<lparr>cc_servers := cc_servers c, cc_user_ctx := cc_user_ctx c\<rparr> = c"
    by (simp add: new_cluster_config_def)
  ultimately show ?thesis by (simp only:)
qed

subsection \<open>Snapshots\<close>

lemma length_enc_snapshot: "length (enc_snapshot s) = 25 + length (enc_cluster (sn_last_config s))"
  by (simp add: enc_snapshot_def)

lemma snapshot_serialize_blk:
  assumes "length (enc_snapshot s) < 2 ^ 31"
  shows "snapshot_serialize u s = Inr (blk 0 (enc_snapshot s))"
proof -
  let ?conf = "blk 0 (enc_cluster (sn_last_config s))"
  have len: "length (enc_cluster (sn_last_config s)) < 2 ^ 31"
    using assms by (simp add: length_enc_snapshot)
  have conf: "emits blk (put_buf ?conf) (enc_cluster (sn_last_config s))"
    using emits_put_buf [of 0 "enc_cluster (sn_last_config s)"] len by simp
  have "run_on (buf_alloc u (buf_size ?conf + sz_ulong * 3 + sz_byte))
         (thn (thn (put_byte (sn_type s)) (thn (put_ulong (sn_last_log_idx s))
            (thn (put_ulong (sn_last_log_term s)) (thn (put_ulong (sn_size s)) (put_buf ?conf)))))
          (buf_set_pos 0)) = Inr (blk 0 (enc_snapshot s))"
  proof (rule alloc_emits)
    show "emits blk (thn (put_byte (sn_type s)) (thn (put_ulong (sn_last_log_idx s))
            (thn (put_ulong (sn_last_log_term s)) (thn (put_ulong (sn_size s)) (put_buf ?conf)))))
          (enc_snapshot s)"
      unfolding enc_snapshot_def by (intro emits_thn emits_put_byte emits_put_ulong conf)
  qed (use assms len in \<open>simp_all add: length_enc_snapshot buf_simps\<close>)
  then show ?thesis
    by (simp add: snapshot_serialize_def cluster_config_serialize_blk [OF len])
qed

lemma parses_snapshot:
  assumes "snapshot_ok s" and "length (enc_snapshot s) < 2 ^ 31"
  shows "parses (srl LITTLE q) snapshot_deserialize (enc_snapshot s) s"
proof -
  have u1: "parses (srl LITTLE q) get_u64 (bytes_le 8 (int (sn_last_log_idx s))) (sn_last_log_idx s)"
    and u2: "parses (srl LITTLE q) get_u64 (bytes_le 8 (int (sn_last_log_term s))) (sn_last_log_term s)"
    and u3: "parses (srl LITTLE q) get_u64 (bytes_le 8 (int (sn_size s))) (sn_size s)"
    using assms(1) by (simp_all add: snapshot_ok_def parses_u64_le)
  have conf: "parses (srl LITTLE q) cluster_config_deserialize (enc_cluster (sn_last_config s)) (sn_last_config s)"
    using assms by (intro parses_cluster_config) (simp_all add: snapshot_ok_def length_enc_snapshot)
  have "parses (srl LITTLE q) snapshot_deserialize (enc_snapshot s)
      \<lparr>sn_last_log_idx = sn_last_log_idx s, sn_last_log_term = sn_last_log_term s, sn_size = sn_size s,
       sn_last_config = sn_last_config s, sn_type = sn_type s\<rparr>"
    unfolding snapshot_deserialize_def enc_snapshot_def
    by (rule parses_bnd parses_bnd_ret u1 u2 u3 conf parses_get_ints(1))+
  then show ?thesis by (cases s) simp
qed

definition enc_sync_req :: "snapshot_sync_req \<Rightarrow> u8 list \<Rightarrow> u8 list" where
  "enc_sync_req r d = enc_snapshot (sr_snapshot r) @ bytes_le 8 (int (sr_offset r))
     @ [if sr_done r then 1 else 0] @ d"

lemma snapshot_sync_req_serialize_blk:
  assumes "sr_data r = blk p d" and "p \<le> length d" and "length d < 2 ^ 31"
    and "length (enc_sync_req r (drop p d)) < 2 ^ 31"
  shows "snapshot_sync_req_serialize u r = Inr (blk 0 (enc_sync_req r (drop p d)))"
proof -
  let ?snp = "blk 0 (enc_snapshot (sr_snapshot r))"
  have len: "length (enc_snapshot (sr_snapshot r)) < 2 ^ 31"
    using assms(4) by (simp add: enc_sync_req_def)
  have snp: "emits blk (put_buf ?snp) (enc_snapshot (sr_snapshot r))"
    using emits_put_buf [of 0 "enc_snapshot (sr_snapshot r)"] len by simp
  have data: "emits blk (put_buf (sr_data r)) (drop p d)"
    using assms(1-3) by (simp add: emits_put_buf)
  have "run_on (buf_alloc u
           (buf_size ?snp + sz_ulong + sz_byte + sub64 (buf_size (sr_data r)) (buf_pos (sr_data r))))
         (thn (thn (put_buf ?snp) (thn (put_ulong (sr_offset r))
            (thn (put_byte (if sr_done r then 1 else 0)) (put_buf (sr_data r)))))
          (buf_set_pos 0)) = Inr (blk 0 (enc_sync_req r (drop p d)))"
  proof (rule alloc_emits)
    show "emits blk (thn (put_buf ?snp) (thn (put_ulong (sr_offset r))
            (thn (put_byte (if sr_done r then 1 else 0)) (put_buf (sr_data r)))))
        (enc_sync_req r (drop p d))"
      unfolding enc_sync_req_def by (intro emits_thn emits_put_byte emits_put_ulong snp data)
  qed (use assms len in \<open>simp_all add: enc_sync_req_def buf_simps\<close>)
  then show ?thesis
    by (simp add: snapshot_sync_req_serialize_def snapshot_serialize_blk [OF len])
qed

lemma sync_req_data_srl:
  assumes "length (w @ d) < 2 ^ 31"
  shows "sync_req_data u (srl e q (length w) (w @ d)) = Inr (blk 0 d)"
proof (cases "d = []")
  case True
  obtain x where "length x = 0" "buf_alloc u 0 = Inr (blk 0 x)"
    by (rule alloc_blk [of 0]) simp_all
  with True assms show ?thesis
    by (simp add: sync_req_data_def bs_size_def buf_simps)
next
  case False
  obtain x where x: "length x = length d" "buf_alloc u (length d) = Inr (blk 0 x)"
    by (rule alloc_blk [of "length d"]) (use assms in simp_all)
  have "peek (w @ d) (length w) (length d) = d"
    using peek_prefix [of w d "[]"] by simp
  moreover have "wr (hdr_len x) d (blk 0 x) = (Inr (), blk 0 d)"
    using x wr_blk_begin [of d x 0] by (simp add: poke_def)
  ultimately show ?thesis
    using False assms x by (simp add: sync_req_data_def bs_size_def buf_simps Let_def)
qed

text \<open>
  C21. A snapshot transfer message survives its byte format. What \<^verbatim>\<open>snapshot_sync_req::serialize\<close>
  writes, with the snapshot, its cluster configuration and the list of servers inside,
  \<^verbatim>\<open>deserialize\<close> reads back field by field, whatever the fresh memory held; the data part is
  what lay behind the cursor of the sender's data buffer. The strings must be free of null
  characters and the numbers within their C++ types.
\<close>

theorem snapshot_sync_req_roundtrip:
  assumes "snapshot_ok (sr_snapshot r)" and "sr_offset r < 2 ^ 64"
    and "sr_data r = blk p d" and "p \<le> length d" and "length d < 2 ^ 31"
    and "length (enc_sync_req r (drop p d)) < 2 ^ 31"
  shows "\<exists>m. snapshot_sync_req_serialize u r = Inr m \<and>
    fst (snapshot_sync_req_deserialize u' (new_serializer LITTLE m)) = Inr (r\<lparr>sr_data := blk 0 (drop p d)\<rparr>)"
proof -
  let ?bs = "enc_sync_req r (drop p d)"
  let ?snp = "enc_snapshot (sr_snapshot r)" and ?off = "bytes_le 8 (int (sr_offset r))"
  let ?done = "[if sr_done r then 1 else 0 :: u8]"
  have len: "length (?snp @ ?off @ ?done @ drop p d) < 2 ^ 31"
    using assms(6) by (simp add: enc_sync_req_def)
  have 1: "snapshot_deserialize (srl LITTLE 0 0 ?bs) =
      (Inr (sr_snapshot r), srl LITTLE 0 (length ?snp) ?bs)"
    using parsesD [OF parses_snapshot [OF assms(1), of 0], of "[]" "?off @ ?done @ drop p d"] len
    by (simp add: enc_sync_req_def)
  have 2: "get_u64 (srl LITTLE 0 (length ?snp) ?bs) =
      (Inr (sr_offset r), srl LITTLE 0 (length (?snp @ ?off)) ?bs)"
    using parsesD [OF parses_u64_le [OF assms(2), of 0], of ?snp "?done @ drop p d"] len
    by (simp add: enc_sync_req_def)
  have 3: "get_u8 (srl LITTLE 0 (length (?snp @ ?off)) ?bs) =
      (Inr (if sr_done r then 1 else 0), srl LITTLE 0 (length (?snp @ ?off @ ?done)) ?bs)"
    using parsesD [OF parses_get_ints(1) [of LITTLE 0 "if sr_done r then 1 else 0"], of "?snp @ ?off" "drop p d"] len
    by (simp add: enc_sync_req_def)
  have 4: "sync_req_data u' (srl LITTLE 0 (length (?snp @ ?off @ ?done)) ?bs) = Inr (blk 0 (drop p d))"
    using sync_req_data_srl [of "?snp @ ?off @ ?done" "drop p d" u' LITTLE 0] len
    by (simp add: enc_sync_req_def)
  have "fst (snapshot_sync_req_deserialize u' (srl LITTLE 0 0 ?bs)) = Inr (r\<lparr>sr_data := blk 0 (drop p d)\<rparr>)"
    using 1 2 3 4 by (simp add: snapshot_sync_req_deserialize_def bnd_def)
  then show ?thesis
    using snapshot_sync_req_serialize_blk [OF assms(3-6)] by (simp add: new_serializer_srl)
qed

theorem snapshot_sync_req_roundtrip_witness:
  "let srv = new_srv_config 1 0 [104, 49] [] False 100;
       r = \<lparr>sr_snapshot = \<lparr>sn_last_log_idx = 10, sn_last_log_term = 2, sn_size = 3,
               sn_last_config = (new_cluster_config 4 1 False)\<lparr>cc_servers := [srv]\<rparr>,
               sn_type = logical_object\<rparr>,
            sr_offset = 7, sr_data = blk 1 [9, 8], sr_done = True\<rparr>
   in \<exists>m. snapshot_sync_req_serialize (\<lambda>_. 0xAA) r = Inr m \<and>
        fst (snapshot_sync_req_deserialize (\<lambda>_. 0xBB) (new_serializer LITTLE m)) = Inr (r\<lparr>sr_data := blk 0 [8]\<rparr>)"
  unfolding Let_def
  using snapshot_sync_req_roundtrip [of
      "\<lparr>sr_snapshot = \<lparr>sn_last_log_idx = 10, sn_last_log_term = 2, sn_size = 3,
          sn_last_config = (new_cluster_config 4 1 False)\<lparr>cc_servers := [new_srv_config 1 0 [104, 49] [] False 100]\<rparr>,
          sn_type = logical_object\<rparr>,
        sr_offset = 7, sr_data = blk 1 [9, 8], sr_done = True\<rparr>" 1 "[9, 8]" "\<lambda>_. 0xAA" "\<lambda>_. 0xBB"]
  by (simp add: snapshot_ok_def cluster_ok_def srv_ok_def i32_def new_srv_config_def new_cluster_config_def
      enc_sync_req_def enc_snapshot_def enc_cluster_def enc_srv_def)

subsection \<open>Log entries\<close>

lemma payload_blk [buf_simps]: "p \<le> length d \<Longrightarrow> length d < 2 ^ 31 \<Longrightarrow> payload (blk p d) = d"
  using rd_blk_begin [of d p]
  by (simp add: payload_def buf_simps rd_def length_blk split: if_splits)

text \<open>
  C24. A log entry survives its byte format: what \<^verbatim>\<open>log_entry::serialize\<close> writes is nine bytes and
  the whole payload, from its first byte on even when the entry's buffer had been read up to
  some position, and \<^verbatim>\<open>deserialize\<close> returns term, type and payload. The timestamp is not part
  of the format; the checksum is computed anew from the payload. \<^verbatim>\<open>term_in_buffer\<close> reads the
  term of the same bytes without consuming them.
\<close>

theorem log_entry_roundtrip:
  assumes "le_term e < 2 ^ 64" and "le_buff e = Some (blk p d)" and "p \<le> length d"
    and "9 + length d < 2 ^ 31"
  shows "\<exists>m. log_entry_serialize u e = (Inr m, e\<lparr>le_buff := Some (blk 0 d)\<rparr>) \<and>
    buf_size m = 9 + length d \<and>
    fst (log_entry_deserialize u' m) =
      Inr \<lparr>le_term = le_term e, le_type = le_type e, le_buff = Some (blk 0 d), le_timestamp_us = 0,
           le_has_crc32 = True, le_crc32 = crc32_8 d 0\<rparr> \<and>
    term_in_buffer m = (Inr (le_term e), m)"
proof -
  let ?t = "bytes_le 8 (int (le_term e))"
  let ?bs = "?t @ [le_type e] @ d"
  have d: "emits blk (put_buf (blk 0 d)) d"
    using emits_put_buf [of 0 d] assms(4) by simp
  have "emits blk (thn (put_ulong (le_term e)) (thn (put_byte (le_type e)) (put_buf (blk 0 d)))) ?bs"
    by (intro emits_thn emits_put_ulong emits_put_byte d)
  then have "run_on (buf_alloc u (9 + length d))
      (thn (thn (put_ulong (le_term e)) (thn (put_byte (le_type e)) (put_buf (blk 0 d)))) (buf_set_pos 0))
      = Inr (blk 0 ?bs)"
    by (rule alloc_emits) (use assms(4) in simp_all)
  then have ser: "log_entry_serialize u e = (Inr (blk 0 ?bs), e\<lparr>le_buff := Some (blk 0 d)\<rparr>)"
    using assms by (simp add: log_entry_serialize_def buf_simps)
  have 1: "get_ulong (blk 0 ?bs) = (Inr (le_term e), blk 8 ?bs)"
    using parsesD [OF parses_get_ulong [OF assms(1)], of "[]" "[le_type e] @ d"] assms(4) by simp
  have 2: "get_byte (blk 8 ?bs) = (Inr (le_type e), blk 9 ?bs)"
    using parsesD [OF parses_get_byte [of "le_type e"], of ?t d] assms(4) by simp
  have 3: "buf_copy u' (blk 9 ?bs) = Inr (blk 0 d)"
    using buf_copy_blk [of 9 ?bs u'] assms(4) by simp
  have "fst (log_entry_deserialize u' (blk 0 ?bs)) =
      Inr \<lparr>le_term = le_term e, le_type = le_type e, le_buff = Some (blk 0 d), le_timestamp_us = 0,
           le_has_crc32 = True, le_crc32 = crc32_8 d 0\<rparr>"
    using 1 2 3 assms(4) by (simp add: log_entry_deserialize_def bnd_def new_log_entry_def buf_simps)
  moreover have "term_in_buffer (blk 0 ?bs) = (Inr (le_term e), blk 0 ?bs)"
    using 1 assms(4) by (simp add: term_in_buffer_def bnd_def thn_def buf_simps)
  moreover have "buf_size (blk 0 ?bs) = 9 + length d"
    using assms(4) by (simp add: buf_simps)
  ultimately show ?thesis using ser by blast
qed

theorem log_entry_roundtrip_witness:
  "\<exists>m. log_entry_serialize (\<lambda>_. 0xCC) (new_log_entry 3 (Some (blk 2 [1, 2, 3])) app_log 55 False 0 True)
      = (Inr m, new_log_entry 3 (Some (blk 0 [1, 2, 3])) app_log 55 False 0 True) \<and>
    buf_size m = 12 \<and> term_in_buffer m = (Inr 3, m)"
  using log_entry_roundtrip [of "new_log_entry 3 (Some (blk 2 [1, 2, 3])) app_log 55 False 0 True" 2 "[1, 2, 3]"
      "\<lambda>_. 0xCC" "\<lambda>_. 0"]
  by (auto simp: new_log_entry_def buf_simps)

subsection \<open>Server state\<close>

definition enc_state :: "u8 \<Rightarrow> srv_state \<Rightarrow> u8 list" where
  "enc_state version s = [version] @ bytes_le 8 (int (ss_term s)) @ bytes_le 4 (ss_voted_for s)
     @ [if ss_election_timer_allowed s then 1 else 0]
     @ (if version \<ge> 2
        then [if ss_catching_up s then 1 else 0] @ [if ss_receiving_snapshot s then 1 else 0] else [])"

lemma emits_u64_le: "emits (srl LITTLE q) (put_u64 n) (bytes_le 8 (int n))"
  using emits_put_ints(4) [of LITTLE q n] by simp

lemma emits_i32_le: "emits (srl LITTLE q) (put_i32 i) (bytes_le 4 i)"
  using emits_put_ints(7) [of LITTLE q i] by simp

lemma length_enc_state: "length (enc_state version s) = 14 + (if version \<ge> 2 then 2 else 0)"
  by (simp add: enc_state_def)

lemma emits_state_puts: "emits (srl LITTLE q) (state_puts version s) (enc_state version s)"
proof -
  have flags: "emits (srl LITTLE q) (if version \<ge> 2
                    then thn (put_u8 (if ss_catching_up s then 1 else 0))
                           (put_u8 (if ss_receiving_snapshot s then 1 else 0))
                    else ret ())
      (if version \<ge> 2
        then [if ss_catching_up s then 1 else 0] @ [if ss_receiving_snapshot s then 1 else 0] else [])"
    using emits_thn [OF emits_put_ints(1) emits_put_ints(1)] emits_ret by (auto simp del: append.simps ret_simp)
  show ?thesis
    unfolding state_puts_def enc_state_def
    by (intro emits_thn emits_u64_le emits_i32_le emits_put_ints(1) flags)
qed

lemma serialize_v1p_blk: "serialize_v1p u version s = Inr (blk 0 (enc_state version s))"
proof -
  let ?bs = "enc_state version s"
  obtain r where r: "length r = length ?bs" "buf_alloc u (length ?bs) = Inr (blk 0 r)"
    by (rule alloc_blk [of "length ?bs"]) (simp_all add: length_enc_state)
  then have "state_puts version s (srl LITTLE 0 0 r) = (Inr (), srl LITTLE 0 (length ?bs) ?bs)"
    using emitsD [OF emits_state_puts, of version s r 0] by (simp add: length_enc_state)
  then have "(case state_puts version s (new_serializer LITTLE (blk 0 r)) of
      (Inl e, _) \<Rightarrow> Inl e | (Inr _, bs) \<Rightarrow> Inr (bs_buf bs)) = Inr (blk 0 ?bs)"
    by (simp add: new_serializer_srl)
  moreover have "buf_alloc u (1 + 8 + 4 + 1 + (if version \<ge> 2 then 1 + 1 else 0)) = Inr (blk 0 r)"
    using r(2) by (simp add: length_enc_state split: if_splits)
  ultimately show ?thesis
    by (simp only: serialize_v1p_def Let_def bndE_simps)
qed

lemma flag_since_v2_present:
  assumes "2 \<le> ver" and "length (w @ [if b then 1 else 0] @ r) < 2 ^ 31"
  shows "get_flag_since_v2 ver (srl e q (length w) (w @ [if b then 1 else 0] @ r)) =
    (Inr b, srl e q (Suc (length w)) (w @ [if b then 1 else 0] @ r))"
proof -
  have "parses (srl e q) (bnd get_u8 (\<lambda>x. ret (x = 1))) [if b then 1 else 0] ((if b then 1 else 0) = (1 :: u8))"
    by (rule parses_bnd_ret) (rule parses_get_ints)
  from parsesD [OF this, of w r] show ?thesis
    using assms by (simp add: get_flag_since_v2_def buf_simps del: ret_simp)
qed

lemma flag_since_v2_absent:
  "length d < 2 ^ 31 \<Longrightarrow> \<not> 2 \<le> ver \<or> length d \<le> p \<Longrightarrow>
    get_flag_since_v2 ver (srl e q p d) = (Inr False, srl e q p d)"
  by (auto simp: get_flag_since_v2_def buf_simps)

lemma deserialize_v1p_head:
  assumes "ss_term s < 2 ^ 64" and "i32 (ss_voted_for s)" and "length (enc_state ver s) \<le> 16"
  shows "deserialize_v1p (srl LITTLE 0 0 (enc_state ver s)) =
    bnd (get_flag_since_v2 ver) (\<lambda>catching_up. bnd (get_flag_since_v2 ver) (\<lambda>receiving_snapshot.
       ret (new_srv_state (ss_term s) (ss_voted_for s) (ss_election_timer_allowed s)
              catching_up receiving_snapshot))) (srl LITTLE 0 14 (enc_state ver s))"
proof -
  let ?t = "bytes_le 8 (int (ss_term s))" and ?v = "bytes_le 4 (ss_voted_for s)"
    and ?e = "if ss_election_timer_allowed s then 1 else 0 :: u8"
    and ?f = "if ver \<ge> 2
        then [if ss_catching_up s then 1 else 0] @ [if ss_receiving_snapshot s then 1 else 0] else [] :: u8 list"
  let ?s = "\<lambda>p. srl LITTLE 0 p (enc_state ver s)"
  have len: "length ([ver] @ ?t @ ?v @ [?e] @ ?f) < 2 ^ 31"
    using assms(3) by simp
  have 1: "get_u8 (?s 0) = (Inr ver, ?s 1)"
    using parsesD [OF parses_get_ints(1) [of LITTLE 0 ver], of "[]" "?t @ ?v @ [?e] @ ?f"] len
    by (simp add: enc_state_def)
  have 2: "get_u64 (?s 1) = (Inr (ss_term s), ?s 9)"
    using parsesD [OF parses_u64_le [OF assms(1), of 0], of "[ver]" "?v @ [?e] @ ?f"] len
    by (simp add: enc_state_def)
  have 3: "get_i32 (?s 9) = (Inr (ss_voted_for s), ?s 13)"
    using parsesD [OF parses_i32_le [OF assms(2), of 0], of "[ver] @ ?t" "[?e] @ ?f"] len
    by (simp add: enc_state_def)
  have 4: "get_u8 (?s 13) = (Inr ?e, ?s 14)"
    using parsesD [OF parses_get_ints(1) [of LITTLE 0 ?e], of "[ver] @ ?t @ ?v" ?f] len
    by (simp add: enc_state_def)
  have "(?e = 1) = ss_election_timer_allowed s" by simp
  then show ?thesis
    unfolding deserialize_v1p_def
    by (simp only: bnd_def [of get_u8] bnd_def [of get_u64] bnd_def [of get_i32] 1 2 3 4 prod.case sum.case)
qed

lemma deserialize_v1p_enc:
  assumes "ss_term s < 2 ^ 64" and "i32 (ss_voted_for s)"
  shows "fst (deserialize_v1p (srl LITTLE 0 0 (enc_state ver s))) =
    Inr (new_srv_state (ss_term s) (ss_voted_for s) (ss_election_timer_allowed s)
      (ver \<ge> 2 \<and> ss_catching_up s) (ver \<ge> 2 \<and> ss_receiving_snapshot s))"
proof -
  let ?w = "[ver] @ bytes_le 8 (int (ss_term s)) @ bytes_le 4 (ss_voted_for s)
      @ [if ss_election_timer_allowed s then 1 else 0]"
  have len: "length (enc_state ver s) \<le> 16"
    by (simp add: length_enc_state)
  show ?thesis
  proof (cases "2 \<le> ver")
    case True
    have e: "enc_state ver s = ?w @ [if ss_catching_up s then 1 else 0] @ [if ss_receiving_snapshot s then 1 else 0]"
      "enc_state ver s = (?w @ [if ss_catching_up s then 1 else 0]) @ [if ss_receiving_snapshot s then 1 else 0] @ []"
      using True by (simp_all add: enc_state_def)
    have "get_flag_since_v2 ver (srl LITTLE 0 14 (enc_state ver s)) =
        (Inr (ss_catching_up s), srl LITTLE 0 15 (enc_state ver s))"
      using flag_since_v2_present [OF True, of ?w] unfolding e(1) by simp
    moreover have "get_flag_since_v2 ver (srl LITTLE 0 15 (enc_state ver s)) =
        (Inr (ss_receiving_snapshot s), srl LITTLE 0 16 (enc_state ver s))"
      using flag_since_v2_present [OF True, of "?w @ [if ss_catching_up s then 1 else 0]"] unfolding e(2) by simp
    ultimately show ?thesis
      using True by (simp add: deserialize_v1p_head [OF assms len] bnd_def)
  next
    case False
    then have "get_flag_since_v2 ver (srl LITTLE 0 14 (enc_state ver s)) =
        (Inr False, srl LITTLE 0 14 (enc_state ver s))"
      using len by (intro flag_since_v2_absent) simp_all
    with False show ?thesis
      by (simp add: deserialize_v1p_head [OF assms len] bnd_def)
  qed
qed

text \<open>
  C26. The durable server state survives its byte format, in all three versions of it. The current
  version keeps term, vote and the three flags; version 1 has only the election timer flag and
  version 0 none, and the missing flags come back with their defaults. \<^verbatim>\<open>deserialize\<close> tells
  the formats apart by their size and version byte alone. The callback is not stored.
\<close>

theorem srv_state_roundtrip:
  assumes "ss_term s < 2 ^ 64" and "i32 (ss_voted_for s)"
  shows "(\<exists>m. srv_state_serialize u s = Inr m \<and> srv_state_deserialize m = Inr (s\<lparr>ss_inc_term_cb := None\<rparr>)) \<and>
    (\<exists>m. serialize_v1p u 1 s = Inr m \<and> srv_state_deserialize m =
       Inr (new_srv_state (ss_term s) (ss_voted_for s) (ss_election_timer_allowed s) False False)) \<and>
    (\<exists>m. serialize_v0 u s = Inr m \<and> srv_state_deserialize m =
       Inr (new_srv_state (ss_term s) (ss_voted_for s) True False False))"
proof (intro conjI)
  show "\<exists>m. srv_state_serialize u s = Inr m \<and> srv_state_deserialize m = Inr (s\<lparr>ss_inc_term_cb := None\<rparr>)"
    using deserialize_v1p_enc [OF assms, of CURRENT_VERSION]
    by (simp add: srv_state_serialize_def serialize_v1p_blk srv_state_deserialize_def buf_simps
        length_enc_state new_serializer_srl CURRENT_VERSION_def) (simp add: new_srv_state_def)
  have "\<not> (2 :: u8) \<le> 1"
    by (simp add: word_le_nat_alt)
  then show "\<exists>m. serialize_v1p u 1 s = Inr m \<and> srv_state_deserialize m =
       Inr (new_srv_state (ss_term s) (ss_voted_for s) (ss_election_timer_allowed s) False False)"
    using deserialize_v1p_enc [OF assms, of 1]
    by (simp add: serialize_v1p_blk srv_state_deserialize_def buf_simps length_enc_state new_serializer_srl)
  let ?bs = "bytes_le 8 (int (ss_term s)) @ bytes_le 4 (ss_voted_for s)"
  have "emits blk (thn (put_ulong (ss_term s)) (put_int (ss_voted_for s))) ?bs"
    by (intro emits_thn emits_put_ulong emits_put_int)
  then have "serialize_v0 u s = Inr (blk 0 ?bs)"
    unfolding serialize_v0_def by (rule alloc_emits) simp_all
  moreover have "parses blk deserialize_v0 ?bs (new_srv_state (ss_term s) (ss_voted_for s) True False False)"
    using assms unfolding deserialize_v0_def i32_def
    by (intro parses_bnd [OF parses_get_ulong parses_bnd_ret [OF parses_get_int]]) simp_all
  then have "fst (deserialize_v0 (blk 0 ?bs)) = Inr (new_srv_state (ss_term s) (ss_voted_for s) True False False)"
    using parsesD [of blk deserialize_v0 ?bs _ "[]" "[]"] by simp
  ultimately show "\<exists>m. serialize_v0 u s = Inr m \<and> srv_state_deserialize m =
       Inr (new_srv_state (ss_term s) (ss_voted_for s) True False False)"
    by (simp add: srv_state_deserialize_def buf_simps)
qed

theorem srv_state_roundtrip_witness:
  "\<exists>m. srv_state_serialize (\<lambda>_. 0xEE) (new_srv_state 77 (-1) False True True) = Inr m \<and>
     srv_state_deserialize m = Inr (new_srv_state 77 (-1) False True True)"
  using srv_state_roundtrip [of "new_srv_state 77 (-1) False True True" "\<lambda>_. 0xEE"]
  by (simp add: new_srv_state_def i32_def)

end
