(* ===== verification/Ordered_Map.thy ===== *)
theory Ordered_Map
  imports Main
begin

text \<open>
  \<^verbatim>\<open>std::map\<close> as an association list with strictly increasing keys: lookup, \<^verbatim>\<open>operator[]\<close> used for
  assignment, \<^verbatim>\<open>erase\<close>, the erasing loop from \<^verbatim>\<open>lower_bound\<close> to the end, \<^verbatim>\<open>upper_bound\<close> and
  \<^verbatim>\<open>begin\<close>. The lemmas give each operation as a function on partial maps and keep the order.
\<close>

type_synonym ('k, 'v) omap = "('k \<times> 'v) list"

definition omap_ok :: "('k::linorder, 'v) omap \<Rightarrow> bool" where
  "omap_ok m \<longleftrightarrow> sorted_wrt (<) (map fst m)"

definition om_find :: "'k \<Rightarrow> ('k, 'v) omap \<Rightarrow> 'v option" where
  "om_find k m = map_of m k"

fun om_set :: "'k::linorder \<Rightarrow> 'v \<Rightarrow> ('k, 'v) omap \<Rightarrow> ('k, 'v) omap" where
  "om_set k v [] = [(k, v)]"
| "om_set k v (x # m) =
     (if k < fst x then (k, v) # x # m
      else if k = fst x then (k, v) # m
      else x # om_set k v m)"

definition om_erase :: "'k \<Rightarrow> ('k, 'v) omap \<Rightarrow> ('k, 'v) omap" where
  "om_erase k m = filter (\<lambda>x. fst x \<noteq> k) m"

definition om_erase_from :: "'k::linorder \<Rightarrow> ('k, 'v) omap \<Rightarrow> ('k, 'v) omap" where
  "om_erase_from k m = takeWhile (\<lambda>x. fst x < k) m"

definition om_upper_bound :: "'k::linorder \<Rightarrow> ('k, 'v) omap \<Rightarrow> ('k \<times> 'v) option" where
  "om_upper_bound k m = find (\<lambda>x. k < fst x) m"

named_theorems om_simps

lemma omap_ok_Nil [simp]: "omap_ok []"
  by (simp add: omap_ok_def)

lemma omap_ok_Cons: "omap_ok (x # m) \<longleftrightarrow> (\<forall>y \<in> set m. fst x < fst y) \<and> omap_ok m"
  by (auto simp: omap_ok_def)

lemma omap_ok_append:
  "omap_ok (m @ n) \<longleftrightarrow> omap_ok m \<and> omap_ok n \<and> (\<forall>x \<in> set m. \<forall>y \<in> set n. fst x < fst y)"
  by (auto simp: omap_ok_def sorted_wrt_append)

lemma set_om_set: "set (om_set k v m) \<subseteq> insert (k, v) (set m)"
  by (induction m) auto

lemma omap_ok_set [om_simps]: "omap_ok m \<Longrightarrow> omap_ok (om_set k v m)"
proof (induction m)
  case Nil
  show ?case by (simp add: omap_ok_def)
next
  case (Cons x m)
  then show ?case
    using set_om_set [of k v m] by (fastforce simp: omap_ok_Cons)
qed

lemma om_find_set [om_simps]: "omap_ok m \<Longrightarrow> om_find j (om_set k v m) = (if j = k then Some v else om_find j m)"
  by (induction m) (auto simp: om_find_def omap_ok_Cons)

lemma omap_ok_erase [om_simps]: "omap_ok m \<Longrightarrow> omap_ok (om_erase k m)"
  by (induction m) (auto simp: om_erase_def omap_ok_Cons)

lemma om_find_erase [om_simps]: "om_find j (om_erase k m) = (if j = k then None else om_find j m)"
  by (induction m) (auto simp: om_find_def om_erase_def)

lemma om_erase_from_filter: "omap_ok m \<Longrightarrow> om_erase_from k m = filter (\<lambda>x. fst x < k) m"
proof (induction m)
  case Nil
  show ?case by (simp add: om_erase_from_def)
next
  case (Cons x m)
  show ?case
  proof (cases "fst x < k")
    case True
    with Cons show ?thesis by (simp add: om_erase_from_def omap_ok_Cons)
  next
    case False
    with Cons.prems have "filter (\<lambda>y. fst y < k) m = []"
      by (fastforce simp: omap_ok_Cons filter_empty_conv)
    with False show ?thesis by (simp add: om_erase_from_def)
  qed
qed

lemma omap_ok_filter [om_simps]: "omap_ok m \<Longrightarrow> omap_ok (filter P m)"
  by (induction m) (auto simp: omap_ok_Cons)

lemma om_find_erase_from [om_simps]:
  "omap_ok m \<Longrightarrow> om_find j (om_erase_from k m) = (if j < k then om_find j m else None)"
  by (simp add: om_erase_from_filter) (induction m; auto simp: om_find_def omap_ok_Cons)

lemma om_set_same: "omap_ok m \<Longrightarrow> om_find k m = Some v \<Longrightarrow> om_set k v m = m"
proof (induction m)
  case Nil
  then show ?case by (simp add: om_find_def)
next
  case (Cons x m)
  then show ?case
    by (cases x) (fastforce simp: om_find_def omap_ok_Cons dest!: map_of_SomeD split: if_splits)
qed

text \<open>A key behind all others is added at the end.\<close>

lemma om_set_last: "(\<And>x. x \<in> set m \<Longrightarrow> fst x < k) \<Longrightarrow> om_set k v m = m @ [(k, v)]"
  by (induction m) (fastforce simp: not_less)+

text \<open>The maps that are used as arrays: consecutive keys from \<open>a\<close> on.\<close>

definition om_seq :: "nat \<Rightarrow> 'v list \<Rightarrow> (nat, 'v) omap" where
  "om_seq a vs = zip [a..<a + length vs] vs"

lemma om_seq_Nil [simp]: "om_seq a [] = []"
  by (simp add: om_seq_def)

lemma om_seq_Cons [simp]: "om_seq a (v # vs) = (a, v) # om_seq (Suc a) vs"
  by (simp add: om_seq_def upt_conv_Cons del: upt_Suc)

lemma om_seq_append: "om_seq a (vs @ ws) = om_seq a vs @ om_seq (a + length vs) ws"
  by (induction vs arbitrary: a) simp_all

lemma length_om_seq [simp]: "length (om_seq a vs) = length vs"
  by (simp add: om_seq_def)

lemma om_seq_keys: "x \<in> set (om_seq a vs) \<Longrightarrow> a \<le> fst x \<and> fst x < a + length vs"
  by (cases x) (auto simp: om_seq_def dest: set_zip_leftD)

lemma omap_ok_seq [om_simps]: "omap_ok (om_seq a vs)"
  by (induction vs arbitrary: a) (auto simp: omap_ok_Cons dest: om_seq_keys)

lemma om_find_seq [om_simps]:
  "om_find k (om_seq a vs) = (if a \<le> k \<and> k < a + length vs then Some (vs ! (k - a)) else None)"
proof (induction vs arbitrary: a)
  case Nil
  show ?case by (simp add: om_find_def)
next
  case (Cons v vs)
  show ?case
  proof (cases "a < k")
    case True
    then have "k - a = Suc (k - Suc a)" by simp
    with True show ?thesis
      using Cons.IH [of "Suc a"] by (simp add: om_find_def)
  next
    case False
    then show ?thesis
      using Cons.IH [of "Suc a"] by (auto simp: om_find_def)
  qed
qed

lemma om_set_seq_inside [om_simps]:
  "a \<le> k \<Longrightarrow> k < a + length vs \<Longrightarrow> om_set k v (om_seq a vs) = om_seq a (vs[k - a := v])"
proof (induction vs arbitrary: a)
  case Nil
  then show ?case by simp
next
  case (Cons w vs)
  show ?case
  proof (cases "k = a")
    case True
    then show ?thesis by simp
  next
    case False
    then have "k - a = Suc (k - Suc a)" using Cons.prems by simp
    then show ?thesis using False Cons.prems Cons.IH [of "Suc a"] by simp
  qed
qed

lemma om_set_seq_end [om_simps]: "om_set (a + length vs) v (om_seq a vs) = om_seq a (vs @ [v])"
  by (subst om_set_last) (auto simp: om_seq_append dest: om_seq_keys)

lemma om_erase_from_seq [om_simps]:
  "a \<le> k \<Longrightarrow> k \<le> a + length vs \<Longrightarrow> om_erase_from k (om_seq a vs) = om_seq a (take (k - a) vs)"
proof (induction vs arbitrary: a)
  case Nil
  then show ?case by (simp add: om_erase_from_def)
next
  case (Cons w vs)
  show ?case
  proof (cases "k = a")
    case True
    then show ?thesis by (simp add: om_erase_from_def)
  next
    case False
    then have "k - a = Suc (k - Suc a)" using Cons.prems by simp
    then show ?thesis using False Cons.prems Cons.IH [of "Suc a"] by (simp add: om_erase_from_def)
  qed
qed

lemma om_erase_seq_first [om_simps]: "om_erase a (om_seq a vs) = om_seq (Suc a) (tl vs)"
proof (cases vs)
  case (Cons w ws)
  have "filter (\<lambda>x. fst x \<noteq> a) (om_seq (Suc a) ws) = om_seq (Suc a) ws"
    by (auto simp: filter_id_conv dest!: om_seq_keys)
  with Cons show ?thesis by (simp add: om_erase_def)
qed (simp add: om_erase_def)

end
