(* ===== verification/Raft_Log.thy ===== *)
theory Raft_Log
  imports Raft_Codec Ordered_Map
begin

text \<open>
  The log of a raft server. \<^verbatim>\<open>log_store.h\<close> is an interface with documented behaviour; its
  specification here is \<open>rlog\<close>, a start index and the list of entries from there on. The model of
  \<^verbatim>\<open>inmem_log_store\<close> follows \<^verbatim>\<open>in_memory_log_store.cc\<close> with its ordered map of entries, the dummy
  entry at index 0 and the emulated disk. The locale \<open>log_store_impl\<close> says what it means to
  implement the interface, and the in-memory store is shown to do so.
\<close>

subsection \<open>The interface\<close>

record 'e rlog =
  rl_start :: nat
  rl_entries :: "'e list"

definition rl_next :: "'e rlog \<Rightarrow> nat" where
  "rl_next l = rl_start l + length (rl_entries l)"

definition rl_get :: "nat \<Rightarrow> 'e rlog \<Rightarrow> 'e option" where
  "rl_get i l = (if rl_start l \<le> i \<and> i < rl_next l then Some (rl_entries l ! (i - rl_start l)) else None)"

definition rl_append :: "'e \<Rightarrow> 'e rlog \<Rightarrow> 'e rlog" where
  "rl_append e l = l\<lparr>rl_entries := rl_entries l @ [e]\<rparr>"

definition rl_write_at :: "nat \<Rightarrow> 'e \<Rightarrow> 'e rlog \<Rightarrow> 'e rlog" where
  "rl_write_at i e l = l\<lparr>rl_entries := take (i - rl_start l) (rl_entries l) @ [e]\<rparr>"

definition rl_compact :: "nat \<Rightarrow> 'e rlog \<Rightarrow> 'e rlog" where
  "rl_compact j l =
     (if rl_start l \<le> j
      then l\<lparr>rl_start := j + 1, rl_entries := drop (j + 1 - rl_start l) (rl_entries l)\<rparr> else l)"

definition rl_slice :: "nat \<Rightarrow> nat \<Rightarrow> 'e rlog \<Rightarrow> 'e list" where
  "rl_slice i j l = take (j - i) (drop (i - rl_start l) (rl_entries l))"

subsection \<open>The in-memory store\<close>

record inmem_log_store =
  logs :: "(nat, log_entry) omap"
  start_idx :: nat
  disk_emul_delay :: nat
  disk_emul_logs_being_written :: "(nat, nat) omap"
  disk_emul_last_durable_index :: nat

definition new_inmem_log_store :: "(nat \<Rightarrow> u8) \<Rightarrow> cpp_error + inmem_log_store" where
  "new_inmem_log_store uninit =
     bndE (buf_alloc uninit sz_ulong) (\<lambda>buf.
       Inr \<lparr>logs = om_set 0 (new_log_entry 0 (Some buf) app_log 0 False 0 True) [], start_idx = 1,
            disk_emul_delay = 0, disk_emul_logs_being_written = [],
            disk_emul_last_durable_index = 0\<rparr>)"

definition make_clone :: "(nat \<Rightarrow> u8) \<Rightarrow> log_entry \<Rightarrow> cpp_error + log_entry" where
  "make_clone uninit entry =
     bndE (get_buf entry) (\<lambda>b. bndE (buf_clone uninit b) (\<lambda>b'.
       Inr (new_log_entry (le_term entry) (Some b') (le_type entry) (le_timestamp_us entry)
              (le_has_crc32 entry) (le_crc32 entry) False)))"

definition next_slot :: "inmem_log_store \<Rightarrow> nat" where
  "next_slot s = sub64 (add64 (start_idx s) (length (logs s))) 1"

definition start_index :: "inmem_log_store \<Rightarrow> nat" where
  "start_index s = start_idx s"

text \<open>
  \<^verbatim>\<open>logs_.find(i)\<close> with the fall back to the dummy entry. Without a dummy entry the iterator that
  is dereferenced is \<^verbatim>\<open>end()\<close>.
\<close>

definition find_or_dummy :: "nat \<Rightarrow> inmem_log_store \<Rightarrow> cpp_error + log_entry" where
  "find_or_dummy i s =
     (case om_find i (logs s) of
        Some e \<Rightarrow> Inr e
      | None \<Rightarrow> (case om_find 0 (logs s) of Some e \<Rightarrow> Inr e | None \<Rightarrow> Inl Bad_Access))"

definition last_entry :: "(nat \<Rightarrow> u8) \<Rightarrow> inmem_log_store \<Rightarrow> cpp_error + log_entry" where
  "last_entry uninit s = bndE (find_or_dummy (sub64 (next_slot s) 1) s) (make_clone uninit)"

text \<open>\<open>now\<close> is the value of \<^verbatim>\<open>timer_helper::get_timeofday_us()\<close>.\<close>

definition append_log :: "(nat \<Rightarrow> u8) \<Rightarrow> nat \<Rightarrow> log_entry \<Rightarrow> (inmem_log_store, nat) cmd" where
  "append_log uninit now entry =
     bnd (lift (make_clone uninit entry)) (\<lambda>clone s.
       (let idx = sub64 (add64 (start_idx s) (length (logs s))) 1;
            s' = s\<lparr>logs := om_set idx clone (logs s)\<rparr>
        in (Inr idx,
            if disk_emul_delay s' \<noteq> 0
            then s'\<lparr>disk_emul_logs_being_written :=
                     om_set (now + disk_emul_delay s' * 1000) idx (disk_emul_logs_being_written s')\<rparr>
            else s')))"

definition write_at :: "(nat \<Rightarrow> u8) \<Rightarrow> nat \<Rightarrow> nat \<Rightarrow> log_entry \<Rightarrow> (inmem_log_store, unit) cmd" where
  "write_at uninit now index entry =
     bnd (lift (make_clone uninit entry)) (\<lambda>clone s.
       (let s' = s\<lparr>logs := om_set index clone (om_erase_from index (logs s))\<rparr>
        in (Inr (),
            if disk_emul_delay s' \<noteq> 0
            then s'\<lparr>disk_emul_logs_being_written :=
                     filter (\<lambda>x. \<not> snd x > index)
                       (om_set (now + disk_emul_delay s' * 1000) index (disk_emul_logs_being_written s'))\<rparr>
            else s')))"

text \<open>
  \<^verbatim>\<open>resize(end - start)\<close> throws when the unsigned difference exceeds the largest vector; an index
  without an entry fails the assertion.
\<close>

definition log_entries :: "(nat \<Rightarrow> u8) \<Rightarrow> nat \<Rightarrow> nat \<Rightarrow> inmem_log_store \<Rightarrow> cpp_error + log_entry list" where
  "log_entries uninit start en s =
     (if en < start then Inl Length_Error
      else mapE (\<lambda>ii. case om_find ii (logs s) of
             None \<Rightarrow> Inl Assert_Failure | Some e \<Rightarrow> make_clone uninit e) [start..<en])"

text \<open>\<open>n\<close> rounds left: \<open>end - start\<close> or none.\<close>

fun log_entries_ext_loop ::
    "(nat \<Rightarrow> u8) \<Rightarrow> int \<Rightarrow> inmem_log_store \<Rightarrow> nat \<Rightarrow> nat \<Rightarrow> nat \<Rightarrow> cpp_error + log_entry list" where
  "log_entries_ext_loop uninit hint s 0 ii accum_size = Inr []"
| "log_entries_ext_loop uninit hint s (Suc n) ii accum_size =
     (case om_find ii (logs s) of
        None \<Rightarrow> Inl Assert_Failure
      | Some src \<Rightarrow>
          bndE (make_clone uninit src) (\<lambda>clone. bndE (get_buf src) (\<lambda>b.
            (let accum_size' = accum_size + buf_size b
             in if hint \<noteq> 0 \<and> int accum_size' \<ge> hint then Inr [clone]
                else bndE (log_entries_ext_loop uninit hint s n (ii + 1) accum_size')
                       (\<lambda>rest. Inr (clone # rest))))))"

definition log_entries_ext ::
    "(nat \<Rightarrow> u8) \<Rightarrow> nat \<Rightarrow> nat \<Rightarrow> int \<Rightarrow> inmem_log_store \<Rightarrow> cpp_error + log_entry list" where
  "log_entries_ext uninit start en batch_size_hint_in_bytes s =
     (if batch_size_hint_in_bytes < 0 then Inr []
      else log_entries_ext_loop uninit batch_size_hint_in_bytes s (en - start) start 0)"

definition entry_at :: "(nat \<Rightarrow> u8) \<Rightarrow> nat \<Rightarrow> inmem_log_store \<Rightarrow> cpp_error + log_entry" where
  "entry_at uninit index s = bndE (find_or_dummy index s) (make_clone uninit)"

definition term_at :: "nat \<Rightarrow> inmem_log_store \<Rightarrow> cpp_error + nat" where
  "term_at index s = bndE (find_or_dummy index s) (\<lambda>e. Inr (le_term e))"

text \<open>
  \<^verbatim>\<open>pack\<close>: the entries are serialised one by one, which rewinds their buffers, and then put
  behind a count, each with its length.
\<close>

fun pack_loop :: "(nat \<Rightarrow> u8) \<Rightarrow> nat \<Rightarrow> nat \<Rightarrow> (inmem_log_store, block list) cmd" where
  "pack_loop uninit 0 ii = ret []"
| "pack_loop uninit (Suc n) ii =
     (\<lambda>s. case om_find ii (logs s) of
        None \<Rightarrow> (Inl Assert_Failure, s)
      | Some le \<Rightarrow>
          (case log_entry_serialize uninit le of
             (Inl e, le') \<Rightarrow> (Inl e, s\<lparr>logs := om_set ii le' (logs s)\<rparr>)
           | (Inr buf, le') \<Rightarrow>
               bnd (pack_loop uninit n (ii + 1)) (\<lambda>bufs. ret (buf # bufs))
                 (s\<lparr>logs := om_set ii le' (logs s)\<rparr>)))"

definition put_packed :: "block \<Rightarrow> (block, unit) cmd" where
  "put_packed bb = thn (put_int (int (buf_size bb))) (put_buf bb)"

text \<open>\<open>cnt\<close> becomes unsigned in \<^verbatim>\<open>index+cnt\<close> and in \<^verbatim>\<open>cnt * sizeof(int32)\<close>.\<close>

definition pack :: "(nat \<Rightarrow> u8) \<Rightarrow> nat \<Rightarrow> int \<Rightarrow> (inmem_log_store, block) cmd" where
  "pack uninit index cnt =
     (let ucnt = nat (cnt mod 2 ^ 64)
      in bnd (pack_loop uninit (add64 index ucnt - index) index) (\<lambda>bufs.
           lift (run_on (buf_alloc uninit
                   ((sz_int + ucnt * sz_int + sum_list (map buf_size bufs)) mod 2 ^ 64))
                 (thn (buf_set_pos 0) (thn (put_int cnt) (for_each bufs put_packed))))))"

text \<open>\<^verbatim>\<open>apply_pack\<close>: one entry per round, read at the cursor of the pack.\<close>

definition unpack_entry :: "(nat \<Rightarrow> u8) \<Rightarrow> (block, log_entry) cmd" where
  "unpack_entry uninit =
     bnd get_int (\<lambda>sz. bnd (lift (buf_alloc uninit (nat (sz mod 2 ^ 64)))) (\<lambda>buf_local.
     bnd (buf_get buf_local) (\<lambda>buf_local'.
       lift (fst (log_entry_deserialize uninit buf_local')))))"

fun apply_pack_loop :: "(nat \<Rightarrow> u8) \<Rightarrow> nat \<Rightarrow> nat \<Rightarrow> (inmem_log_store \<times> block, unit) cmd" where
  "apply_pack_loop uninit 0 cur_idx = ret ()"
| "apply_pack_loop uninit (Suc n) cur_idx =
     (\<lambda>(s, pack). case unpack_entry uninit pack of
        (Inl e, pack') \<Rightarrow> (Inl e, (s, pack'))
      | (Inr le, pack') \<Rightarrow>
          apply_pack_loop uninit n (add64 cur_idx 1) (s\<lparr>logs := om_set cur_idx le (logs s)\<rparr>, pack'))"

definition apply_pack :: "(nat \<Rightarrow> u8) \<Rightarrow> nat \<Rightarrow> (inmem_log_store \<times> block, unit) cmd" where
  "apply_pack uninit index = (\<lambda>(s, pack).
     (case bnd (buf_set_pos 0) (\<lambda>_. get_int) pack of
        (Inl e, pack') \<Rightarrow> (Inl e, (s, pack'))
      | (Inr num_logs, pack') \<Rightarrow>
          thn (apply_pack_loop uninit (nat num_logs) index) (\<lambda>(s', p).
            (Inr (), (s'\<lparr>start_idx := (case om_upper_bound 0 (logs s') of
                                          Some entry \<Rightarrow> fst entry | None \<Rightarrow> 1)\<rparr>, p))) (s, pack')))"

text \<open>
  \<^verbatim>\<open>compact\<close>: \<open>n\<close> rounds from \<open>ii\<close> on. The counter of the loop is 64 bits wide; the model is
  for \<^verbatim>\<open>last_log_index\<close> below its largest value, where the condition can become false.
\<close>

fun compact_loop :: "nat \<Rightarrow> nat \<Rightarrow> (nat, log_entry) omap \<Rightarrow> (nat, log_entry) omap" where
  "compact_loop 0 ii m = m"
| "compact_loop (Suc n) ii m =
     compact_loop n (ii + 1) (case om_find ii m of None \<Rightarrow> m | Some _ \<Rightarrow> om_erase ii m)"

definition compact :: "nat \<Rightarrow> inmem_log_store \<Rightarrow> bool \<times> inmem_log_store" where
  "compact last_log_index s =
     (let s' = s\<lparr>logs := compact_loop (last_log_index + 1 - start_idx s) (start_idx s) (logs s)\<rparr>
      in (True, if start_idx s' \<le> last_log_index then s'\<lparr>start_idx := last_log_index + 1\<rparr> else s'))"

definition flush :: "inmem_log_store \<Rightarrow> bool \<times> inmem_log_store" where
  "flush s = (True, s\<lparr>disk_emul_last_durable_index := sub64 (next_slot s) 1\<rparr>)"

definition set_disk_delay :: "nat \<Rightarrow> inmem_log_store \<Rightarrow> inmem_log_store" where
  "set_disk_delay delay_ms s = s\<lparr>disk_emul_delay := delay_ms\<rparr>"

definition last_durable_index :: "inmem_log_store \<Rightarrow> nat" where
  "last_durable_index s =
     (if disk_emul_delay s = 0 then sub64 (next_slot s) 1 else disk_emul_last_durable_index s)"

text \<open>
  One round of the thread that emulates the disk, at time \<open>cur_time\<close>: the next sleep in
  microseconds, whether the server is notified, and the store afterwards.
\<close>

fun emul_drain :: "nat \<Rightarrow> (nat, nat) omap \<Rightarrow> nat \<Rightarrow> bool \<Rightarrow> (nat, nat) omap \<times> nat \<times> bool" where
  "emul_drain cur_time [] durable call_notification = ([], durable, call_notification)"
| "emul_drain cur_time (entry # rest) durable call_notification =
     (if fst entry \<le> cur_time then emul_drain cur_time rest (snd entry) True
      else (entry # rest, durable, call_notification))"

definition disk_emul_round :: "nat \<Rightarrow> inmem_log_store \<Rightarrow> (nat \<times> bool) \<times> inmem_log_store" where
  "disk_emul_round cur_time s =
     (case emul_drain cur_time (disk_emul_logs_being_written s) (disk_emul_last_durable_index s) False of
        (written, durable, call_notification) \<Rightarrow>
          ((case written of [] \<Rightarrow> 100 * 1000 | entry # _ \<Rightarrow> fst entry - cur_time, call_notification),
           s\<lparr>disk_emul_logs_being_written := written, disk_emul_last_durable_index := durable\<rparr>))"

subsection \<open>Implementing the interface\<close>

lemmas rl_defs = rl_next_def rl_get_def rl_append_def rl_write_at_def rl_compact_def rl_slice_def

lemma rl_get_append:
  "rl_get i (rl_append e l) = (if i = rl_next l then Some e else rl_get i l)"
  by (auto simp: rl_defs nth_append)

lemma rl_get_write_at:
  assumes "rl_start l \<le> i" and "i \<le> rl_next l"
  shows "rl_get j (rl_write_at i e l) =
    (if j = i then Some e else if j < i then rl_get j l else None)"
  using assms by (auto simp: rl_defs nth_append)

lemma rl_get_compact: "rl_get i (rl_compact j l) = (if i \<le> j then None else rl_get i l)"
  by (auto simp: rl_defs)

lemma rl_next_ops [simp]:
  "rl_next (rl_append e l) = Suc (rl_next l)"
  "rl_start l \<le> i \<Longrightarrow> i \<le> rl_next l \<Longrightarrow> rl_next (rl_write_at i e l) = Suc i"
  "rl_start (rl_append e l) = rl_start l" "rl_start (rl_write_at i e l) = rl_start l"
  by (simp_all add: rl_defs)

locale log_store_impl =
  fixes ok :: "'s \<Rightarrow> bool"
    and abs_log :: "'s \<Rightarrow> log_entry rlog"
    and src_ok :: "log_entry \<Rightarrow> bool"
    and stored :: "log_entry \<Rightarrow> log_entry"
    and next_slot :: "'s \<Rightarrow> nat"
    and start_index :: "'s \<Rightarrow> nat"
    and entry_at :: "nat \<Rightarrow> 's \<Rightarrow> cpp_error + log_entry"
    and term_at :: "nat \<Rightarrow> 's \<Rightarrow> cpp_error + nat"
    and append_log :: "log_entry \<Rightarrow> ('s, nat) cmd"
    and write_at :: "nat \<Rightarrow> log_entry \<Rightarrow> ('s, unit) cmd"
    and compact :: "nat \<Rightarrow> 's \<Rightarrow> bool \<times> 's"
  assumes next_slot: "ok s \<Longrightarrow> next_slot s = rl_next (abs_log s)"
    and start_index: "ok s \<Longrightarrow> start_index s = rl_start (abs_log s)"
    and entry_at: "ok s \<Longrightarrow> rl_get i (abs_log s) = Some e \<Longrightarrow> entry_at i s = Inr e"
    and term_at: "ok s \<Longrightarrow> term_at i s = Inr (case rl_get i (abs_log s) of Some e \<Rightarrow> le_term e | None \<Rightarrow> 0)"
    and append: "ok s \<Longrightarrow> src_ok e \<Longrightarrow> rl_next (abs_log s) < 2 ^ 64 - 1 \<Longrightarrow>
      \<exists>s'. append_log e s = (Inr (rl_next (abs_log s)), s') \<and> ok s' \<and>
        abs_log s' = rl_append (stored e) (abs_log s)"
    and write_at: "ok s \<Longrightarrow> src_ok e \<Longrightarrow> rl_start (abs_log s) \<le> i \<Longrightarrow> i \<le> rl_next (abs_log s) \<Longrightarrow>
      i < 2 ^ 64 - 1 \<Longrightarrow>
      \<exists>s'. write_at i e s = (Inr (), s') \<and> ok s' \<and> abs_log s' = rl_write_at i (stored e) (abs_log s)"
    and compact: "ok s \<Longrightarrow> j < 2 ^ 64 - 1 \<Longrightarrow>
      \<exists>s'. compact j s = (True, s') \<and> ok s' \<and> abs_log s' = rl_compact j (abs_log s)"
begin

text \<open>A batch of appends, as a leader or a follower writes it.\<close>

lemma append_batch:
  assumes "ok s" and "list_all src_ok es" and "rl_next (abs_log s) + length es < 2 ^ 64"
  shows "\<exists>s'. for_each es (\<lambda>e. thn (append_log e) (ret ())) s = (Inr (), s') \<and> ok s' \<and>
    abs_log s' = (abs_log s)\<lparr>rl_entries := rl_entries (abs_log s) @ map stored es\<rparr>"
  using assms
proof (induction es arbitrary: s)
  case Nil
  then show ?case by simp
next
  case (Cons e es)
  then obtain s1 where s1: "append_log e s = (Inr (rl_next (abs_log s)), s1)" "ok s1"
      "abs_log s1 = rl_append (stored e) (abs_log s)"
    using append [of s e] by auto
  with Cons.prems Cons.IH [of s1] obtain s2 where
    "for_each es (\<lambda>e. thn (append_log e) (ret ())) s1 = (Inr (), s2)" "ok s2"
    "abs_log s2 = (abs_log s1)\<lparr>rl_entries := rl_entries (abs_log s1) @ map stored es\<rparr>"
    by (auto simp del: ret_simp)
  moreover have "thn (append_log e) (ret ()) s = (Inr (), s1)"
    using s1(1) by (simp add: thn_Inr)
  ultimately show ?case
    using s1(3) by (auto simp: thn_Inr rl_append_def simp del: ret_simp)
qed

text \<open>Overwriting cuts the log off behind the new entry and leaves everything before it alone.\<close>

lemma overwrite_truncates:
  assumes "ok s" "src_ok e" "rl_start (abs_log s) \<le> i" "i \<le> rl_next (abs_log s)" "i < 2 ^ 64 - 1"
  shows "\<exists>s'. write_at i e s = (Inr (), s') \<and> ok s' \<and> next_slot s' = Suc i \<and> entry_at i s' = Inr (stored e) \<and>
    (\<forall>j < i. term_at j s' = term_at j s)"
proof -
  obtain s' where s': "write_at i e s = (Inr (), s')" "ok s'"
      "abs_log s' = rl_write_at i (stored e) (abs_log s)"
    using write_at [OF assms] by blast
  then show ?thesis
    using assms by (auto simp: next_slot term_at rl_get_write_at intro!: entry_at)
qed

end

subsection \<open>The in-memory store implements the interface\<close>

definition wf_entry :: "log_entry \<Rightarrow> bool" where
  "wf_entry e \<longleftrightarrow> (\<exists>d. le_buff e = Some (blk 0 d) \<and> length d < 2 ^ 31)"

definition src_entry :: "log_entry \<Rightarrow> bool" where
  "src_entry e \<longleftrightarrow> (\<exists>p d. le_buff e = Some (blk p d) \<and> p \<le> length d \<and> length d < 2 ^ 31)"

text \<open>What a store keeps of an entry: the same, with the payload rewound.\<close>

definition stored_entry :: "log_entry \<Rightarrow> log_entry" where
  "stored_entry e = (case le_buff e of None \<Rightarrow> e | Some m \<Rightarrow> e\<lparr>le_buff := Some (blk 0 (payload m))\<rparr>)"

definition store_log :: "inmem_log_store \<Rightarrow> log_entry rlog" where
  "store_log s = \<lparr>rl_start = start_idx s, rl_entries = map snd (tl (logs s))\<rparr>"

definition store_ok :: "inmem_log_store \<Rightarrow> bool" where
  "store_ok s \<longleftrightarrow> 1 \<le> start_idx s \<and> start_idx s + length (logs s) \<le> 2 ^ 64 \<and>
     (\<exists>dummy es. logs s = (0, dummy) # om_seq (start_idx s) es \<and> wf_entry dummy \<and> le_term dummy = 0 \<and>
        list_all wf_entry es)"

lemma wf_src: "wf_entry e \<Longrightarrow> src_entry e"
  by (auto simp: wf_entry_def src_entry_def)

lemma stored_wf: "wf_entry e \<Longrightarrow> stored_entry e = e"
  by (auto simp: wf_entry_def stored_entry_def buf_simps)

lemma wf_stored: "src_entry e \<Longrightarrow> wf_entry (stored_entry e)"
  by (auto simp: wf_entry_def src_entry_def stored_entry_def buf_simps)

lemma make_clone_src: "src_entry e \<Longrightarrow> make_clone u e = Inr (stored_entry e)"
  by (auto simp: src_entry_def make_clone_def get_buf_def buf_clone_blk stored_entry_def buf_simps
      new_log_entry_def)

lemma make_clone_wf: "wf_entry e \<Longrightarrow> make_clone u e = Inr e"
  using make_clone_src [OF wf_src] stored_wf by simp

lemma store_okE:
  assumes "store_ok s"
  obtains dummy es where "logs s = (0, dummy) # om_seq (start_idx s) es" "wf_entry dummy" "le_term dummy = 0"
    "list_all wf_entry es" "1 \<le> start_idx s" "start_idx s + Suc (length es) \<le> 2 ^ 64"
    "store_log s = \<lparr>rl_start = start_idx s, rl_entries = es\<rparr>"
proof -
  have "map snd (om_seq a vs) = vs" for a and vs :: "log_entry list"
    by (simp add: om_seq_def)
  with assms show ?thesis
    using that by (auto simp: store_ok_def store_log_def)
qed

lemma store_okI:
  assumes "logs s = (0, dummy) # om_seq (start_idx s) es" "wf_entry dummy" "le_term dummy = 0"
    "list_all wf_entry es" "1 \<le> start_idx s" "start_idx s + Suc (length es) \<le> 2 ^ 64"
  shows "store_ok s \<and> store_log s = \<lparr>rl_start = start_idx s, rl_entries = es\<rparr>"
proof -
  have "map snd (om_seq a vs) = vs" for a and vs :: "log_entry list"
    by (simp add: om_seq_def)
  with assms show ?thesis by (auto simp: store_ok_def store_log_def)
qed

lemma new_store_ok:
  "\<exists>s. new_inmem_log_store u = Inr s \<and> store_ok s \<and> store_log s = \<lparr>rl_start = 1, rl_entries = []\<rparr>"
proof -
  obtain d where d: "length d = 8" "buf_alloc u 8 = Inr (blk 0 d)"
    by (rule alloc_blk [of 8]) simp_all
  let ?e = "new_log_entry 0 (Some (blk 0 d)) app_log 0 False 0 True"
  let ?s = "\<lparr>logs = [(0, ?e)], start_idx = 1, disk_emul_delay = 0, disk_emul_logs_being_written = [],
    disk_emul_last_durable_index = 0\<rparr>"
  have "store_ok ?s \<and> store_log ?s = \<lparr>rl_start = start_idx ?s, rl_entries = []\<rparr>"
    using d(1) by (intro store_okI) (auto simp: new_log_entry_def wf_entry_def intro: exI [of _ d])
  with d show ?thesis
    by (simp add: new_inmem_log_store_def)
qed

lemma next_slot_ok: "store_ok s \<Longrightarrow> next_slot s = rl_next (store_log s)"
proof -
  assume "store_ok s"
  then obtain es where "length (logs s) = Suc (length es)" "start_idx s + Suc (length es) \<le> 2 ^ 64"
      "store_log s = \<lparr>rl_start = start_idx s, rl_entries = es\<rparr>"
    by (rule store_okE) simp
  then show ?thesis
    by (cases "start_idx s + Suc (length es) = 2 ^ 64")
      (simp_all add: next_slot_def rl_next_def add64_def sub64_def)
qed

lemma find_or_dummy_ok:
  assumes "store_ok s"
  shows "\<exists>e. find_or_dummy i s = Inr e \<and> wf_entry e \<and>
    le_term e = (case rl_get i (store_log s) of Some x \<Rightarrow> le_term x | None \<Rightarrow> 0) \<and>
    (\<forall>x. rl_get i (store_log s) = Some x \<longrightarrow> e = x)"
proof -
  obtain dummy es where s: "logs s = (0, dummy) # om_seq (start_idx s) es" "wf_entry dummy"
      "le_term dummy = 0" "list_all wf_entry es" "1 \<le> start_idx s"
      "store_log s = \<lparr>rl_start = start_idx s, rl_entries = es\<rparr>"
    using assms by (rule store_okE)
  have "om_find i (logs s) = (if i = 0 then Some dummy else om_find i (om_seq (start_idx s) es))"
    "om_find 0 (logs s) = Some dummy"
    using s(1) by (simp_all add: om_find_def)
  then show ?thesis
    using s by (auto simp: find_or_dummy_def om_find_seq rl_defs list_all_length)
qed

lemma append_store:
  assumes "store_ok s" and "src_entry e" and "rl_next (store_log s) < 2 ^ 64 - 1"
  shows "\<exists>s'. append_log u now e s = (Inr (rl_next (store_log s)), s') \<and> store_ok s' \<and>
    store_log s' = rl_append (stored_entry e) (store_log s)"
proof -
  obtain dummy es where s: "logs s = (0, dummy) # om_seq (start_idx s) es" "wf_entry dummy"
      "le_term dummy = 0" "list_all wf_entry es" "1 \<le> start_idx s"
      "store_log s = \<lparr>rl_start = start_idx s, rl_entries = es\<rparr>"
    using assms(1) by (rule store_okE)
  define s' where "s' = snd (append_log u now e s)"
  have idx: "sub64 (add64 (start_idx s) (length (logs s))) 1 = start_idx s + length es"
    using next_slot_ok [OF assms(1)] s(6) by (simp add: next_slot_def rl_next_def)
  have "om_set (start_idx s + length es) (stored_entry e) (logs s) =
      (0, dummy) # om_seq (start_idx s) (es @ [stored_entry e])"
    using s(1,5) by (simp add: om_set_seq_end)
  then have s': "append_log u now e s = (Inr (start_idx s + length es), s')"
      "logs s' = (0, dummy) # om_seq (start_idx s') (es @ [stored_entry e])" "start_idx s' = start_idx s"
    using idx by (auto simp: s'_def append_log_def make_clone_src [OF assms(2)] bnd_def Let_def)
  then have "store_ok s' \<and> store_log s' = \<lparr>rl_start = start_idx s', rl_entries = es @ [stored_entry e]\<rparr>"
    using s assms wf_stored [OF assms(2)] by (intro store_okI) (auto simp: rl_next_def)
  with s' s(6) show ?thesis
    by (simp add: rl_defs)
qed

lemma write_at_store:
  assumes "store_ok s" and "src_entry e" and "rl_start (store_log s) \<le> i" and "i \<le> rl_next (store_log s)"
    and "i < 2 ^ 64 - 1"
  shows "\<exists>s'. write_at u now i e s = (Inr (), s') \<and> store_ok s' \<and>
    store_log s' = rl_write_at i (stored_entry e) (store_log s)"
proof -
  obtain dummy es where s: "logs s = (0, dummy) # om_seq (start_idx s) es" "wf_entry dummy"
      "le_term dummy = 0" "list_all wf_entry es" "1 \<le> start_idx s"
      "store_log s = \<lparr>rl_start = start_idx s, rl_entries = es\<rparr>"
    using assms(1) by (rule store_okE)
  define s' where "s' = snd (write_at u now i e s)"
  let ?es = "take (i - start_idx s) es"
  have i: "start_idx s \<le> i" "i \<le> start_idx s + length es"
    using assms(3,4) s(6) by (simp_all add: rl_next_def)
  then have "om_erase_from i (logs s) = (0, dummy) # om_seq (start_idx s) ?es"
    using om_erase_from_seq [OF i] s(1,5) by (simp add: om_erase_from_def)
  moreover have "om_set i (stored_entry e) (om_seq (start_idx s) ?es) = om_seq (start_idx s) (?es @ [stored_entry e])"
    using om_set_seq_end [of "start_idx s" ?es] i by simp
  ultimately have "om_set i (stored_entry e) (om_erase_from i (logs s)) =
      (0, dummy) # om_seq (start_idx s) (?es @ [stored_entry e])"
    using i s(5) by simp
  then have s': "write_at u now i e s = (Inr (), s')"
      "logs s' = (0, dummy) # om_seq (start_idx s') (?es @ [stored_entry e])" "start_idx s' = start_idx s"
    by (auto simp: s'_def write_at_def make_clone_src [OF assms(2)] bnd_def Let_def)
  then have "store_ok s' \<and> store_log s' = \<lparr>rl_start = start_idx s', rl_entries = ?es @ [stored_entry e]\<rparr>"
    using s i assms(5) wf_stored [OF assms(2)]
    by (intro store_okI) (auto simp: list_all_iff dest: in_set_takeD)
  with s' s(6) show ?thesis
    by (simp add: rl_defs)
qed

lemma compact_loop_seq:
  "1 \<le> a \<Longrightarrow> compact_loop n a ((0, d) # om_seq a es) = (0, d) # om_seq (a + n) (drop n es)"
proof (induction n arbitrary: a es)
  case 0
  then show ?case by simp
next
  case (Suc n)
  have "(case om_find a ((0, d) # om_seq a es) of None \<Rightarrow> (0, d) # om_seq a es
      | Some _ \<Rightarrow> om_erase a ((0, d) # om_seq a es)) = (0, d) # om_seq (Suc a) (tl es)"
    using Suc.prems om_erase_seq_first [of a es]
    by (cases es) (auto simp: om_find_def om_erase_def)
  with Suc show ?case
    by (simp add: drop_Suc)
qed

lemma compact_store:
  assumes "store_ok s" and "j < 2 ^ 64 - 1"
  shows "\<exists>s'. compact j s = (True, s') \<and> store_ok s' \<and> store_log s' = rl_compact j (store_log s)"
proof -
  obtain dummy es where s: "logs s = (0, dummy) # om_seq (start_idx s) es" "wf_entry dummy"
      "le_term dummy = 0" "list_all wf_entry es" "1 \<le> start_idx s"
      "start_idx s + Suc (length es) \<le> 2 ^ 64"
      "store_log s = \<lparr>rl_start = start_idx s, rl_entries = es\<rparr>"
    using assms(1) by (rule store_okE)
  define s' where "s' = snd (compact j s)"
  let ?n = "j + 1 - start_idx s"
  have "compact_loop ?n (start_idx s) (logs s) = (0, dummy) # om_seq (start_idx s + ?n) (drop ?n es)"
    using s by (simp add: compact_loop_seq)
  then have s': "compact j s = (True, s')" "start_idx s' = start_idx s + ?n"
      "logs s' = (0, dummy) # om_seq (start_idx s') (drop ?n es)"
    by (auto simp: s'_def compact_def Let_def)
  then have "store_ok s' \<and> store_log s' = \<lparr>rl_start = start_idx s', rl_entries = drop ?n es\<rparr>"
    using s assms(2) by (intro store_okI) (auto simp: list_all_iff dest: in_set_dropD)
  with s' s(7) show ?thesis
    by (auto simp: rl_defs)
qed

interpretation inmem: log_store_impl store_ok store_log src_entry stored_entry next_slot start_index
  "entry_at u" term_at "append_log u now" "write_at u now" compact for u now
proof unfold_locales
  fix s :: inmem_log_store and i :: nat and e :: log_entry
  show "store_ok s \<Longrightarrow> next_slot s = rl_next (store_log s)"
    by (rule next_slot_ok)
  show "store_ok s \<Longrightarrow> start_index s = rl_start (store_log s)"
    by (simp add: start_index_def store_log_def)
  show "store_ok s \<Longrightarrow> rl_get i (store_log s) = Some e \<Longrightarrow> entry_at u i s = Inr e"
    using find_or_dummy_ok [of s i] by (auto simp: entry_at_def make_clone_wf)
  show "store_ok s \<Longrightarrow> term_at i s = Inr (case rl_get i (store_log s) of Some e \<Rightarrow> le_term e | None \<Rightarrow> 0)"
    using find_or_dummy_ok [of s i] by (auto simp: term_at_def)
qed (simp_all add: append_store write_at_store compact_store)

lemma mapE_upt:
  "(\<And>i. a \<le> i \<Longrightarrow> i < a + length xs \<Longrightarrow> f i = Inr (xs ! (i - a))) \<Longrightarrow> mapE f [a..<a + length xs] = Inr xs"
proof -
  assume "\<And>i. a \<le> i \<Longrightarrow> i < a + length xs \<Longrightarrow> f i = Inr (xs ! (i - a))"
  then have "mapE f [a..<a + length xs] = Inr (map (\<lambda>i. xs ! (i - a)) [a..<a + length xs])"
    by (intro mapE_Inr) simp
  also have "map (\<lambda>i. xs ! (i - a)) [a..<a + length xs] = xs"
    by (rule nth_equalityI) simp_all
  finally show ?thesis .
qed

lemma store_find:
  assumes "store_ok s" and "rl_get i (store_log s) = Some e"
  shows "om_find i (logs s) = Some e \<and> wf_entry e"
proof -
  obtain dummy es where s: "logs s = (0, dummy) # om_seq (start_idx s) es" "list_all wf_entry es"
      "1 \<le> start_idx s" "store_log s = \<lparr>rl_start = start_idx s, rl_entries = es\<rparr>"
    using assms(1) by (rule store_okE)
  have "om_find i (logs s) = om_find i (om_seq (start_idx s) es)"
    using s assms(2) by (auto simp: om_find_def rl_defs split: if_splits)
  then show ?thesis
    using s assms(2) by (auto simp: om_find_seq rl_defs list_all_length split: if_splits)
qed

lemma rl_slice_nth:
  assumes "rl_start l \<le> i" and "i \<le> j" and "j \<le> rl_next l"
  shows "length (rl_slice i j l) = j - i \<and>
    (\<forall>k. i \<le> k \<and> k < j \<longrightarrow> rl_get k l = Some (rl_slice i j l ! (k - i)))"
  using assms by (auto simp: rl_defs)

lemma log_entries_store:
  assumes "store_ok s" and "rl_start (store_log s) \<le> i" and "i \<le> j" and "j \<le> rl_next (store_log s)"
  shows "log_entries u i j s = Inr (rl_slice i j (store_log s))"
proof -
  let ?xs = "rl_slice i j (store_log s)"
  have len: "length ?xs = j - i" and get: "\<And>k. i \<le> k \<Longrightarrow> k < j \<Longrightarrow> rl_get k (store_log s) = Some (?xs ! (k - i))"
    using rl_slice_nth [OF assms(2-4)] by auto
  have "mapE (\<lambda>ii. case om_find ii (logs s) of None \<Rightarrow> Inl Assert_Failure | Some e \<Rightarrow> make_clone u e)
      [i..<i + length ?xs] = Inr ?xs"
  proof (rule mapE_upt)
    fix k assume "i \<le> k" and "k < i + length ?xs"
    with len assms(3) have "om_find k (logs s) = Some (?xs ! (k - i)) \<and> wf_entry (?xs ! (k - i))"
      by (intro store_find [OF assms(1)] get) simp_all
    then show "(case om_find k (logs s) of None \<Rightarrow> Inl Assert_Failure | Some e \<Rightarrow> make_clone u e) = Inr (?xs ! (k - i))"
      by (simp add: make_clone_wf)
  qed
  with len assms(3) show ?thesis
    by (simp add: log_entries_def)
qed

text \<open>Histories of a store: each write with the time at which it happens.\<close>

datatype log_op = Op_Append nat log_entry | Op_Write_At nat nat log_entry | Op_Compact nat

fun store_op :: "(nat \<Rightarrow> u8) \<Rightarrow> log_op \<Rightarrow> (inmem_log_store, unit) cmd" where
  "store_op u (Op_Append now e) = thn (append_log u now e) (ret ())"
| "store_op u (Op_Write_At now i e) = write_at u now i e"
| "store_op u (Op_Compact j) = (\<lambda>s. (Inr (), snd (compact j s)))"

fun rl_op :: "log_op \<Rightarrow> log_entry rlog \<Rightarrow> log_entry rlog" where
  "rl_op (Op_Append now e) l = rl_append (stored_entry e) l"
| "rl_op (Op_Write_At now i e) l = rl_write_at i (stored_entry e) l"
| "rl_op (Op_Compact j) l = rl_compact j l"

fun rl_op_ok :: "log_op \<Rightarrow> log_entry rlog \<Rightarrow> bool" where
  "rl_op_ok (Op_Append now e) l = (src_entry e \<and> rl_next l < 2 ^ 64 - 1)"
| "rl_op_ok (Op_Write_At now i e) l = (src_entry e \<and> rl_start l \<le> i \<and> i \<le> rl_next l \<and> i < 2 ^ 64 - 1)"
| "rl_op_ok (Op_Compact j) l = (j < 2 ^ 64 - 1)"

fun rl_ops_ok :: "log_op list \<Rightarrow> log_entry rlog \<Rightarrow> bool" where
  "rl_ops_ok [] l = True"
| "rl_ops_ok (oper # ops) l = (rl_op_ok oper l \<and> rl_ops_ok ops (rl_op oper l))"

lemma store_op_refines:
  assumes "store_ok s" and "rl_op_ok oper (store_log s)"
  shows "\<exists>s'. store_op u oper s = (Inr (), s') \<and> store_ok s' \<and> store_log s' = rl_op oper (store_log s)"
proof (cases oper)
  case (Op_Append now e)
  with assms inmem.append [of s e u now] show ?thesis by (auto simp: thn_Inr)
next
  case (Op_Write_At now i e)
  with assms inmem.write_at [of s e i u now] show ?thesis by simp
next
  case (Op_Compact j)
  with assms inmem.compact [of s j] show ?thesis by auto
qed

lemma store_ops_refine:
  "store_ok s \<Longrightarrow> rl_ops_ok ops (store_log s) \<Longrightarrow>
    \<exists>s'. for_each ops (store_op u) s = (Inr (), s') \<and> store_ok s' \<and> store_log s' = fold rl_op ops (store_log s)"
proof (induction ops arbitrary: s)
  case Nil
  then show ?case by simp
next
  case (Cons oper ops)
  then obtain s1 where "store_op u oper s = (Inr (), s1)" "store_ok s1" "store_log s1 = rl_op oper (store_log s)"
    using store_op_refines [of s oper u] by auto
  with Cons.prems Cons.IH [of s1] show ?case
    by (auto simp: thn_Inr)
qed

definition sample_entry :: "nat \<Rightarrow> u8 list \<Rightarrow> log_entry" where
  "sample_entry t d = new_log_entry t (Some (blk 0 d)) app_log 0 False 0 True"

lemma sample_entry_src: "length d < 2 ^ 31 \<Longrightarrow> src_entry (sample_entry t d)"
  by (auto simp: sample_entry_def src_entry_def new_log_entry_def intro!: exI [where x = 0])

subsection \<open>Packing and unpacking\<close>

definition entry_bytes :: "log_entry \<Rightarrow> u8 list" where
  "entry_bytes e = bytes_le 8 (int (le_term e)) @ [le_type e] @ payload (the (le_buff e))"

definition packed_bytes :: "log_entry \<Rightarrow> u8 list" where
  "packed_bytes e = bytes_le 4 (int (length (entry_bytes e))) @ entry_bytes e"

text \<open>What is left of an entry after packing: no timestamp, and a checksum computed anew.\<close>

definition repacked :: "log_entry \<Rightarrow> log_entry" where
  "repacked e = \<lparr>le_term = le_term e, le_type = le_type e, le_buff = le_buff e, le_timestamp_us = 0,
     le_has_crc32 = True, le_crc32 = crc32_8 (payload (the (le_buff e))) 0\<rparr>"

definition packable :: "log_entry \<Rightarrow> bool" where
  "packable e \<longleftrightarrow> wf_entry e \<and> le_term e < 2 ^ 64 \<and> length (entry_bytes e) < 2 ^ 31"

lemma serialize_packable:
  assumes "packable e"
  shows "log_entry_serialize u e = (Inr (blk 0 (entry_bytes e)), e)"
proof -
  obtain d where d: "le_buff e = Some (blk 0 d)" "length d < 2 ^ 31" "payload (blk 0 d) = d"
    using assms by (auto simp: packable_def wf_entry_def buf_simps)
  have len: "9 + length d < 2 ^ 31"
    using assms d by (simp add: packable_def entry_bytes_def)
  have b: "emits blk (put_buf (blk 0 d)) d"
    using emits_put_buf [of 0 d] d(2) by simp
  have "emits blk (thn (put_ulong (le_term e)) (thn (put_byte (le_type e)) (put_buf (blk 0 d)))) (entry_bytes e)"
    unfolding entry_bytes_def d(1) option.sel d(3) by (intro emits_thn emits_put_ulong emits_put_byte b)
  then have "run_on (buf_alloc u (9 + length d))
      (thn (thn (put_ulong (le_term e)) (thn (put_byte (le_type e)) (put_buf (blk 0 d)))) (buf_set_pos 0))
      = Inr (blk 0 (entry_bytes e))"
    by (rule alloc_emits) (use len d in \<open>simp_all add: entry_bytes_def\<close>)
  then show ?thesis
    using d by (simp add: log_entry_serialize_def buf_simps)
qed

lemma deserialize_entry_bytes:
  assumes "packable e"
  shows "fst (log_entry_deserialize u (blk 0 (entry_bytes e))) = Inr (repacked e)"
proof -
  obtain d where d: "le_buff e = Some (blk 0 d)" "length d < 2 ^ 31" "payload (blk 0 d) = d"
    using assms by (auto simp: packable_def wf_entry_def buf_simps)
  let ?bs = "bytes_le 8 (int (le_term e)) @ [le_type e] @ d"
  have e: "entry_bytes e = ?bs" "le_term e < 2 ^ 64" "9 + length d < 2 ^ 31"
    using assms d by (simp_all add: packable_def entry_bytes_def)
  have 1: "get_ulong (blk 0 ?bs) = (Inr (le_term e), blk 8 ?bs)"
    using parsesD [OF parses_get_ulong [OF e(2)], of "[]" "[le_type e] @ d"] e(3) by simp
  have 2: "get_byte (blk 8 ?bs) = (Inr (le_type e), blk 9 ?bs)"
    using parsesD [OF parses_get_byte [of "le_type e"], of "bytes_le 8 (int (le_term e))" d] e(3) by simp
  have 3: "buf_copy u (blk 9 ?bs) = Inr (blk 0 d)"
    using buf_copy_blk [of 9 ?bs u] e(3) by simp
  show ?thesis
    using 1 2 3 d unfolding e(1)
    by (simp add: log_entry_deserialize_def bnd_def new_log_entry_def repacked_def)
qed

lemma buf_get_into:
  assumes "p + length x \<le> length d" and "length d < 2 ^ 31"
  shows "buf_get (blk 0 x) (blk p d) = (Inr (blk 0 (peek d p (length x))), blk (p + length x) d)"
proof -
  have "length (peek d p (length x)) = length x"
    using assms(1) by (simp add: peek_def)
  then have "wr (hdr_len x) (peek d p (length x)) (blk 0 x) = (Inr (), blk 0 (peek d p (length x)))"
    using wr_blk_begin [of "peek d p (length x)" x 0] by (simp add: poke_def)
  with assms show ?thesis
    by (simp add: buf_get_def buf_simps bind_simps Let_def)
qed

lemma parses_unpack_entry:
  assumes "packable e"
  shows "parses blk (unpack_entry u) (packed_bytes e) (repacked e)"
  unfolding parses_def
proof (intro allI impI)
  fix w r :: "u8 list"
  let ?n = "length (entry_bytes e)" and ?all = "w @ packed_bytes e @ r"
  assume len: "length ?all < 2 ^ 31"
  have n: "?n < 2 ^ 31" using assms by (simp add: packable_def)
  have 1: "get_int (blk (length w) ?all) = (Inr (int ?n), blk (length w + 4) ?all)"
    using parsesD [OF parses_get_int [of "int ?n"], of w "entry_bytes e @ r"] n len
    by (simp add: packed_bytes_def)
  obtain x where x: "length x = ?n" "buf_alloc u ?n = Inr (blk 0 x)"
    using n by (rule alloc_blk)
  have "peek ?all (length w + 4) ?n = entry_bytes e"
    using peek_prefix [of "w @ bytes_le 4 (int ?n)" "entry_bytes e" r] by (simp add: packed_bytes_def)
  then have 2: "buf_get (blk 0 x) (blk (length w + 4) ?all) = (Inr (blk 0 (entry_bytes e)), blk (length w + 4 + ?n) ?all)"
    using buf_get_into [of "length w + 4" x ?all] x(1) len by (simp add: packed_bytes_def)
  have "nat (int ?n mod 2 ^ 64) = ?n"
    using n by simp
  with 1 2 x show "unpack_entry u (blk (length w) ?all) = (Inr (repacked e), blk (length (w @ packed_bytes e)) ?all)"
    by (simp add: unpack_entry_def bnd_def deserialize_entry_bytes [OF assms])
      (simp add: packed_bytes_def add.assoc)
qed

lemma pack_loop_store:
  assumes "store_ok s" and "\<And>k. k < length es \<Longrightarrow> om_find (ii + k) (logs s) = Some (es ! k)"
    and "list_all packable es"
  shows "pack_loop u (length es) ii s = (Inr (map (\<lambda>e. blk 0 (entry_bytes e)) es), s)"
  using assms
proof (induction es arbitrary: ii)
  case Nil
  then show ?case by simp
next
  case (Cons e es)
  have ok: "omap_ok (logs s)"
    using Cons.prems(1) by (rule store_okE) (auto simp: omap_ok_Cons omap_ok_seq dest: om_seq_keys)
  have e: "om_find ii (logs s) = Some e"
    using Cons.prems(2) [of 0] by simp
  have "pack_loop u (length es) (ii + 1) s = (Inr (map (\<lambda>e. blk 0 (entry_bytes e)) es), s)"
    using Cons.prems(2) [of "Suc _"] Cons.prems(1,3) by (intro Cons.IH) simp_all
  moreover have "s\<lparr>logs := om_set ii e (logs s)\<rparr> = s"
    using om_set_same [OF ok e] by simp
  ultimately show ?case
    using e Cons.prems(3) by (simp add: serialize_packable bnd_def)
qed

lemma alloc_emits_end:
  assumes "emits blk c bs" and "length bs < 2 ^ 31"
  shows "run_on (buf_alloc u (length bs)) (thn (buf_set_pos 0) c) = Inr (blk (length bs) bs)"
proof -
  obtain r where r: "length r = length bs" "buf_alloc u (length bs) = Inr (blk 0 r)"
    using assms(2) by (rule alloc_blk)
  with emitsD [OF assms(1), of r] assms(2) show ?thesis
    by (simp add: run_on_def thn_def bnd_def buf_simps)
qed

lemma emits_put_packed:
  assumes "packable e"
  shows "emits blk (put_packed (blk 0 (entry_bytes e))) (packed_bytes e)"
proof -
  have n: "length (entry_bytes e) < 2 ^ 31" using assms by (simp add: packable_def)
  then have "emits blk (put_buf (blk 0 (entry_bytes e))) (entry_bytes e)"
    using emits_put_buf [of 0 "entry_bytes e"] by simp
  moreover have "buf_size (blk 0 (entry_bytes e)) = length (entry_bytes e)"
    using n by (simp add: buf_simps)
  ultimately show ?thesis
    unfolding put_packed_def packed_bytes_def by (auto intro: emits_thn emits_put_int)
qed

lemma pack_store:
  assumes "store_ok s" and "rl_start (store_log s) \<le> index" and "index + n \<le> rl_next (store_log s)"
    and es: "es = rl_slice index (index + n) (store_log s)" and "list_all packable es"
    and len: "4 + length (concat (map packed_bytes es)) < 2 ^ 31"
  shows "pack u index (int n) s =
    (Inr (blk (4 + length (concat (map packed_bytes es))) (bytes_le 4 (int n) @ concat (map packed_bytes es))), s)"
proof -
  let ?bufs = "map (\<lambda>e. blk 0 (entry_bytes e)) es" and ?out = "bytes_le 4 (int n) @ concat (map packed_bytes es)"
  have slice: "length es = n" "\<And>k. k < n \<Longrightarrow> rl_get (index + k) (store_log s) = Some (es ! k)"
    using rl_slice_nth [OF assms(2) _ assms(3)] es by auto
  have "length es \<le> length (concat (map packed_bytes es))"
    by (induction es) (simp_all add: packed_bytes_def)
  then have n: "n < 2 ^ 31" using len slice(1) by simp
  have sz: "start_idx s + length (logs s) \<le> 2 ^ 64" "rl_next (store_log s) + 1 = start_idx s + length (logs s)"
    using assms(1) by (auto simp: store_ok_def store_log_def rl_next_def)
  have cnt: "nat (int n mod 2 ^ 64) = n" "add64 index n - index = n"
    using n sz assms(3) by simp_all
  have loop: "pack_loop u n index s = (Inr ?bufs, s)"
    using pack_loop_store [of s es index u] store_find [OF assms(1)] slice assms(1,5) by simp
  have "sum_list (map buf_size ?bufs) = sum_list (map (\<lambda>e. length (entry_bytes e)) es)"
    using assms(5) by (auto simp: list_all_iff packable_def buf_simps comp_def intro!: arg_cong [where f = sum_list])
  moreover have "length (concat (map packed_bytes es)) = n * 4 + sum_list (map (\<lambda>e. length (entry_bytes e)) es)"
    unfolding slice(1) [symmetric] by (induction es) (simp_all add: packed_bytes_def)
  ultimately have alloc: "(sz_int + n * sz_int + sum_list (map buf_size ?bufs)) mod 2 ^ 64 = length ?out"
    using len by simp
  have "emits blk (for_each ?bufs put_packed) (concat (map packed_bytes es))"
    unfolding for_each_map by (rule emits_for_each) (use assms(5) in \<open>auto simp: list_all_iff intro: emits_put_packed\<close>)
  then have "emits blk (thn (put_int (int n)) (for_each ?bufs put_packed)) ?out"
    by (intro emits_thn emits_put_int)
  then have "run_on (buf_alloc u (length ?out)) (thn (buf_set_pos 0) (thn (put_int (int n)) (for_each ?bufs put_packed)))
      = Inr (blk (length ?out) ?out)"
    using len by (intro alloc_emits_end) simp_all
  then show ?thesis
    unfolding pack_def Let_def cnt by (simp only: bnd_Inr [where m = "pack_loop u n index", OF loop] alloc lift_simp) simp
qed

lemma apply_pack_loop_seq:
  assumes "logs s = (0, dummy) # om_seq a xs" and "1 \<le> a" and "list_all packable es"
    and "length (w @ concat (map packed_bytes es)) < 2 ^ 31" and "a + length xs + length es < 2 ^ 64"
  shows "apply_pack_loop u (length es) (a + length xs) (s, blk (length w) (w @ concat (map packed_bytes es))) =
    (Inr (), (s\<lparr>logs := (0, dummy) # om_seq a (xs @ map repacked es)\<rparr>,
      blk (length (w @ concat (map packed_bytes es))) (w @ concat (map packed_bytes es))))"
  using assms
proof (induction es arbitrary: s xs w)
  case Nil
  then show ?case by simp
next
  case (Cons e es)
  let ?rest = "concat (map packed_bytes es)"
  let ?s = "s\<lparr>logs := (0, dummy) # om_seq a (xs @ [repacked e])\<rparr>"
  have "parses blk (unpack_entry u) (packed_bytes e) (repacked e)"
    using Cons.prems(3) by (simp add: parses_unpack_entry)
  then have 1: "unpack_entry u (blk (length w) (w @ packed_bytes e @ ?rest)) =
      (Inr (repacked e), blk (length (w @ packed_bytes e)) ((w @ packed_bytes e) @ ?rest))"
    using parsesD [of blk "unpack_entry u" "packed_bytes e" _ w ?rest] Cons.prems(4) by simp
  have 2: "s\<lparr>logs := om_set (a + length xs) (repacked e) (logs s)\<rparr> = ?s"
    using Cons.prems(1,2) by (simp add: om_set_seq_end)
  have "apply_pack_loop u (length es) (a + length (xs @ [repacked e]))
      (?s, blk (length (w @ packed_bytes e)) ((w @ packed_bytes e) @ ?rest)) =
    (Inr (), (?s\<lparr>logs := (0, dummy) # om_seq a ((xs @ [repacked e]) @ map repacked es)\<rparr>,
      blk (length ((w @ packed_bytes e) @ ?rest)) ((w @ packed_bytes e) @ ?rest)))"
    using Cons.prems by (intro Cons.IH) simp_all
  moreover have "add64 (a + length xs) 1 = a + length (xs @ [repacked e])"
    using Cons.prems(5) by simp
  ultimately show ?case
    using 1 2 by simp
qed

text \<open>
  C28. A pack of log entries taken from one store and applied to a new one transfers that part of
  the log. The new store then starts at the index the pack was taken from and holds its entries
  with term, type and payload; the source store is as before.
\<close>

theorem pack_apply_roundtrip:
  assumes "store_ok s" and "rl_start (store_log s) \<le> index" and "index + n \<le> rl_next (store_log s)" and "1 \<le> n"
    and "list_all packable (rl_slice index (index + n) (store_log s))"
    and "4 + length (concat (map packed_bytes (rl_slice index (index + n) (store_log s)))) < 2 ^ 31"
    and "new_inmem_log_store u' = Inr t"
  shows "\<exists>m t' m'. pack u index (int n) s = (Inr m, s) \<and> apply_pack u' index (t, m) = (Inr (), (t', m')) \<and>
    store_ok t' \<and>
    store_log t' = \<lparr>rl_start = index, rl_entries = map repacked (rl_slice index (index + n) (store_log s))\<rparr>"
proof -
  define es where "es = rl_slice index (index + n) (store_log s)"
  let ?out = "bytes_le 4 (int n) @ concat (map packed_bytes es)"
  have len: "length ?out < 2 ^ 31" and pk: "list_all packable es"
    using assms(5,6) by (simp_all add: es_def)
  have n: "length es = n" using rl_slice_nth [OF assms(2) _ assms(3)] by (simp add: es_def)
  have "length es \<le> length (concat (map packed_bytes es))"
    by (induction es) (simp_all add: packed_bytes_def)
  then have n31: "n < 2 ^ 31" using len n by simp
  have pack: "pack u index (int n) s = (Inr (blk (length ?out) ?out), s)"
    using pack_store [OF assms(1-3) es_def pk] len by simp
  obtain dummy where t: "logs t = (0, dummy) # om_seq index []" "wf_entry dummy" "le_term dummy = 0"
    using new_store_ok [of u'] assms(7) by (auto elim!: store_okE simp: om_seq_def)
  have sz: "start_idx s + length (logs s) \<le> 2 ^ 64" "rl_next (store_log s) + 1 = start_idx s + length (logs s)" "1 \<le> index"
    using assms(1,2) by (auto simp: store_ok_def store_log_def rl_next_def)
  let ?t = "t\<lparr>logs := (0, dummy) # om_seq index (map repacked es)\<rparr>"
  have "bnd (buf_set_pos 0) (\<lambda>_. get_int) (blk (length ?out) ?out) = (Inr (int n), blk 4 ?out)"
    using parsesD [OF parses_get_int [of "int n"], of "[]" "concat (map packed_bytes es)"] n31 len
    by (simp add: bnd_def buf_simps)
  moreover have "apply_pack_loop u' n index (t, blk 4 ?out) = (Inr (), (?t, blk (length ?out) ?out))"
    using apply_pack_loop_seq [OF t(1) sz(3) pk, of "bytes_le 4 (int n)" u'] len n sz assms(3) by simp
  moreover obtain e es' where "es = e # es'" using n assms(4) by (cases es) simp_all
  then have "om_upper_bound 0 (logs ?t) = Some (index, repacked e)"
    using sz(3) by (simp add: om_upper_bound_def)
  ultimately have "apply_pack u' index (t, blk (length ?out) ?out) =
      (Inr (), (?t\<lparr>start_idx := index\<rparr>, blk (length ?out) ?out))"
    by (simp add: apply_pack_def thn_def bnd_def)
  moreover have "store_ok (?t\<lparr>start_idx := index\<rparr>) \<and>
      store_log (?t\<lparr>start_idx := index\<rparr>) = \<lparr>rl_start = start_idx (?t\<lparr>start_idx := index\<rparr>), rl_entries = map repacked es\<rparr>"
    using t sz n assms(3) pk
    by (intro store_okI) (auto simp: list_all_iff packable_def wf_entry_def repacked_def)
  ultimately show ?thesis
    using pack unfolding es_def [symmetric] by (intro exI conjI) auto
qed

definition sample_store :: inmem_log_store where
  "sample_store = \<lparr>logs = (0, sample_entry 0 []) # om_seq 1 [sample_entry 3 [1], sample_entry 4 [2, 3]],
     start_idx = 1, disk_emul_delay = 0, disk_emul_logs_being_written = [], disk_emul_last_durable_index = 0\<rparr>"

lemma sample_entry_facts:
  "length d < 2 ^ 30 \<Longrightarrow> t < 2 ^ 64 \<Longrightarrow> wf_entry (sample_entry t d) \<and> packable (sample_entry t d) \<and>
    le_term (sample_entry t d) = t \<and> length (packed_bytes (sample_entry t d)) = 13 + length d"
  by (auto simp: sample_entry_def new_log_entry_def wf_entry_def packable_def packed_bytes_def entry_bytes_def buf_simps)

lemma sample_store_ok:
  "store_ok sample_store \<and>
   store_log sample_store = \<lparr>rl_start = 1, rl_entries = [sample_entry 3 [1], sample_entry 4 [2, 3]]\<rparr>"
proof -
  have "store_ok sample_store \<and>
    store_log sample_store = \<lparr>rl_start = start_idx sample_store, rl_entries = [sample_entry 3 [1], sample_entry 4 [2, 3]]\<rparr>"
    by (rule store_okI [where dummy = "sample_entry 0 []"]) (simp_all add: sample_store_def sample_entry_facts)
  then show ?thesis by (simp add: sample_store_def)
qed

theorem pack_apply_roundtrip_witness:
  "\<exists>t m t' m'. new_inmem_log_store (\<lambda>_. 0) = Inr t \<and>
     pack (\<lambda>_. 0) 2 1 sample_store = (Inr m, sample_store) \<and>
     apply_pack (\<lambda>_. 0) 2 (t, m) = (Inr (), (t', m')) \<and>
     store_log t' = \<lparr>rl_start = 2, rl_entries = [repacked (sample_entry 4 [2, 3])]\<rparr>"
proof -
  obtain t where t: "new_inmem_log_store (\<lambda>_. 0) = Inr t"
    using new_store_ok by blast
  have slice: "rl_slice 2 (2 + 1) (store_log sample_store) = [sample_entry 4 [2, 3]]"
    by (simp add: sample_store_ok rl_slice_def)
  show ?thesis
    using pack_apply_roundtrip [of sample_store 2 1 "\<lambda>_. 0" t "\<lambda>_. 0"] t sample_store_ok
    unfolding slice by (auto simp: sample_entry_facts rl_next_def)
qed

subsection \<open>Reading in batches\<close>

definition entry_size :: "log_entry \<Rightarrow> nat" where
  "entry_size e = length (payload (the (le_buff e)))"

lemma log_entries_ext_loop_store:
  assumes "\<And>k. k < length es \<Longrightarrow> om_find (ii + k) (logs s) = Some (es ! k)" and "list_all wf_entry es"
  shows "\<exists>k \<le> length es. log_entries_ext_loop u hint s (length es) ii acc = Inr (take k es) \<and>
    (es \<noteq> [] \<longrightarrow> 0 < k) \<and> (hint = 0 \<longrightarrow> k = length es) \<and>
    (\<forall>j < k. 0 < j \<and> hint \<noteq> 0 \<longrightarrow> int (acc + sum_list (map entry_size (take j es))) < hint) \<and>
    (k < length es \<longrightarrow> hint \<le> int (acc + sum_list (map entry_size (take k es))))"
  using assms
proof (induction es arbitrary: ii acc)
  case Nil
  then show ?case by simp
next
  case (Cons e es)
  obtain d where d: "le_buff e = Some (blk 0 d)" "length d < 2 ^ 31"
    using Cons.prems(2) by (auto simp: wf_entry_def)
  then have e: "get_buf e = Inr (blk 0 d)" "buf_size (blk 0 d) = entry_size e"
    by (simp_all add: get_buf_def entry_size_def buf_simps)
  have find: "om_find ii (logs s) = Some e" "make_clone u e = Inr e"
    using Cons.prems(1) [of 0] Cons.prems(2) by (simp_all add: make_clone_wf)
  let ?acc = "acc + entry_size e"
  show ?case
  proof (cases "hint \<noteq> 0 \<and> int ?acc \<ge> hint")
    case True
    then show ?thesis
      using find e by (intro exI [where x = 1]) (auto simp: Let_def)
  next
    case False
    have "\<exists>k \<le> length es. log_entries_ext_loop u hint s (length es) (ii + 1) ?acc = Inr (take k es) \<and>
      (es \<noteq> [] \<longrightarrow> 0 < k) \<and> (hint = 0 \<longrightarrow> k = length es) \<and>
      (\<forall>j < k. 0 < j \<and> hint \<noteq> 0 \<longrightarrow> int (?acc + sum_list (map entry_size (take j es))) < hint) \<and>
      (k < length es \<longrightarrow> hint \<le> int (?acc + sum_list (map entry_size (take k es))))"
      using Cons.prems(1) [of "Suc _"] Cons.prems(2) by (intro Cons.IH) simp_all
    then obtain k where k: "k \<le> length es"
        "log_entries_ext_loop u hint s (length es) (ii + 1) ?acc = Inr (take k es)"
        "hint = 0 \<longrightarrow> k = length es"
        "\<forall>j < k. 0 < j \<and> hint \<noteq> 0 \<longrightarrow> int (?acc + sum_list (map entry_size (take j es))) < hint"
        "k < length es \<longrightarrow> hint \<le> int (?acc + sum_list (map entry_size (take k es)))"
      by blast
    have "int (acc + sum_list (map entry_size (take j (e # es)))) < hint" if "j < Suc k" "0 < j" "hint \<noteq> 0" for j
      using that k(4) False by (cases j; cases "j = 1") (auto simp: add.assoc)
    with k False find e show ?thesis
      by (intro exI [where x = "Suc k"]) (auto simp: Let_def add.assoc)
  qed
qed

text \<open>
  Reading a range with a size hint returns a prefix of that range: nothing for a negative
  hint, everything for the hint 0, and otherwise at least one entry and no entry more once the
  payloads read so far reach the hint.
\<close>

lemma log_entries_ext_batch:
  assumes "store_ok s" and "rl_start (store_log s) \<le> i" and "i < j" and "j \<le> rl_next (store_log s)"
  shows "\<exists>k. log_entries_ext u i j hint s = Inr (take k (rl_slice i j (store_log s))) \<and>
    (hint < 0 \<longrightarrow> k = 0) \<and> (hint = 0 \<longrightarrow> k = j - i) \<and>
    (0 < hint \<longrightarrow> 0 < k \<and> k \<le> j - i \<and>
       (\<forall>n. 0 < n \<and> n < k \<longrightarrow> int (sum_list (map entry_size (take n (rl_slice i j (store_log s))))) < hint) \<and>
       (k < j - i \<longrightarrow> hint \<le> int (sum_list (map entry_size (take k (rl_slice i j (store_log s)))))))"
proof (cases "hint < 0")
  case True
  then show ?thesis
    by (intro exI [where x = 0]) (simp add: log_entries_ext_def)
next
  case False
  let ?es = "rl_slice i j (store_log s)"
  have es: "length ?es = j - i" "\<And>k. k < j - i \<Longrightarrow> rl_get (i + k) (store_log s) = Some (?es ! k)"
    using rl_slice_nth [OF assms(2) _ assms(4)] assms(3) by auto
  have find: "om_find (i + k) (logs s) = Some (?es ! k) \<and> wf_entry (?es ! k)" if "k < length ?es" for k
    using store_find [OF assms(1) es(2)] that es(1) by simp
  then have wf: "list_all wf_entry ?es"
    by (simp add: list_all_length)
  show ?thesis
    using log_entries_ext_loop_store [of ?es i s u hint 0] find wf False assms(3) es(1)
    by (auto simp: log_entries_ext_def)
qed

subsection \<open>Every query of the store\<close>

lemma store_omap_ok: "store_ok s \<Longrightarrow> omap_ok (logs s)"
  by (fastforce simp: store_ok_def omap_ok_Cons omap_ok_seq dest: om_seq_keys)

lemma compact_loop_dummy: "1 \<le> ii \<Longrightarrow> om_find 0 (compact_loop n ii m) = om_find 0 m"
  by (induction n ii m rule: compact_loop.induct) (simp_all add: om_find_erase split: option.split)

text \<open>The dummy entry and the emulated delay stay as they are.\<close>

lemma store_op_keeps:
  assumes "store_ok s" and "rl_op_ok oper (store_log s)"
  shows "om_find 0 (logs (snd (store_op u oper s))) = om_find 0 (logs s) \<and>
    disk_emul_delay (snd (store_op u oper s)) = disk_emul_delay s"
proof -
  have start: "1 \<le> start_idx s" "rl_start (store_log s) = start_idx s"
    using assms(1) by (auto simp: store_ok_def store_log_def)
  show ?thesis
  proof (cases oper)
    case (Op_Append now e)
    have "0 < sub64 (add64 (start_idx s) (length (logs s))) 1"
      using next_slot_ok [OF assms(1)] start by (simp add: next_slot_def rl_next_def)
    then show ?thesis
      using Op_Append assms store_omap_ok [OF assms(1)] make_clone_src [of e u]
      by (simp add: append_log_def thn_def bnd_def Let_def om_find_set)
  next
    case (Op_Write_At now i e)
    then show ?thesis
      using assms start store_omap_ok [OF assms(1)] make_clone_src [of e u]
      by (simp add: write_at_def bnd_def Let_def om_find_set om_find_erase_from om_erase_from_filter omap_ok_filter)
        (simp add: om_find_erase_from om_erase_from_filter [symmetric])
  next
    case (Op_Compact j)
    then show ?thesis
      using start by (simp add: compact_def Let_def compact_loop_dummy)
  qed
qed

lemma store_ops_keep:
  "store_ok s \<Longrightarrow> rl_ops_ok ops (store_log s) \<Longrightarrow>
    om_find 0 (logs (snd (for_each ops (store_op u) s))) = om_find 0 (logs s) \<and>
    disk_emul_delay (snd (for_each ops (store_op u) s)) = disk_emul_delay s"
proof (induction ops arbitrary: s)
  case (Cons oper ops)
  then obtain s1 where "store_op u oper s = (Inr (), s1)" "store_ok s1" "store_log s1 = rl_op oper (store_log s)"
    using store_op_refines [of s oper u] by auto
  with Cons.prems Cons.IH [of s1] store_op_keeps [of s oper u] show ?case
    by (auto simp: thn_Inr)
qed simp

lemma find_or_dummy_store:
  assumes "store_ok s" and "om_find 0 (logs s) = Some dummy"
  shows "find_or_dummy i s = Inr (case rl_get i (store_log s) of Some e \<Rightarrow> e | None \<Rightarrow> dummy) \<and> wf_entry dummy"
proof -
  obtain dummy' es where s: "logs s = (0, dummy') # om_seq (start_idx s) es" "wf_entry dummy'"
      "1 \<le> start_idx s" "store_log s = \<lparr>rl_start = start_idx s, rl_entries = es\<rparr>"
    using assms(1) by (rule store_okE)
  have "om_find i (logs s) = (if i = 0 then Some dummy' else om_find i (om_seq (start_idx s) es))" "dummy' = dummy"
    using s(1) assms(2) by (simp_all add: om_find_def)
  then show ?thesis
    using s assms(2) by (auto simp: find_or_dummy_def om_find_seq rl_defs)
qed

lemma entry_at_store:
  assumes "store_ok s" and "om_find 0 (logs s) = Some dummy"
  shows "entry_at u i s = Inr (case rl_get i (store_log s) of Some e \<Rightarrow> e | None \<Rightarrow> dummy)"
  using find_or_dummy_store [OF assms, of i] store_find [OF assms(1), of i]
  by (simp add: entry_at_def make_clone_wf split: option.split)

lemma last_entry_store:
  assumes "store_ok s" and "om_find 0 (logs s) = Some dummy"
  shows "last_entry u s = Inr (if rl_entries (store_log s) = [] then dummy else last (rl_entries (store_log s)))"
proof -
  obtain es where s: "1 \<le> start_idx s" "start_idx s + Suc (length es) \<le> 2 ^ 64"
      "store_log s = \<lparr>rl_start = start_idx s, rl_entries = es\<rparr>"
    using assms(1) by (rule store_okE)
  have "sub64 (next_slot s) 1 = start_idx s + length es - 1"
    using s next_slot_ok [OF assms(1)] by (simp add: rl_next_def sub64_def)
  moreover have "last_entry u s = entry_at u (sub64 (next_slot s) 1) s"
    by (simp add: last_entry_def entry_at_def)
  ultimately have "last_entry u s =
      Inr (case rl_get (start_idx s + length es - 1) (store_log s) of Some e \<Rightarrow> e | None \<Rightarrow> dummy)"
    using entry_at_store [OF assms] by simp
  moreover have "rl_get (start_idx s + length es - 1) (store_log s) = (if es = [] then None else Some (last es))"
    using s by (cases es rule: rev_cases) (simp_all add: rl_defs)
  ultimately show ?thesis
    using s(3) by simp
qed

lemma last_durable_store:
  assumes "store_ok s" and "disk_emul_delay s = 0"
  shows "last_durable_index s = rl_next (store_log s) - 1"
proof -
  obtain es where "1 \<le> start_idx s" "start_idx s + Suc (length es) \<le> 2 ^ 64"
      "store_log s = \<lparr>rl_start = start_idx s, rl_entries = es\<rparr>"
    using assms(1) by (rule store_okE)
  then show ?thesis
    using next_slot_ok [OF assms(1)] assms(2) by (simp add: last_durable_index_def rl_next_def sub64_def)
qed

lemma new_store_dummy:
  assumes "new_inmem_log_store u = Inr s"
  shows "\<exists>dummy d. om_find 0 (logs s) = Some dummy \<and> le_term dummy = 0 \<and> le_buff dummy = Some (blk 0 d) \<and> length d = 8"
    and "disk_emul_delay s = 0"
proof -
  obtain d where d: "length d = 8" "buf_alloc u 8 = Inr (blk 0 d)"
    by (rule alloc_blk [of 8]) simp_all
  with assms show "\<exists>dummy d. om_find 0 (logs s) = Some dummy \<and> le_term dummy = 0 \<and> le_buff dummy = Some (blk 0 d) \<and> length d = 8"
    and "disk_emul_delay s = 0"
    by (auto simp: new_inmem_log_store_def om_find_def new_log_entry_def)
qed



end
