(* ===== verification/Raft_Msg.thy ===== *)
theory Raft_Msg
  imports Raft_Log
begin

text \<open>
  The vocabulary of the raft server: timers (\<^verbatim>\<open>internal_timer.h\<close>), message types and messages
  (\<^verbatim>\<open>msg_type.h\<close>, \<^verbatim>\<open>msg_base.h\<close>, \<^verbatim>\<open>req_msg.h\<close>, \<^verbatim>\<open>resp_msg.h\<close>), parameters and limits
  (\<^verbatim>\<open>raft_params.h\<close>, \<^verbatim>\<open>raft_server.h\<close>).

  A log entry of the server model keeps its payload decoded: a configuration, a notification or a
  priority change stands for the bytes its codec writes. The round trips of \<open>Raft_Codec\<close> and
  \<open>Raft_Msg_Codec\<close> are what makes that representation exact.
\<close>

subsection \<open>Narrowing\<close>

text \<open>A conversion to \<^verbatim>\<open>int32\<close> keeps the low 32 bits as a signed number.\<close>

definition to_i32 :: "int \<Rightarrow> int" where
  "to_i32 n = (n + 2 ^ 31) mod 2 ^ 32 - 2 ^ 31"

lemma to_i32_id [simp]: "- (2 ^ 31) \<le> n \<Longrightarrow> n < 2 ^ 31 \<Longrightarrow> to_i32 n = n"
  by (simp add: to_i32_def)

lemma to_i32_range: "- (2 ^ 31) \<le> to_i32 n \<and> to_i32 n < 2 ^ 31"
  by (simp add: to_i32_def)

subsection \<open>Timers\<close>

text \<open>
  Times are microseconds of the steady clock. The code computes elapsed times in double precision
  and truncates; the model is exact.
\<close>

record timer_helper =
  t_created :: int
  t_duration_us :: nat
  t_first_event_fired :: bool

definition new_timer :: "nat \<Rightarrow> nat \<Rightarrow> bool \<Rightarrow> timer_helper" where
  "new_timer now duration_us fire_first_event =
     \<lparr>t_created = int now, t_duration_us = duration_us, t_first_event_fired = (\<not> fire_first_event)\<rparr>"

definition timer_reset :: "nat \<Rightarrow> int \<Rightarrow> timer_helper \<Rightarrow> timer_helper" where
  "timer_reset now offset_ms t = t\<lparr>t_created := int now + 1000 * offset_ms\<rparr>"

definition set_duration_us :: "nat \<Rightarrow> timer_helper \<Rightarrow> timer_helper" where
  "set_duration_us us t = t\<lparr>t_duration_us := us\<rparr>"

definition set_duration_ms :: "nat \<Rightarrow> timer_helper \<Rightarrow> timer_helper" where
  "set_duration_ms ms t = set_duration_us (ms * 1000 mod 2 ^ 64) t"

definition set_duration_sec :: "nat \<Rightarrow> timer_helper \<Rightarrow> timer_helper" where
  "set_duration_sec sec t = set_duration_us (sec * 1000000 mod 2 ^ 64) t"

definition get_us :: "nat \<Rightarrow> timer_helper \<Rightarrow> nat" where
  "get_us now t = nat (int now - t_created t)"

definition get_ms :: "nat \<Rightarrow> timer_helper \<Rightarrow> nat" where
  "get_ms now t = get_us now t div 1000"

definition get_sec :: "nat \<Rightarrow> timer_helper \<Rightarrow> nat" where
  "get_sec now t = get_us now t div 1000000"

definition timed_out :: "nat \<Rightarrow> timer_helper \<Rightarrow> bool" where
  "timed_out now t \<longleftrightarrow> int (t_duration_us t) < int now - t_created t"

definition timeout :: "nat \<Rightarrow> timer_helper \<Rightarrow> bool \<times> timer_helper" where
  "timeout now t =
     (if \<not> t_first_event_fired t then (True, t\<lparr>t_first_event_fired := True\<rparr>)
      else (timed_out now t, t))"

definition timeout_and_reset :: "nat \<Rightarrow> timer_helper \<Rightarrow> bool \<times> timer_helper" where
  "timeout_and_reset now t =
     (if \<not> t_first_event_fired t then (True, t\<lparr>t_first_event_fired := True\<rparr>)
      else if timed_out now t then (True, t\<lparr>t_created := int now\<rparr>)
      else (False, t))"

lemma timeout_and_reset_again:
  "timeout_and_reset now t = (True, t') \<Longrightarrow> t_first_event_fired t \<Longrightarrow> timeout_and_reset now t' = (False, t')"
  by (auto simp: timeout_and_reset_def timed_out_def split: if_splits)

subsection \<open>Message types and roles\<close>

datatype msg_type =
    request_vote_request | request_vote_response | append_entries_request | append_entries_response
  | client_request | add_server_request | add_server_response | remove_server_request
  | remove_server_response | sync_log_request | sync_log_response | join_cluster_request
  | join_cluster_response | leave_cluster_request | leave_cluster_response
  | install_snapshot_request | install_snapshot_response | ping_request | ping_response
  | pre_vote_request | pre_vote_response | other_request | other_response
  | priority_change_request | priority_change_response | reconnect_request | reconnect_response
  | custom_notification_request | custom_notification_response

fun msg_code :: "msg_type \<Rightarrow> int" where
  "msg_code request_vote_request = 1"
| "msg_code request_vote_response = 2"
| "msg_code append_entries_request = 3"
| "msg_code append_entries_response = 4"
| "msg_code client_request = 5"
| "msg_code add_server_request = 6"
| "msg_code add_server_response = 7"
| "msg_code remove_server_request = 8"
| "msg_code remove_server_response = 9"
| "msg_code sync_log_request = 10"
| "msg_code sync_log_response = 11"
| "msg_code join_cluster_request = 12"
| "msg_code join_cluster_response = 13"
| "msg_code leave_cluster_request = 14"
| "msg_code leave_cluster_response = 15"
| "msg_code install_snapshot_request = 16"
| "msg_code install_snapshot_response = 17"
| "msg_code ping_request = 18"
| "msg_code ping_response = 19"
| "msg_code pre_vote_request = 20"
| "msg_code pre_vote_response = 21"
| "msg_code other_request = 22"
| "msg_code other_response = 23"
| "msg_code priority_change_request = 24"
| "msg_code priority_change_response = 25"
| "msg_code reconnect_request = 26"
| "msg_code reconnect_response = 27"
| "msg_code custom_notification_request = 28"
| "msg_code custom_notification_response = 29"

definition is_valid_msg :: "msg_type \<Rightarrow> bool" where
  "is_valid_msg t \<longleftrightarrow>
     msg_code request_vote_request \<le> msg_code t \<and> msg_code t \<le> msg_code custom_notification_response"

lemma is_valid_msg_all [simp]: "is_valid_msg t"
  by (cases t) (auto simp: is_valid_msg_def)

datatype srv_role = follower | candidate | leader

subsection \<open>Log entries and messages\<close>

text \<open>
  \<open>Conf\<close> is a \<^verbatim>\<open>log_val_type::conf\<close> entry with its configuration; \<open>Snp_Sync\<close> is a \<^verbatim>\<open>snp_sync_req\<close>
  entry; the next five are \<^verbatim>\<open>log_val_type::custom\<close> entries: \<^verbatim>\<open>force_vote_msg\<close>, the three kinds of
  \<^verbatim>\<open>custom_notification_msg\<close>, and the id and priority that \<^verbatim>\<open>broadcast_priority_change\<close> writes;
  \<open>No_Buf\<close> is an entry without a buffer and \<open>Other\<close> any other type and payload.
\<close>

datatype log_body =
    App_Log "u8 list"
  | Conf cluster_config
  | Snp_Sync snapshot_sync_req
  | Force_Vote
  | Out_Of_Log_Range nat
  | Leadership_Takeover
  | Request_Resignation
  | Priority_Change int int
  | No_Buf log_val_type
  | Other log_val_type "u8 list"

record rentry =
  re_term :: nat
  re_body :: log_body
  re_time :: nat

text \<open>The size of an entry's buffer, which \<^verbatim>\<open>send_req\<close> adds up for append requests.\<close>

fun body_size :: "log_body \<Rightarrow> nat" where
  "body_size (App_Log bs) = length bs"
| "body_size (Conf c) = length (enc_cluster c)"
| "body_size (Snp_Sync _) = 0"
| "body_size Force_Vote = 1"
| "body_size (Out_Of_Log_Range _) = 15"
| "body_size Leadership_Takeover = 6"
| "body_size Request_Resignation = 6"
| "body_size (Priority_Change _ _) = 8"
| "body_size (No_Buf _) = 0"
| "body_size (Other _ bs) = length bs"

record req_msg =
  rq_term :: nat
  rq_type :: msg_type
  rq_src :: int
  rq_dst :: int
  rq_last_log_term :: nat
  rq_last_log_idx :: nat
  rq_commit_idx :: nat
  rq_log_entries :: "rentry list"
  rq_excluded_from_the_quorum :: bool

definition new_req_msg :: "nat \<Rightarrow> msg_type \<Rightarrow> int \<Rightarrow> int \<Rightarrow> nat \<Rightarrow> nat \<Rightarrow> nat \<Rightarrow> req_msg" where
  "new_req_msg term type src dst last_log_term last_log_idx commit_idx =
     \<lparr>rq_term = term, rq_type = type, rq_src = src, rq_dst = dst, rq_last_log_term = last_log_term,
      rq_last_log_idx = last_log_idx, rq_commit_idx = commit_idx, rq_log_entries = [],
      rq_excluded_from_the_quorum = False\<rparr>"

datatype extra_order = NONE | DO_NOT_REWIND | RECEIVING_SNAPSHOT | NOTIFYING_SM_COMMITTED_INDEX

record resp_appendix =
  ra_extra_order :: extra_order
  ra_sm_committed_idx :: nat

datatype cmd_result_code =
    Result_OK | Result_CANCELLED | Result_TIMEOUT | Result_NOT_LEADER | Result_BAD_REQUEST
  | Result_SERVER_ALREADY_EXISTS | Result_CONFIG_CHANGING | Result_SERVER_IS_JOINING
  | Result_SERVER_NOT_FOUND | Result_CANNOT_REMOVE_LEADER | Result_SERVER_IS_LEAVING
  | Result_TERM_MISMATCH | Result_RESULT_NOT_EXIST_YET | Result_FAILED

text \<open>
  The context of a response is an appendix for the append responses, and for snapshot responses the
  one byte that says the installation is done (\<open>rs_done_ctx\<close>). The flag stands for
  \<^verbatim>\<open>SELF_MARK_DOWN\<close>, the only bit of \<^verbatim>\<open>extra_flags_\<close> that is used.
\<close>

record resp_msg =
  rs_term :: nat
  rs_type :: msg_type
  rs_src :: int
  rs_dst :: int
  rs_next_idx :: nat
  rs_next_batch_size_hint :: int
  rs_accepted :: bool
  rs_ctx :: "resp_appendix option"
  rs_done_ctx :: bool
  rs_result_code :: cmd_result_code
  rs_self_mark_down :: bool

definition new_resp_msg :: "nat \<Rightarrow> msg_type \<Rightarrow> int \<Rightarrow> int \<Rightarrow> nat \<Rightarrow> resp_msg" where
  "new_resp_msg term type src dst next_idx =
     \<lparr>rs_term = term, rs_type = type, rs_src = src, rs_dst = dst, rs_next_idx = next_idx,
      rs_next_batch_size_hint = 0, rs_accepted = False, rs_ctx = None, rs_done_ctx = False,
      rs_result_code = Result_OK,
      rs_self_mark_down = False\<rparr>"

definition resp_accept :: "nat \<Rightarrow> resp_msg \<Rightarrow> resp_msg" where
  "resp_accept next_idx r = r\<lparr>rs_next_idx := next_idx, rs_accepted := True\<rparr>"

subsection \<open>Parameters and limits\<close>

datatype return_method = blocking | async_handler

record raft_params =
  p_election_timeout_upper_bound :: int
  p_election_timeout_lower_bound :: int
  p_heart_beat_interval :: int
  p_rpc_failure_backoff :: int
  p_log_sync_batch_size :: int
  p_log_sync_stop_gap :: int
  p_snapshot_distance :: int
  p_snapshot_block_size :: int
  p_snapshot_sync_ctx_timeout :: int
  p_enable_randomized_snapshot_creation :: bool
  p_max_append_size :: int
  p_reserved_log_items :: int
  p_client_req_timeout :: int
  p_fresh_log_gap :: int
  p_stale_log_gap :: int
  p_custom_commit_quorum_size :: int
  p_custom_election_quorum_size :: int
  p_leadership_expiry :: int
  p_leadership_transfer_min_wait_time :: int
  p_allow_temporary_zero_priority_leader :: bool
  p_use_bg_thread_for_urgent_commit :: bool
  p_exclude_snp_receiver_from_quorum :: bool
  p_auto_adjust_quorum_for_small_cluster :: bool
  p_auto_forwarding :: bool
  p_return_method :: return_method
  p_grace_period_of_lagging_state_machine :: int
  p_use_bg_thread_for_snapshot_io :: bool
  p_use_new_joiner_type :: bool
  p_use_full_consensus_among_healthy_members :: bool
  p_track_peers_sm_commit_idx :: bool
  p_parallel_log_appending :: bool
  p_max_log_gap_in_stream :: int
  p_max_bytes_in_flight_in_stream :: int

definition default_raft_params :: raft_params where
  "default_raft_params =
     \<lparr>p_election_timeout_upper_bound = 500, p_election_timeout_lower_bound = 250,
      p_heart_beat_interval = 125, p_rpc_failure_backoff = 50, p_log_sync_batch_size = 1000,
      p_log_sync_stop_gap = 99999, p_snapshot_distance = 0,
      p_snapshot_block_size = 0, p_snapshot_sync_ctx_timeout = 0,
      p_enable_randomized_snapshot_creation = False, p_max_append_size = 100,
      p_reserved_log_items = 100000, p_client_req_timeout = 3000,
      p_fresh_log_gap = 200, p_stale_log_gap = 2000, p_custom_commit_quorum_size = 0,
      p_custom_election_quorum_size = 0, p_leadership_expiry = 0,
      p_leadership_transfer_min_wait_time = 0, p_allow_temporary_zero_priority_leader = True,
      p_use_bg_thread_for_urgent_commit = True, p_exclude_snp_receiver_from_quorum = False,
      p_auto_adjust_quorum_for_small_cluster = False, p_auto_forwarding = False,
      p_return_method = blocking,
      p_grace_period_of_lagging_state_machine = 0, p_use_bg_thread_for_snapshot_io = False,
      p_use_new_joiner_type = False, p_use_full_consensus_among_healthy_members = False, p_track_peers_sm_commit_idx = False,
      p_parallel_log_appending = False, p_max_log_gap_in_stream = 0,
      p_max_bytes_in_flight_in_stream = 0\<rparr>"

definition max_hb_interval :: "raft_params \<Rightarrow> int" where
  "max_hb_interval p =
     max (p_heart_beat_interval p) (p_election_timeout_lower_bound p - p_heart_beat_interval p div 2)"

record limits =
  l_pre_vote_rejection_limit :: int
  l_warning_limit :: int
  l_response_limit :: int
  l_leadership_limit :: int
  l_reconnect_limit :: int
  l_leave_limit :: int
  l_vote_limit :: int
  l_busy_connection_limit :: int
  l_full_consensus_leader_limit :: int
  l_full_consensus_follower_limit :: int

definition default_limits :: limits where
  "default_limits =
     \<lparr>l_pre_vote_rejection_limit = 20, l_warning_limit = 20, l_response_limit = 20,
      l_leadership_limit = 20, l_reconnect_limit = 50, l_leave_limit = 5, l_vote_limit = 5,
      l_busy_connection_limit = 20, l_full_consensus_leader_limit = 4,
      l_full_consensus_follower_limit = 2\<rparr>"

text \<open>\<^verbatim>\<open>limits::operator=\<close>, which assigns eight of the ten fields.\<close>

definition limits_assign :: "limits \<Rightarrow> limits \<Rightarrow> limits" where
  "limits_assign src l = l
     \<lparr>l_pre_vote_rejection_limit := l_pre_vote_rejection_limit src,
      l_warning_limit := l_warning_limit src,
      l_response_limit := l_response_limit src,
      l_leadership_limit := l_leadership_limit src,
      l_reconnect_limit := l_reconnect_limit src,
      l_leave_limit := l_leave_limit src,
      l_vote_limit := l_vote_limit src,
      l_busy_connection_limit := l_busy_connection_limit src\<rparr>"

end
