(* ===== verification/Raft_Msg_Codec.thy ===== *)
theory Raft_Msg_Codec
  imports Raft_Msg
begin

text \<open>
  Wire formats of the payloads that travel inside append responses and custom entries:
  \<^verbatim>\<open>resp_appendix\<close> (\<^verbatim>\<open>handle_append_entries.cc\<close>), \<^verbatim>\<open>custom_notification_msg\<close>, \<^verbatim>\<open>out_of_log_msg\<close> and
  \<^verbatim>\<open>force_vote_msg\<close> (\<^verbatim>\<open>handle_custom_notification.cc\<close>), with their round trips.
\<close>

subsection \<open>Writing and reading through a serializer\<close>

definition alloc_puts :: "(nat \<Rightarrow> u8) \<Rightarrow> nat \<Rightarrow> (serializer, unit) cmd \<Rightarrow> cpp_error + block" where
  "alloc_puts uninit len c =
     bndE (buf_alloc uninit len) (\<lambda>buf.
       case c (new_serializer LITTLE buf) of (Inl e, _) \<Rightarrow> Inl e | (Inr _, bs) \<Rightarrow> Inr (bs_buf bs))"

lemma alloc_puts_emits:
  assumes "emits (srl LITTLE 0) c bs" and "len = length bs" and "len < 2 ^ 31"
  shows "alloc_puts u len c = Inr (blk 0 bs)"
proof -
  obtain r where r: "length r = length bs" "buf_alloc u (length bs) = Inr (blk 0 r)"
    by (rule alloc_blk [of "length bs"]) (use assms in simp_all)
  then have "c (srl LITTLE 0 0 r) = (Inr (), srl LITTLE 0 (length bs) bs)"
    using emitsD [OF assms(1), of r] assms by simp
  with r show ?thesis
    by (simp add: alloc_puts_def assms(2) new_serializer_srl)
qed

subsection \<open>The extra order of an append response\<close>

fun order_code :: "extra_order \<Rightarrow> u8" where
  "order_code NONE = 0"
| "order_code DO_NOT_REWIND = 1"
| "order_code RECEIVING_SNAPSHOT = 2"
| "order_code NOTIFYING_SM_COMMITTED_INDEX = 3"

text \<open>\<^verbatim>\<open>static_cast<extra_order>\<close> of a byte outside the enumeration is a value no handler acts on.\<close>

definition order_of_code :: "u8 \<Rightarrow> extra_order" where
  "order_of_code b =
     (if b = 1 then DO_NOT_REWIND else if b = 2 then RECEIVING_SNAPSHOT
      else if b = 3 then NOTIFYING_SM_COMMITTED_INDEX else NONE)"

lemma order_of_code [simp]: "order_of_code (order_code x) = x"
  by (cases x) (auto simp: order_of_code_def)

definition new_resp_appendix :: resp_appendix where
  "new_resp_appendix = \<lparr>ra_extra_order = NONE, ra_sm_committed_idx = 0\<rparr>"

definition resp_appendix_serialize :: "(nat \<Rightarrow> u8) \<Rightarrow> resp_appendix \<Rightarrow> cpp_error + block" where
  "resp_appendix_serialize uninit a =
     alloc_puts uninit (1 + 1 + (if ra_extra_order a = NOTIFYING_SM_COMMITTED_INDEX then 8 else 0))
       (thn (put_u8 0) (thn (put_u8 (order_code (ra_extra_order a)))
          (if ra_extra_order a = NOTIFYING_SM_COMMITTED_INDEX
           then put_u64 (ra_sm_committed_idx a) else ret ())))"

definition resp_appendix_deserialize :: "block \<Rightarrow> cpp_error + resp_appendix" where
  "resp_appendix_deserialize buf =
     fst (bnd get_u8 (\<lambda>cur_ver.
       if cur_ver \<noteq> 0 then ret new_resp_appendix
       else bnd get_u8 (\<lambda>b. \<lambda>bs.
         (let res = new_resp_appendix\<lparr>ra_extra_order := order_of_code b\<rparr>
          in if ra_extra_order res = NOTIFYING_SM_COMMITTED_INDEX \<and> bs_pos bs + 8 \<le> buf_size buf
             then bnd get_u64 (\<lambda>n. ret (res\<lparr>ra_sm_committed_idx := n\<rparr>)) bs
             else ret res bs))) (new_serializer LITTLE buf))"

definition enc_appendix :: "resp_appendix \<Rightarrow> u8 list" where
  "enc_appendix a = [0] @ [order_code (ra_extra_order a)]
     @ (if ra_extra_order a = NOTIFYING_SM_COMMITTED_INDEX then bytes_le 8 (int (ra_sm_committed_idx a)) else [])"

lemma resp_appendix_serialize_blk: "resp_appendix_serialize u a = Inr (blk 0 (enc_appendix a))"
proof -
  have "emits (srl LITTLE 0) (if ra_extra_order a = NOTIFYING_SM_COMMITTED_INDEX
           then put_u64 (ra_sm_committed_idx a) else ret ())
     (if ra_extra_order a = NOTIFYING_SM_COMMITTED_INDEX then bytes_le 8 (int (ra_sm_committed_idx a)) else [])"
    using emits_u64_le emits_ret by (auto simp del: ret_simp)
  then show ?thesis
    unfolding resp_appendix_serialize_def enc_appendix_def
    by (intro alloc_puts_emits emits_thn emits_put_ints(1)) simp_all
qed

lemma resp_appendix_deserialize_enc:
  assumes "ra_sm_committed_idx a < 2 ^ 64"
  shows "resp_appendix_deserialize (blk 0 (enc_appendix a)) =
    Inr (if ra_extra_order a = NOTIFYING_SM_COMMITTED_INDEX then a
         else a\<lparr>ra_sm_committed_idx := 0\<rparr>)"
proof -
  let ?o = "order_code (ra_extra_order a)"
    and ?f = "if ra_extra_order a = NOTIFYING_SM_COMMITTED_INDEX then bytes_le 8 (int (ra_sm_committed_idx a)) else []"
  let ?s = "\<lambda>p. srl LITTLE 0 p (enc_appendix a)"
  have len: "length ([0] @ [?o] @ ?f) < 2 ^ 31" by simp
  have 1: "get_u8 (?s 0) = (Inr 0, ?s 1)"
    using parsesD [OF parses_get_ints(1) [of LITTLE 0 0], of "[]" "[?o] @ ?f"] len
    by (simp add: enc_appendix_def)
  have 2: "get_u8 (?s 1) = (Inr ?o, ?s 2)"
    using parsesD [OF parses_get_ints(1) [of LITTLE 0 ?o], of "[0]" ?f] len
    by (simp add: enc_appendix_def)
  have 3: "get_u64 (?s 2) = (Inr (ra_sm_committed_idx a), ?s 10)"
    if "ra_extra_order a = NOTIFYING_SM_COMMITTED_INDEX"
    using parsesD [OF parses_u64_le [OF assms, of 0], of "[0] @ [?o]" "[]"] len that
    by (simp add: enc_appendix_def numeral_2_eq_2)
  have 4: "buf_size (blk 0 (enc_appendix a)) =
      (if ra_extra_order a = NOTIFYING_SM_COMMITTED_INDEX then 10 else 2)"
    by (simp add: enc_appendix_def buf_simps)
  have 5: "new_serializer LITTLE (blk 0 (enc_appendix a)) = ?s 0"
    by (simp add: new_serializer_srl)
  show ?thesis
  proof (cases "ra_extra_order a = NOTIFYING_SM_COMMITTED_INDEX")
    case True
    then show ?thesis
      unfolding resp_appendix_deserialize_def 5
      using 1 2 3 4 by (cases a) (simp add: bnd_def Let_def new_resp_appendix_def order_of_code_def)
  next
    case False
    then show ?thesis
      unfolding resp_appendix_deserialize_def 5
      using 1 2 4 by (cases a) (simp add: bnd_def Let_def new_resp_appendix_def)
  qed
qed

subsection \<open>Custom notifications\<close>

record custom_notification_msg =
  cn_type :: u8
  cn_ctx :: "block option"

definition out_of_log_range_warning :: u8 where "out_of_log_range_warning = 1"
definition leadership_takeover :: u8 where "leadership_takeover = 2"
definition request_resignation :: u8 where "request_resignation = 3"

definition custom_notification_serialize ::
    "(nat \<Rightarrow> u8) \<Rightarrow> custom_notification_msg \<Rightarrow> cpp_error + block" where
  "custom_notification_serialize uninit m =
     alloc_puts uninit (1 + 1 + 4 + (case cn_ctx m of Some ctx \<Rightarrow> buf_size ctx | None \<Rightarrow> 0))
       (thn (put_u8 0) (thn (put_u8 (cn_type m))
          (case cn_ctx m of Some ctx \<Rightarrow> bs_put_bytes (payload ctx) | None \<Rightarrow> put_u32 0)))"

text \<open>A fresh block of the given length filled by \<^verbatim>\<open>memcpy\<close>.\<close>

definition alloc_copy :: "(nat \<Rightarrow> u8) \<Rightarrow> u8 list \<Rightarrow> cpp_error + block" where
  "alloc_copy uninit bs =
     bndE (buf_alloc uninit (length bs)) (\<lambda>ctx.
       case wr (entire_data_of_block ctx) bs ctx of (Inl e, _) \<Rightarrow> Inl e | (Inr _, ctx') \<Rightarrow> Inr ctx')"

definition custom_notification_deserialize ::
    "(nat \<Rightarrow> u8) \<Rightarrow> block \<Rightarrow> cpp_error + custom_notification_msg" where
  "custom_notification_deserialize uninit buf =
     bndE (fst (bnd get_u8 (\<lambda>version. bnd get_u8 (\<lambda>type. bnd bs_get_bytes (\<lambda>bs. ret (type, bs))))
                 (new_serializer LITTLE buf)))
       (\<lambda>(type, bs).
          if bs \<noteq> [] then bndE (alloc_copy uninit bs) (\<lambda>ctx. Inr \<lparr>cn_type = type, cn_ctx = Some ctx\<rparr>)
          else Inr \<lparr>cn_type = type, cn_ctx = None\<rparr>)"

definition out_of_log_serialize :: "(nat \<Rightarrow> u8) \<Rightarrow> nat \<Rightarrow> cpp_error + block" where
  "out_of_log_serialize uninit start_idx_of_leader =
     alloc_puts uninit (1 + 8) (thn (put_u8 0) (put_u64 start_idx_of_leader))"

definition out_of_log_deserialize :: "block \<Rightarrow> cpp_error + nat" where
  "out_of_log_deserialize buf =
     fst (bnd get_u8 (\<lambda>version. bnd get_u64 (\<lambda>n. ret n)) (new_serializer LITTLE buf))"

definition force_vote_serialize :: "(nat \<Rightarrow> u8) \<Rightarrow> cpp_error + block" where
  "force_vote_serialize uninit = alloc_puts uninit 1 (put_u8 0)"

definition force_vote_deserialize :: "block \<Rightarrow> cpp_error + unit" where
  "force_vote_deserialize buf = fst (bnd get_u8 (\<lambda>version. ret ()) (new_serializer LITTLE buf))"

definition enc_custom :: "u8 \<Rightarrow> u8 list \<Rightarrow> u8 list" where
  "enc_custom type ctx = [0] @ [type] @ bytes_le 4 (int (length ctx)) @ ctx"

lemma custom_notification_serialize_blk:
  assumes "case cn_ctx m of Some b \<Rightarrow> \<exists>p \<le> length ctx. b = blk p ctx | None \<Rightarrow> ctx = []" and "length ctx + 6 < 2 ^ 31"
  shows "custom_notification_serialize u m = Inr (blk 0 (enc_custom (cn_type m) ctx))"
proof -
  have "emits (srl LITTLE 0) (case cn_ctx m of Some b \<Rightarrow> bs_put_bytes (payload b) | None \<Rightarrow> put_u32 0)
      (bytes_le 4 (int (length ctx)) @ ctx)"
    using assms emits_bs_put_bytes [of ctx LITTLE 0] emits_put_ints(3) [of LITTLE 0 0]
    by (auto split: option.splits simp: buf_simps order_bytes_def)
  then show ?thesis
    unfolding custom_notification_serialize_def enc_custom_def using assms
    by (intro alloc_puts_emits emits_thn emits_put_ints(1)) (auto split: option.splits simp: buf_simps)
qed

lemma alloc_copy_blk: "length bs < 2 ^ 31 \<Longrightarrow> alloc_copy u bs = Inr (blk 0 bs)"
proof -
  assume len: "length bs < 2 ^ 31"
  obtain x where x: "length x = length bs" "buf_alloc u (length bs) = Inr (blk 0 x)"
    by (rule alloc_blk [of "length bs"]) (use len in simp_all)
  then have "wr (hdr_len x) bs (blk 0 x) = (Inr (), blk 0 bs)"
    using wr_blk_begin [of bs x 0] by (simp add: poke_def)
  with x len show ?thesis
    by (simp add: alloc_copy_def buf_simps pos_fits_def)
qed

lemma custom_notification_deserialize_enc:
  assumes "length ctx + 6 < 2 ^ 31"
  shows "custom_notification_deserialize u (blk 0 (enc_custom type ctx)) =
    Inr \<lparr>cn_type = type, cn_ctx = (if ctx = [] then None else Some (blk 0 ctx))\<rparr>"
proof -
  have b: "parses (srl LITTLE 0) bs_get_bytes (bytes_le 4 (int (length ctx)) @ ctx) ctx"
    using parses_bs_get_bytes [of ctx LITTLE 0] assms by (simp add: order_bytes_def)
  have "parses (srl LITTLE 0)
      (bnd get_u8 (\<lambda>version. bnd get_u8 (\<lambda>type. bnd bs_get_bytes (\<lambda>bs. ret (type, bs)))))
      (enc_custom type ctx) (type, ctx)"
    unfolding enc_custom_def by (rule parses_bnd [OF parses_get_ints(1)] parses_bnd_ret [OF b])+
  from parsesD [OF this, of "[]" "[]"] show ?thesis
    using assms by (auto simp: custom_notification_deserialize_def new_serializer_srl enc_custom_def alloc_copy_blk)
qed

text \<open>
  C32. The payloads that ride inside raft messages survive their byte formats. An append response's
  appendix comes back with its order, and with the committed index exactly when the order is the one
  that carries it; a custom notification comes back with its type and its context, an empty context
  being the same as none; an out-of-log-range notice keeps its index; and a force-vote payload is read
  without an error. Fresh memory does not matter in any of them.
\<close>

theorem message_payload_roundtrips:
  assumes "ra_sm_committed_idx a < 2 ^ 64" and "n < 2 ^ 64"
    and "cn_ctx m = Some (blk p ctx)" and "p \<le> length ctx" and "length ctx + 6 < 2 ^ 31"
  shows "(\<exists>b. resp_appendix_serialize u a = Inr b \<and> resp_appendix_deserialize b =
           Inr (if ra_extra_order a = NOTIFYING_SM_COMMITTED_INDEX then a else a\<lparr>ra_sm_committed_idx := 0\<rparr>)) \<and>
    (\<exists>b. custom_notification_serialize u m = Inr b \<and> custom_notification_deserialize u' b =
           Inr (m\<lparr>cn_ctx := (if ctx = [] then None else Some (blk 0 ctx))\<rparr>)) \<and>
    (\<exists>b. custom_notification_serialize u (m\<lparr>cn_ctx := None\<rparr>) = Inr b \<and>
         custom_notification_deserialize u' b = Inr (m\<lparr>cn_ctx := None\<rparr>)) \<and>
    (\<exists>b. out_of_log_serialize u n = Inr b \<and> out_of_log_deserialize b = Inr n) \<and>
    (\<exists>b. force_vote_serialize u = Inr b \<and> force_vote_deserialize b = Inr ())"
proof (intro conjI)
  show "\<exists>b. resp_appendix_serialize u a = Inr b \<and> resp_appendix_deserialize b =
           Inr (if ra_extra_order a = NOTIFYING_SM_COMMITTED_INDEX then a else a\<lparr>ra_sm_committed_idx := 0\<rparr>)"
    using assms(1) by (simp add: resp_appendix_serialize_blk resp_appendix_deserialize_enc)
  show "\<exists>b. custom_notification_serialize u m = Inr b \<and> custom_notification_deserialize u' b =
           Inr (m\<lparr>cn_ctx := (if ctx = [] then None else Some (blk 0 ctx))\<rparr>)"
  proof -
    have "custom_notification_serialize u m = Inr (blk 0 (enc_custom (cn_type m) ctx))"
      using assms(3-5) by (intro custom_notification_serialize_blk) auto
    then show ?thesis
      using assms(5) by (cases m) (simp add: custom_notification_deserialize_enc)
  qed
  show "\<exists>b. custom_notification_serialize u (m\<lparr>cn_ctx := None\<rparr>) = Inr b \<and>
         custom_notification_deserialize u' b = Inr (m\<lparr>cn_ctx := None\<rparr>)"
    using custom_notification_serialize_blk [of "[]" "m\<lparr>cn_ctx := None\<rparr>" u]
    by (cases m) (auto simp: custom_notification_deserialize_enc)
  have "out_of_log_serialize u n = Inr (blk 0 ([0] @ bytes_le 8 (int n)))"
    unfolding out_of_log_serialize_def
    by (intro alloc_puts_emits emits_thn emits_put_ints(1) emits_u64_le) simp_all
  moreover have "parses (srl LITTLE 0) (bnd get_u8 (\<lambda>version. bnd get_u64 (\<lambda>n. ret n))) ([0] @ bytes_le 8 (int n)) n"
    by (rule parses_bnd parses_bnd_ret parses_get_ints(1) parses_u64_le [OF assms(2)])+
  from parsesD [OF this, of "[]" "[]"]
  have "out_of_log_deserialize (blk 0 ([0] @ bytes_le 8 (int n))) = Inr n"
    by (simp add: out_of_log_deserialize_def new_serializer_srl)
  ultimately show "\<exists>b. out_of_log_serialize u n = Inr b \<and> out_of_log_deserialize b = Inr n"
    by blast
  have "force_vote_serialize u = Inr (blk 0 [0])"
    unfolding force_vote_serialize_def by (intro alloc_puts_emits emits_put_ints(1)) simp_all
  moreover have "parses (srl LITTLE 0) (bnd get_u8 (\<lambda>version. ret ())) [0] ()"
    by (rule parses_bnd_ret) (rule parses_get_ints(1))
  from parsesD [OF this, of "[]" "[]"] have "force_vote_deserialize (blk 0 [0]) = Inr ()"
    by (simp add: force_vote_deserialize_def new_serializer_srl)
  ultimately show "\<exists>b. force_vote_serialize u = Inr b \<and> force_vote_deserialize b = Inr ()"
    by blast
qed

theorem message_payload_roundtrips_witness:
  "\<exists>b. custom_notification_serialize (\<lambda>_. 0xAA) \<lparr>cn_type = out_of_log_range_warning, cn_ctx = Some (blk 1 [0, 7])\<rparr> = Inr b \<and>
     custom_notification_deserialize (\<lambda>_. 0xBB) b =
       Inr \<lparr>cn_type = out_of_log_range_warning, cn_ctx = Some (blk 0 [0, 7])\<rparr>"
  using message_payload_roundtrips [of "\<lparr>ra_extra_order = NOTIFYING_SM_COMMITTED_INDEX, ra_sm_committed_idx = 5\<rparr>" 9
      "\<lparr>cn_type = out_of_log_range_warning, cn_ctx = Some (blk 1 [0, 7])\<rparr>" 1 "[0, 7]" "\<lambda>_. 0xAA" "\<lambda>_. 0xBB"]
  by simp

end
