(* ===== verification/Raft_Peer.thy ===== *)
theory Raft_Peer
  imports Raft_Msg
begin

text \<open>
  The leader's view of one other member: \<^verbatim>\<open>peer.h\<close>, \<^verbatim>\<open>peer.cc\<close> and the snapshot transfer context of
  \<^verbatim>\<open>snapshot_sync_ctx.h\<close>. A peer's connection is the identifier of its rpc client; sending a request
  returns whether something was handed to the client.
\<close>

subsection \<open>State\<close>

record snapshot_sync_ctx =
  sx_snapshot :: snapshot
  sx_offset :: nat
  sx_timer :: timer_helper

definition new_snapshot_sync_ctx :: "nat \<Rightarrow> snapshot \<Rightarrow> nat \<Rightarrow> snapshot_sync_ctx" where
  "new_snapshot_sync_ctx now s timeout_ms =
     \<lparr>sx_snapshot = s, sx_offset = 0, sx_timer = set_duration_ms timeout_ms (new_timer now 0 False)\<rparr>"

definition set_offset :: "nat \<Rightarrow> nat \<Rightarrow> snapshot_sync_ctx \<Rightarrow> snapshot_sync_ctx" where
  "set_offset now offset c =
     (if sx_offset c \<noteq> offset then c\<lparr>sx_timer := timer_reset now 0 (sx_timer c)\<rparr> else c)\<lparr>sx_offset := offset\<rparr>"

record peer =
  pe_config :: srv_config
  pe_rpc :: "nat option"
  pe_current_hb_interval :: int
  pe_hb_interval :: int
  pe_rpc_backoff :: int
  pe_max_hb_interval :: int
  pe_next_log_idx :: nat
  pe_last_accepted_log_idx :: nat
  pe_sm_committed_idx :: nat
  pe_next_batch_size_hint :: int
  pe_matched_idx :: nat
  pe_busy_flag :: bool
  pe_pending_commit_flag :: bool
  pe_hb_enabled :: bool
  pe_hb_task :: "int option"
  pe_snp_sync_ctx :: "snapshot_sync_ctx option"
  pe_last_sent_timer :: timer_helper
  pe_last_resp_timer :: timer_helper
  pe_last_active_timer :: timer_helper
  pe_long_pause_warnings :: int
  pe_network_recoveries :: int
  pe_manual_free :: bool
  pe_rpc_errs :: int
  pe_stale_rpc_responses :: int
  pe_last_sent_idx :: nat
  pe_cnt_not_applied :: int
  pe_leave_requested :: bool
  pe_hb_cnt_since_leave :: int
  pe_stepping_down :: bool
  pe_reconn_scheduled :: bool
  pe_reconn_timer :: timer_helper
  pe_reconn_backoff :: timer_helper
  pe_suppress_following_error :: bool
  pe_abandoned :: bool
  pe_lost_by_leader :: bool
  pe_rsv_msg :: "req_msg option"
  pe_last_streamed_log_idx :: nat
  pe_bytes_in_flight :: int
  pe_snapshot_sync_is_needed :: bool
  pe_self_mark_down :: bool

definition new_peer :: "nat \<Rightarrow> nat \<Rightarrow> raft_params \<Rightarrow> srv_config \<Rightarrow> peer" where
  "new_peer now rpc p config =
     \<lparr>pe_config = config, pe_rpc = Some rpc, pe_current_hb_interval = p_heart_beat_interval p,
      pe_hb_interval = p_heart_beat_interval p, pe_rpc_backoff = p_rpc_failure_backoff p,
      pe_max_hb_interval = max_hb_interval p, pe_next_log_idx = 0, pe_last_accepted_log_idx = 0,
      pe_sm_committed_idx = 0, pe_next_batch_size_hint = 0, pe_matched_idx = 0,
      pe_busy_flag = False, pe_pending_commit_flag = False, pe_hb_enabled = False,
      pe_hb_task = None, pe_snp_sync_ctx = None, pe_last_sent_timer = new_timer now 0 False,
      pe_last_resp_timer = new_timer now 0 False, pe_last_active_timer = new_timer now 0 False,
      pe_long_pause_warnings = 0, pe_network_recoveries = 0, pe_manual_free = False,
      pe_rpc_errs = 0, pe_stale_rpc_responses = 0, pe_last_sent_idx = 0, pe_cnt_not_applied = 0,
      pe_leave_requested = False, pe_hb_cnt_since_leave = 0, pe_stepping_down = False,
      pe_reconn_scheduled = False, pe_reconn_timer = new_timer now 0 False,
      pe_reconn_backoff = new_timer now 0 False, pe_suppress_following_error = False,
      pe_abandoned = False, pe_lost_by_leader = False, pe_rsv_msg = None,
      pe_last_streamed_log_idx = 0, pe_bytes_in_flight = 0, pe_snapshot_sync_is_needed = False,
      pe_self_mark_down = False\<rparr>"

definition pe_id :: "peer \<Rightarrow> int" where
  "pe_id p = sc_id (pe_config p)"

subsection \<open>Flags and counters\<close>

definition make_busy :: "peer \<Rightarrow> bool \<times> peer" where
  "make_busy p = (if pe_busy_flag p then (False, p) else (True, p\<lparr>pe_busy_flag := True\<rparr>))"

definition set_free :: "peer \<Rightarrow> peer" where
  "set_free p = p\<lparr>pe_busy_flag := False\<rparr>"

definition enable_hb :: "bool \<Rightarrow> peer \<Rightarrow> peer" where
  "enable_hb enable p =
     (if pe_abandoned p then p
      else if enable then p\<lparr>pe_hb_enabled := True\<rparr>
      else p\<lparr>pe_hb_enabled := False, pe_hb_task := None\<rparr>)"

definition clear_pending_commit :: "peer \<Rightarrow> bool \<times> peer" where
  "clear_pending_commit p =
     (if pe_pending_commit_flag p then (True, p\<lparr>pe_pending_commit_flag := False\<rparr>) else (False, p))"

definition set_snapshot_in_sync :: "nat \<Rightarrow> snapshot option \<Rightarrow> nat \<Rightarrow> peer \<Rightarrow> peer" where
  "set_snapshot_in_sync now s timeout_ms p =
     (case s of None \<Rightarrow> p\<lparr>pe_snp_sync_ctx := None\<rparr>
      | Some snp \<Rightarrow> p\<lparr>pe_snp_sync_ctx := Some (new_snapshot_sync_ctx now snp timeout_ms)\<rparr>)"

definition slow_down_hb :: "peer \<Rightarrow> peer" where
  "slow_down_hb p =
     p\<lparr>pe_current_hb_interval := min (pe_max_hb_interval p) (pe_current_hb_interval p + pe_rpc_backoff p)\<rparr>"

definition resume_hb_speed :: "peer \<Rightarrow> peer" where
  "resume_hb_speed p = p\<lparr>pe_current_hb_interval := pe_hb_interval p\<rparr>"

definition reset_ls_timer :: "nat \<Rightarrow> peer \<Rightarrow> peer" where
  "reset_ls_timer now p = p\<lparr>pe_last_sent_timer := timer_reset now 0 (pe_last_sent_timer p)\<rparr>"

definition reset_resp_timer :: "nat \<Rightarrow> peer \<Rightarrow> peer" where
  "reset_resp_timer now p = p\<lparr>pe_last_resp_timer := timer_reset now 0 (pe_last_resp_timer p)\<rparr>"

definition reset_active_timer :: "nat \<Rightarrow> peer \<Rightarrow> peer" where
  "reset_active_timer now p = p\<lparr>pe_last_active_timer := timer_reset now 0 (pe_last_active_timer p)\<rparr>"

definition schedule_reconnection :: "nat \<Rightarrow> peer \<Rightarrow> peer" where
  "schedule_reconnection now p =
     p\<lparr>pe_reconn_timer := timer_reset now 0 (set_duration_sec 3 (pe_reconn_timer p)),
       pe_reconn_scheduled := True\<rparr>"

text \<open>The reconnection timer's first event never fires early, so looking at it changes nothing.\<close>

definition need_to_reconnect :: "nat \<Rightarrow> peer \<Rightarrow> bool" where
  "need_to_reconnect now p \<longleftrightarrow>
     \<not> pe_abandoned p \<and>
     (pe_reconn_scheduled p \<and> fst (timeout now (pe_reconn_timer p)) \<or> pe_rpc p = None)"

definition need_to_suppress_error :: "peer \<Rightarrow> bool \<times> peer" where
  "need_to_suppress_error p =
     (if pe_suppress_following_error p then (True, p\<lparr>pe_suppress_following_error := False\<rparr>) else (False, p))"

definition set_last_streamed_log_idx :: "nat \<Rightarrow> nat \<Rightarrow> peer \<Rightarrow> peer" where
  "set_last_streamed_log_idx expected idx p =
     (if pe_last_streamed_log_idx p = expected then p\<lparr>pe_last_streamed_log_idx := idx\<rparr> else p)"

definition reset_stream :: "peer \<Rightarrow> peer" where
  "reset_stream p = p\<lparr>pe_last_streamed_log_idx := 0\<rparr>"

subsection \<open>Requests\<close>

definition req_size_bytes :: "req_msg \<Rightarrow> nat" where
  "req_size_bytes req =
     (if rq_type req = append_entries_request
      then sum_list (map (\<lambda>e. body_size (re_body e)) (rq_log_entries req)) else 0)"

definition send_req :: "req_msg \<Rightarrow> peer \<Rightarrow> bool \<times> peer" where
  "send_req req p =
     (if pe_abandoned p then (False, p)
      else if pe_rpc p = None then (False, set_free p)
      else (True, p\<lparr>pe_bytes_in_flight := pe_bytes_in_flight p + int (req_size_bytes req)\<rparr>))"

definition msg_types_to_free :: "msg_type list" where
  "msg_types_to_free =
     [install_snapshot_request, request_vote_request, pre_vote_request, leave_cluster_request,
      custom_notification_request, reconnect_request, priority_change_request]"

definition try_set_free :: "msg_type \<Rightarrow> bool \<Rightarrow> peer \<Rightarrow> peer" where
  "try_set_free type streaming p =
     (let p = (if type \<in> set msg_types_to_free then set_free p else p)
      in if type = append_entries_request \<and> \<not> streaming then set_free p else p)"

text \<open>
  \<^verbatim>\<open>handle_rpc_result\<close> without the forwarding of the result to its handler: what it does to the peer
  when the request \<open>req\<close>, sent through client \<open>my_rpc\<close>, succeeds or fails.
\<close>

definition handle_rpc_ok :: "nat \<Rightarrow> nat \<Rightarrow> req_msg \<Rightarrow> bool \<Rightarrow> peer \<Rightarrow> peer" where
  "handle_rpc_ok now my_rpc req streaming p =
     (if pe_abandoned p then p
      else
        let p = (if pe_rpc p \<noteq> Some my_rpc
                 then p\<lparr>pe_stale_rpc_responses := pe_stale_rpc_responses p + 1\<rparr>
                 else try_set_free (rq_type req) streaming
                        (p\<lparr>pe_stale_rpc_responses := 0,
                           pe_bytes_in_flight := pe_bytes_in_flight p - int (req_size_bytes req)\<rparr>));
            p = resume_hb_speed (reset_active_timer now p)
        in p\<lparr>pe_reconn_backoff := set_duration_ms 1 (timer_reset now 0 (pe_reconn_backoff p))\<rparr>)"

definition handle_rpc_err :: "nat \<Rightarrow> nat \<Rightarrow> req_msg \<Rightarrow> bool \<Rightarrow> peer \<Rightarrow> peer" where
  "handle_rpc_err now my_rpc req streaming p =
     (if pe_abandoned p then p
      else
        let p = slow_down_hb (reset_active_timer now p)
        in if pe_rpc p = Some my_rpc
           then (try_set_free (rq_type req) streaming
                  ((reset_stream (p\<lparr>pe_rpc := None\<rparr>))
                     \<lparr>pe_stale_rpc_responses := 0, pe_bytes_in_flight := 0\<rparr>))
                  \<lparr>pe_snapshot_sync_is_needed := False\<rparr>
           else p\<lparr>pe_stale_rpc_responses := pe_stale_rpc_responses p + 1\<rparr>)"

text \<open>
  \<^verbatim>\<open>recreate_rpc\<close>. The factory gives a client \<open>new_rpc\<close> unless the context has none; the back-off timer
  can be disabled by a debugging option. The new duration in milliseconds is computed in \<^verbatim>\<open>int32\<close>
  and stored in a \<^verbatim>\<open>size_t\<close>.
\<close>

definition next_reconn_backoff :: "nat \<Rightarrow> peer \<Rightarrow> timer_helper" where
  "next_reconn_backoff now p =
     (let b = timer_reset now 0 (pe_reconn_backoff p);
          d = min (pe_hb_interval p) (to_i32 (to_i32 (int (t_duration_us b div 1000)) * 2));
          d = (if d = 0 then 1 else d)
      in set_duration_ms (nat (d mod 2 ^ 64)) b)"

definition recreate_rpc :: "nat \<Rightarrow> bool \<Rightarrow> bool \<Rightarrow> nat \<Rightarrow> peer \<Rightarrow> bool \<times> peer" where
  "recreate_rpc now factory backoff_disabled new_rpc p =
     (if pe_abandoned p \<or> \<not> factory then (False, p)
      else if backoff_disabled \<or> fst (timeout now (pe_reconn_backoff p))
      then
        let p = p\<lparr>pe_reconn_backoff := next_reconn_backoff now p, pe_rpc := Some new_rpc\<rparr>;
            p = reset_stream (reset_active_timer now p)
        in (True, (set_free (p\<lparr>pe_bytes_in_flight := 0\<rparr>))\<lparr>pe_manual_free := True\<rparr>)
      else (False, p))"

definition peer_shutdown :: "peer \<Rightarrow> peer" where
  "peer_shutdown p = p\<lparr>pe_abandoned := True, pe_rpc := None, pe_hb_task := None\<rparr>"

end
