(* ===== verification/Raft_Server.thy ===== *)
theory Raft_Server
  imports Raft_Peer
begin

text \<open>
  The state of \<^verbatim>\<open>raft_server\<close> and the operations every handler uses: membership and quorum sizes, the
  terms of log entries, storing entries, timers, priorities, and dropping back to follower
  (\<^verbatim>\<open>raft_server.h\<close>, \<^verbatim>\<open>raft_server.cc\<close>, \<^verbatim>\<open>handle_timeout.cc\<close>, \<^verbatim>\<open>handle_priority.cc\<close>,
  \<^verbatim>\<open>handle_client_request.cc\<close>).

  A handler is a function of an environment and the server. The environment holds what the code asks
  of the outside while it runs: the clock, the user's callback, the state machine, the log store's
  reads, random numbers and the rpc factory. What the code sends outwards is appended to \<open>sv_out\<close>.
  Handlers run under \<^verbatim>\<open>lock_\<close>, so each is one step. The log is the specification log of \<open>Raft_Log\<close>;
  \<open>sv_saved\<close> is what \<^verbatim>\<open>state_mgr::save_state\<close> was last given. The hash map of peers is an ordered
  list: its iteration order is fixed here to increasing ids. The server entries of the active
  configuration are shared with the peers in the code, so that changing a priority in one changes
  the other; the model updates both.
\<close>

subsection \<open>Environment\<close>

datatype cb_type =
    ProcessReq | GotAppendEntryRespFromPeer | AppendLogs | HeartBeat | JoinedCluster | BecomeLeader
  | RequestAppendEntries | SaveSnapshot | NewConfig | RemovedFromCluster | BecomeFollower
  | BecomeFresh | BecomeStale | GotAppendEntryReqFromLeader | OutOfLogRangeWarning
  | ConnectionOpened | ConnectionClosed | NewSessionFromLeader | StateMachineExecution
  | SentAppendEntriesReq | ReceivedAppendEntriesReq | SentAppendEntriesResp
  | ReceivedAppendEntriesResp | AutoAdjustQuorum | ServerJoinFailed | SnapshotCreationBegin
  | ResignationFromLeader | FollowerLost | ReceivedMisbehavingMessage

text \<open>
  \<open>ev_cb\<close> says whether the user's callback of that type, called with that peer, returned \<^verbatim>\<open>Ok\<close>.
  \<open>ev_log_entries_ext\<close> is the log store's read of a range with a size hint, \<open>None\<close> for a null
  result. \<open>ev_read_logical_snp_obj\<close> is \<open>None\<close> for a negative return code. \<open>ev_log_pack\<close> and
  \<open>ev_apply_pack\<close> are the log store's own packing of a range of entries, \<open>ev_log_compact\<close> whether its
  \<^verbatim>\<open>compact\<close> succeeds, and \<open>ev_save_logical_snp_obj\<close> the object id that the state machine asks for next.
\<close>

record renv =
  ev_now :: nat
  ev_limits :: limits
  ev_cb :: "cb_type \<Rightarrow> int \<Rightarrow> bool"
  ev_rand_timeout :: int
  ev_sm_last_snapshot :: "snapshot option"
  ev_next_batch_size_hint :: int
  ev_adjust_commit_index :: "(int \<times> nat) list \<Rightarrow> nat \<Rightarrow> nat \<Rightarrow> nat"
  ev_allow_leadership_transfer :: bool
  ev_last_durable_index :: nat
  ev_log_entries_ext :: "rentry rlog \<Rightarrow> nat \<Rightarrow> nat \<Rightarrow> int \<Rightarrow> rentry list option"
  ev_flush :: bool
  ev_has_pending_snapshot :: "int \<Rightarrow> bool"
  ev_read_snapshot_data :: "snapshot \<Rightarrow> nat \<Rightarrow> nat \<Rightarrow> u8 list"
  ev_read_logical_snp_obj :: "snapshot \<Rightarrow> nat \<Rightarrow> (u8 list \<times> bool) option"
  ev_rpc_factory :: bool
  ev_new_rpc :: nat
  ev_backoff_disabled :: bool
  ev_log_pack :: "rentry rlog \<Rightarrow> nat \<Rightarrow> int \<Rightarrow> u8 list"
  ev_apply_pack :: "rentry rlog \<Rightarrow> nat \<Rightarrow> u8 list \<Rightarrow> rentry rlog"
  ev_log_compact :: bool
  ev_chk_create_snapshot :: bool
  ev_save_logical_snp_obj :: "snapshot \<Rightarrow> nat \<Rightarrow> nat"
  ev_apply_snapshot :: bool
  ev_rand_distance :: int
  ev_global_mgr :: bool

datatype effect =
    Send req_msg
  | Callback cb_type int
  | System_Exit int
  | Pre_Commit nat
  | Rollback nat
  | Rollback_Config nat
  | End_Of_Append_Batch nat nat
  | Request_Commit
  | Request_Append
  | Client_Result nat cmd_result_code
  | Notify_Client nat
  | Watcher_Result nat bool
  | Commit_Log nat
  | Commit_Config nat
  | Save_Config cluster_config
  | Create_Snapshot snapshot
  | Snapshot_Result nat cmd_result_code
  | Compact_Async nat
  | Save_Snapshot_Obj nat nat
  | Apply_Snapshot nat
  | Retry_Request int req_msg int
  | Push_Snapshot_Io int
  | Invoke_Snapshot_Io

subsection \<open>State\<close>

record pre_vote_status =
  pv_term :: nat
  pv_done :: bool
  pv_live :: int
  pv_dead :: int
  pv_abandoned :: int
  pv_connection_busy :: int
  pv_quorum_reject_count :: int
  pv_no_response_failure_count :: int
  pv_busy_connection_failure_count :: int

definition pre_vote_reset :: "nat \<Rightarrow> pre_vote_status \<Rightarrow> pre_vote_status" where
  "pre_vote_reset term v =
     v\<lparr>pv_term := term, pv_done := False, pv_live := 0, pv_dead := 0, pv_abandoned := 0,
       pv_connection_busy := 0\<rparr>"

text \<open>
  \<open>sv_srv_to_leave\<close> is the id of the peer that is leaving, which is the peer object of \<open>sv_peers\<close>;
  \<open>sv_srv_to_join\<close> is a peer of its own. \<open>sv_sm_watchers\<close> has the number of watchers per index. \<open>sv_fixed_timeout\<close> is the one-shot election timeout that a
  resigning leader installs in place of the random one. \<open>sv_exited\<close> is set where the code ends the
  process.
\<close>

record commit_ret_elem =
  ce_result_code :: cmd_result_code
  ce_callback_invoked :: bool
  ce_async_result :: bool

record server =
  sv_id :: int
  sv_initialized :: bool
  sv_leader :: int
  sv_my_priority :: int
  sv_target_priority :: int
  sv_priority_change_timer :: timer_helper
  sv_votes_responded :: int
  sv_votes_granted :: int
  sv_precommit_index :: nat
  sv_leader_commit_index :: nat
  sv_quick_commit_index :: nat
  sv_sm_commit_index :: nat
  sv_lagging_sm_target_index :: nat
  sv_index_at_becoming_leader :: nat
  sv_hb_alive :: bool
  sv_pre_vote :: pre_vote_status
  sv_election_completed :: bool
  sv_config_changing :: bool
  sv_out_of_log_range :: bool
  sv_data_fresh :: bool
  sv_stopping :: bool
  sv_write_paused :: bool
  sv_next_leader_candidate :: int
  sv_reelection_timer :: timer_helper
  sv_im_learner :: bool
  sv_serving_req :: bool
  sv_steps_to_down :: int
  sv_et_cnt_receiving_snapshot :: int
  sv_election_task :: bool
  sv_election_scheduled :: "int option"
  sv_fixed_timeout :: "int option"
  sv_role :: srv_role
  sv_state :: srv_state
  sv_saved :: srv_state
  sv_log :: "rentry rlog"
  sv_config :: cluster_config
  sv_uncommitted_config :: "cluster_config option"
  sv_srv_to_join :: "peer option"
  sv_srv_to_leave :: "int option"
  sv_srv_to_leave_target_idx :: nat
  sv_peers :: "(int, peer) omap"
  sv_params :: raft_params
  sv_last_snapshot :: "snapshot option"
  sv_vote_init_timer :: timer_helper
  sv_vote_init_timer_term :: nat
  sv_leadership_transfer_timer :: timer_helper
  sv_status_check_timer :: timer_helper
  sv_last_election_timer_reset :: timer_helper
  sv_last_rcvd_append_entries_req :: timer_helper
  sv_last_rcvd_valid_append_entries_req :: timer_helper
  sv_chk_timer :: timer_helper
  sv_self_mark_down :: bool
  sv_excluded_from_the_quorum :: bool
  sv_sm_commit_notifier_target_idx :: nat
  sv_sm_commit_notifier_notified_idx :: nat
  sv_commit_ret_elems :: "(nat, commit_ret_elem) omap"
  sv_sm_watchers :: "(nat, nat) omap"
  sv_initial_commit_index :: nat
  sv_saved_config :: cluster_config
  sv_conf_to_add :: "srv_config option"
  sv_srv_to_join_snp_retry_required :: bool
  sv_sm_commit_paused :: bool
  sv_snp_in_progress :: bool
  sv_snp_creation_scheduled :: bool
  sv_first_snapshot_distance :: nat
  sv_exited :: bool
  sv_out :: "effect list"

subsection \<open>Effects and peers\<close>

definition emit :: "effect \<Rightarrow> server \<Rightarrow> server" where
  "emit e s = s\<lparr>sv_out := sv_out s @ [e]\<rparr>"

definition call_cb :: "renv \<Rightarrow> cb_type \<Rightarrow> int \<Rightarrow> server \<Rightarrow> bool \<times> server" where
  "call_cb env type peer_id s = (ev_cb env type peer_id, emit (Callback type peer_id) s)"

definition notify_cb :: "cb_type \<Rightarrow> int \<Rightarrow> server \<Rightarrow> server" where
  "notify_cb type peer_id s = emit (Callback type peer_id) s"

definition sys_exit :: "int \<Rightarrow> server \<Rightarrow> server" where
  "sys_exit code s = (emit (System_Exit code) s)\<lparr>sv_exited := True\<rparr>"

definition save_state :: "server \<Rightarrow> server" where
  "save_state s = s\<lparr>sv_saved := sv_state s\<rparr>"

definition set_sstate :: "(srv_state \<Rightarrow> srv_state) \<Rightarrow> server \<Rightarrow> server" where
  "set_sstate f s = s\<lparr>sv_state := f (sv_state s)\<rparr>"

definition sv_term :: "server \<Rightarrow> nat" where
  "sv_term s = ss_term (sv_state s)"

definition find_peer :: "int \<Rightarrow> server \<Rightarrow> peer option" where
  "find_peer i s = om_find i (sv_peers s)"

definition upd_peer :: "int \<Rightarrow> (peer \<Rightarrow> peer) \<Rightarrow> server \<Rightarrow> server" where
  "upd_peer i f s = s\<lparr>sv_peers := map (\<lambda>(k, p). (k, if k = i then f p else p)) (sv_peers s)\<rparr>"

definition at_peer :: "int \<Rightarrow> 'a \<Rightarrow> (peer \<Rightarrow> 'a \<times> peer) \<Rightarrow> server \<Rightarrow> 'a \<times> server" where
  "at_peer i none g s =
     (case find_peer i s of None \<Rightarrow> (none, s)
      | Some p \<Rightarrow> (fst (g p), upd_peer i (\<lambda>p. snd (g p)) s))"

definition for_peers :: "(int \<Rightarrow> server \<Rightarrow> server) \<Rightarrow> server \<Rightarrow> server" where
  "for_peers f s = fold f (map fst (sv_peers s)) s"

text \<open>\<^verbatim>\<open>send_req\<close> of a peer: the request leaves the server if the peer has a client for it.\<close>

definition send_to :: "int \<Rightarrow> req_msg \<Rightarrow> server \<Rightarrow> server" where
  "send_to i req s =
     (let (sent, s) = at_peer i False (send_req req) s in if sent then emit (Send req) s else s)"

subsection \<open>Log\<close>

definition log_term_at :: "nat \<Rightarrow> rentry rlog \<Rightarrow> nat" where
  "log_term_at i l = (case rl_get i l of Some e \<Rightarrow> re_term e | None \<Rightarrow> 0)"

definition log_last_term :: "rentry rlog \<Rightarrow> nat" where
  "log_last_term l = (if rl_entries l = [] then 0 else re_term (last (rl_entries l)))"

definition last_idx :: "server \<Rightarrow> nat" where
  "last_idx s = rl_next (sv_log s) - 1"

definition term_for_log :: "renv \<Rightarrow> nat \<Rightarrow> server \<Rightarrow> nat" where
  "term_for_log env log_idx s =
     (if log_idx = 0 then 0
      else if log_idx \<ge> rl_start (sv_log s) then log_term_at log_idx (sv_log s)
      else case ev_sm_last_snapshot env of
             None \<Rightarrow> 0
           | Some snp \<Rightarrow> if log_idx \<noteq> sn_last_log_idx snp then 0 else sn_last_log_term snp)"

text \<open>
  The compare-and-exchange loop of \<^verbatim>\<open>try_update_precommit_index\<close>: run alone, its first exchange
  succeeds.
\<close>

definition try_update_precommit_index :: "nat \<Rightarrow> server \<Rightarrow> bool \<times> server" where
  "try_update_precommit_index desired s =
     (if sv_precommit_index s < desired then (True, s\<lparr>sv_precommit_index := desired\<rparr>)
      else (sv_precommit_index s \<ge> desired, s))"

definition is_conf :: "rentry \<Rightarrow> bool" where
  "is_conf e = (case re_body e of Conf c \<Rightarrow> True | _ \<Rightarrow> False)"

definition is_app :: "rentry \<Rightarrow> bool" where
  "is_app e = (case re_body e of App_Log bs \<Rightarrow> True | _ \<Rightarrow> False)"

definition store_log_entry :: "renv \<Rightarrow> rentry \<Rightarrow> nat \<Rightarrow> server \<Rightarrow> nat \<times> server" where
  "store_log_entry env entry index s =
     (let log_index = (if index = 0 then rl_next (sv_log s) else index);
          s = s\<lparr>sv_log := (if index = 0 then rl_append entry (sv_log s)
                           else rl_write_at index entry (sv_log s))\<rparr>;
          s = (if is_conf entry
               then let s = (if ev_flush env then s else emit (System_Exit (-21)) s)
                    in if sv_role s = leader then snd (try_update_precommit_index log_index s) else s
               else s)
      in (log_index, s))"

subsection \<open>Membership and quorums\<close>

text \<open>A signed parameter used in unsigned 64-bit arithmetic.\<close>

definition i32_to_u64 :: "int \<Rightarrow> nat" where
  "i32_to_u64 n = nat (n mod 2 ^ 64)"

lemma i32_to_u64_id [simp]: "0 \<le> n \<Longrightarrow> n < 2 ^ 64 \<Longrightarrow> i32_to_u64 n = nat n"
  by (simp add: i32_to_u64_def)

definition is_regular_member :: "server \<Rightarrow> peer \<Rightarrow> bool" where
  "is_regular_member s p \<longleftrightarrow>
     sv_srv_to_leave s \<noteq> Some (pe_id p) \<and> \<not> sc_learner (pe_config p) \<and> \<not> sc_new_joiner (pe_config p)"

definition regular_peers :: "server \<Rightarrow> peer list" where
  "regular_peers s = filter (is_regular_member s) (map snd (sv_peers s))"

definition get_num_voting_members :: "server \<Rightarrow> int" where
  "get_num_voting_members s = int (length (regular_peers s)) + (if sv_im_learner s then 0 else 1)"

definition get_quorum_for_election :: "server \<Rightarrow> int" where
  "get_quorum_for_election s =
     (let n = get_num_voting_members s; q = p_custom_election_quorum_size (sv_params s)
      in if q \<le> 0 \<or> q > n then n div 2 else q - 1)"

definition get_quorum_for_commit :: "server \<Rightarrow> int" where
  "get_quorum_for_commit s =
     (let n = get_num_voting_members s;
          n = (if p_exclude_snp_receiver_from_quorum (sv_params s)
               then fold (\<lambda>kp n. if n \<noteq> 0 \<and> pe_snp_sync_ctx (snd kp) \<noteq> None then n - 1 else n)
                      (sv_peers s) n
               else n);
          q = p_custom_commit_quorum_size (sv_params s)
      in if q \<le> 0 \<or> q > n then n div 2 else q - 1)"

definition get_leadership_expiry :: "renv \<Rightarrow> server \<Rightarrow> int" where
  "get_leadership_expiry env s =
     (let expiry = p_leadership_expiry (sv_params s)
      in if expiry = 0 then p_heart_beat_interval (sv_params s) * l_leadership_limit (ev_limits env)
         else expiry)"

definition resp_elapsed_ms :: "renv \<Rightarrow> peer \<Rightarrow> int" where
  "resp_elapsed_ms env p = to_i32 (int (get_us (ev_now env) (pe_last_resp_timer p) div 1000))"

definition default_expiry :: "renv \<Rightarrow> int \<Rightarrow> server \<Rightarrow> int" where
  "default_expiry env expiry s =
     (if expiry = 0 then p_heart_beat_interval (sv_params s) * l_response_limit (ev_limits env) else expiry)"

definition get_not_responding_peers :: "renv \<Rightarrow> int \<Rightarrow> server \<Rightarrow> peer list" where
  "get_not_responding_peers env expiry s =
     filter (\<lambda>p. \<not> resp_elapsed_ms env p \<le> default_expiry env expiry s) (regular_peers s)"

definition is_excluded_from_quorum :: "peer \<Rightarrow> int \<Rightarrow> int \<Rightarrow> nat \<Rightarrow> bool \<Rightarrow> bool" where
  "is_excluded_from_quorum pp elapsed expiry required_log_idx include_self_mark_down \<longleftrightarrow>
     (if elapsed \<le> expiry
      then required_log_idx \<noteq> 0 \<and>
             (pe_matched_idx pp \<noteq> 0 \<and> pe_matched_idx pp < required_log_idx \<or> pe_snp_sync_ctx pp \<noteq> None)
           \<or> include_self_mark_down \<and> pe_self_mark_down pp
      else True)"

definition get_not_responding_peers_count :: "renv \<Rightarrow> int \<Rightarrow> nat \<Rightarrow> server \<Rightarrow> nat" where
  "get_not_responding_peers_count env expiry required_log_idx s =
     length (filter (\<lambda>p. is_excluded_from_quorum p (resp_elapsed_ms env p) (default_expiry env expiry s)
                           required_log_idx True) (regular_peers s))"

definition get_num_stale_peers :: "server \<Rightarrow> nat" where
  "get_num_stale_peers s =
     (if sv_leader s \<noteq> sv_id s then 0
      else length (filter (\<lambda>p. last_idx s > add64 (pe_last_accepted_log_idx p)
                                 (i32_to_u64 (p_stale_log_gap (sv_params s))))
                     (map snd (sv_peers s))))"

subsection \<open>Timers\<close>

definition enable_hb_for_peer :: "int \<Rightarrow> server \<Rightarrow> server" where
  "enable_hb_for_peer i s =
     upd_peer i (\<lambda>p. let p = resume_hb_speed (enable_hb True p)
                     in if sv_stopping s then p else p\<lparr>pe_hb_task := Some (pe_current_hb_interval p)\<rparr>) s"

definition restart_election_timer :: "renv \<Rightarrow> server \<Rightarrow> server" where
  "restart_election_timer env s =
     (if ss_catching_up (sv_state s) \<or> sv_role s = leader then s
      else
        let s = (if \<not> ss_election_timer_allowed (sv_state s)
                 then save_state (set_sstate (\<lambda>st. st\<lparr>ss_election_timer_allowed := True\<rparr>) s) else s)
        in s\<lparr>sv_election_task := True,
             sv_last_election_timer_reset := timer_reset (ev_now env) 0 (sv_last_election_timer_reset s),
             sv_election_scheduled :=
               (if sv_stopping s then None
                else Some (case sv_fixed_timeout s of Some ms \<Rightarrow> ms | None \<Rightarrow> ev_rand_timeout env))\<rparr>)"

definition stop_election_timer :: "server \<Rightarrow> server" where
  "stop_election_timer s = (if sv_election_task s then s\<lparr>sv_election_scheduled := None\<rparr> else s)"

definition cancel_schedulers :: "server \<Rightarrow> server" where
  "cancel_schedulers s =
     s\<lparr>sv_election_scheduled := None,
       sv_peers := map (\<lambda>(k, p). (k, (peer_shutdown p)\<lparr>pe_snp_sync_ctx := None\<rparr>)) (sv_peers s)\<rparr>"

subsection \<open>Priorities\<close>

definition decay_target_priority :: "renv \<Rightarrow> server \<Rightarrow> server" where
  "decay_target_priority env s =
     (let gap = max 10 (sv_target_priority s div 5);
          prev_priority = sv_target_priority s;
          s = s\<lparr>sv_target_priority := max 1 (sv_target_priority s - gap)\<rparr>
      in if prev_priority > 1
         then s\<lparr>sv_priority_change_timer := timer_reset (ev_now env) 0 (sv_priority_change_timer s)\<rparr> else s)"

definition update_target_priority :: "renv \<Rightarrow> server \<Rightarrow> server" where
  "update_target_priority env s =
     (let max_priority = fold (\<lambda>kp m. max m (sc_priority (pe_config (snd kp)))) (sv_peers s) (sv_my_priority s)
      in s\<lparr>sv_target_priority := (if max_priority > 0 then max_priority else INIT_PRIORITY),
           sv_priority_change_timer := timer_reset (ev_now env) 0 (sv_priority_change_timer s),
           sv_hb_alive := True,
           sv_pre_vote := pre_vote_reset (sv_term s) (sv_pre_vote s)\<rparr>)"

subsection \<open>Snapshot contexts and departing peers\<close>

definition clear_snapshot_sync_ctx :: "peer \<Rightarrow> peer" where
  "clear_snapshot_sync_ctx p = p\<lparr>pe_snp_sync_ctx := None\<rparr>"

definition check_snapshot_timeout :: "renv \<Rightarrow> peer \<Rightarrow> bool \<times> peer" where
  "check_snapshot_timeout env p =
     (case pe_snp_sync_ctx p of
        None \<Rightarrow> (False, p)
      | Some sync_ctx \<Rightarrow>
          if fst (timeout (ev_now env) (sx_timer sync_ctx)) then (True, clear_snapshot_sync_ctx p)
          else (False, p))"

definition remove_peer_from_peers :: "int \<Rightarrow> server \<Rightarrow> server" where
  "remove_peer_from_peers i s = s\<lparr>sv_peers := om_erase i (sv_peers s)\<rparr>"

definition reset_srv_to_leave :: "server \<Rightarrow> server" where
  "reset_srv_to_leave s =
     (case sv_srv_to_leave s of
        None \<Rightarrow> s
      | Some i \<Rightarrow> (upd_peer i peer_shutdown s)\<lparr>sv_srv_to_leave := None, sv_srv_to_leave_target_idx := 0\<rparr>)"

definition check_srv_to_leave_timeout :: "renv \<Rightarrow> server \<Rightarrow> server" where
  "check_srv_to_leave_timeout env s =
     (case sv_srv_to_leave s of
        None \<Rightarrow> s
      | Some i \<Rightarrow>
          (case find_peer i s of
             None \<Rightarrow> s
           | Some p \<Rightarrow>
               if get_us (ev_now env) (pe_last_resp_timer p) div 1000
                    > i32_to_u64 (l_leave_limit (ev_limits env) * p_heart_beat_interval (sv_params s))
               then reset_srv_to_leave (remove_peer_from_peers i s) else s))"

definition reconnect_client :: "renv \<Rightarrow> int \<Rightarrow> server \<Rightarrow> bool \<times> server" where
  "reconnect_client env i s =
     (if sv_stopping s then (False, s)
      else case find_peer i s of
             None \<Rightarrow> (False, s)
           | Some p \<Rightarrow>
               if get_server (pe_id p) (sv_config s) \<noteq> None \<or> pe_leave_requested p
               then at_peer i False
                      (recreate_rpc (ev_now env) (ev_rpc_factory env) (ev_backoff_disabled env) (ev_new_rpc env)) s
               else (False, s))"

subsection \<open>Becoming a follower\<close>

definition drop_all_pending_commit_elems :: "server \<Rightarrow> server" where
  "drop_all_pending_commit_elems s =
     (let elems = sv_commit_ret_elems s;
          live = (if p_return_method (sv_params s) = blocking then elems
                  else takeWhile (\<lambda>kc. ce_async_result (snd kc)) elems)
      in s\<lparr>sv_out := sv_out s @ map (\<lambda>kc. Client_Result (fst kc) Result_CANCELLED) live,
           sv_commit_ret_elems := [], sv_exited := (sv_exited s \<or> live \<noteq> elems)\<rparr>)"

definition drop_all_sm_watcher_elems :: "server \<Rightarrow> server" where
  "drop_all_sm_watcher_elems s =
     s\<lparr>sv_out := sv_out s @ concat (map (\<lambda>(k, n). replicate n (Watcher_Result k False)) (sv_sm_watchers s)),
       sv_sm_watchers := []\<rparr>"

definition restore_quorum :: "raft_params \<Rightarrow> raft_params" where
  "restore_quorum p = p\<lparr>p_custom_commit_quorum_size := 0, p_custom_election_quorum_size := 0\<rparr>"

definition adjust_quorum :: "raft_params \<Rightarrow> raft_params" where
  "adjust_quorum p = p\<lparr>p_custom_commit_quorum_size := 1, p_custom_election_quorum_size := 1\<rparr>"

definition become_follower :: "renv \<Rightarrow> server \<Rightarrow> server" where
  "become_follower env s =
     (let s = s\<lparr>sv_peers := map (\<lambda>(k, p). (k, reset_stream (enable_hb False p))) (sv_peers s)\<rparr>;
          s = s\<lparr>sv_srv_to_join := None, sv_role := follower, sv_index_at_becoming_leader := 0\<rparr>;
          s = notify_cb BecomeFollower (-1) s;
          s = s\<lparr>sv_write_paused := False, sv_next_leader_candidate := -1, sv_initialized := True,
                sv_uncommitted_config := None,
                sv_pre_vote := (sv_pre_vote s)\<lparr>pv_quorum_reject_count := 0, pv_no_response_failure_count := 0\<rparr>\<rparr>;
          s = (if p_auto_adjust_quorum_for_small_cluster (sv_params s) \<and> length (sv_peers s) = 1 \<and>
                  p_custom_commit_quorum_size (sv_params s) = 1
               then s\<lparr>sv_params := restore_quorum (sv_params s)\<rparr> else s);
          s = drop_all_pending_commit_elems s
      in restart_election_timer env s)"

definition update_term :: "renv \<Rightarrow> nat \<Rightarrow> server \<Rightarrow> bool \<times> server" where
  "update_term env term s =
     (if term > sv_term s
      then
        let s = s\<lparr>sv_role := follower\<rparr>;
            s = set_sstate (\<lambda>st. st\<lparr>ss_term := term, ss_voted_for := -1, ss_election_timer_allowed := True\<rparr>) s;
            s = s\<lparr>sv_election_completed := False, sv_votes_granted := 0, sv_votes_responded := 0\<rparr>;
            s = save_state s
        in (True, become_follower env s)
      else (False, s))"

subsection \<open>Construction, start and parameters\<close>

definition fix_timeouts :: "bool \<Rightarrow> raft_params \<Rightarrow> raft_params" where
  "fix_timeouts test_mode p =
     (if test_mode then p
      else
        let p = (if p_heart_beat_interval p \<ge> p_election_timeout_lower_bound p
                 then p\<lparr>p_election_timeout_lower_bound := p_heart_beat_interval p * 2\<rparr> else p)
        in if p_election_timeout_lower_bound p \<ge> p_election_timeout_upper_bound p
           then p\<lparr>p_election_timeout_upper_bound := p_election_timeout_lower_bound p * 2\<rparr> else p)"

definition apply_and_log_current_params :: "renv \<Rightarrow> bool \<Rightarrow> server \<Rightarrow> server" where
  "apply_and_log_current_params env test_mode s =
     (let p = fix_timeouts test_mode (sv_params s)
      in s\<lparr>sv_params := p,
           sv_status_check_timer :=
             timer_reset (ev_now env) 0 (set_duration_ms (i32_to_u64 (p_heart_beat_interval p)) (sv_status_check_timer s)),
           sv_leadership_transfer_timer :=
             set_duration_ms (i32_to_u64 (p_leadership_transfer_min_wait_time p)) (sv_leadership_transfer_timer s)\<rparr>)"

text \<open>\<^verbatim>\<open>std::unordered_map::insert\<close> keeps the element that is already there.\<close>

definition insert_peer :: "int \<Rightarrow> peer \<Rightarrow> (int, peer) omap \<Rightarrow> (int, peer) omap" where
  "insert_peer i p m = (case om_find i m of Some _ \<Rightarrow> m | None \<Rightarrow> om_set i p m)"

text \<open>
  The constructor. It reads the durable state, the configuration and the log from the state manager
  (\<open>st\<close>, \<open>c\<close>, \<open>log\<close>) and the last committed index and snapshot from the state machine.
  \<open>junk\<close> is the value of \<^verbatim>\<open>my_priority_\<close> before it is first assigned, which happens only when the
  configuration lists the server itself. The random distance of the first snapshot is the
  environment's.
\<close>

definition new_server ::
    "renv \<Rightarrow> bool \<Rightarrow> int \<Rightarrow> int \<Rightarrow> raft_params \<Rightarrow> srv_state option \<Rightarrow> cluster_config \<Rightarrow> rentry rlog \<Rightarrow> nat \<Rightarrow> server" where
  "new_server env test_mode junk srv_id params st c log last_commit =
     (let now = ev_now env;
          state = (case st of Some x \<Rightarrow> x | None \<Rightarrow> default_srv_state);
          params = (if p_stale_log_gap params < p_fresh_log_gap params
                    then params\<lparr>p_stale_log_gap := p_fresh_log_gap params\<rparr> else params);
          t = new_timer now 0 False;
          fixed = fix_timeouts test_mode params;
          uncommitted = filter (\<lambda>i. case rl_get i log of Some e \<Rightarrow> is_conf e | None \<Rightarrow> False)
                          [max (last_commit + 1) (rl_start log) ..< rl_next log];
          myself = filter (\<lambda>srv. sc_id srv = srv_id) (cc_servers c)
      in apply_and_log_current_params env test_mode
        \<lparr>sv_id = srv_id, sv_initialized = False, sv_leader = -1,
         sv_my_priority = (if myself = [] then junk else sc_priority (last myself)),
         sv_target_priority = INIT_PRIORITY, sv_priority_change_timer = t,
         sv_votes_responded = 0, sv_votes_granted = 0,
         sv_precommit_index = rl_next log - 1, sv_leader_commit_index = 0,
         sv_quick_commit_index = last_commit, sv_sm_commit_index = last_commit,
         sv_lagging_sm_target_index = rl_next log - 1, sv_index_at_becoming_leader = 0,
         sv_hb_alive = False,
         sv_pre_vote = \<lparr>pv_term = 0, pv_done = False, pv_live = 0, pv_dead = 0, pv_abandoned = 0,
            pv_connection_busy = 0, pv_quorum_reject_count = 0, pv_no_response_failure_count = 0,
            pv_busy_connection_failure_count = 0\<rparr>,
         sv_election_completed = True, sv_config_changing = (uncommitted \<noteq> []),
         sv_out_of_log_range = False, sv_data_fresh = False, sv_stopping = False,
         sv_write_paused = False, sv_next_leader_candidate = -1, sv_reelection_timer = t,
         sv_im_learner = (myself \<noteq> [] \<and> sc_learner (last myself)),
         sv_serving_req = False, sv_steps_to_down = 0, sv_et_cnt_receiving_snapshot = 0,
         sv_election_task = False, sv_election_scheduled = None, sv_fixed_timeout = None,
         sv_role = follower, sv_state = state, sv_saved = state, sv_log = log, sv_config = c,
         sv_uncommitted_config = None, sv_srv_to_join = None, sv_srv_to_leave = None,
         sv_srv_to_leave_target_idx = 0,
         sv_peers = fold (\<lambda>srv m. if sc_id srv \<noteq> srv_id
                                 then insert_peer (sc_id srv) (new_peer now (ev_new_rpc env) fixed srv) m else m)
                      (cc_servers c) [],
         sv_params = params, sv_last_snapshot = ev_sm_last_snapshot env,
         sv_vote_init_timer = t, sv_vote_init_timer_term = ss_term state,
         sv_leadership_transfer_timer = t, sv_status_check_timer = t,
         sv_last_election_timer_reset = t, sv_last_rcvd_append_entries_req = t,
         sv_last_rcvd_valid_append_entries_req =
           timer_reset now (-1 * p_heart_beat_interval params *
              max 100 (l_full_consensus_follower_limit (ev_limits env))) t,
         sv_chk_timer = new_timer now (1000 * 1000) False,
         sv_self_mark_down = False, sv_excluded_from_the_quorum = False,
         sv_sm_commit_notifier_target_idx = 0, sv_sm_commit_notifier_notified_idx = 0,
         sv_commit_ret_elems = [], sv_sm_watchers = [], sv_initial_commit_index = last_commit,
         sv_saved_config = c, sv_conf_to_add = None, sv_srv_to_join_snp_retry_required = False,
         sv_sm_commit_paused = False, sv_snp_in_progress = False, sv_snp_creation_scheduled = False,
         sv_first_snapshot_distance =
           (if p_enable_randomized_snapshot_creation params \<and> ev_sm_last_snapshot env = None \<and>
               p_snapshot_distance params > 1 then i32_to_u64 (ev_rand_distance env) else 0),
         sv_exited = False, sv_out = []\<rparr>)"

definition start_server :: "renv \<Rightarrow> bool \<Rightarrow> server \<Rightarrow> server" where
  "start_server env skip_initial_election_timeout s =
     (let s = s\<lparr>sv_sm_commit_notifier_target_idx := 0, sv_sm_commit_notifier_notified_idx := 0\<rparr>;
          s = (if skip_initial_election_timeout
               then save_state (set_sstate (\<lambda>st. st\<lparr>ss_election_timer_allowed := False\<rparr>) s)
               else if \<not> ss_election_timer_allowed (sv_state s) then s
               else restart_election_timer env s)
      in s\<lparr>sv_priority_change_timer := timer_reset (ev_now env) 0 (sv_priority_change_timer s),
           sv_vote_init_timer := timer_reset (ev_now env) 0
              (set_duration_ms (i32_to_u64 (p_grace_period_of_lagging_state_machine (sv_params s))) (sv_vote_init_timer s)),
           sv_self_mark_down := False, sv_excluded_from_the_quorum := False, sv_stopping := False\<rparr>)"

definition update_params :: "renv \<Rightarrow> bool \<Rightarrow> raft_params \<Rightarrow> server \<Rightarrow> server" where
  "update_params env test_mode new_params s =
     (let s = apply_and_log_current_params env test_mode (s\<lparr>sv_params := new_params\<rparr>);
          s = s\<lparr>sv_fixed_timeout := None\<rparr>;
          s = (if sv_role s \<noteq> leader then restart_election_timer env s else s)
      in s\<lparr>sv_peers := map (\<lambda>(k, p). (k, resume_hb_speed
              (p\<lparr>pe_hb_interval := p_heart_beat_interval (sv_params s)\<rparr>))) (sv_peers s)\<rparr>)"

definition stop_server :: "server \<Rightarrow> server" where
  "stop_server s = drop_all_sm_watcher_elems (drop_all_pending_commit_elems (s\<lparr>sv_stopping := True\<rparr>))"

definition is_leader :: "server \<Rightarrow> bool" where
  "is_leader s \<longleftrightarrow> sv_leader s = sv_id s \<and> sv_role s = leader"

definition is_leader_alive :: "server \<Rightarrow> bool" where
  "is_leader_alive s \<longleftrightarrow> \<not> (sv_leader s = -1 \<or> \<not> sv_hb_alive s)"

subsection \<open>A small cluster\<close>

text \<open>An environment whose outside world always agrees, and new servers on an empty log.\<close>

definition sample_env :: "nat \<Rightarrow> renv" where
  "sample_env now =
     \<lparr>ev_now = now, ev_limits = default_limits, ev_cb = (\<lambda>_ _. True), ev_rand_timeout = 300,
      ev_sm_last_snapshot = None, ev_next_batch_size_hint = 0,
      ev_adjust_commit_index = (\<lambda>_ _ e. e), ev_allow_leadership_transfer = True,
      ev_last_durable_index = 0,
      ev_log_entries_ext = (\<lambda>l i j _. if rl_start l \<le> i then Some (rl_slice i j l) else None),
      ev_flush = True, ev_has_pending_snapshot = (\<lambda>_. False),
      ev_read_snapshot_data = (\<lambda>_ _ n. replicate n 0),
      ev_read_logical_snp_obj = (\<lambda>_ _. Some ([], True)),
      ev_rpc_factory = True, ev_new_rpc = 1, ev_backoff_disabled = False,
      ev_log_pack = (\<lambda>_ _ _. []), ev_apply_pack = (\<lambda>l _ _. l), ev_log_compact = True,
      ev_chk_create_snapshot = True, ev_save_logical_snp_obj = (\<lambda>_ n. n + 1), ev_apply_snapshot = True,
      ev_rand_distance = 1, ev_global_mgr = False\<rparr>"

definition sample_config :: "int list \<Rightarrow> cluster_config" where
  "sample_config ids =
     (new_cluster_config 0 0 False)\<lparr>cc_servers := map (\<lambda>i. new_srv_config i 0 [] [] False 1) ids\<rparr>"

definition sample_server :: "int \<Rightarrow> int list \<Rightarrow> server" where
  "sample_server i ids =
     new_server (sample_env 0) False 0 i default_raft_params None (sample_config ids)
       \<lparr>rl_start = 1, rl_entries = []\<rparr> 0"

end
