(* ===== verification/Raft_Replicate.thy ===== *)
theory Raft_Replicate
  imports Raft_Server
begin

text \<open>
  The leader's side of replication: building append requests and snapshot requests, sending them,
  choosing the commit index and advancing it (\<^verbatim>\<open>handle_append_entries.cc\<close>, \<^verbatim>\<open>handle_commit.cc\<close>,
  \<^verbatim>\<open>handle_snapshot_sync.cc\<close>).

  \<^verbatim>\<open>request_append_entries\<close> and \<^verbatim>\<open>commit\<close> call each other. The inner call is guarded by a timer that the
  outer one has just reset, so the recursion is two levels deep; \<open>rae_level\<close> bounds it and
  \<open>rae_level_enough\<close> shows that the bound is never felt.
\<close>

subsection \<open>Snapshot requests\<close>

definition default_snapshot_sync_block_size :: int where
  "default_snapshot_sync_block_size = 4 * 1024"

definition get_snapshot_sync_block_size :: "server \<Rightarrow> int" where
  "get_snapshot_sync_block_size s =
     (let block_size = p_snapshot_block_size (sv_params s)
      in if block_size = 0 then default_snapshot_sync_block_size else block_size)"

definition get_snapshot_sync_ctx_timeout :: "renv \<Rightarrow> server \<Rightarrow> int" where
  "get_snapshot_sync_ctx_timeout env s =
     (if p_snapshot_sync_ctx_timeout (sv_params s) = 0
      then l_response_limit (ev_limits env) * p_heart_beat_interval (sv_params s)
      else p_snapshot_sync_ctx_timeout (sv_params s))"

text \<open>
  The snapshot to send: the one in transfer if it has not timed out and is past its first object,
  else the last snapshot with a new context. The message that reports a missing snapshot reads it,
  so without one the process ends there and does not reach \<^verbatim>\<open>system_exit\<close>.
\<close>

definition start_snapshot_sync ::
    "renv \<Rightarrow> int \<Rightarrow> nat \<Rightarrow> server \<Rightarrow> (snapshot \<times> nat) option \<times> server" where
  "start_snapshot_sync env i last_log_idx s =
     (case sv_last_snapshot s of
        None \<Rightarrow> (None, s\<lparr>sv_exited := True\<rparr>)
      | Some snp \<Rightarrow>
          if last_log_idx > sn_last_log_idx snp then (None, sys_exit (-16) s)
          else if sn_type snp = raw_binary \<and> sn_size snp < 1 then (None, sys_exit (-17) s)
          else (Some (snp, 0),
                upd_peer i (set_snapshot_in_sync (ev_now env) (Some snp)
                  (i32_to_u64 (get_snapshot_sync_ctx_timeout env s))) s))"

definition pick_sync_snapshot ::
    "renv \<Rightarrow> int \<Rightarrow> nat \<Rightarrow> peer \<Rightarrow> server \<Rightarrow> (snapshot \<times> nat) option \<times> server" where
  "pick_sync_snapshot env i last_log_idx p s =
     (case pe_snp_sync_ctx p of
        Some c \<Rightarrow>
          if \<not> fst (timeout (ev_now env) (sx_timer c)) \<and> sx_offset c \<noteq> 0
          then (Some (sx_snapshot c, sx_offset c), s)
          else start_snapshot_sync env i last_log_idx s
      | None \<Rightarrow> start_snapshot_sync env i last_log_idx s)"

text \<open>The object or block to ship, and whether it is the last; \<open>None\<close> is a null request.\<close>

definition read_snapshot ::
    "renv \<Rightarrow> int \<Rightarrow> snapshot \<Rightarrow> nat \<Rightarrow> server \<Rightarrow> (u8 list \<times> bool) option \<times> server" where
  "read_snapshot env i snp offset s =
     (if sn_type snp = raw_binary
      then
        let sz_left = (if sn_size snp > offset then sn_size snp - offset else 0);
            want = min (i32_to_u64 (get_snapshot_sync_block_size s)) sz_left;
            data = ev_read_snapshot_data env snp offset want
        in if length data < want then (None, sys_exit (-18) s)
           else (Some (data, offset + want \<ge> sn_size snp), s)
      else
        case ev_read_logical_snp_obj env snp offset of
          None \<Rightarrow> (None, upd_peer i clear_snapshot_sync_ctx s)
        | Some (data, is_last_obj) \<Rightarrow> (Some (data, is_last_obj), s))"

definition create_sync_snapshot_req ::
    "renv \<Rightarrow> int \<Rightarrow> nat \<Rightarrow> nat \<Rightarrow> nat \<Rightarrow> server \<Rightarrow> req_msg option \<times> server" where
  "create_sync_snapshot_req env i last_log_idx term commit_idx s =
     (case find_peer i s of
        None \<Rightarrow> (None, s)
      | Some p \<Rightarrow>
          (case pick_sync_snapshot env i last_log_idx p s of
             (None, s) \<Rightarrow> (None, s)
           | (Some (snp, offset), s) \<Rightarrow>
               if p_use_bg_thread_for_snapshot_io (sv_params s) then (None, emit (Push_Snapshot_Io i) s)
               else
                 (case read_snapshot env i snp offset s of
                    (None, s) \<Rightarrow> (None, s)
                  | (Some (data, is_last), s) \<Rightarrow>
                      let sync_req = \<lparr>sr_snapshot = snp, sr_offset = offset, sr_data = blk 0 data, sr_done = is_last\<rparr>
                      in (Some ((new_req_msg term install_snapshot_request (sv_id s) (pe_id p)
                                   (sn_last_log_term snp) (sn_last_log_idx snp) commit_idx)
                                 \<lparr>rq_log_entries := [\<lparr>re_term = term, re_body = Snp_Sync sync_req, re_time = 0\<rparr>]\<rparr>),
                          s))))"

subsection \<open>Append requests\<close>

text \<open>
  The range to send: \<open>cnt_not_applied\<close> counts how often the same start was sent without progress; from
  the fifth time on only one entry goes out.
\<close>

definition append_range :: "raft_params \<Rightarrow> nat \<Rightarrow> nat \<Rightarrow> peer \<Rightarrow> nat \<times> peer" where
  "append_range params cur_nxt_idx last_log_idx p =
     (let end_idx = min cur_nxt_idx (add64 (last_log_idx + 1) (i32_to_u64 (p_max_append_size params)))
      in if last_log_idx + 1 = pe_last_sent_idx p \<and> last_log_idx + 2 < end_idx
         then
           let cur_cnt = pe_cnt_not_applied p + 1; p = p\<lparr>pe_cnt_not_applied := cur_cnt\<rparr>
           in (if cur_cnt \<ge> 5 then min cur_nxt_idx (last_log_idx + 1 + 1) else end_idx, p)
         else (end_idx, p\<lparr>pe_cnt_not_applied := 0\<rparr>))"

definition out_of_log_req :: "server \<Rightarrow> int \<Rightarrow> nat \<Rightarrow> req_msg" where
  "out_of_log_req s dst last_log_idx =
     (new_req_msg (sv_term s) custom_notification_request (sv_id s) dst 0 last_log_idx (sv_quick_commit_index s))
       \<lparr>rq_log_entries := [\<lparr>re_term = 0, re_body = Out_Of_Log_Range (rl_start (sv_log s)), re_time = 0\<rparr>]\<rparr>"

definition required_log_idx :: "server \<Rightarrow> nat" where
  "required_log_idx s =
     (if sv_quick_commit_index s > i32_to_u64 (p_max_append_size (sv_params s))
      then sv_quick_commit_index s - i32_to_u64 (p_max_append_size (sv_params s)) else 0)"

definition full_consensus_expiry :: "renv \<Rightarrow> server \<Rightarrow> int" where
  "full_consensus_expiry env s =
     p_heart_beat_interval (sv_params s) * l_full_consensus_leader_limit (ev_limits env)"

text \<open>The request itself, when the entries after \<open>last_log_idx\<close> are known.\<close>

definition build_append_req :: "renv \<Rightarrow> peer \<Rightarrow> nat \<Rightarrow> rentry list \<Rightarrow> server \<Rightarrow> req_msg" where
  "build_append_req env p last_log_idx entries s =
     (new_req_msg (sv_term s) append_entries_request (sv_id s) (pe_id p)
        (term_for_log env last_log_idx s) last_log_idx (sv_quick_commit_index s))
       \<lparr>rq_log_entries := entries,
        rq_excluded_from_the_quorum :=
          (p_use_full_consensus_among_healthy_members (sv_params s) \<and>
           is_excluded_from_quorum p (resp_elapsed_ms env p) (to_i32 (full_consensus_expiry env s))
             (required_log_idx s) False)\<rparr>"

definition create_append_entries_req ::
    "renv \<Rightarrow> int \<Rightarrow> nat \<Rightarrow> server \<Rightarrow> req_msg option \<times> server" where
  "create_append_entries_req env i custom_last_log_idx s =
     (case find_peer i s of
        None \<Rightarrow> (None, s)
      | Some p \<Rightarrow>
          let starting_idx = rl_start (sv_log s);
              cur_nxt_idx = sv_precommit_index s + 1;
              init_next = (\<lambda>p. if pe_next_log_idx p = 0 then p\<lparr>pe_next_log_idx := cur_nxt_idx\<rparr> else p);
              p = init_next p;
              s = upd_peer i init_next s;
              last_log_idx = (if custom_last_log_idx > 0 then custom_last_log_idx else pe_next_log_idx p - 1)
          in if last_log_idx \<ge> cur_nxt_idx then (None, sys_exit (-8) s)
             else
               let (end_idx, p) = append_range (sv_params s) cur_nxt_idx last_log_idx p;
                   s = upd_peer i (\<lambda>p. snd (append_range (sv_params s) cur_nxt_idx last_log_idx p)) s;
                   entries_valid = (last_log_idx + 1 \<ge> starting_idx \<and> \<not> pe_snapshot_sync_is_needed p);
                   log_entries =
                     (if last_log_idx + 1 \<ge> cur_nxt_idx then (if entries_valid then Some [] else None)
                      else if entries_valid
                           then ev_log_entries_ext env (sv_log s) (last_log_idx + 1) end_idx (pe_next_batch_size_hint p)
                           else None)
               in case log_entries of
                    Some entries \<Rightarrow>
                      (Some (build_append_req env p last_log_idx entries s),
                       upd_peer i (\<lambda>p. p\<lparr>pe_last_sent_idx := last_log_idx + 1\<rparr>) s)
                  | None \<Rightarrow>
                      (case sv_last_snapshot s of
                         Some snp_local \<Rightarrow>
                           if pe_snapshot_sync_is_needed p \<or>
                              last_log_idx < starting_idx \<and> last_log_idx < sn_last_log_idx snp_local
                           then create_sync_snapshot_req env i last_log_idx (sv_term s) (sv_quick_commit_index s) s
                           else (Some (out_of_log_req s (pe_id p) last_log_idx), s)
                       | None \<Rightarrow> (Some (out_of_log_req s (pe_id p) last_log_idx), s)))"

subsection \<open>Sending\<close>

definition note_recovery :: "renv \<Rightarrow> peer \<Rightarrow> peer" where
  "note_recovery env p =
     (if \<not> pe_manual_free p
      then
        let p = (if pe_long_pause_warnings p \<ge> l_warning_limit (ev_limits env)
                 then let c = pe_network_recoveries p + 1
                      in p\<lparr>pe_network_recoveries := (if c \<ge> 10 then 0 else c)\<rparr>
                 else p)
        in p\<lparr>pe_long_pause_warnings := 0\<rparr>
      else p\<lparr>pe_manual_free := False\<rparr>)"

definition send_request :: "renv \<Rightarrow> int \<Rightarrow> req_msg \<Rightarrow> server \<Rightarrow> bool \<times> server" where
  "send_request env i msg s =
     (let s = upd_peer i (note_recovery env) s;
          s = upd_peer i (reset_ls_timer (ev_now env)) (send_to i msg s);
          s = notify_cb SentAppendEntriesReq i s;
          s = (if sv_srv_to_leave s = Some i \<and> rq_commit_idx msg \<ge> sv_srv_to_leave_target_idx s
               then upd_peer i (\<lambda>p. p\<lparr>pe_stepping_down := True\<rparr>) s else s)
      in (True, s))"

text \<open>The branch for a two-member cluster that may adjust its quorum. \<open>cm\<close> is \<^verbatim>\<open>commit\<close>.\<close>

definition get_current_leader_index :: "renv \<Rightarrow> server \<Rightarrow> nat" where
  "get_current_leader_index env s =
     (if p_parallel_log_appending (sv_params s) then min (sv_precommit_index s) (ev_last_durable_index env)
      else sv_precommit_index s)"

definition rae_adjust :: "(nat \<Rightarrow> server \<Rightarrow> server) \<Rightarrow> renv \<Rightarrow> int \<Rightarrow> server \<Rightarrow> server" where
  "rae_adjust cm env i s =
     (if p_auto_adjust_quorum_for_small_cluster (sv_params s) \<and> get_num_voting_members s = 2
      then
        let (fired, t) = timeout_and_reset (ev_now env) (sv_chk_timer s); s = s\<lparr>sv_chk_timer := t\<rparr>
        in if \<not> fired then s
           else
             let num_not_responding_peers = get_not_responding_peers_count env 0 0 s;
                 cur_quorum_size = get_quorum_for_commit s;
                 num_stale_peers = get_num_stale_peers s
             in if cur_quorum_size \<ge> 1
                then if num_not_responding_peers \<noteq> 0 \<or> num_stale_peers \<noteq> 0
                     then let (ok, s) = call_cb env AutoAdjustQuorum i s
                          in if \<not> ok then s
                             else let s = s\<lparr>sv_params := adjust_quorum (sv_params s)\<rparr>
                                  in cm (get_current_leader_index env s) s
                     else s
                else if num_not_responding_peers = 0 \<and> num_stale_peers = 0 \<and>
                        p_custom_commit_quorum_size (sv_params s) = 1
                     then s\<lparr>sv_params := restore_quorum (sv_params s)\<rparr>
                     else s
      else s)"

definition note_reconnect :: "bool \<Rightarrow> peer \<Rightarrow> peer" where
  "note_reconnect reconnected p =
     (if reconnected \<and> pe_next_log_idx p \<noteq> 0
      then p\<lparr>pe_next_log_idx := 0, pe_matched_idx := 0\<rparr> else p)\<lparr>pe_reconn_scheduled := False\<rparr>"

definition rae_reconnect :: "renv \<Rightarrow> int \<Rightarrow> server \<Rightarrow> server" where
  "rae_reconnect env i s =
     (case find_peer i s of
        None \<Rightarrow> s
      | Some p \<Rightarrow>
          let need = need_to_reconnect (ev_now env) p;
              last_active_time_ms = to_i32 (int (get_us (ev_now env) (pe_last_active_timer p) div 1000));
              inactive = (last_active_time_ms >
                            p_heart_beat_interval (sv_params s) * l_reconnect_limit (ev_limits env) \<and>
                          sv_srv_to_leave s \<noteq> Some (pe_id p));
              s = (if inactive then upd_peer i (reset_active_timer (ev_now env)) s else s)
          in if need \<or> inactive
             then
               let (reconnected, s) = reconnect_client env i s
               in upd_peer i (note_reconnect reconnected) s
             else s)"

definition note_skip :: "renv \<Rightarrow> int \<Rightarrow> peer \<Rightarrow> peer" where
  "note_skip env heart_beat_interval p =
     (let p = snd (check_snapshot_timeout env p);
          last_ts_ms = to_i32 (int (get_us (ev_now env) (pe_last_sent_timer p) div 1000))
      in if last_ts_ms > heart_beat_interval
         then p\<lparr>pe_long_pause_warnings := pe_long_pause_warnings p + 1\<rparr> else p)"

definition rae_skip :: "renv \<Rightarrow> int \<Rightarrow> server \<Rightarrow> bool \<times> server" where
  "rae_skip env i s = (False, upd_peer i (note_skip env (p_heart_beat_interval (sv_params s))) s)"

text \<open>
  What happens once an append request has been asked for: \<open>last_streamed\<close> is the stream position it
  was built from. In stream mode the gap and the bytes in flight are throttled.
\<close>

definition rae_dispatch :: "renv \<Rightarrow> int \<Rightarrow> nat \<Rightarrow> req_msg option \<Rightarrow> server \<Rightarrow> bool \<times> server" where
  "rae_dispatch env i last_streamed msg s =
     (case find_peer i s of
        None \<Rightarrow> (True, s)
      | Some p \<Rightarrow>
          case msg of
            None \<Rightarrow>
              let s = (if last_streamed > 0 then s else upd_peer i set_free s);
                  s = (if p_use_bg_thread_for_snapshot_io (sv_params s) \<and> pe_snp_sync_ctx p \<noteq> None
                       then emit Invoke_Snapshot_Io s else s)
              in (True, s)
          | Some m \<Rightarrow>
              let gap = i32_to_u64 (p_max_log_gap_in_stream (sv_params s));
                  max_stream_bytes = max 0 (p_max_bytes_in_flight_in_stream (sv_params s))
              in if last_streamed > 0 \<and> rq_type m = append_entries_request
                 then
                   if add64 gap (pe_next_log_idx p) \<le> last_streamed + 1 \<or>
                      max_stream_bytes \<noteq> 0 \<and> pe_bytes_in_flight p > max_stream_bytes
                   then if pe_busy_flag p then send_request env i m s else rae_skip env i s
                   else send_request env i m
                          (upd_peer i (set_last_streamed_log_idx last_streamed
                             (last_streamed + length (rq_log_entries m))) s)
                 else send_request env i m (upd_peer i (\<lambda>p. p\<lparr>pe_busy_flag := True\<rparr>) s))"

definition rae_send :: "renv \<Rightarrow> int \<Rightarrow> server \<Rightarrow> bool \<times> server" where
  "rae_send env i s =
     (case find_peer i s of
        None \<Rightarrow> (True, s)
      | Some p \<Rightarrow>
          case pe_rsv_msg p of
            Some msg \<Rightarrow>
              let (got, s) = at_peer i False make_busy s
              in if got then send_request env i msg (upd_peer i (\<lambda>p. p\<lparr>pe_rsv_msg := None\<rparr>) s)
                 else rae_skip env i s
          | None \<Rightarrow>
              let off = (pe_last_streamed_log_idx p > 0 \<and> p_max_log_gap_in_stream (sv_params s) = 0);
                  last_streamed = (if off then 0 else pe_last_streamed_log_idx p);
                  s = (if off then upd_peer i reset_stream s else s);
                  (go, s) = (if last_streamed > 0 then (True, s) else at_peer i False make_busy s)
              in if go
                 then let (msg, s) = create_append_entries_req env i last_streamed s
                      in rae_dispatch env i last_streamed msg s
                 else rae_skip env i s)"

definition rae_with :: "(nat \<Rightarrow> server \<Rightarrow> server) \<Rightarrow> renv \<Rightarrow> int \<Rightarrow> server \<Rightarrow> bool \<times> server" where
  "rae_with cm env i s =
     (if sv_role s \<noteq> leader then (False, s)
      else
        let (ok, s) = call_cb env RequestAppendEntries i s
        in if \<not> ok then (True, s)
           else
             let s = rae_reconnect env i (rae_adjust cm env i s)
             in if p_use_bg_thread_for_snapshot_io (sv_params s) \<and> ev_has_pending_snapshot env i then (True, s)
                else rae_send env i s)"

subsection \<open>Commit\<close>

definition commit_peer :: "(int \<Rightarrow> server \<Rightarrow> bool \<times> server) \<Rightarrow> nat \<Rightarrow> int \<Rightarrow> server \<Rightarrow> server" where
  "commit_peer rae target_idx i s =
     (case find_peer i s of
        None \<Rightarrow> s
      | Some p \<Rightarrow>
          if p_track_peers_sm_commit_idx (sv_params s) \<and> pe_sm_committed_idx p \<ge> target_idx then s
          else let (ok, s) = rae i s
               in if ok then s else upd_peer i (\<lambda>p. p\<lparr>pe_pending_commit_flag := True\<rparr>) s)"

definition wake_commit :: "server \<Rightarrow> server" where
  "wake_commit s =
     (if last_idx s > sv_sm_commit_index s \<and> sv_quick_commit_index s > sv_sm_commit_index s
      then emit Request_Commit s
      else if sv_role s = follower \<and> \<not> sv_data_fresh s \<and>
              sv_leader_commit_index s < add64 (sv_sm_commit_index s) (i32_to_u64 (p_fresh_log_gap (sv_params s)))
      then notify_cb BecomeFresh (-1) (s\<lparr>sv_data_fresh := True\<rparr>)
      else s)"

definition commit_with :: "(int \<Rightarrow> server \<Rightarrow> bool \<times> server) \<Rightarrow> nat \<Rightarrow> server \<Rightarrow> server" where
  "commit_with rae target_idx s =
     wake_commit
       (if target_idx > sv_quick_commit_index s
        then
          let s = s\<lparr>sv_quick_commit_index := target_idx, sv_lagging_sm_target_index := target_idx\<rparr>
          in if sv_role s = leader then for_peers (commit_peer rae target_idx) s else s
        else s)"

primrec rae_level :: "nat \<Rightarrow> renv \<Rightarrow> int \<Rightarrow> server \<Rightarrow> bool \<times> server" where
  "rae_level 0 = rae_with (\<lambda>_ s. s)"
| "rae_level (Suc n) = (\<lambda>env. rae_with (commit_with (rae_level n env)) env)"

definition request_append_entries_to :: "renv \<Rightarrow> int \<Rightarrow> server \<Rightarrow> bool \<times> server" where
  "request_append_entries_to = rae_level 1"

definition commit :: "renv \<Rightarrow> nat \<Rightarrow> server \<Rightarrow> server" where
  "commit env = commit_with (request_append_entries_to env)"

definition request_append_entries :: "renv \<Rightarrow> server \<Rightarrow> server" where
  "request_append_entries env s =
     (if sv_peers s = [] \<or> get_quorum_for_commit s = 0 then commit env (get_current_leader_index env s) s
      else for_peers (\<lambda>i s. snd (request_append_entries_to env i s)) s)"

subsection \<open>The commit index\<close>

definition matched_indexes :: "renv \<Rightarrow> server \<Rightarrow> nat list" where
  "matched_indexes env s = get_current_leader_index env s # map pe_matched_idx (regular_peers s)"

text \<open>The position in the descending list; in full consensus mode all healthy members have to agree.\<close>

definition commit_quorum_idx :: "renv \<Rightarrow> server \<Rightarrow> nat" where
  "commit_quorum_idx env s =
     (let voting_members = get_num_voting_members s; quorum_idx = get_quorum_for_commit s
      in if p_use_full_consensus_among_healthy_members (sv_params s) \<and> p_custom_commit_quorum_size (sv_params s) = 0
         then
           let not_responding = int (get_not_responding_peers_count env (to_i32 (full_consensus_expiry env s))
                                       (required_log_idx s) s)
           in if not_responding < voting_members - quorum_idx then nat (voting_members - not_responding - 1)
              else nat quorum_idx
         else nat quorum_idx)"

definition get_expected_committed_log_idx :: "renv \<Rightarrow> server \<Rightarrow> nat" where
  "get_expected_committed_log_idx env s =
     (let expected = rev (sort (matched_indexes env s)) ! commit_quorum_idx env s;
          peer_index_map = (sv_id s, get_current_leader_index env s)
                             # map (\<lambda>kp. (pe_id (snd kp), pe_matched_idx (snd kp))) (sv_peers s)
      in ev_adjust_commit_index env peer_index_map (sv_quick_commit_index s) expected)"

definition find_sm_commit_idx_to_notify :: "renv \<Rightarrow> server \<Rightarrow> nat" where
  "find_sm_commit_idx_to_notify env s =
     (let included = filter (\<lambda>p. \<not> is_excluded_from_quorum p (resp_elapsed_ms env p)
                                    (to_i32 (full_consensus_expiry env s)) (required_log_idx s) True
                                 \<and> pe_sm_committed_idx p \<noteq> 0) (map snd (sv_peers s));
          commit_idx_list = rev (sort (sv_sm_commit_index s # map pe_sm_committed_idx included));
          q = p_custom_commit_quorum_size (sv_params s);
          idx_to_pick = (if q \<noteq> 0 \<and> q < int (length commit_idx_list) then nat (q - 1)
                         else length commit_idx_list - 1)
      in commit_idx_list ! idx_to_pick)"

definition update_sm_commit_notifier_target_idx :: "nat \<Rightarrow> server \<Rightarrow> server" where
  "update_sm_commit_notifier_target_idx to s =
     (if sv_sm_commit_notifier_target_idx s \<ge> to then s else s\<lparr>sv_sm_commit_notifier_target_idx := to\<rparr>)"

subsection \<open>What replication leaves alone\<close>

text \<open>
  Sending and committing touch the peers' bookkeeping, the commit index and the outgoing messages.
  \<open>quiet env s s'\<close> says that nothing else changed, that membership is as before, that no vote request
  went out (unless one had been reserved), and that the quorum parameters only moved where automatic
  adjustment is on.
\<close>

definition rae_frame :: "server \<Rightarrow> server \<Rightarrow> bool" where
  "rae_frame s s' \<longleftrightarrow> s' = s
     \<lparr>sv_peers := sv_peers s', sv_params := sv_params s', sv_quick_commit_index := sv_quick_commit_index s',
      sv_lagging_sm_target_index := sv_lagging_sm_target_index s', sv_data_fresh := sv_data_fresh s',
      sv_chk_timer := sv_chk_timer s', sv_exited := sv_exited s', sv_out := sv_out s'\<rparr>"

definition pview :: "peer \<Rightarrow> int \<times> bool \<times> bool \<times> bool" where
  "pview p = (pe_id p, sc_learner (pe_config p), sc_new_joiner (pe_config p), pe_leave_requested p)"

definition members :: "server \<Rightarrow> (int \<times> int \<times> bool \<times> bool \<times> bool) list" where
  "members s = map (\<lambda>(k, p). (k, pview p)) (sv_peers s)"

definition no_rsv :: "server \<Rightarrow> bool" where
  "no_rsv s \<longleftrightarrow> (\<forall>(k, p) \<in> set (sv_peers s). pe_rsv_msg p = None)"

definition is_vote_send :: "effect \<Rightarrow> bool" where
  "is_vote_send e = (case e of Send r \<Rightarrow> rq_type r = request_vote_request | _ \<Rightarrow> False)"

definition vote_sends :: "server \<Rightarrow> effect list" where
  "vote_sends s = filter is_vote_send (sv_out s)"

definition chk_idle :: "renv \<Rightarrow> server \<Rightarrow> bool" where
  "chk_idle env s \<longleftrightarrow> timeout_and_reset (ev_now env) (sv_chk_timer s) = (False, sv_chk_timer s)"

abbreviation auto_adjust :: "server \<Rightarrow> bool" where
  "auto_adjust s \<equiv> p_auto_adjust_quorum_for_small_cluster (sv_params s)"

definition quiet :: "renv \<Rightarrow> server \<Rightarrow> server \<Rightarrow> bool" where
  "quiet env s s' \<longleftrightarrow> rae_frame s s' \<and> members s' = members s \<and>
     (no_rsv s \<longrightarrow> no_rsv s' \<and> vote_sends s' = vote_sends s) \<and>
     (\<not> auto_adjust s \<longrightarrow> sv_params s' = sv_params s) \<and>
     (chk_idle env s \<longrightarrow> sv_chk_timer s' = sv_chk_timer s) \<and>
     (t_first_event_fired (sv_chk_timer s) \<longrightarrow> t_first_event_fired (sv_chk_timer s'))"

lemma rae_frame_refl [simp, intro]: "rae_frame s s"
  by (simp add: rae_frame_def)

lemma rae_frame_trans: "rae_frame s t \<Longrightarrow> rae_frame t u \<Longrightarrow> rae_frame s u"
  unfolding rae_frame_def by (cases s, cases t, cases u) simp

lemma quiet_refl [simp, intro]: "quiet env s s"
  by (simp add: quiet_def)

lemma chk_idle_cong: "sv_chk_timer s' = sv_chk_timer s \<Longrightarrow> chk_idle env s' = chk_idle env s"
  by (simp add: chk_idle_def)

lemma quiet_trans: "quiet env s t \<Longrightarrow> quiet env t u \<Longrightarrow> quiet env s u"
  unfolding quiet_def
  using rae_frame_trans [of s t u] chk_idle_cong [of t s env] by auto

text \<open>Rules that peel the operations off a state from the outside.\<close>

named_theorems quiet_intros

lemma rae_frame_emit: "rae_frame s t \<Longrightarrow> rae_frame s (emit e t)"
  by (erule rae_frame_trans) (simp add: rae_frame_def emit_def)

lemma quiet_emit [quiet_intros]:
  "quiet env s t \<Longrightarrow> no_rsv s \<longrightarrow> \<not> is_vote_send e \<Longrightarrow> quiet env s (emit e t)"
  by (auto simp: quiet_def rae_frame_emit emit_def members_def no_rsv_def vote_sends_def
      intro: rae_frame_emit [unfolded emit_def])

lemma not_vote_send [simp]:
  "\<not> is_vote_send (Callback ty i)" "\<not> is_vote_send (System_Exit i)" "\<not> is_vote_send (Push_Snapshot_Io i)"
  "\<not> is_vote_send Invoke_Snapshot_Io" "\<not> is_vote_send Request_Commit" "\<not> is_vote_send Request_Append"
  "\<not> is_vote_send (Pre_Commit n)" "\<not> is_vote_send (Rollback n)" "\<not> is_vote_send (Rollback_Config n)"
  "\<not> is_vote_send (End_Of_Append_Batch n m)" "\<not> is_vote_send (Client_Result n c)"
  "\<not> is_vote_send (Notify_Client n)" "\<not> is_vote_send (Watcher_Result n b)" "\<not> is_vote_send (Commit_Log n)"
  "\<not> is_vote_send (Commit_Config n)" "\<not> is_vote_send (Save_Config cfg)" "\<not> is_vote_send (Create_Snapshot snp)"
  "\<not> is_vote_send (Snapshot_Result n c)" "\<not> is_vote_send (Compact_Async n)"
  "\<not> is_vote_send (Save_Snapshot_Obj n m)" "\<not> is_vote_send (Apply_Snapshot n)" "\<not> is_vote_send (Retry_Request i rq k)"
  "is_vote_send (Send r) \<longleftrightarrow> rq_type r = request_vote_request"
  by (simp_all add: is_vote_send_def)

lemma quiet_fields [quiet_intros]:
  assumes "quiet env s t"
  shows "quiet env s (t\<lparr>sv_exited := b\<rparr>)" "quiet env s (t\<lparr>sv_data_fresh := b\<rparr>)"
    "quiet env s (t\<lparr>sv_quick_commit_index := n\<rparr>)" "quiet env s (t\<lparr>sv_lagging_sm_target_index := n\<rparr>)"
    "quiet env s (t\<lparr>sv_quick_commit_index := n, sv_lagging_sm_target_index := m\<rparr>)"
  by (rule quiet_trans [OF assms], simp add: quiet_def rae_frame_def members_def no_rsv_def vote_sends_def)+

lemma quiet_sys_exit [quiet_intros]: "quiet env s t \<Longrightarrow> quiet env s (sys_exit c t)"
  unfolding sys_exit_def by (intro quiet_intros) simp_all

lemma quiet_notify_cb [quiet_intros]: "quiet env s t \<Longrightarrow> quiet env s (notify_cb ty i t)"
  unfolding notify_cb_def by (intro quiet_intros) simp_all

lemma quiet_call_cb [quiet_intros]: "quiet env s t \<Longrightarrow> quiet env s (snd (call_cb env ty i t))"
  unfolding call_cb_def snd_conv by (intro quiet_intros) simp_all

definition pkeep :: "(peer \<Rightarrow> peer) \<Rightarrow> bool" where
  "pkeep f \<longleftrightarrow> (\<forall>p. pview (f p) = pview p \<and> (pe_rsv_msg p = None \<longrightarrow> pe_rsv_msg (f p) = None))"

lemma quiet_upd_peer [quiet_intros]: "quiet env s t \<Longrightarrow> pkeep f \<Longrightarrow> quiet env s (upd_peer i f t)"
  by (erule quiet_trans)
    (auto simp: quiet_def rae_frame_def upd_peer_def members_def no_rsv_def vote_sends_def pkeep_def)

lemma quiet_at_peer [quiet_intros]:
  "quiet env s t \<Longrightarrow> pkeep (\<lambda>p. snd (g p)) \<Longrightarrow> quiet env s (snd (at_peer i none g t))"
  by (auto simp: at_peer_def quiet_upd_peer split: option.splits)

lemma quiet_if [quiet_intros]:
  "(b \<Longrightarrow> quiet env s x) \<Longrightarrow> (\<not> b \<Longrightarrow> quiet env s y) \<Longrightarrow> quiet env s (if b then x else y)"
  "(b \<Longrightarrow> quiet env s (snd u)) \<Longrightarrow> (\<not> b \<Longrightarrow> quiet env s (snd v)) \<Longrightarrow> quiet env s (snd (if b then u else v))"
  by simp_all

lemma quiet_snd_pair [quiet_intros]: "quiet env s t \<Longrightarrow> quiet env s (snd (x, t))"
  by simp

lemma quiet_option [quiet_intros]:
  "(x = None \<Longrightarrow> quiet env s (snd u)) \<Longrightarrow> (\<And>y. x = Some y \<Longrightarrow> quiet env s (snd (f y))) \<Longrightarrow>
     quiet env s (snd (case x of None \<Rightarrow> u | Some y \<Rightarrow> f y))"
  "(x = None \<Longrightarrow> quiet env s t) \<Longrightarrow> (\<And>y. x = Some y \<Longrightarrow> quiet env s (g y)) \<Longrightarrow>
     quiet env s (case x of None \<Rightarrow> t | Some y \<Rightarrow> g y)"
  by (cases x; simp)+

lemmas peer_op_defs = make_busy_def set_free_def enable_hb_def clear_pending_commit_def
  set_snapshot_in_sync_def resume_hb_speed_def reset_ls_timer_def reset_resp_timer_def
  reset_active_timer_def schedule_reconnection_def need_to_suppress_error_def
  set_last_streamed_log_idx_def reset_stream_def send_req_def recreate_rpc_def peer_shutdown_def
  clear_snapshot_sync_ctx_def check_snapshot_timeout_def append_range_def
  note_recovery_def note_skip_def note_reconnect_def

lemma pkeep_ops [simp]:
  "pkeep (\<lambda>p. snd (make_busy p))" "pkeep set_free" "pkeep (enable_hb b)"
  "pkeep (\<lambda>p. snd (clear_pending_commit p))"
  "pkeep (set_snapshot_in_sync now so n)" "pkeep resume_hb_speed" "pkeep (reset_ls_timer now)"
  "pkeep (reset_resp_timer now)" "pkeep (reset_active_timer now)" "pkeep (schedule_reconnection now)"
  "pkeep (\<lambda>p. snd (need_to_suppress_error p))" "pkeep (set_last_streamed_log_idx a m)" "pkeep reset_stream"
  "pkeep (\<lambda>p. snd (send_req r p))" "pkeep peer_shutdown"
  "pkeep clear_snapshot_sync_ctx" "pkeep (\<lambda>p. snd (check_snapshot_timeout env p))"
  "pkeep (\<lambda>p. snd (append_range ps x y p))" "pkeep (note_recovery env)" "pkeep (note_skip env h)"
  "pkeep (note_reconnect b)"
  by (simp_all add: pkeep_def pview_def pe_id_def peer_op_defs Let_def split: option.split)

lemma pkeep_recreate_rpc [simp]: "pkeep (\<lambda>p. snd (recreate_rpc now f bd rpc p))"
  by (simp add: pkeep_def pview_def pe_id_def peer_op_defs Let_def)

lemma pkeep_fields [simp]:
  "pkeep (\<lambda>p. p\<lparr>pe_last_sent_idx := n\<rparr>)" "pkeep (\<lambda>p. p\<lparr>pe_stepping_down := b\<rparr>)"
  "pkeep (\<lambda>p. p\<lparr>pe_busy_flag := b\<rparr>)" "pkeep (\<lambda>p. p\<lparr>pe_rsv_msg := None\<rparr>)"
  "pkeep (\<lambda>p. p\<lparr>pe_pending_commit_flag := b\<rparr>)"
  "pkeep (\<lambda>p. if pe_next_log_idx p = 0 then p\<lparr>pe_next_log_idx := n\<rparr> else p)"
  by (auto simp: pkeep_def pview_def pe_id_def)

lemma quiet_send_to [quiet_intros]:
  "quiet env s t \<Longrightarrow> no_rsv s \<longrightarrow> rq_type r \<noteq> request_vote_request \<Longrightarrow> quiet env s (send_to i r t)"
  unfolding send_to_def Let_def case_prod_beta by (intro quiet_intros) simp_all

lemma quiet_send_request [quiet_intros]:
  "quiet env s t \<Longrightarrow> no_rsv s \<longrightarrow> rq_type m \<noteq> request_vote_request \<Longrightarrow> quiet env s (snd (send_request env i m t))"
  unfolding send_request_def Let_def case_prod_beta by (intro quiet_intros) simp_all

lemma create_sync_snapshot_req_type:
  "fst (create_sync_snapshot_req env i l tm c s) = Some m \<Longrightarrow> rq_type m = install_snapshot_request"
  by (auto simp: create_sync_snapshot_req_def new_req_msg_def Let_def split: option.splits prod.splits if_splits)

lemma quiet_create_sync [quiet_intros]:
  assumes "quiet env s t"
  shows "quiet env s (snd (create_sync_snapshot_req env i l tm c t))"
proof -
  have pick: "quiet env s (snd (pick_sync_snapshot env i l p t))" for p
    unfolding pick_sync_snapshot_def start_snapshot_sync_def by (intro quiet_intros assms) simp_all
  have read: "quiet env s u \<Longrightarrow> quiet env s (snd (read_snapshot env i snp ofs u))" for snp ofs u
    unfolding read_snapshot_def Let_def case_prod_beta by (intro quiet_intros) simp_all
  show ?thesis
  proof (cases "find_peer i t")
    case None
    then show ?thesis by (simp add: create_sync_snapshot_req_def assms)
  next
    case (Some p)
    obtain r u where pr: "pick_sync_snapshot env i l p t = (r, u)" by force
    then have u: "quiet env s u" using pick [of p] by simp
    show ?thesis
    proof (cases r)
      case None
      then show ?thesis using Some pr u by (simp add: create_sync_snapshot_req_def)
    next
      case (Some so)
      obtain r' u' where rr: "read_snapshot env i (fst so) (snd so) u = (r', u')" by force
      then have "quiet env s u'" using read [OF u, of "fst so" "snd so"] by simp
      then show ?thesis
        using Some \<open>find_peer i t = Some p\<close> pr rr u
        by (cases r') (auto simp: create_sync_snapshot_req_def Let_def case_prod_beta intro: quiet_emit)
    qed
  qed
qed

lemma create_append_entries_req_type:
  "fst (create_append_entries_req env i c s) = Some m \<Longrightarrow> rq_type m \<noteq> request_vote_request"
  by (auto simp: create_append_entries_req_def out_of_log_req_def build_append_req_def new_req_msg_def
      Let_def case_prod_beta dest!: create_sync_snapshot_req_type split: option.splits if_splits)

lemma quiet_create_append [quiet_intros]:
  "quiet env s t \<Longrightarrow> quiet env s (snd (create_append_entries_req env i c t))"
  unfolding create_append_entries_req_def Let_def case_prod_beta by (intro quiet_intros) simp_all

lemma quiet_reconnect_client [quiet_intros]: "quiet env s t \<Longrightarrow> quiet env s (snd (reconnect_client env i t))"
  unfolding reconnect_client_def by (intro quiet_intros) simp_all

lemma quiet_rae_reconnect [quiet_intros]: "quiet env s t \<Longrightarrow> quiet env s (rae_reconnect env i t)"
  unfolding rae_reconnect_def Let_def case_prod_beta by (intro quiet_intros) simp_all

lemma quiet_rae_skip [quiet_intros]: "quiet env s t \<Longrightarrow> quiet env s (snd (rae_skip env i t))"
  unfolding rae_skip_def by (intro quiet_intros) simp_all

lemma quiet_rae_dispatch [quiet_intros]:
  "quiet env s t \<Longrightarrow> (\<And>m. msg = Some m \<Longrightarrow> rq_type m \<noteq> request_vote_request) \<Longrightarrow>
    quiet env s (snd (rae_dispatch env i n msg t))"
  unfolding rae_dispatch_def Let_def case_prod_beta by (intro quiet_intros) simp_all

text \<open>A reserved message goes out as it is; a server that holds none sends no vote request.\<close>

lemma no_rsv_find: "no_rsv s \<Longrightarrow> find_peer i s = Some p \<Longrightarrow> pe_rsv_msg p = None"
  unfolding no_rsv_def find_peer_def om_find_def by (auto dest: map_of_SomeD)

lemma quiet_no_rsv: "quiet env s t \<Longrightarrow> no_rsv s \<Longrightarrow> no_rsv t"
  by (simp add: quiet_def)

lemma quiet_rsv:
  "quiet env s t \<Longrightarrow> find_peer i t = Some p \<Longrightarrow> pe_rsv_msg p = Some m \<Longrightarrow> \<not> no_rsv s"
  using quiet_no_rsv no_rsv_find by fastforce

lemma quiet_rae_send [quiet_intros]: "quiet env s t \<Longrightarrow> quiet env s (snd (rae_send env i t))"
  unfolding rae_send_def Let_def case_prod_beta
  by (intro quiet_intros) (auto dest: quiet_rsv create_append_entries_req_type)

lemma quiet_rae_adjust [quiet_intros]:
  assumes "quiet env s t" and cm: "\<And>n u v. quiet env u v \<Longrightarrow> quiet env u (cm n v)"
  shows "quiet env s (rae_adjust cm env i t)"
proof (rule quiet_trans [OF assms(1)])
  let ?r = "timeout_and_reset (ev_now env) (sv_chk_timer t)"
  have timer: "quiet env t (t\<lparr>sv_chk_timer := snd ?r\<rparr>)"
    by (auto simp: quiet_def rae_frame_def members_def no_rsv_def vote_sends_def chk_idle_def timeout_and_reset_def)
  have params: "quiet env t (u\<lparr>sv_params := ps\<rparr>)" if "quiet env t u" and "auto_adjust t" for u ps
  proof -
    have "rae_frame t u" and "rae_frame u (u\<lparr>sv_params := ps\<rparr>)"
      using that(1) by (simp_all add: quiet_def rae_frame_def)
    then have "rae_frame t (u\<lparr>sv_params := ps\<rparr>)"
      by (rule rae_frame_trans)
    with that show ?thesis
      by (simp add: quiet_def members_def no_rsv_def vote_sends_def)
  qed
  show "quiet env t (rae_adjust cm env i t)"
    unfolding rae_adjust_def Let_def case_prod_beta
    by (intro quiet_intros cm params timer) simp_all
qed

lemma quiet_rae_with [quiet_intros]:
  assumes "quiet env s t" and "\<And>n u v. quiet env u v \<Longrightarrow> quiet env u (cm n v)"
  shows "quiet env s (snd (rae_with cm env i t))"
  unfolding rae_with_def Let_def case_prod_beta by (intro quiet_intros assms) simp_all

lemma quiet_fold: "quiet env s t \<Longrightarrow> (\<And>i u. quiet env s u \<Longrightarrow> quiet env s (f i u)) \<Longrightarrow> quiet env s (fold f is t)"
  by (induction "is" arbitrary: t) auto

lemma quiet_for_peers [quiet_intros]:
  "quiet env s t \<Longrightarrow> (\<And>i u. quiet env s u \<Longrightarrow> quiet env s (f i u)) \<Longrightarrow> quiet env s (for_peers f t)"
  unfolding for_peers_def by (rule quiet_fold)

lemma quiet_wake_commit [quiet_intros]: "quiet env s t \<Longrightarrow> quiet env s (wake_commit t)"
  unfolding wake_commit_def by (intro quiet_intros) simp_all

lemma quiet_commit_with [quiet_intros]:
  assumes "quiet env s t" and rae: "\<And>i u v. quiet env u v \<Longrightarrow> quiet env u (snd (rae i v))"
  shows "quiet env s (commit_with rae n t)"
proof -
  have peer: "quiet env s (commit_peer rae n i u)" if "quiet env s u" for i u
    unfolding commit_peer_def Let_def case_prod_beta by (intro quiet_intros rae that) simp_all
  show ?thesis
    unfolding commit_with_def Let_def by (intro quiet_intros assms peer)
qed

lemma quiet_rae_level: "quiet env s t \<Longrightarrow> quiet env s (snd (rae_level n env i t))"
  by (induction n arbitrary: i s t) (auto intro!: quiet_intros)

lemma quiet_request_append_entries_to [quiet_intros]:
  "quiet env s t \<Longrightarrow> quiet env s (snd (request_append_entries_to env i t))"
  unfolding request_append_entries_to_def by (rule quiet_rae_level)

lemma quiet_commit [quiet_intros]: "quiet env s t \<Longrightarrow> quiet env s (commit env n t)"
  unfolding commit_def by (intro quiet_intros)

lemma quiet_request_append_entries [quiet_intros]:
  "quiet env s t \<Longrightarrow> quiet env s (request_append_entries env t)"
  unfolding request_append_entries_def by (intro quiet_intros)

subsection \<open>The recursion is two levels deep\<close>

lemma fold_cong_inv:
  "P s \<Longrightarrow> (\<And>x u. P u \<Longrightarrow> f x u = g x u \<and> P (f x u)) \<Longrightarrow> fold f xs s = fold g xs s"
proof (induction xs arbitrary: s)
  case (Cons x xs)
  then have "fold f xs (f x s) = fold g xs (f x s)" by blast
  with Cons.prems show ?case by simp
qed simp

lemma chk_idle_quiet: "quiet env s t \<Longrightarrow> chk_idle env s \<Longrightarrow> chk_idle env t"
  by (simp add: quiet_def chk_idle_def)

lemma rae_adjust_cong:
  assumes "t_first_event_fired (sv_chk_timer s)" and "\<And>n u. chk_idle env u \<Longrightarrow> c n u = c' n u"
  shows "rae_adjust c env i s = rae_adjust c' env i s"
proof -
  let ?r = "timeout_and_reset (ev_now env) (sv_chk_timer s)"
  have "chk_idle env u" if "fst ?r" and "sv_chk_timer u = snd ?r" for u
    using timeout_and_reset_again [of "ev_now env" "sv_chk_timer s" "snd ?r"] assms(1) that
    by (simp add: chk_idle_def prod_eq_iff)
  then show ?thesis
    using assms(2) by (simp add: rae_adjust_def Let_def case_prod_beta call_cb_def emit_def)
qed

lemma rae_adjust_idle: "chk_idle env s \<Longrightarrow> rae_adjust c env i s = rae_adjust c' env i s"
  by (simp add: rae_adjust_def chk_idle_def Let_def)

lemma call_cb_chk [simp]: "sv_chk_timer (snd (call_cb env ty i s)) = sv_chk_timer s"
  by (simp add: call_cb_def emit_def)

lemma rae_with_idle:
  assumes "chk_idle env s"
  shows "rae_with c env i s = rae_with c' env i s"
proof -
  have "chk_idle env (snd (call_cb env RequestAppendEntries i s))"
    using assms by (simp add: chk_idle_def)
  from rae_adjust_idle [OF this, of c i c'] show ?thesis
    by (simp add: rae_with_def Let_def case_prod_beta)
qed

lemma rae_with_cong:
  assumes "t_first_event_fired (sv_chk_timer s)" and "\<And>n u. chk_idle env u \<Longrightarrow> c n u = c' n u"
  shows "rae_with c env i s = rae_with c' env i s"
proof -
  have "rae_adjust c env i (snd (call_cb env RequestAppendEntries i s)) =
      rae_adjust c' env i (snd (call_cb env RequestAppendEntries i s))"
    using assms by (intro rae_adjust_cong) simp_all
  then show ?thesis
    by (simp add: rae_with_def Let_def case_prod_beta)
qed

lemma commit_peer_eq:
  "r i u = r' i u \<Longrightarrow> commit_peer r n i u = commit_peer r' n i u"
  by (simp add: commit_peer_def cong: option.case_cong if_cong)

lemma commit_with_cong:
  assumes "P s" and "\<And>i u. P u \<Longrightarrow> r i u = r' i u"
    and "\<And>u v. quiet env u v \<Longrightarrow> P u \<Longrightarrow> P v"
    and rae: "\<And>i u v. quiet env u v \<Longrightarrow> quiet env u (snd (r i v))"
  shows "commit_with r n s = commit_with r' n s"
proof -
  have "quiet env u (commit_peer r n i u)" for i u
    unfolding commit_peer_def Let_def case_prod_beta by (intro quiet_intros rae) simp_all
  then have step: "P u \<Longrightarrow> commit_peer r n i u = commit_peer r' n i u \<and> P (commit_peer r n i u)" for i u
    using assms(2,3) commit_peer_eq by metis
  let ?s = "s\<lparr>sv_quick_commit_index := n, sv_lagging_sm_target_index := n\<rparr>"
  have "P ?s"
    using assms(3) [OF quiet_fields(5) [OF quiet_refl] assms(1)] .
  then have "for_peers (commit_peer r n) ?s = for_peers (commit_peer r' n) ?s"
    unfolding for_peers_def using step by (intro fold_cong_inv [where P = P]) blast+
  then show ?thesis
    by (simp add: commit_with_def Let_def)
qed

lemma rae_level_idle: "chk_idle env s \<Longrightarrow> rae_level n env i s = rae_level 0 env i s"
  by (cases n) (simp_all add: rae_with_idle [of env s])

lemma rae_level_Suc:
  assumes "t_first_event_fired (sv_chk_timer s)"
  shows "rae_level (Suc n) env i s = request_append_entries_to env i s"
proof -
  have "commit_with (rae_level n env) k u = commit_with (rae_level 0 env) k u" if "chk_idle env u" for k u
    using that rae_level_idle
    by (intro commit_with_cong [where P = "chk_idle env" and env = env])
      (auto intro: chk_idle_quiet quiet_rae_level)
  then have "rae_with (commit_with (rae_level n env)) env i s = rae_with (commit_with (rae_level 0 env)) env i s"
    by (intro rae_with_cong assms)
  then show ?thesis
    by (simp add: request_append_entries_to_def)
qed

text \<open>
  C9. The mutual recursion of \<^verbatim>\<open>request_append_entries\<close> and \<^verbatim>\<open>commit\<close> ends after one inner round. However
  deep the two are allowed to call each other, sending to a peer and committing give what they give
  with a single inner round, because the inner calls find the adjustment timer that the outer call has
  just reset. The timer's first event is spent from its construction on, as in the code.
\<close>

theorem rae_level_enough:
  assumes "t_first_event_fired (sv_chk_timer s)"
  shows "rae_level (Suc n) env i s = request_append_entries_to env i s \<and>
    commit_with (rae_level (Suc n) env) k s = commit env k s"
proof
  show "rae_level (Suc n) env i s = request_append_entries_to env i s"
    using assms by (rule rae_level_Suc)
  show "commit_with (rae_level (Suc n) env) k s = commit env k s"
    unfolding commit_def
  proof (rule commit_with_cong [where P = "\<lambda>u. t_first_event_fired (sv_chk_timer u)" and env = env])
    show "quiet env u v \<Longrightarrow> t_first_event_fired (sv_chk_timer u) \<Longrightarrow> t_first_event_fired (sv_chk_timer v)" for u v
      by (simp add: quiet_def)
  qed (use assms rae_level_Suc quiet_rae_level in blast)+
qed

theorem rae_level_enough_witness:
  "rae_level 7 (sample_env 5) 2 (sample_server 1 [1, 2]) = request_append_entries_to (sample_env 5) 2 (sample_server 1 [1, 2])"
proof -
  have "t_first_event_fired (sv_chk_timer (sample_server 1 [1, 2]))"
    by (simp add: sample_server_def new_server_def apply_and_log_current_params_def Let_def new_timer_def)
  from rae_level_enough [OF this, of 6 "sample_env 5" 2] show ?thesis
    by (simp del: rae_level.simps)
qed

subsection \<open>The commit index is the quorum's\<close>

lemma sorted_desc_count:
  fixes ys :: "nat list"
  assumes "sorted_wrt (\<ge>) ys" and "k < length ys"
  shows "k < length (filter (\<lambda>m. ys ! k \<le> m) ys)"
    and "ys ! k < d \<Longrightarrow> length (filter (\<lambda>m. d \<le> m) ys) \<le> k"
proof -
  have le: "ys ! j \<le> ys ! i" if "i \<le> j" "j < length ys" for i j
    using that sorted_wrt_nth_less [OF assms(1), of i j] by (cases "i = j") auto
  have "{..k} \<subseteq> {i. i < length ys \<and> ys ! k \<le> ys ! i}"
    using assms(2) le by auto
  from card_mono [OF _ this] show "k < length (filter (\<lambda>m. ys ! k \<le> m) ys)"
    by (simp add: length_filter_conv_card)
  assume "ys ! k < d"
  then have "{i. i < length ys \<and> d \<le> ys ! i} \<subseteq> {..<k}"
    using le [of k] by (force simp: not_less [symmetric])
  from card_mono [OF _ this] show "length (filter (\<lambda>m. d \<le> m) ys) \<le> k"
    by (simp add: length_filter_conv_card)
qed

lemma sorted_wrt_rev_sort: "sorted_wrt (\<ge>) (rev (sort (xs :: nat list)))"
  by (simp add: sorted_wrt_rev)

lemma length_filter_rev_sort: "length (filter P (rev (sort xs))) = length (filter P xs)"
  by (simp add: rev_filter [symmetric] filter_sort)

lemma quorum_fold:
  fixes n :: int
  assumes "0 \<le> n"
  shows "0 \<le> fold (\<lambda>kp n. if n \<noteq> 0 \<and> P kp then n - 1 else n) kps n \<and>
    fold (\<lambda>kp n. if n \<noteq> 0 \<and> P kp then n - 1 else n) kps n \<le> n"
  using assms
proof (induction kps arbitrary: n)
  case (Cons kp kps)
  show ?case
  proof (cases "n \<noteq> 0 \<and> P kp")
    case True
    then show ?thesis using Cons.IH [of "n - 1"] Cons.prems by simp
  next
    case False
    then have "(if n \<noteq> 0 \<and> P kp then n - 1 else n) = n" by simp
    then show ?thesis using Cons.IH [of n] Cons.prems by (simp only: fold_Cons o_apply)
  qed
qed simp

lemma length_matched_indexes: "int (length (matched_indexes env s)) = int (length (regular_peers s)) + 1"
  by (simp add: matched_indexes_def)

lemma quorum_for_commit_bounds:
  assumes "\<not> sv_im_learner s"
  shows "0 \<le> get_quorum_for_commit s \<and> get_quorum_for_commit s < int (length (regular_peers s)) + 1"
proof -
  let ?n = "get_num_voting_members s"
  have "0 \<le> ?n" and n: "?n = int (length (regular_peers s)) + 1"
    using assms by (simp_all add: get_num_voting_members_def)
  define m where "m = (if p_exclude_snp_receiver_from_quorum (sv_params s)
               then fold (\<lambda>kp n. if n \<noteq> 0 \<and> pe_snp_sync_ctx (snd kp) \<noteq> None then n - 1 else n) (sv_peers s) ?n
               else ?n)"
  have "0 \<le> m \<and> m \<le> ?n"
    unfolding m_def
    using quorum_fold [of ?n "\<lambda>kp. pe_snp_sync_ctx (snd kp) \<noteq> None" "sv_peers s"] \<open>0 \<le> ?n\<close> by simp
  moreover have "get_quorum_for_commit s =
      (let q = p_custom_commit_quorum_size (sv_params s) in if q \<le> 0 \<or> q > m then m div 2 else q - 1)"
    unfolding get_quorum_for_commit_def m_def Let_def ..
  ultimately show ?thesis
    using n by (auto simp: Let_def)
qed

lemma commit_quorum_idx_bound:
  assumes "\<not> sv_im_learner s"
  shows "commit_quorum_idx env s < length (matched_indexes env s)"
proof -
  have "get_not_responding_peers_count env e r s \<le> length (regular_peers s)" for e r
    by (simp add: get_not_responding_peers_count_def)
  then show ?thesis
    using quorum_for_commit_bounds [OF assms] assms length_matched_indexes [of env s]
    by (auto simp: commit_quorum_idx_def Let_def get_num_voting_members_def)
qed

text \<open>
  C3. The index a leader expects to commit is the right one. Unless the state machine adjusts it, it is
  the largest index that the leader and enough voting peers have matched: more than
  \<^verbatim>\<open>quorum_idx\<close> of the voting members (the leader included) hold it, and no larger index is held by
  that many. The vector access \<^verbatim>\<open>matched_indexes[quorum_idx]\<close> is in bounds, in full consensus mode, with
  custom quorum sizes and with snapshot receivers excluded alike. With default sizes the holders are
  a strict majority.
\<close>

theorem expected_commit_index:
  assumes "\<not> sv_im_learner s" and "\<And>m c e. ev_adjust_commit_index env m c e = e"
  shows "commit_quorum_idx env s < length (matched_indexes env s) \<and>
    commit_quorum_idx env s < length (filter (\<lambda>m. get_expected_committed_log_idx env s \<le> m) (matched_indexes env s)) \<and>
    (\<forall>d > get_expected_committed_log_idx env s.
       length (filter (\<lambda>m. d \<le> m) (matched_indexes env s)) \<le> commit_quorum_idx env s) \<and>
    (\<not> p_use_full_consensus_among_healthy_members (sv_params s) \<and>
     \<not> p_exclude_snp_receiver_from_quorum (sv_params s) \<and> p_custom_commit_quorum_size (sv_params s) \<le> 0 \<longrightarrow>
       get_num_voting_members s <
         2 * int (length (filter (\<lambda>m. get_expected_committed_log_idx env s \<le> m) (matched_indexes env s))))"
proof -
  let ?ys = "rev (sort (matched_indexes env s))" and ?k = "commit_quorum_idx env s"
  have k: "?k < length (matched_indexes env s)"
    using assms(1) by (rule commit_quorum_idx_bound)
  have e: "get_expected_committed_log_idx env s = ?ys ! ?k"
    using assms(2) by (simp add: get_expected_committed_log_idx_def Let_def)
  note count = sorted_desc_count [OF sorted_wrt_rev_sort, of ?k "matched_indexes env s"]
  have lt: "?k < length (filter (\<lambda>m. ?ys ! ?k \<le> m) (matched_indexes env s))"
    using count(1) k by (simp add: length_filter_rev_sort del: rev_filter)
  have "int ?k = get_num_voting_members s div 2"
    if "\<not> p_use_full_consensus_among_healthy_members (sv_params s)"
      "\<not> p_exclude_snp_receiver_from_quorum (sv_params s)" "p_custom_commit_quorum_size (sv_params s) \<le> 0"
    using that by (simp add: commit_quorum_idx_def get_quorum_for_commit_def get_num_voting_members_def Let_def)
  then show ?thesis
    using count(2) k lt by (auto simp: e length_filter_rev_sort simp del: rev_filter)
qed

theorem expected_commit_index_witness:
  "let s = upd_peer 2 (\<lambda>p. p\<lparr>pe_matched_idx := 4\<rparr>) ((sample_server 1 [1, 2, 3])\<lparr>sv_precommit_index := 6\<rparr>)
   in get_num_voting_members s <
        2 * int (length (filter (\<lambda>m. get_expected_committed_log_idx (sample_env 0) s \<le> m) (matched_indexes (sample_env 0) s)))"
proof -
  let ?s = "upd_peer 2 (\<lambda>p. p\<lparr>pe_matched_idx := 4\<rparr>) ((sample_server 1 [1, 2, 3])\<lparr>sv_precommit_index := 6\<rparr>)"
  have "\<not> sv_im_learner ?s" "sv_params ?s = fix_timeouts False default_raft_params"
    by (simp_all add: upd_peer_def sample_server_def new_server_def apply_and_log_current_params_def Let_def
        sample_config_def new_cluster_config_def new_srv_config_def default_raft_params_def)
  moreover have "ev_adjust_commit_index (sample_env 0) m c e = e" for m c e
    by (simp add: sample_env_def)
  ultimately show ?thesis
    using expected_commit_index [of ?s "sample_env 0"]
    by (simp add: Let_def fix_timeouts_def default_raft_params_def)
qed

end
