(* ===== verification/Raft_Vote.thy ===== *)
theory Raft_Vote
  imports Raft_Msg_Codec Raft_Replicate
begin

text \<open>
  Leader election and leadership: pre-vote, vote, becoming and yielding leader, the election timer
  (\<^verbatim>\<open>handle_vote.cc\<close>, \<^verbatim>\<open>raft_server.cc\<close>, \<^verbatim>\<open>handle_timeout.cc\<close>), and the priorities that steer it
  (\<^verbatim>\<open>handle_priority.cc\<close>).
\<close>

subsection \<open>Yielding leadership\<close>

definition last_resp_ms :: "renv \<Rightarrow> peer \<Rightarrow> nat" where
  "last_resp_ms env p = get_us (ev_now env) (pe_last_resp_timer p) div 1000"

text \<open>The peer with the highest positive priority among those that answered within a heartbeat.\<close>

definition best_successor :: "renv \<Rightarrow> server \<Rightarrow> int" where
  "best_successor env s =
     snd (fold (\<lambda>(k, p) (max_priority, cand).
            if k \<noteq> sv_id s \<and> last_resp_ms env p \<le> i32_to_u64 (p_heart_beat_interval (sv_params s)) \<and>
               sc_priority (pe_config p) > max_priority
            then (sc_priority (pe_config p), k) else (max_priority, cand))
          (sv_peers s) (0, -1))"

definition yield_leadership :: "renv \<Rightarrow> bool \<Rightarrow> int \<Rightarrow> server \<Rightarrow> server" where
  "yield_leadership env immediate_yield successor_id s =
     (if sv_write_paused s \<or> sv_id s \<noteq> sv_leader s \<or> get_num_voting_members s \<le> 1 then s
      else
        let (ok, s) = call_cb env ResignationFromLeader successor_id s
        in if \<not> ok then s
           else if immediate_yield
           then (become_follower env (s\<lparr>sv_leader := -1\<rparr>))\<lparr>sv_hb_alive := False\<rparr>
           else
             let cand = (if successor_id \<ge> 0 \<and> find_peer successor_id s \<noteq> None then successor_id
                         else best_successor env s);
                 s = s\<lparr>sv_write_paused := True\<rparr>;
                 s = (if cand > -1
                      then let s = s\<lparr>sv_next_leader_candidate := cand\<rparr>
                           in if find_peer cand s \<noteq> None then snd (request_append_entries_to env cand s) else s
                      else s)
             in s\<lparr>sv_reelection_timer := timer_reset (ev_now env) 0
                    (set_duration_ms (i32_to_u64 (p_election_timeout_upper_bound (sv_params s))) (sv_reelection_timer s))\<rparr>)"

subsection \<open>Becoming leader\<close>

definition take_over_peer :: "renv \<Rightarrow> server \<Rightarrow> int \<Rightarrow> server \<Rightarrow> server" where
  "take_over_peer env s0 i s =
     (let s = upd_peer i (\<lambda>p. reset_stream ((clear_snapshot_sync_ctx p)\<lparr>pe_next_log_idx := rl_next (sv_log s0)\<rparr>)) s;
          s = enable_hb_for_peer i s
      in upd_peer i (\<lambda>p. let p = p\<lparr>pe_lost_by_leader := False, pe_snapshot_sync_is_needed := False\<rparr>
                         in if p_use_full_consensus_among_healthy_members (sv_params s0)
                            then reset_resp_timer (ev_now env) p else p) s)"

text \<open>The last configuration in the log that is not committed yet, or the active one.\<close>

definition last_config_in_log :: "server \<Rightarrow> cluster_config" where
  "last_config_in_log s =
     fold (\<lambda>ii c. case rl_get ii (sv_log s) of
                    Some e \<Rightarrow> (case re_body e of Conf c' \<Rightarrow> c' | _ \<Rightarrow> c)
                  | None \<Rightarrow> c)
       [sv_sm_commit_index s + 1 ..< rl_next (sv_log s)] (sv_config s)"

definition conf_entry :: "renv \<Rightarrow> server \<Rightarrow> cluster_config \<Rightarrow> rentry" where
  "conf_entry env s c = \<lparr>re_term = sv_term s, re_body = Conf c, re_time = ev_now env\<rparr>"

definition take_leadership :: "renv \<Rightarrow> server \<Rightarrow> server" where
  "take_leadership env s =
     (let s = s\<lparr>sv_role := leader, sv_leader := sv_id s, sv_self_mark_down := False,
                sv_excluded_from_the_quorum := False, sv_srv_to_join := None,
                sv_leadership_transfer_timer := timer_reset (ev_now env) 0
                  (set_duration_ms (i32_to_u64 (p_leadership_transfer_min_wait_time (sv_params s)))
                     (sv_leadership_transfer_timer s)),
                sv_precommit_index := last_idx s\<rparr>;
          s = for_peers (take_over_peer env s) s;
          entry = conf_entry env s (set_log_idx (rl_next (sv_log s)) (last_config_in_log s));
          (idx, s) = store_log_entry env entry 0 s
      in s\<lparr>sv_index_at_becoming_leader := idx, sv_config_changing := True\<rparr>)"

definition become_leader :: "renv \<Rightarrow> server \<Rightarrow> server" where
  "become_leader env s =
     (let s = take_leadership env (stop_election_timer s);
          s = notify_cb BecomeLeader (-1) s;
          s = s\<lparr>sv_write_paused := False, sv_next_leader_candidate := -1, sv_initialized := True,
                sv_pre_vote := (sv_pre_vote s)\<lparr>pv_quorum_reject_count := 0, pv_no_response_failure_count := 0\<rparr>,
                sv_data_fresh := True\<rparr>;
          s = request_append_entries env s
      in if sv_my_priority s = 0 \<and> get_num_voting_members s > 1 then yield_leadership env False (-1) s else s)"

subsection \<open>Requesting votes\<close>

definition check_cond_for_zp_election :: "renv \<Rightarrow> server \<Rightarrow> bool" where
  "check_cond_for_zp_election env s \<longleftrightarrow>
     p_allow_temporary_zero_priority_leader (sv_params s) \<and> sv_target_priority s = 1 \<and> sv_my_priority s = 0 \<and>
     get_ms (ev_now env) (sv_priority_change_timer s) > i32_to_u64 (p_heart_beat_interval (sv_params s) * 20)"

definition vote_req :: "renv \<Rightarrow> msg_type \<Rightarrow> int \<Rightarrow> server \<Rightarrow> req_msg" where
  "vote_req env type dst s =
     new_req_msg (sv_term s) type (sv_id s) dst (term_for_log env (last_idx s) s) (last_idx s)
       (sv_quick_commit_index s)"

definition force_vote_entry :: rentry where
  "force_vote_entry = \<lparr>re_term = 0, re_body = Force_Vote, re_time = 0\<rparr>"

definition send_vote_req :: "renv \<Rightarrow> bool \<Rightarrow> int \<Rightarrow> server \<Rightarrow> server" where
  "send_vote_req env force_vote i s =
     (case find_peer i s of
        None \<Rightarrow> s
      | Some p \<Rightarrow>
          if \<not> is_regular_member s p then s
          else
            let req = (vote_req env request_vote_request (pe_id p) s)
                        \<lparr>rq_log_entries := (if force_vote then [force_vote_entry] else [])\<rparr>;
                (got, s) = at_peer i False make_busy s
            in if got then send_to i req s else s)"

definition request_vote :: "renv \<Rightarrow> bool \<Rightarrow> server \<Rightarrow> server" where
  "request_vote env force_vote s =
     (let s = save_state (set_sstate (\<lambda>st. st\<lparr>ss_voted_for := sv_id s\<rparr>) s);
          s = s\<lparr>sv_votes_granted := sv_votes_granted s + 1, sv_votes_responded := sv_votes_responded s + 1\<rparr>
      in if sv_votes_granted s > get_quorum_for_election s
         then become_leader env (s\<lparr>sv_election_completed := True\<rparr>)
         else for_peers (send_vote_req env force_vote) s)"

text \<open>The end of \<^verbatim>\<open>initiate_vote\<close>.\<close>

definition forget_leader :: "server \<Rightarrow> server" where
  "forget_leader s = (if sv_role s \<noteq> leader then s\<lparr>sv_hb_alive := False, sv_leader := -1\<rparr> else s)"

text \<open>The grace period: whether the vote is held back, and the timer that decides it.\<close>

definition vote_grace :: "renv \<Rightarrow> bool \<Rightarrow> server \<Rightarrow> bool \<times> server" where
  "vote_grace env force_vote s =
     (let grace_period = p_grace_period_of_lagging_state_machine (sv_params s); cur_term = sv_term s
      in if \<not> force_vote \<and> grace_period \<noteq> 0 \<and> sv_sm_commit_index s < sv_lagging_sm_target_index s
         then
           let s = (if sv_vote_init_timer_term s \<noteq> cur_term
                    then s\<lparr>sv_vote_init_timer := timer_reset (ev_now env) 0
                             (set_duration_ms (i32_to_u64 grace_period) (sv_vote_init_timer s)),
                           sv_vote_init_timer_term := cur_term\<rparr>
                    else s)
           in (\<not> fst (timeout (ev_now env) (sv_vote_init_timer s)), s)
         else (False, s))"

text \<open>A term callback that does not raise the term fails an assertion, which ends the process.\<close>

definition initiate_vote :: "renv \<Rightarrow> bool \<Rightarrow> server \<Rightarrow> server" where
  "initiate_vote env force_vote s =
     (let (held, s) = vote_grace env force_vote s
      in if held then s
         else if sv_my_priority s \<ge> sv_target_priority s \<or> force_vote \<or> check_cond_for_zp_election env s \<or>
                 get_quorum_for_election s = 0 \<and> sv_my_priority s > 0
         then
           (case inc_term (sv_state s) of
              (Inl _, _) \<Rightarrow> s\<lparr>sv_exited := True\<rparr>
            | (Inr _, st) \<Rightarrow>
                forget_leader (request_vote env force_vote
                  (s\<lparr>sv_state := st\<lparr>ss_voted_for := -1\<rparr>, sv_role := candidate,
                     sv_index_at_becoming_leader := 0, sv_votes_granted := 0,
                     sv_votes_responded := 0, sv_election_completed := False\<rparr>)))
         else forget_leader s)"

subsection \<open>Answering vote requests\<close>

definition log_okay_for_vote :: "req_msg \<Rightarrow> server \<Rightarrow> bool" where
  "log_okay_for_vote req s \<longleftrightarrow>
     rq_last_log_term req > log_last_term (sv_log s) \<or>
     rq_last_log_term req = log_last_term (sv_log s) \<and> last_idx s \<le> rq_last_log_idx req"

definition can_vote :: "req_msg \<Rightarrow> server \<Rightarrow> bool" where
  "can_vote req s \<longleftrightarrow>
     rq_term req = sv_term s \<and> log_okay_for_vote req s \<and>
     (ss_voted_for (sv_state s) = rq_src req \<or> ss_voted_for (sv_state s) = -1)"

definition priority_denied :: "req_msg \<Rightarrow> server \<Rightarrow> bool" where
  "priority_denied req s \<longleftrightarrow>
     \<not> (rq_log_entries req \<noteq> [] \<or> ss_catching_up (sv_state s)) \<and>
     (\<exists>srv \<in> set (cc_servers (sv_config s)).
        sc_id srv = rq_src req \<and> sc_priority srv \<noteq> 0 \<and> sc_priority srv < sv_target_priority s)"

definition handle_vote_req :: "req_msg \<Rightarrow> server \<Rightarrow> resp_msg \<times> server" where
  "handle_vote_req req s =
     (let resp = new_resp_msg (sv_term s) request_vote_response (sv_id s) (rq_src req) 0
      in if can_vote req s
         then if priority_denied req s then (resp, s)
              else (resp_accept (rl_next (sv_log s)) resp,
                    save_state (set_sstate (\<lambda>st. st\<lparr>ss_voted_for := rq_src req\<rparr>) s))
         else (resp, s))"

definition handle_vote_resp :: "renv \<Rightarrow> resp_msg \<Rightarrow> server \<Rightarrow> server" where
  "handle_vote_resp env resp s =
     (if sv_election_completed s \<or> rs_term resp \<noteq> sv_term s then s
      else
        let s = s\<lparr>sv_votes_responded := sv_votes_responded s + 1,
                  sv_votes_granted := sv_votes_granted s + (if rs_accepted resp then 1 else 0)\<rparr>;
            s = (if sv_votes_responded s \<ge> get_num_voting_members s then s\<lparr>sv_election_completed := True\<rparr> else s)
        in if sv_votes_granted s \<ge> get_quorum_for_election s + 1
           then become_leader env (s\<lparr>sv_election_completed := True\<rparr>) else s)"

subsection \<open>Pre-vote\<close>

definition prevote_reconnect :: "renv \<Rightarrow> int \<Rightarrow> server \<Rightarrow> server" where
  "prevote_reconnect env i s =
     (case find_peer i s of
        None \<Rightarrow> s
      | Some p \<Rightarrow>
          if is_regular_member s p \<and> get_server (pe_id p) (sv_config s) \<noteq> None
          then
            let recreate = (sv_hb_alive s \<or> need_to_reconnect (ev_now env) p \<or>
                            to_i32 (int (get_us (ev_now env) (pe_last_active_timer p) div 1000)) >
                              p_heart_beat_interval (sv_params s) * l_reconnect_limit (ev_limits env))
            in if recreate
               then snd (at_peer i False (recreate_rpc (ev_now env) (ev_rpc_factory env)
                           (ev_backoff_disabled env) (ev_new_rpc env)) s)
               else s
          else s)"

definition upd_pre_vote :: "(pre_vote_status \<Rightarrow> pre_vote_status) \<Rightarrow> server \<Rightarrow> server" where
  "upd_pre_vote f s = s\<lparr>sv_pre_vote := f (sv_pre_vote s)\<rparr>"

definition prevote_count_failure :: "server \<Rightarrow> server" where
  "prevote_count_failure s =
     (let v = sv_pre_vote s
      in if pv_live v + pv_dead v > 0
         then if pv_live v + pv_dead v < get_quorum_for_election s + 1
              then upd_pre_vote (\<lambda>v. v\<lparr>pv_no_response_failure_count := pv_no_response_failure_count v + 1\<rparr>) s
              else upd_pre_vote (\<lambda>v. v\<lparr>pv_no_response_failure_count := 0\<rparr>) s
         else s)"

definition prevote_adjust :: "renv \<Rightarrow> server \<Rightarrow> server" where
  "prevote_adjust env s =
     (if auto_adjust s \<and> get_num_voting_members s = 2 \<and>
         pv_no_response_failure_count (sv_pre_vote s) > l_vote_limit (ev_limits env)
      then let (ok, s) = call_cb env AutoAdjustQuorum (-1) s
           in if ok then s\<lparr>sv_params := adjust_quorum (sv_params s)\<rparr> else s
      else s)"

definition send_prevote_req :: "renv \<Rightarrow> int \<Rightarrow> server \<Rightarrow> server" where
  "send_prevote_req env i s =
     (case find_peer i s of
        None \<Rightarrow> s
      | Some p \<Rightarrow>
          if \<not> is_regular_member s p then s
          else
            let req = vote_req env pre_vote_request (pe_id p) s;
                (got, s) = at_peer i False make_busy s
            in if got then send_to i req s
               else upd_pre_vote (\<lambda>v. v\<lparr>pv_connection_busy := pv_connection_busy v + 1\<rparr>) s)"

definition prevote_count_busy :: "renv \<Rightarrow> int \<Rightarrow> server \<Rightarrow> server" where
  "prevote_count_busy env num_voting_members s =
     (if pv_connection_busy (sv_pre_vote s) + (get_quorum_for_election s + 1) > num_voting_members
      then
        let s = upd_pre_vote (\<lambda>v. v\<lparr>pv_busy_connection_failure_count := pv_busy_connection_failure_count v + 1\<rparr>) s;
            limit = l_busy_connection_limit (ev_limits env)
        in if limit \<noteq> 0 \<and> pv_busy_connection_failure_count (sv_pre_vote s) > limit
           then emit (System_Exit (-22)) s else s
      else s)"

definition request_prevote :: "renv \<Rightarrow> server \<Rightarrow> server" where
  "request_prevote env s =
     (let s = for_peers (prevote_reconnect env) s;
          s = prevote_count_failure s;
          num_voting_members = get_num_voting_members s;
          s = prevote_adjust env s;
          s = s\<lparr>sv_hb_alive := False, sv_leader := -1, sv_role := candidate, sv_index_at_becoming_leader := 0\<rparr>;
          s = upd_pre_vote (\<lambda>v. let v = pre_vote_reset (sv_term s) v in v\<lparr>pv_dead := pv_dead v + 1\<rparr>) s
      in if sv_my_priority s < sv_target_priority s \<and> \<not> check_cond_for_zp_election env s
         then restart_election_timer env s
         else prevote_count_busy env num_voting_members (for_peers (send_prevote_req env) s))"

definition ulong_max :: nat where
  "ulong_max = 2 ^ 64 - 1"

definition handle_prevote_req :: "req_msg \<Rightarrow> server \<Rightarrow> resp_msg \<times> server" where
  "handle_prevote_req req s =
     (let next_idx_for_resp = (if find_peer (rq_src req) s = None then ulong_max else 0);
          resp = new_resp_msg (rq_term req) pre_vote_response (sv_id s) (rq_src req) next_idx_for_resp
      in (if \<not> sv_hb_alive s \<or> ss_catching_up (sv_state s)
          then resp_accept (rl_next (sv_log s)) resp else resp, s))"

definition send_reconnect_request :: "server \<Rightarrow> server" where
  "send_reconnect_request s =
     (if sv_leader s = sv_id s then s
      else case find_peer (sv_leader s) s of
             Some p \<Rightarrow>
               let req = new_req_msg (sv_term s) reconnect_request (sv_id s) (sv_leader s) 0 0 0;
                   (got, s) = at_peer (sv_leader s) False make_busy s
               in if got then send_to (sv_leader s) req s else s
           | None \<Rightarrow> emit (System_Exit (-22)) s)"

definition handle_reconnect_req :: "renv \<Rightarrow> req_msg \<Rightarrow> server \<Rightarrow> resp_msg \<times> server" where
  "handle_reconnect_req env req s =
     (let resp = new_resp_msg (sv_term s) reconnect_response (sv_id s) (rq_src req) 0
      in if sv_role s \<noteq> leader \<or> find_peer (rq_src req) s = None then (resp, s)
         else (resp_accept (rl_next (sv_log s)) resp,
               upd_peer (rq_src req) (schedule_reconnection (ev_now env)) s))"

definition count_prevote :: "resp_msg \<Rightarrow> pre_vote_status \<Rightarrow> pre_vote_status" where
  "count_prevote resp v =
     (if rs_accepted resp then v\<lparr>pv_dead := pv_dead v + 1\<rparr>
      else if rs_next_idx resp \<noteq> ulong_max then v\<lparr>pv_live := pv_live v + 1\<rparr>
      else v\<lparr>pv_abandoned := pv_abandoned v + 1\<rparr>)"

definition handle_prevote_resp :: "renv \<Rightarrow> resp_msg \<Rightarrow> server \<Rightarrow> server" where
  "handle_prevote_resp env resp s =
     (if rs_term resp \<noteq> pv_term (sv_pre_vote s) then s
      else
        let s = upd_pre_vote (count_prevote resp) s;
            election_quorum_size = get_quorum_for_election s + 1;
            s = (if pv_dead (sv_pre_vote s) \<ge> election_quorum_size \<and> \<not> pv_done (sv_pre_vote s)
                 then let s = initiate_vote env False (upd_pre_vote (\<lambda>v. v\<lparr>pv_done := True\<rparr>) s)
                      in if sv_role s \<noteq> leader then restart_election_timer env s else s
                 else s);
            s = (if pv_live (sv_pre_vote s) \<ge> election_quorum_size
                 then let s = upd_pre_vote (\<lambda>v. v\<lparr>pv_quorum_reject_count := pv_quorum_reject_count v + 1\<rparr>) s
                      in if pv_quorum_reject_count (sv_pre_vote s) \<ge> l_pre_vote_rejection_limit (ev_limits env)
                         then send_reconnect_request s else s
                 else s)
        in if pv_abandoned (sv_pre_vote s) \<ge> election_quorum_size
           then (notify_cb RemovedFromCluster (-1) s)\<lparr>sv_steps_to_down := 2\<rparr> else s)"

subsection \<open>The election timer\<close>

definition run_election :: "renv \<Rightarrow> server \<Rightarrow> server" where
  "run_election env s =
     (let s = (if \<not> sv_hb_alive s then decay_target_priority env s else s);
          s = (if pv_term (sv_pre_vote s) \<noteq> sv_term s then upd_pre_vote (pre_vote_reset (sv_term s)) s else s)
      in if sv_peers s = [] \<or> pv_done (sv_pre_vote s) \<or> get_quorum_for_election s = 0
         then initiate_vote env False s else request_prevote env s)"

definition handle_election_timeout :: "renv \<Rightarrow> server \<Rightarrow> server" where
  "handle_election_timeout env s =
     (if sv_stopping s then s
      else if sv_steps_to_down s > 0
      then
        let s = s\<lparr>sv_steps_to_down := sv_steps_to_down s - 1\<rparr>
        in if sv_steps_to_down s = 0
           then cancel_schedulers (save_state (set_sstate (\<lambda>st. st\<lparr>ss_election_timer_allowed := False\<rparr>) s))
           else restart_election_timer env s
      else if ss_catching_up (sv_state s) then restart_election_timer env s
      else if sv_out_of_log_range s then s
      else if ss_receiving_snapshot (sv_state s)
      then restart_election_timer env (s\<lparr>sv_et_cnt_receiving_snapshot := sv_et_cnt_receiving_snapshot s + 1\<rparr>)
      else if sv_serving_req s \<or>
              to_i32 (int (get_us (ev_now env) (sv_last_election_timer_reset s) div 1000))
                < p_election_timeout_lower_bound (sv_params s)
      then restart_election_timer env s
      else if sv_role s = leader then s
      else
        let s = (if \<not> sv_im_learner s then run_election env s else s)
        in if sv_role s \<noteq> leader then restart_election_timer env s else s)"

subsection \<open>Expiry and transfer of leadership\<close>

text \<open>The code asserts that the callback returns \<^verbatim>\<open>Ok\<close>; otherwise the process ends there.\<close>

definition mark_lost :: "renv \<Rightarrow> peer \<Rightarrow> server \<Rightarrow> server" where
  "mark_lost env p s =
     (if sv_exited s \<or> pe_lost_by_leader p then s
      else
        let (ok, s) = call_cb env FollowerLost (pe_id p) (upd_peer (pe_id p) (\<lambda>p. p\<lparr>pe_lost_by_leader := True\<rparr>) s)
        in if ok then s else s\<lparr>sv_exited := True\<rparr>)"

definition check_leadership_validity :: "renv \<Rightarrow> server \<Rightarrow> bool \<times> server" where
  "check_leadership_validity env s =
     (if sv_role s \<noteq> leader then (False, s)
      else
        let num_voting_members = get_num_voting_members s;
            leadership_expiry = get_leadership_expiry env s;
            nr_peers = (if leadership_expiry \<ge> 0
                        then int (get_not_responding_peers_count env leadership_expiry 0 s) else 0);
            min_quorum_size = get_quorum_for_commit s + 1
        in if num_voting_members - nr_peers < min_quorum_size
           then
             let s = fold (mark_lost env) (get_not_responding_peers env 0 s) s
             in if sv_exited s then (False, s)
                else if num_voting_members \<le> min_quorum_size then (True, s)
                else (False, yield_leadership env True (-1) s)
           else (True, s))"

definition transfer_blocked :: "renv \<Rightarrow> server \<Rightarrow> peer \<Rightarrow> bool" where
  "transfer_blocked env s p \<longleftrightarrow>
     add64 (pe_matched_idx p) (i32_to_u64 (p_stale_log_gap (sv_params s))) < sv_quick_commit_index s \<or>
     last_resp_ms env p > i32_to_u64 (p_election_timeout_lower_bound (sv_params s))"

definition transfer_target :: "server \<Rightarrow> int \<times> int" where
  "transfer_target s =
     fold (\<lambda>(k, p) (max_priority, succ).
        if sc_priority (pe_config p) > max_priority then (sc_priority (pe_config p), pe_id p)
        else (max_priority, succ)) (sv_peers s) (sv_my_priority s, -1)"

definition check_leadership_transfer :: "renv \<Rightarrow> server \<Rightarrow> server" where
  "check_leadership_transfer env s =
     (if p_leadership_transfer_min_wait_time (sv_params s) = 0 then s
      else if \<not> fst (timeout (ev_now env) (sv_leadership_transfer_timer s)) then s
      else if \<exists>kp \<in> set (sv_peers s). transfer_blocked env s (snd kp) then s
      else
        let (max_priority, successor_id) = transfer_target s
        in if sv_my_priority s \<ge> max_priority \<or> successor_id = -1 then s
           else if \<not> ev_allow_leadership_transfer env then s
           else yield_leadership env False successor_id s)"

definition request_leadership :: "renv \<Rightarrow> server \<Rightarrow> bool \<times> server" where
  "request_leadership env s =
     (if sv_id s = sv_leader s \<or> is_leader s \<or> sv_leader s = -1 \<or> find_peer (sv_leader s) s = None then (False, s)
      else
        let req = (vote_req env custom_notification_request (sv_leader s) s)
                    \<lparr>rq_log_entries := [\<lparr>re_term = 0, re_body = Request_Resignation, re_time = 0\<rparr>]\<rparr>
        in (True, send_to (sv_leader s) req s))"

subsection \<open>Priorities\<close>

text \<open>
  Setting the priority of a server in the active configuration. The entry is shared with the peer of
  that id, if there is one.
\<close>

definition set_srv_priority :: "int \<Rightarrow> int \<Rightarrow> server \<Rightarrow> server" where
  "set_srv_priority srv_id prio s =
     (if get_server srv_id (sv_config s) = None then s
      else (upd_peer srv_id (\<lambda>p. p\<lparr>pe_config := (pe_config p)\<lparr>sc_priority := prio\<rparr>\<rparr>) s)
             \<lparr>sv_config := (sv_config s)\<lparr>cc_servers :=
                map (\<lambda>srv. if sc_id srv = srv_id then srv\<lparr>sc_priority := prio\<rparr> else srv) (cc_servers (sv_config s))\<rparr>\<rparr>)"

definition broadcast_priority_change :: "renv \<Rightarrow> int \<Rightarrow> int \<Rightarrow> server \<Rightarrow> server" where
  "broadcast_priority_change env srv_id new_priority s =
     (let s = (if srv_id = sv_id s then s\<lparr>sv_my_priority := new_priority\<rparr> else s);
          s = set_srv_priority srv_id new_priority s
      in for_peers (\<lambda>i s.
           case find_peer i s of
             None \<Rightarrow> s
           | Some p \<Rightarrow>
               let req = (vote_req env priority_change_request (pe_id p) s)
                           \<lparr>rq_log_entries := [\<lparr>re_term = sv_term s, re_body = Priority_Change srv_id new_priority, re_time = 0\<rparr>]\<rparr>;
                   (got, s) = at_peer i False make_busy s
               in if got then send_to i req s else s) s)"

datatype priority_set_result = SET | BROADCAST | IGNORED

definition set_priority :: "renv \<Rightarrow> int \<Rightarrow> int \<Rightarrow> bool \<Rightarrow> server \<Rightarrow> priority_set_result \<times> server" where
  "set_priority env srv_id new_priority broadcast_when_leader_exists s =
     (if sv_id s \<noteq> sv_leader s
      then if \<not> is_leader_alive s \<or> broadcast_when_leader_exists
           then (BROADCAST, broadcast_priority_change env srv_id new_priority s) else (IGNORED, s)
      else if sv_id s = srv_id \<and> new_priority = 0
      then (BROADCAST, broadcast_priority_change env srv_id new_priority s)
      else
        let cur_config = (case sv_uncommitted_config s of Some c \<Rightarrow> c | None \<Rightarrow> sv_config s);
            cloned = cur_config\<lparr>cc_servers :=
              map (\<lambda>srv. if sc_id srv = srv_id then srv\<lparr>sc_priority := new_priority\<rparr> else srv) (cc_servers cur_config)\<rparr>;
            cloned = set_log_idx (rl_next (sv_log s)) cloned;
            entry = conf_entry env s cloned;
            s = s\<lparr>sv_config_changing := True, sv_uncommitted_config := Some cloned\<rparr>;
            (_, s) = store_log_entry env entry 0 s
        in (SET, request_append_entries env s))"

text \<open>
  The bytes of an entry's buffer. The handler reads the first two integers of any buffer that is long
  enough, and changes the first entry of that id only.
\<close>

fun body_bytes :: "log_body \<Rightarrow> u8 list" where
  "body_bytes (App_Log bs) = bs"
| "body_bytes (Conf c) = enc_cluster c"
| "body_bytes (Snp_Sync r) = enc_sync_req r (drop (buf_pos (sr_data r)) (payload (sr_data r)))"
| "body_bytes Force_Vote = [0]"
| "body_bytes (Out_Of_Log_Range n) = enc_custom out_of_log_range_warning (0 # bytes_le 8 (int n))"
| "body_bytes Leadership_Takeover = enc_custom leadership_takeover []"
| "body_bytes Request_Resignation = enc_custom request_resignation []"
| "body_bytes (Priority_Change i p) = bytes_le 4 i @ bytes_le 4 p"
| "body_bytes (No_Buf _) = []"
| "body_bytes (Other _ bs) = bs"

fun set_first_priority :: "int \<Rightarrow> int \<Rightarrow> srv_config list \<Rightarrow> srv_config list" where
  "set_first_priority i prio [] = []"
| "set_first_priority i prio (srv # srvs) =
     (if sc_id srv = i then srv\<lparr>sc_priority := prio\<rparr> # srvs else srv # set_first_priority i prio srvs)"

definition handle_priority_change_req :: "req_msg \<Rightarrow> server \<Rightarrow> resp_msg \<times> server" where
  "handle_priority_change_req req s =
     (let resp = new_resp_msg (rq_term req) priority_change_response (sv_id s) (rq_src req) 0
      in case rq_log_entries req of
           [] \<Rightarrow> (resp, s)
         | e # _ \<Rightarrow>
             if length (body_bytes (re_body e)) < 8 then (resp, s)
             else
               (case fst (bnd get_int (\<lambda>i. bnd get_int (\<lambda>p. ret (i, p))) (blk 0 (body_bytes (re_body e)))) of
                  Inl _ \<Rightarrow> (resp, s)
                | Inr (t_id, t_priority) \<Rightarrow>
                    let s = (if t_id = sv_id s then s\<lparr>sv_my_priority := t_priority\<rparr> else s)
                    in if get_server t_id (sv_config s) = None then (resp, s)
                       else (resp_accept (rl_next (sv_log s)) resp,
                             (upd_peer t_id (\<lambda>p. p\<lparr>pe_config := (pe_config p)\<lparr>sc_priority := t_priority\<rparr>\<rparr>) s)
                               \<lparr>sv_config := (sv_config s)\<lparr>cc_servers :=
                                  set_first_priority t_id t_priority (cc_servers (sv_config s))\<rparr>\<rparr>)))"

end
