(* ===== verification/Raft_Append.thy ===== *)
theory Raft_Append
  imports Raft_Vote
begin

text \<open>
  Log replication from both ends: the follower's handling of append requests, the leader's handling of
  their responses, client requests (\<^verbatim>\<open>handle_append_entries.cc\<close>, \<^verbatim>\<open>handle_client_request.cc\<close>) and the
  custom notifications (\<^verbatim>\<open>handle_custom_notification.cc\<close>).
\<close>

subsection \<open>Appending on a follower\<close>

text \<open>The three loops over the entries of a request. The first skips what the log already has.\<close>

fun skip_existing :: "rentry rlog \<Rightarrow> nat \<Rightarrow> rentry list \<Rightarrow> nat \<times> rentry list" where
  "skip_existing l log_idx [] = (log_idx, [])"
| "skip_existing l log_idx (e # es) =
     (if log_idx < rl_next l \<and> log_term_at log_idx l = re_term e
      then skip_existing l (log_idx + 1) es else (log_idx, e # es))"

definition rollback_entry :: "nat \<Rightarrow> server \<Rightarrow> server" where
  "rollback_entry idx s =
     (case rl_get idx (sv_log s) of
        None \<Rightarrow> s
      | Some old_entry \<Rightarrow>
          if is_app old_entry then emit (Rollback idx) s
          else if is_conf old_entry then (emit (Rollback_Config idx) s)\<lparr>sv_config_changing := False\<rparr>
          else s)"

definition rollback_logs :: "nat \<Rightarrow> server \<Rightarrow> server" where
  "rollback_logs log_idx s =
     (let my_last_log_idx = last_idx s;
          s = (if sv_quick_commit_index s \<ge> log_idx then s\<lparr>sv_quick_commit_index := log_idx - 1\<rparr> else s);
          s = (if sv_sm_commit_index s \<ge> log_idx then s\<lparr>sv_sm_commit_index := log_idx - 1\<rparr> else s)
      in fold rollback_entry (rev [log_idx ..< my_last_log_idx + 1]) s)"

definition note_entry :: "nat \<Rightarrow> rentry \<Rightarrow> server \<Rightarrow> server" where
  "note_entry idx entry s =
     (if is_app entry then emit (Pre_Commit idx) s
      else if is_conf entry then s\<lparr>sv_config_changing := True\<rparr> else s)"

text \<open>The other two return whether the server was found to be stopping, which ends the handler.\<close>

fun overwrite_logs :: "renv \<Rightarrow> nat \<Rightarrow> rentry list \<Rightarrow> server \<Rightarrow> bool \<times> rentry list \<times> server" where
  "overwrite_logs env log_idx [] s = (False, [], s)"
| "overwrite_logs env log_idx (e # es) s =
     (if log_idx < rl_next (sv_log s)
      then let s = note_entry log_idx e (snd (store_log_entry env e log_idx s))
           in if sv_stopping s then (True, es, s) else overwrite_logs env (log_idx + 1) es s
      else (False, e # es, s))"

fun append_logs :: "renv \<Rightarrow> rentry list \<Rightarrow> server \<Rightarrow> bool \<times> server" where
  "append_logs env [] s = (False, s)"
| "append_logs env (e # es) s =
     (let (idx, s) = store_log_entry env e 0 s; s = note_entry idx e s
      in if sv_stopping s then (True, s) else append_logs env es s)"

definition write_entries :: "renv \<Rightarrow> nat \<Rightarrow> rentry list \<Rightarrow> server \<Rightarrow> bool \<times> server" where
  "write_entries env last_log_idx entries s =
     (let (log_idx, rest) = skip_existing (sv_log s) (last_log_idx + 1) entries;
          s = (if last_idx s \<ge> log_idx \<and> rest \<noteq> [] then rollback_logs log_idx s else s);
          (stopped, rest, s) = overwrite_logs env log_idx rest s
      in if stopped then (True, s)
         else
           let (stopped, s) = append_logs env rest s
           in if stopped then (True, s)
              else (False, emit (End_Of_Append_Batch (last_log_idx + 1) (length entries)) s))"

definition log_okay_for_append :: "renv \<Rightarrow> req_msg \<Rightarrow> server \<Rightarrow> bool" where
  "log_okay_for_append env req s \<longleftrightarrow>
     (let log_term = (if rq_last_log_idx req < rl_next (sv_log s) then term_for_log env (rq_last_log_idx req) s else 0)
      in rq_last_log_idx req = 0 \<or>
         log_term \<noteq> 0 \<and> rq_last_log_term req = log_term \<or>
         (case sv_last_snapshot s of
            None \<Rightarrow> False
          | Some local_snp \<Rightarrow> sn_last_log_idx local_snp = rq_last_log_idx req \<and>
                             sn_last_log_term local_snp = rq_last_log_term req))"

definition clear_catching_up :: "server \<Rightarrow> server" where
  "clear_catching_up s =
     (if ss_catching_up (sv_state s)
      then case get_server (sv_id s) (sv_config s) of
             None \<Rightarrow> s
           | Some my_config \<Rightarrow>
               if sc_new_joiner my_config then s
               else save_state (set_sstate (\<lambda>st. st\<lparr>ss_catching_up := False\<rparr>) s)
      else s)"

definition deny_append :: "renv \<Rightarrow> resp_msg \<Rightarrow> server \<Rightarrow> resp_msg" where
  "deny_append env resp s =
     resp\<lparr>rs_ctx := (if ss_receiving_snapshot (sv_state s)
                     then Some (new_resp_appendix\<lparr>ra_extra_order := RECEIVING_SNAPSHOT\<rparr>) else rs_ctx resp),
          rs_next_batch_size_hint := ev_next_batch_size_hint env\<rparr>"

text \<open>The end of the handler, once the entries are in the log.\<close>

definition finish_append :: "renv \<Rightarrow> req_msg \<Rightarrow> resp_msg \<Rightarrow> server \<Rightarrow> resp_msg \<times> server" where
  "finish_append env req resp s =
     (let s = s\<lparr>sv_leader := rq_src req, sv_leader_commit_index := rq_commit_idx req\<rparr>;
          target = rq_last_log_idx req + length (rq_log_entries req);
          (pc_updated, s) = try_update_precommit_index target s;
          s = (if pc_updated then commit env (min (rq_commit_idx req) target) s else s);
          s = (if rq_term req = sv_term s \<and> sv_role s = follower then restart_election_timer env s else s);
          resp = (resp_accept (target + 1) resp)
                   \<lparr>rs_next_batch_size_hint := ev_next_batch_size_hint env,
                    rs_self_mark_down := sv_self_mark_down s,
                    rs_ctx := (if p_track_peers_sm_commit_idx (sv_params s)
                               then Some \<lparr>ra_extra_order = NOTIFYING_SM_COMMITTED_INDEX,
                                          ra_sm_committed_idx = sv_sm_commit_index s\<rparr>
                               else rs_ctx resp)\<rparr>
      in (resp, s\<lparr>sv_out_of_log_range := False\<rparr>))"

text \<open>
  What follows the role check: the log check, the callback, the entries, the commit index. The wait
  for durable entries in parallel mode is left out: it ends when the log store reports them durable.
\<close>

definition append_checked :: "renv \<Rightarrow> req_msg \<Rightarrow> server \<Rightarrow> resp_msg \<times> server" where
  "append_checked env req s =
     (let resp = new_resp_msg (sv_term s) append_entries_response (sv_id s) (rq_src req) (rl_next (sv_log s))
      in if rq_term req < sv_term s \<or> \<not> log_okay_for_append env req s \<or> ss_receiving_snapshot (sv_state s)
         then (deny_append env resp s, s)
         else
           let s = s\<lparr>sv_initialized := True, sv_excluded_from_the_quorum := rq_excluded_from_the_quorum req\<rparr>;
               (ok, s) = call_cb env GotAppendEntryReqFromLeader (-1) s
           in if \<not> ok
              then (resp\<lparr>rs_ctx := Some (new_resp_appendix\<lparr>ra_extra_order := DO_NOT_REWIND\<rparr>),
                         rs_next_batch_size_hint := -1\<rparr>,
                    restart_election_timer env s)
              else
                let s = s\<lparr>sv_last_rcvd_valid_append_entries_req :=
                            timer_reset (ev_now env) 0 (sv_last_rcvd_valid_append_entries_req s)\<rparr>;
                    (stopped, s) = (if rq_log_entries req \<noteq> []
                                    then write_entries env (rq_last_log_idx req) (rq_log_entries req) s
                                    else (False, s))
                in if stopped then (resp, s) else finish_append env req resp s)"

definition handle_append_entries :: "renv \<Rightarrow> req_msg \<Rightarrow> server \<Rightarrow> resp_msg option \<times> server" where
  "handle_append_entries env req s =
     (let time_gap_ms = get_ms (ev_now env) (sv_last_rcvd_append_entries_req s);
          s = s\<lparr>sv_last_rcvd_append_entries_req := timer_reset (ev_now env) 0 (sv_last_rcvd_append_entries_req s)\<rparr>
      in if p_use_full_consensus_among_healthy_members (sv_params s) \<and>
            time_gap_ms > i32_to_u64 (p_heart_beat_interval (sv_params s) * l_full_consensus_follower_limit (ev_limits env))
         then (None, s)
         else
           let s = clear_catching_up s
           in if rq_term req = sv_term s \<and> sv_role s = leader
              then (None, (notify_cb ReceivedMisbehavingMessage (-1) s)\<lparr>sv_serving_req := False\<rparr>)
              else
                let s = (if rq_term req = sv_term s
                         then if sv_role s = candidate then become_follower env s else update_target_priority env s
                         else s);
                    (resp, s) = append_checked env req s
                in (Some resp, s\<lparr>sv_serving_req := False\<rparr>))"

subsection \<open>Responses on the leader\<close>

definition note_accept :: "resp_msg \<Rightarrow> peer \<Rightarrow> peer" where
  "note_accept resp p =
     p\<lparr>pe_self_mark_down := rs_self_mark_down resp, pe_next_log_idx := rs_next_idx resp,
       pe_matched_idx := sub64 (rs_next_idx resp) 1, pe_last_accepted_log_idx := sub64 (rs_next_idx resp) 1\<rparr>"

definition sm_committed_of :: "resp_msg \<Rightarrow> server \<Rightarrow> nat option" where
  "sm_committed_of resp s =
     (case rs_ctx resp of
        Some a \<Rightarrow> if p_track_peers_sm_commit_idx (sv_params s) \<and> ra_extra_order a = NOTIFYING_SM_COMMITTED_INDEX
                  then Some (ra_sm_committed_idx a) else None
      | None \<Rightarrow> None)"

definition track_sm_commit :: "renv \<Rightarrow> resp_msg \<Rightarrow> nat \<Rightarrow> int \<Rightarrow> server \<Rightarrow> server" where
  "track_sm_commit env resp prev i s =
     (case sm_committed_of resp s of
        None \<Rightarrow> upd_peer i (\<lambda>p. p\<lparr>pe_sm_committed_idx := 0\<rparr>) s
      | Some n \<Rightarrow>
          let s = upd_peer i (\<lambda>p. p\<lparr>pe_sm_committed_idx := n\<rparr>) s
          in if prev < n
             then emit Request_Commit
                    (update_sm_commit_notifier_target_idx (find_sm_commit_idx_to_notify env s) s)
             else s)"

definition try_stream :: "resp_msg \<Rightarrow> server \<Rightarrow> peer \<Rightarrow> peer" where
  "try_stream resp s p =
     (let gap = p_max_log_gap_in_stream (sv_params s)
      in if gap > 0 \<and> pe_last_streamed_log_idx p = 0 \<and> rs_next_idx resp > 0 \<and>
            pe_last_sent_idx p < rs_next_idx resp \<and>
            sv_precommit_index s < add64 (rs_next_idx resp) (i32_to_u64 gap)
         then set_last_streamed_log_idx 0 (rs_next_idx resp - 1) p else p)"

definition need_catchup :: "resp_msg \<Rightarrow> peer \<Rightarrow> server \<Rightarrow> bool" where
  "need_catchup resp p s \<longleftrightarrow>
     (let next_idx_to_send = (if pe_last_streamed_log_idx p \<noteq> 0 then pe_last_streamed_log_idx p + 1 else rs_next_idx resp)
      in fst (clear_pending_commit p) \<or> next_idx_to_send < rl_next (sv_log s) \<or>
         p_track_peers_sm_commit_idx (sv_params s) \<and> pe_sm_committed_idx p \<noteq> 0 \<and>
         pe_sm_committed_idx p < sv_quick_commit_index s \<and>
         \<not> (pe_last_streamed_log_idx p > 0 \<and> pe_bytes_in_flight p > 0))"

definition append_accepted :: "renv \<Rightarrow> resp_msg \<Rightarrow> int \<Rightarrow> peer \<Rightarrow> server \<Rightarrow> bool \<times> server" where
  "append_accepted env resp i p0 s =
     (let s = upd_peer i (note_accept resp) s;
          s = track_sm_commit env resp (pe_sm_committed_idx p0) i s;
          s = notify_cb GotAppendEntryRespFromPeer (pe_id p0) s;
          s = upd_peer i (try_stream resp s) s;
          s = commit env (get_expected_committed_log_idx env s) s
      in case find_peer i s of
           None \<Rightarrow> (True, s)
         | Some p \<Rightarrow> (need_catchup resp p s, upd_peer i (\<lambda>p. snd (clear_pending_commit p)) s))"

definition rewind_peer :: "resp_msg \<Rightarrow> peer \<Rightarrow> peer" where
  "rewind_peer resp p =
     (let prev_next_log = pe_next_log_idx p;
          p = (if rs_next_idx resp > 0 \<and> prev_next_log > rs_next_idx resp
               then p\<lparr>pe_next_log_idx := rs_next_idx resp\<rparr>
               else
                 let order = map_option ra_extra_order (rs_ctx resp);
                     p = (if order = Some RECEIVING_SNAPSHOT then p\<lparr>pe_snapshot_sync_is_needed := True\<rparr> else p)
                 in if order \<noteq> Some DO_NOT_REWIND \<and> prev_next_log \<noteq> 0
                    then p\<lparr>pe_next_log_idx := prev_next_log - 1\<rparr> else p)
      in reset_stream (snd (need_to_suppress_error p)))"

text \<open>A new joiner that has caught up becomes a regular member by a new configuration.\<close>

fun clear_first_joiner :: "int \<Rightarrow> srv_config list \<Rightarrow> srv_config list" where
  "clear_first_joiner i [] = []"
| "clear_first_joiner i (srv # srvs) =
     (if sc_id srv = i then srv\<lparr>sc_new_joiner := False\<rparr> # srvs else srv # clear_first_joiner i srvs)"

definition joiner_caught_up :: "peer \<Rightarrow> server \<Rightarrow> bool" where
  "joiner_caught_up p s \<longleftrightarrow>
     \<not> sv_config_changing s \<and> sc_new_joiner (pe_config p) \<and>
     (let gap = p_log_sync_stop_gap (sv_params s)
      in add64 (pe_matched_idx p) (if gap \<noteq> 0 then i32_to_u64 gap else 1) \<ge> rl_next (sv_log s))"

definition admit_joiner :: "renv \<Rightarrow> peer \<Rightarrow> server \<Rightarrow> server" where
  "admit_joiner env p s =
     (let new_conf = set_log_idx (rl_next (sv_log s)) (sv_config s);
          new_conf = new_conf\<lparr>cc_servers := clear_first_joiner (pe_id p) (cc_servers new_conf)\<rparr>;
          (_, s) = store_log_entry env (conf_entry env s new_conf) 0 s
      in request_append_entries env (s\<lparr>sv_config_changing := True, sv_uncommitted_config := Some new_conf\<rparr>))"

text \<open>
  Handing over to the chosen successor. The long election timeout is installed for the timer that
  \<^verbatim>\<open>become_follower\<close> restarts and removed afterwards.
\<close>

definition ready_to_resign :: "peer \<Rightarrow> server \<Rightarrow> bool" where
  "ready_to_resign p s \<longleftrightarrow>
     sv_write_paused s \<and> pe_id p = sv_next_leader_candidate s \<and> pe_matched_idx p \<noteq> 0 \<and>
     pe_matched_idx p = last_idx s \<and> \<not> pe_busy_flag p"

definition hand_over :: "renv \<Rightarrow> int \<Rightarrow> peer \<Rightarrow> server \<Rightarrow> server" where
  "hand_over env i p s =
     (let s = upd_peer i (\<lambda>p. snd (make_busy p)) s;
          s = s\<lparr>sv_leader := -1,
                sv_fixed_timeout := Some (p_election_timeout_upper_bound (sv_params s) +
                                          p_election_timeout_lower_bound (sv_params s))\<rparr>;
          s = (become_follower env s)\<lparr>sv_fixed_timeout := None, sv_hb_alive := False\<rparr>;
          req = (vote_req env custom_notification_request (pe_id p) s)
                  \<lparr>rq_log_entries := [\<lparr>re_term = 0, re_body = Leadership_Takeover, re_time = 0\<rparr>]\<rparr>
      in send_to i req s)"

definition check_overall_status :: "renv \<Rightarrow> server \<Rightarrow> server" where
  "check_overall_status env s =
     (let (fired, t) = timeout_and_reset (ev_now env) (sv_status_check_timer s);
          s = s\<lparr>sv_status_check_timer := t\<rparr>
      in if fired then check_leadership_transfer env s else s)"

definition after_append_resp :: "renv \<Rightarrow> resp_msg \<Rightarrow> bool \<Rightarrow> int \<Rightarrow> server \<Rightarrow> server" where
  "after_append_resp env resp need_to_catchup i s =
     (case find_peer i s of
        None \<Rightarrow> s
      | Some p \<Rightarrow>
          if joiner_caught_up p s then admit_joiner env p s
          else if ready_to_resign p s then hand_over env i p s
          else if sv_role s = leader
          then check_overall_status env
                 (if need_to_catchup \<and> \<not> rs_next_batch_size_hint resp < 0
                  then snd (request_append_entries_to env i s) else s)
          else s)"

text \<open>
  The handler looks the peer up before \<^verbatim>\<open>check_srv_to_leave_timeout\<close>, which may erase that very peer;
  reading the erased element is undefined, and the model ends the process there.
\<close>

definition handle_append_entries_resp :: "renv \<Rightarrow> resp_msg \<Rightarrow> server \<Rightarrow> server" where
  "handle_append_entries_resp env resp s =
     (let i = rs_src resp
      in if find_peer i s = None then s
         else
           let s = check_srv_to_leave_timeout env s
           in case find_peer i s of
                None \<Rightarrow> s\<lparr>sv_exited := True\<rparr>
              | Some p \<Rightarrow>
                  if sv_srv_to_leave s = Some i \<and> pe_stepping_down p \<and>
                     rs_next_idx resp > sv_srv_to_leave_target_idx s
                  then reset_srv_to_leave (remove_peer_from_peers i s)
                  else
                    let s = upd_peer i (\<lambda>p. p\<lparr>pe_next_batch_size_hint := rs_next_batch_size_hint resp\<rparr>) s;
                        (need_to_catchup, s) =
                          (if rs_accepted resp then append_accepted env resp i p s
                           else (True, upd_peer i (rewind_peer resp) s))
                    in after_append_resp env resp need_to_catchup i s)"

subsection \<open>Client requests\<close>

definition request_append_entries_for_all :: "renv \<Rightarrow> server \<Rightarrow> server" where
  "request_append_entries_for_all env s =
     (if p_use_bg_thread_for_urgent_commit (sv_params s) then emit Request_Append s
      else request_append_entries env s)"

definition store_cli_entry :: "renv \<Rightarrow> log_body \<Rightarrow> nat \<times> server \<Rightarrow> nat \<times> server" where
  "store_cli_entry env body r =
     (let s = snd r;
          (idx, s) = store_log_entry env \<lparr>re_term = sv_term s, re_body = body, re_time = ev_now env\<rparr> 0 s
      in (idx, emit (Pre_Commit idx) s))"

text \<open>
  A client request. The value that the state machine returns from \<^verbatim>\<open>pre_commit_ext\<close>, which an
  asynchronous reply carries, is not modelled.
\<close>

definition handle_cli_req :: "renv \<Rightarrow> req_msg \<Rightarrow> nat \<Rightarrow> server \<Rightarrow> resp_msg option \<times> server" where
  "handle_cli_req env req expected_term s =
     (let cur_term = sv_term s;
          resp = new_resp_msg cur_term append_entries_response (sv_id s) (sv_leader s) 0
      in if sv_role s \<noteq> leader \<or> sv_write_paused s then (Some (resp\<lparr>rs_result_code := Result_NOT_LEADER\<rparr>), s)
         else if expected_term \<noteq> 0 \<and> expected_term \<noteq> cur_term
         then (Some (resp\<lparr>rs_result_code := Result_TERM_MISMATCH\<rparr>), s)
         else
           let n = length (rq_log_entries req);
               (last, s) = fold (store_cli_entry env) (map re_body (rq_log_entries req)) (0, s);
               s = (if n \<noteq> 0 then emit (End_Of_Append_Batch (last - n + 1) n) s else s);
               s = snd (try_update_precommit_index last s);
               resp_idx = rl_next (sv_log s);
               (ok, s) = call_cb env AppendLogs (-1) s
           in if \<not> ok then (None, s)
              else
                let async = (p_return_method (sv_params s) = async_handler);
                    elem = (case om_find last (sv_commit_ret_elems s) of
                              Some elem \<Rightarrow> elem
                            | None \<Rightarrow> \<lparr>ce_result_code = Result_TIMEOUT, ce_callback_invoked = False,
                                       ce_async_result = False\<rparr>);
                    s = (if \<not> cc_async_replication (sv_config s)
                         then s\<lparr>sv_commit_ret_elems := om_set last
                                  (elem\<lparr>ce_async_result := (ce_async_result elem \<or> async)\<rparr>) (sv_commit_ret_elems s)\<rparr>
                         else s)
                in (Some (resp_accept resp_idx resp), s))"

definition handle_cli_req_prelock :: "renv \<Rightarrow> req_msg \<Rightarrow> nat \<Rightarrow> server \<Rightarrow> resp_msg option \<times> server" where
  "handle_cli_req_prelock env req expected_term s =
     (let (resp, s) = handle_cli_req env req expected_term s
      in (resp, request_append_entries_for_all env s))"

definition notify_log_append_completion :: "renv \<Rightarrow> bool \<Rightarrow> server \<Rightarrow> server" where
  "notify_log_append_completion env ok s =
     (if sv_role s = leader
      then if \<not> ok then (become_follower env (s\<lparr>sv_leader := -1\<rparr>))\<lparr>sv_hb_alive := False\<rparr>
           else
             let prev_committed_index = sv_quick_commit_index s;
                 s = commit env (get_expected_committed_log_idx env s) s
             in if sv_quick_commit_index s > prev_committed_index then request_append_entries_for_all env s else s
      else if \<not> ok then emit (System_Exit (-21)) s else s)"

subsection \<open>Custom notifications\<close>

definition handle_out_of_log_msg ::
    "renv \<Rightarrow> req_msg \<Rightarrow> custom_notification_msg \<Rightarrow> resp_msg \<Rightarrow> server \<Rightarrow> resp_msg option \<times> server" where
  "handle_out_of_log_msg env req msg resp s =
     (let s = (snd (update_term env (rq_term req) s))\<lparr>sv_out_of_log_range := True\<rparr>
      in case cn_ctx msg of
           None \<Rightarrow> (None, s\<lparr>sv_exited := True\<rparr>)
         | Some ctx \<Rightarrow>
             (case out_of_log_deserialize ctx of
                Inl _ \<Rightarrow> (None, s)
              | Inr start_idx_of_leader \<Rightarrow>
                  let s = (if rq_term req = sv_term s \<and> sv_role s = follower then restart_election_timer env s else s)
                  in (Some resp, notify_cb OutOfLogRangeWarning (-1) s)))"

definition handle_leadership_takeover :: "renv \<Rightarrow> resp_msg \<Rightarrow> server \<Rightarrow> resp_msg option \<times> server" where
  "handle_leadership_takeover env resp s =
     (if is_leader s then (Some resp, s)
      else
        let s = initiate_vote env True s
        in (Some resp, if sv_role s \<noteq> leader then restart_election_timer env s else s))"

definition handle_resignation_request :: "renv \<Rightarrow> req_msg \<Rightarrow> resp_msg \<Rightarrow> server \<Rightarrow> resp_msg option \<times> server" where
  "handle_resignation_request env req resp s =
     (Some resp, if is_leader s then yield_leadership env False (rq_src req) s else s)"

text \<open>
  The payload is decoded from its bytes. An exception of the decoder leaves the handler without a
  response; the content of its fresh allocation is overwritten, so any will do.
\<close>

definition handle_custom_notification_req :: "renv \<Rightarrow> req_msg \<Rightarrow> server \<Rightarrow> resp_msg option \<times> server" where
  "handle_custom_notification_req env req s =
     (let n = rl_next (sv_log s);
          resp = resp_accept n (new_resp_msg (sv_term s) custom_notification_response (sv_id s) (rq_src req) n)
      in case rq_log_entries req of
           [] \<Rightarrow> (Some resp, s)
         | e # _ \<Rightarrow>
             (case re_body e of
                No_Buf _ \<Rightarrow> (Some resp, s)
              | b \<Rightarrow>
                  (case custom_notification_deserialize (\<lambda>_. 0) (blk 0 (body_bytes b)) of
                     Inl _ \<Rightarrow> (None, s)
                   | Inr msg \<Rightarrow>
                       if cn_type msg = out_of_log_range_warning then handle_out_of_log_msg env req msg resp s
                       else if cn_type msg = leadership_takeover then handle_leadership_takeover env resp s
                       else if cn_type msg = request_resignation then handle_resignation_request env req resp s
                       else (Some resp, s))))"

definition handle_custom_notification_resp :: "resp_msg \<Rightarrow> server \<Rightarrow> server" where
  "handle_custom_notification_resp resp s =
     (if rs_accepted resp then upd_peer (rs_src resp) (\<lambda>p. p\<lparr>pe_next_log_idx := rs_next_idx resp\<rparr>) s else s)"

subsection \<open>The log after an append\<close>

text \<open>
  The log that an append request asks for: the entries that agree in term with what is there are left
  alone, and from the first that does not the log is cut and replaced.
\<close>

fun agree :: "rentry rlog \<Rightarrow> nat \<Rightarrow> rentry list \<Rightarrow> nat" where
  "agree l i [] = 0"
| "agree l i (e # es) =
     (if i < rl_next l \<and> log_term_at i l = re_term e then Suc (agree l (Suc i) es) else 0)"

definition merged_log :: "rentry rlog \<Rightarrow> nat \<Rightarrow> rentry list \<Rightarrow> rentry rlog" where
  "merged_log l i es =
     (let n = agree l i es
      in if n = length es then l
         else l\<lparr>rl_entries := take (i + n - rl_start l) (rl_entries l) @ drop n es\<rparr>)"

lemma agree_le: "agree l i es \<le> length es"
  by (induction l i es rule: agree.induct) auto

lemma agree_in_log: "i \<le> rl_next l \<Longrightarrow> i + agree l i es \<le> rl_next l"
proof (induction l i es rule: agree.induct)
  case (2 l i e es)
  then show ?case by (cases "i < rl_next l \<and> log_term_at i l = re_term e") auto
qed simp

lemma agree_term: "k < agree l i es \<Longrightarrow> log_term_at (i + k) l = re_term (es ! k)"
proof (induction l i es arbitrary: k rule: agree.induct)
  case (2 l i e es)
  then show ?case by (cases k) (auto split: if_splits)
qed simp

lemma skip_existing_agree: "skip_existing l i es = (i + agree l i es, drop (agree l i es) es)"
  by (induction l i es rule: agree.induct) auto

lemma emit_fields [simp]:
  "sv_log (emit e s) = sv_log s" "sv_stopping (emit e s) = sv_stopping s" "sv_state (emit e s) = sv_state s"
  "sv_role (emit e s) = sv_role s" "sv_params (emit e s) = sv_params s" "sv_id (emit e s) = sv_id s"
  "sv_quick_commit_index (emit e s) = sv_quick_commit_index s" "sv_peers (emit e s) = sv_peers s"
  by (simp_all add: emit_def)

lemma note_entry_fields [simp]:
  "sv_log (note_entry i e s) = sv_log s" "sv_stopping (note_entry i e s) = sv_stopping s"
  by (simp_all add: note_entry_def)

lemma store_log_entry_log:
  "sv_log (snd (store_log_entry env e i s)) =
     (if i = 0 then rl_append e (sv_log s) else rl_write_at i e (sv_log s))"
  "sv_stopping (snd (store_log_entry env e i s)) = sv_stopping s"
  "fst (store_log_entry env e i s) = (if i = 0 then rl_next (sv_log s) else i)"
  by (simp_all add: store_log_entry_def try_update_precommit_index_def Let_def)

lemma rollback_logs_fields [simp]:
  "sv_log (rollback_logs i s) = sv_log s" "sv_stopping (rollback_logs i s) = sv_stopping s"
proof -
  have "sv_log (fold rollback_entry is u) = sv_log u \<and> sv_stopping (fold rollback_entry is u) = sv_stopping u"
    for "is" u
    by (induction "is" arbitrary: u) (simp_all add: rollback_entry_def split: option.split)
  then show "sv_log (rollback_logs i s) = sv_log s" "sv_stopping (rollback_logs i s) = sv_stopping s"
    by (simp_all add: rollback_logs_def Let_def)
qed

lemma append_logs_log:
  "\<not> sv_stopping s \<Longrightarrow> \<not> fst (append_logs env es s) \<and>
     sv_log (snd (append_logs env es s)) = (sv_log s)\<lparr>rl_entries := rl_entries (sv_log s) @ es\<rparr>"
proof (induction env es s rule: append_logs.induct)
  case (2 env e es s)
  let ?t = "note_entry (rl_next (sv_log s)) e (snd (store_log_entry env e 0 s))"
  have "store_log_entry env e 0 s = (rl_next (sv_log s), snd (store_log_entry env e 0 s))"
    by (simp add: prod_eq_iff store_log_entry_log)
  moreover have "\<not> sv_stopping ?t" "sv_log ?t = rl_append e (sv_log s)"
    using 2(2) by (simp_all add: store_log_entry_log)
  ultimately show ?case
    using 2(1) [of "(rl_next (sv_log s), snd (store_log_entry env e 0 s))"] by (simp add: Let_def case_prod_beta rl_append_def)
qed simp

lemma overwrite_logs_done:
  "rl_next (sv_log s) \<le> i \<Longrightarrow> overwrite_logs env i es s = (False, es, s)"
  by (cases es) simp_all

lemma overwrite_logs_log:
  assumes "\<not> sv_stopping s" and "rl_start (sv_log s) \<le> i" and "0 < i" and "i < rl_next (sv_log s)"
  shows "overwrite_logs env i (e # es) s =
    (False, es, note_entry i e (snd (store_log_entry env e i s)))"
proof -
  have "rl_next (rl_write_at i e (sv_log s)) \<le> i + 1"
    using assms(2-4) by (simp add: rl_next_def rl_write_at_def)
  then show ?thesis
    using assms by (simp add: Let_def store_log_entry_log overwrite_logs_done)
qed

lemma write_entries_log:
  assumes "\<not> sv_stopping s" and "rl_start (sv_log s) \<le> p + 1" and "p + 1 \<le> rl_next (sv_log s)"
  shows "\<not> fst (write_entries env p es s)"
    and "sv_log (snd (write_entries env p es s)) = merged_log (sv_log s) (p + 1) es"
proof -
  let ?l = "sv_log s" and ?n = "agree (sv_log s) (p + 1) es"
  let ?i = "p + 1 + ?n" and ?rest = "drop ?n es"
  define t where "t = (if last_idx s \<ge> ?i \<and> ?rest \<noteq> [] then rollback_logs ?i s else s)"
  have t: "sv_log t = ?l" "\<not> sv_stopping t"
    using assms(1) by (simp_all add: t_def)
  have nxt: "?i \<le> rl_next ?l"
    using agree_in_log [OF assms(3)] .
  obtain b rest u where ov: "overwrite_logs env ?i ?rest t = (b, rest, u)"
    by (metis prod_cases3)
  have u: "\<not> b" "\<not> sv_stopping u"
      "(sv_log u)\<lparr>rl_entries := rl_entries (sv_log u) @ rest\<rparr> = merged_log ?l (p + 1) es"
  proof -
    have "\<not> b \<and> \<not> sv_stopping u \<and>
      (sv_log u)\<lparr>rl_entries := rl_entries (sv_log u) @ rest\<rparr> = merged_log ?l (p + 1) es"
    proof (cases ?rest)
      case Nil
      then have "?n = length es" using agree_le [of ?l "p + 1" es] by simp
      with Nil ov t show ?thesis by (simp add: merged_log_def)
    next
      case (Cons e es')
      then have ne: "?n \<noteq> length es" by auto
      show ?thesis
      proof (cases "?i < rl_next ?l")
        case True
        then have "overwrite_logs env ?i ?rest t = (False, es', note_entry ?i e (snd (store_log_entry env e ?i t)))"
          unfolding Cons using t assms(2) by (intro overwrite_logs_log) simp_all
        with ov have "\<not> b" "rest = es'" "u = note_entry ?i e (snd (store_log_entry env e ?i t))"
          by simp_all
        then show ?thesis
          using ne Cons t by (simp add: store_log_entry_log rl_write_at_def merged_log_def Let_def)
      next
        case False
        with nxt have "?i = rl_next ?l" by simp
        moreover from this have "overwrite_logs env ?i ?rest t = (False, ?rest, t)"
          using t by (intro overwrite_logs_done) simp
        ultimately show ?thesis
          using ov ne t by (simp add: merged_log_def Let_def rl_next_def)
      qed
    qed
    then show "\<not> b" "\<not> sv_stopping u"
      "(sv_log u)\<lparr>rl_entries := rl_entries (sv_log u) @ rest\<rparr> = merged_log ?l (p + 1) es"
      by blast+
  qed
  have "write_entries env p es s =
      (if b then (True, u)
       else if fst (append_logs env rest u) then (True, snd (append_logs env rest u))
       else (False, emit (End_Of_Append_Batch (p + 1) (length es)) (snd (append_logs env rest u))))"
    unfolding write_entries_def skip_existing_agree Let_def prod.case t_def [symmetric] ov
    by (simp add: case_prod_beta)
  with append_logs_log [OF u(2), of env rest] u(1,3)
  show "\<not> fst (write_entries env p es s)"
      and "sv_log (snd (write_entries env p es s)) = merged_log ?l (p + 1) es"
    by simp_all
qed

lemma merged_log_start [simp]: "rl_start (merged_log l i es) = rl_start l"
  by (simp add: merged_log_def Let_def)

lemma merged_log_get:
  assumes "rl_start l \<le> i" and "i \<le> rl_next l" and "agree l i es < length es"
  shows "rl_get k (merged_log l i es) =
    (if k < i + agree l i es then rl_get k l
     else if k < i + length es then Some (es ! (k - i)) else None)"
proof -
  let ?n = "agree l i es" and ?m = "i + agree l i es - rl_start l"
  have "length (take ?m (rl_entries l)) = ?m"
    using agree_in_log [OF assms(2), of es] by (simp add: rl_next_def)
  then show ?thesis
    using assms by (auto simp: rl_get_def merged_log_def Let_def rl_next_def nth_append)
qed

lemma merged_log_before:
  assumes "rl_start l \<le> i" and "i \<le> rl_next l" and "k < i"
  shows "rl_get k (merged_log l i es) = rl_get k l"
proof (cases "agree l i es < length es")
  case True
  then show ?thesis using merged_log_get [OF assms(1,2) True] assms(3) by simp
next
  case False
  then show ?thesis using agree_le [of l i es] by (simp add: merged_log_def)
qed

lemma merged_log_term:
  assumes "rl_start l \<le> i" and "i \<le> rl_next l" and "k < length es"
  shows "i + k < rl_next (merged_log l i es) \<and> log_term_at (i + k) (merged_log l i es) = re_term (es ! k)"
proof (cases "k < agree l i es")
  case True
  have "log_term_at (i + k) (merged_log l i es) = log_term_at (i + k) l"
  proof (cases "agree l i es < length es")
    case False
    then show ?thesis using agree_le [of l i es] by (simp add: merged_log_def)
  qed (use True assms in \<open>simp add: log_term_at_def merged_log_get\<close>)
  moreover have "i + k < rl_next (merged_log l i es)"
    using True agree_in_log [OF assms(2), of es] agree_le [of l i es] assms
    by (auto simp: merged_log_def Let_def rl_next_def)
  ultimately show ?thesis using agree_term [OF True] by simp
next
  case False
  then have lt: "agree l i es < length es" using assms(3) by simp
  have "rl_get (i + k) (merged_log l i es) = Some (es ! k)"
    using merged_log_get [OF assms(1,2) lt] False assms(3) by simp
  then show ?thesis by (auto simp: log_term_at_def rl_get_def split: if_splits)
qed

lemma agree_all: "(\<And>k. k < length es \<Longrightarrow> i + k < rl_next l \<and> log_term_at (i + k) l = re_term (es ! k)) \<Longrightarrow>
  agree l i es = length es"
proof (induction es arbitrary: i)
  case (Cons e es)
  have "i < rl_next l \<and> log_term_at i l = re_term e"
    using Cons.prems [of 0] by simp
  moreover have "agree l (Suc i) es = length es"
  proof (rule Cons.IH)
    show "Suc i + k < rl_next l \<and> log_term_at (Suc i + k) l = re_term (es ! k)" if "k < length es" for k
      using Cons.prems [of "Suc k"] that by simp
  qed
  ultimately show ?case by simp
qed simp

lemma merged_log_idem:
  assumes "rl_start l \<le> i" and "i \<le> rl_next l"
  shows "merged_log (merged_log l i es) i es = merged_log l i es"
  using agree_all [of es i "merged_log l i es"] merged_log_term [OF assms, of _ es]
  by (simp add: merged_log_def [of "merged_log l i es"])

text \<open>Operations around the write that leave the log, the stopping flag and the snapshot alone.\<close>

definition keeps_log :: "server \<Rightarrow> server \<Rightarrow> bool" where
  "keeps_log s t \<longleftrightarrow> sv_log t = sv_log s \<and> sv_stopping t = sv_stopping s \<and>
     sv_last_snapshot t = sv_last_snapshot s \<and> sv_quick_commit_index t = sv_quick_commit_index s"

lemma keeps_log_refl [simp]: "keeps_log s s"
  by (simp add: keeps_log_def)

lemma keeps_log_ops [simp]:
  "keeps_log s (restart_election_timer env t) \<longleftrightarrow> keeps_log s t"
  "keeps_log s (become_follower env t) \<longleftrightarrow> keeps_log s t"
  "keeps_log s (update_target_priority env t) \<longleftrightarrow> keeps_log s t"
  "keeps_log s (clear_catching_up t) \<longleftrightarrow> keeps_log s t"
  "keeps_log s (emit e t) \<longleftrightarrow> keeps_log s t"
  by (auto simp: keeps_log_def restart_election_timer_def become_follower_def update_target_priority_def
      clear_catching_up_def save_state_def set_sstate_def drop_all_pending_commit_elems_def notify_cb_def
      emit_def Let_def split: option.split)

lemma role_ops [simp]:
  "sv_role (restart_election_timer env s) = sv_role s"
  "sv_role (become_follower env s) = follower"
  "sv_term (restart_election_timer env s) = sv_term s"
  "sv_term (become_follower env s) = sv_term s"
  "sv_role (update_target_priority env s) = sv_role s"
  "sv_term (update_target_priority env s) = sv_term s"
  "sv_role (clear_catching_up s) = sv_role s"
  "sv_term (clear_catching_up s) = sv_term s"
  by (simp_all add: restart_election_timer_def become_follower_def update_target_priority_def
      clear_catching_up_def save_state_def set_sstate_def drop_all_pending_commit_elems_def notify_cb_def
      emit_def sv_term_def Let_def split: option.split)

text \<open>Committing on a server that is not leader only moves the index and wakes the commit thread.\<close>

lemma commit_not_leader:
  assumes "sv_role s \<noteq> leader"
  shows "sv_log (commit env n s) = sv_log s" "sv_role (commit env n s) = sv_role s"
    "sv_state (commit env n s) = sv_state s" "sv_leader (commit env n s) = sv_leader s"
    "sv_quick_commit_index (commit env n s) = max (sv_quick_commit_index s) n"
    "sv_leader_commit_index (commit env n s) = sv_leader_commit_index s"
  using assms
  by (simp_all add: commit_def commit_with_def wake_commit_def notify_cb_def Let_def)
    (simp_all add: emit_def)

lemma restart_fields [simp]:
  "sv_log (restart_election_timer env s) = sv_log s"
  "sv_leader (restart_election_timer env s) = sv_leader s"
  "sv_quick_commit_index (restart_election_timer env s) = sv_quick_commit_index s"
  "sv_leader_commit_index (restart_election_timer env s) = sv_leader_commit_index s"
  by (simp_all add: restart_election_timer_def save_state_def set_sstate_def Let_def)

lemma finish_append_spec:
  assumes "sv_role s = follower"
  shows "sv_log (snd (finish_append env req resp s)) = sv_log s"
    "sv_role (snd (finish_append env req resp s)) = follower"
    "sv_term (snd (finish_append env req resp s)) = sv_term s"
    "sv_leader (snd (finish_append env req resp s)) = rq_src req"
    "sv_leader_commit_index (snd (finish_append env req resp s)) = rq_commit_idx req"
    "sv_quick_commit_index (snd (finish_append env req resp s)) =
       max (sv_quick_commit_index s) (min (rq_commit_idx req) (rq_last_log_idx req + length (rq_log_entries req)))"
    "rs_next_idx (fst (finish_append env req resp s)) = rq_last_log_idx req + length (rq_log_entries req) + 1"
proof -
  define u where "u = snd (try_update_precommit_index (rq_last_log_idx req + length (rq_log_entries req))
    (s\<lparr>sv_leader := rq_src req, sv_leader_commit_index := rq_commit_idx req\<rparr>))"
  have u: "sv_role u \<noteq> leader" "sv_role u = follower" "sv_log u = sv_log s" "sv_state u = sv_state s"
      "sv_leader u = rq_src req" "sv_quick_commit_index u = sv_quick_commit_index s"
      "sv_leader_commit_index u = rq_commit_idx req"
    using assms by (simp_all add: u_def try_update_precommit_index_def)
  have up: "try_update_precommit_index (rq_last_log_idx req + length (rq_log_entries req))
      (s\<lparr>sv_leader := rq_src req, sv_leader_commit_index := rq_commit_idx req\<rparr>) = (True, u)"
    by (simp add: u_def try_update_precommit_index_def)
  show "sv_log (snd (finish_append env req resp s)) = sv_log s"
    "sv_role (snd (finish_append env req resp s)) = follower"
    "sv_term (snd (finish_append env req resp s)) = sv_term s"
    "sv_leader (snd (finish_append env req resp s)) = rq_src req"
    "sv_leader_commit_index (snd (finish_append env req resp s)) = rq_commit_idx req"
    "sv_quick_commit_index (snd (finish_append env req resp s)) =
       max (sv_quick_commit_index s) (min (rq_commit_idx req) (rq_last_log_idx req + length (rq_log_entries req)))"
    "rs_next_idx (fst (finish_append env req resp s)) = rq_last_log_idx req + length (rq_log_entries req) + 1"
    using u commit_not_leader [OF u(1)]
    by (simp_all add: finish_append_def up Let_def resp_accept_def)
      (simp_all add: sv_term_def restart_election_timer_def save_state_def set_sstate_def Let_def)
qed

text \<open>
  Writing entries keeps the role and the state. It moves the commit index only when it rolls back, to the
  entry before the first one that is replaced.
\<close>

definition kept_commit :: "rentry rlog \<Rightarrow> nat \<Rightarrow> rentry list \<Rightarrow> nat \<Rightarrow> nat" where
  "kept_commit l i es q =
     (let k = i + agree l i es
      in if agree l i es < length es \<and> k < rl_next l then min q (k - 1) else q)"

definition write_frame :: "server \<Rightarrow> server \<Rightarrow> bool" where
  "write_frame s t \<longleftrightarrow> sv_role t = sv_role s \<and> sv_state t = sv_state s \<and>
     sv_quick_commit_index t = sv_quick_commit_index s"

lemma write_frame_refl [simp]: "write_frame s s"
  by (simp add: write_frame_def)

lemma write_frame_ops:
  "write_frame s t \<Longrightarrow> write_frame s (emit e t)"
  "write_frame s t \<Longrightarrow> write_frame s (note_entry i x t)"
  "write_frame s t \<Longrightarrow> write_frame s (snd (store_log_entry env x i t))"
  "write_frame s t \<Longrightarrow> write_frame s (rollback_entry i t)"
  by (auto simp: write_frame_def note_entry_def store_log_entry_def try_update_precommit_index_def
      rollback_entry_def Let_def split: option.split)

lemma write_frame_rollback:
  "0 < i \<Longrightarrow> write_frame (s\<lparr>sv_quick_commit_index := min (sv_quick_commit_index s) (i - 1)\<rparr>) (rollback_logs i s)"
proof -
  have fold: "write_frame s u \<Longrightarrow> write_frame s (fold rollback_entry is u)" for "is" s u
    by (induction "is" arbitrary: u) (simp_all add: write_frame_ops(4))
  assume "0 < i"
  then show ?thesis
    unfolding rollback_logs_def Let_def by (intro fold) (auto simp: write_frame_def)
qed

lemma write_frame_overwrite: "write_frame s t \<Longrightarrow> write_frame s (snd (snd (overwrite_logs env i es t)))"
  by (induction env i es t rule: overwrite_logs.induct) (simp_all add: Let_def write_frame_ops)

lemma write_frame_append: "write_frame s t \<Longrightarrow> write_frame s (snd (append_logs env es t))"
  by (induction env es t rule: append_logs.induct)
    (simp_all add: Let_def case_prod_beta write_frame_ops)

lemma write_frame_entries:
  "write_frame (s\<lparr>sv_quick_commit_index := kept_commit (sv_log s) (p + 1) es (sv_quick_commit_index s)\<rparr>)
     (snd (write_entries env p es s))"
proof -
  let ?n = "agree (sv_log s) (p + 1) es"
  let ?i = "p + 1 + ?n"
  define t where "t = (if last_idx s \<ge> ?i \<and> drop ?n es \<noteq> [] then rollback_logs ?i s else s)"
  have "write_frame (s\<lparr>sv_quick_commit_index := kept_commit (sv_log s) (p + 1) es (sv_quick_commit_index s)\<rparr>) t"
  proof (cases "last_idx s \<ge> ?i \<and> drop ?n es \<noteq> []")
    case True
    then have "kept_commit (sv_log s) (p + 1) es (sv_quick_commit_index s) = min (sv_quick_commit_index s) (?i - 1)"
      by (auto simp: kept_commit_def last_idx_def Let_def)
    then show ?thesis
      using True write_frame_rollback [of ?i s] by (simp add: t_def)
  next
    case False
    then have "kept_commit (sv_log s) (p + 1) es (sv_quick_commit_index s) = sv_quick_commit_index s"
      by (auto simp: kept_commit_def last_idx_def Let_def)
    moreover have "t = s"
      unfolding t_def using False by (rule if_not_P)
    ultimately show ?thesis
      by (simp add: write_frame_def)
  qed
  then show ?thesis
    unfolding write_entries_def skip_existing_agree Let_def prod.case t_def [symmetric]
    by (auto simp: case_prod_beta intro!: write_frame_ops(1) write_frame_append write_frame_overwrite)
qed

lemma log_okay_in_range:
  assumes "log_okay_for_append env req s" and "1 \<le> rl_start (sv_log s)"
    and "\<And>snp. sv_last_snapshot s = Some snp \<Longrightarrow> sn_last_log_idx snp < rl_next (sv_log s)"
  shows "rq_last_log_idx req + 1 \<le> rl_next (sv_log s)"
  using assms
  by (auto simp: log_okay_for_append_def Let_def rl_next_def split: if_splits option.splits)

lemma append_checked_spec:
  assumes acc: "rs_accepted (fst (append_checked env req s))"
    and "sv_role s = follower" and "\<not> sv_stopping s" and "1 \<le> rl_start (sv_log s)"
    and "rl_start (sv_log s) \<le> rq_last_log_idx req + 1"
    and "\<And>snp. sv_last_snapshot s = Some snp \<Longrightarrow> sn_last_log_idx snp < rl_next (sv_log s)"
  shows "rq_last_log_idx req + 1 \<le> rl_next (sv_log s)"
    "sv_log (snd (append_checked env req s)) = merged_log (sv_log s) (rq_last_log_idx req + 1) (rq_log_entries req)"
    "sv_role (snd (append_checked env req s)) = follower" "sv_term (snd (append_checked env req s)) = sv_term s"
    "sv_leader (snd (append_checked env req s)) = rq_src req"
    "sv_leader_commit_index (snd (append_checked env req s)) = rq_commit_idx req"
    "sv_quick_commit_index (snd (append_checked env req s)) =
       max (kept_commit (sv_log s) (rq_last_log_idx req + 1) (rq_log_entries req) (sv_quick_commit_index s))
         (min (rq_commit_idx req) (rq_last_log_idx req + length (rq_log_entries req)))"
    "rs_next_idx (fst (append_checked env req s)) = rq_last_log_idx req + length (rq_log_entries req) + 1"
    "sv_term s \<le> rq_term req"
proof -
  let ?resp = "new_resp_msg (sv_term s) append_entries_response (sv_id s) (rq_src req) (rl_next (sv_log s))"
  let ?t = "snd (call_cb env GotAppendEntryReqFromLeader (-1)
    (s\<lparr>sv_initialized := True, sv_excluded_from_the_quorum := rq_excluded_from_the_quorum req\<rparr>))"
  let ?t' = "?t\<lparr>sv_last_rcvd_valid_append_entries_req :=
    timer_reset (ev_now env) 0 (sv_last_rcvd_valid_append_entries_req ?t)\<rparr>"
  define r where "r = (if rq_log_entries req \<noteq> []
    then write_entries env (rq_last_log_idx req) (rq_log_entries req) ?t' else (False, ?t'))"
  have resp: "\<not> rs_accepted ?resp" "\<not> rs_accepted (deny_append env ?resp s)"
    by (simp_all add: new_resp_msg_def deny_append_def)
  have ok: "\<not> rq_term req < sv_term s" "log_okay_for_append env req s"
      "append_checked env req s = (if fst r then (?resp, snd r) else finish_append env req ?resp (snd r))"
    using acc resp
    by (auto simp: append_checked_def r_def Let_def case_prod_beta split: if_splits)
  show range: "rq_last_log_idx req + 1 \<le> rl_next (sv_log s)"
    using log_okay_in_range [OF ok(2) assms(4,6)] .
  have t': "sv_log ?t' = sv_log s" "sv_stopping ?t' = sv_stopping s" "sv_role ?t' = follower"
      "sv_state ?t' = sv_state s" "sv_quick_commit_index ?t' = sv_quick_commit_index s"
    using assms(2) by (simp_all add: call_cb_def)
  have r: "\<not> fst r" "sv_log (snd r) = merged_log (sv_log s) (rq_last_log_idx req + 1) (rq_log_entries req)"
      "write_frame (?t'\<lparr>sv_quick_commit_index := kept_commit (sv_log ?t') (rq_last_log_idx req + 1)
         (rq_log_entries req) (sv_quick_commit_index ?t')\<rparr>) (snd r)"
    using write_entries_log [of ?t' "rq_last_log_idx req" env "rq_log_entries req"] t' assms(3,5) range
      write_frame_entries [of ?t' "rq_last_log_idx req" "rq_log_entries req" env]
    by (auto simp: r_def merged_log_def write_frame_def kept_commit_def)
  then have "sv_role (snd r) = follower" "sv_state (snd r) = sv_state s"
      "sv_quick_commit_index (snd r) =
        kept_commit (sv_log s) (rq_last_log_idx req + 1) (rq_log_entries req) (sv_quick_commit_index s)"
    using t' by (simp_all add: write_frame_def)
  with finish_append_spec [of "snd r" env req ?resp] r ok(1,3)
  show "sv_log (snd (append_checked env req s)) = merged_log (sv_log s) (rq_last_log_idx req + 1) (rq_log_entries req)"
    "sv_role (snd (append_checked env req s)) = follower" "sv_term (snd (append_checked env req s)) = sv_term s"
    "sv_leader (snd (append_checked env req s)) = rq_src req"
    "sv_leader_commit_index (snd (append_checked env req s)) = rq_commit_idx req"
    "sv_quick_commit_index (snd (append_checked env req s)) =
       max (kept_commit (sv_log s) (rq_last_log_idx req + 1) (rq_log_entries req) (sv_quick_commit_index s))
         (min (rq_commit_idx req) (rq_last_log_idx req + length (rq_log_entries req)))"
    "rs_next_idx (fst (append_checked env req s)) = rq_last_log_idx req + length (rq_log_entries req) + 1"
    "sv_term s \<le> rq_term req"
    by (simp_all add: sv_term_def)
qed

text \<open>
  C4. An append request that a follower accepts leaves its log as the request asks. Entries that agree in
  term with the follower's own are left alone, so a request that brings nothing new, in particular one
  delivered twice or late, does not shorten the log; from the first entry that differs the log is cut
  and replaced. Everything up to the preceding index is untouched, the terms after it are those of the
  request, and the response names the index after the last entry. The request carries the follower's
  term and the follower follows its sender. The commit index becomes the smaller of the request's commit
  index and its last entry, unless it was further already; where entries are replaced, what it was counts
  only up to the entry before them. The leader's commit index is noted. The request's term is at most the
  server's, as after \<^verbatim>\<open>update_term\<close>; the log starts no later than the entries that are sent, and the
  last snapshot lies inside it.
\<close>

theorem follower_append_entries:
  assumes "handle_append_entries env req s = (Some resp, s')" and "rs_accepted resp"
    and "rq_term req \<le> sv_term s" and "\<not> sv_stopping s"
    and "1 \<le> rl_start (sv_log s)" and "rl_start (sv_log s) \<le> rq_last_log_idx req + 1"
    and "\<forall>snp. sv_last_snapshot s = Some snp \<longrightarrow> sn_last_log_idx snp < rl_next (sv_log s)"
  shows "let p = rq_last_log_idx req; es = rq_log_entries req
     in sv_log s' = merged_log (sv_log s) (p + 1) es \<and>
        merged_log (sv_log s') (p + 1) es = sv_log s' \<and>
        (\<forall>k \<le> p. rl_get k (sv_log s') = rl_get k (sv_log s)) \<and>
        (\<forall>k < length es. p + 1 + k < rl_next (sv_log s') \<and> log_term_at (p + 1 + k) (sv_log s') = re_term (es ! k)) \<and>
        rs_next_idx resp = p + length es + 1 \<and>
        sv_quick_commit_index s' = max (kept_commit (sv_log s) (p + 1) es (sv_quick_commit_index s))
          (min (rq_commit_idx req) (p + length es)) \<and>
        sv_leader_commit_index s' = rq_commit_idx req \<and>
        sv_term s' = rq_term req \<and> sv_role s' = follower \<and> sv_leader s' = rq_src req"
proof -
  let ?u = "clear_catching_up (s\<lparr>sv_last_rcvd_append_entries_req :=
    timer_reset (ev_now env) 0 (sv_last_rcvd_append_entries_req s)\<rparr>)"
  define t where "t = (if rq_term req = sv_term ?u
    then if sv_role ?u = candidate then become_follower env ?u else update_target_priority env ?u else ?u)"
  have u: "keeps_log s ?u" "sv_term ?u = sv_term s"
    by simp (simp add: keeps_log_def, simp, simp add: sv_term_def)
  have res: "resp = fst (append_checked env req t)" "s' = (snd (append_checked env req t))\<lparr>sv_serving_req := False\<rparr>"
      "\<not> (rq_term req = sv_term ?u \<and> sv_role ?u = leader)"
    using assms(1)
    by (auto simp: handle_append_entries_def t_def Let_def case_prod_beta split: if_splits)
  have t: "keeps_log s t" "sv_term t = sv_term s"
    using u by (simp_all add: t_def)
  have "\<not> rq_term req < sv_term t"
    using assms(2) res(1) by (auto simp: append_checked_def deny_append_def new_resp_msg_def Let_def split: if_splits)
  with t assms(3) have eq: "rq_term req = sv_term s" by simp
  then have "sv_role t = follower"
    using res(3) u(2) by (cases "sv_role ?u") (simp_all add: t_def)
  then have "rs_accepted (fst (append_checked env req t))" "sv_role t = follower" "\<not> sv_stopping t"
      "1 \<le> rl_start (sv_log t)" "rl_start (sv_log t) \<le> rq_last_log_idx req + 1"
      "\<And>snp. sv_last_snapshot t = Some snp \<Longrightarrow> sn_last_log_idx snp < rl_next (sv_log t)"
    using assms t res(1) by (simp_all add: keeps_log_def)
  note ap = append_checked_spec [OF this]
  have "sv_log t = sv_log s" "sv_quick_commit_index t = sv_quick_commit_index s"
    using t by (simp_all add: keeps_log_def)
  note ap = ap [unfolded this]
  show ?thesis
    unfolding Let_def using ap res eq t assms(6)
      merged_log_before [OF assms(6) ap(1), of _ "rq_log_entries req"]
      merged_log_term [OF assms(6) ap(1), of _ "rq_log_entries req"]
      merged_log_idem [OF assms(6) ap(1), of "rq_log_entries req"]
    by (simp add: sv_term_def)
qed

text \<open>A follower in term 2 with three entries of term 1, and a request that replaces the last one.\<close>

definition sample_rentry :: "nat \<Rightarrow> rentry" where
  "sample_rentry t = \<lparr>re_term = t, re_body = App_Log [0], re_time = 0\<rparr>"

definition sample_follower :: server where
  "sample_follower = (sample_server 2 [1, 2, 3])
     \<lparr>sv_log := \<lparr>rl_start = 1, rl_entries = [sample_rentry 1, sample_rentry 1, sample_rentry 1]\<rparr>,
      sv_state := default_srv_state\<lparr>ss_term := 2\<rparr>\<rparr>"

definition sample_append_req :: req_msg where
  "sample_append_req = (new_req_msg 2 append_entries_request 1 2 1 1 2)
     \<lparr>rq_log_entries := [sample_rentry 1, sample_rentry 2]\<rparr>"

lemma append_checked_accepts:
  assumes "rq_term req = sv_term s" and "log_okay_for_append env req s" and "\<not> ss_receiving_snapshot (sv_state s)"
    and "ev_cb env GotAppendEntryReqFromLeader (-1)" and "\<not> sv_stopping s"
    and "rl_start (sv_log s) \<le> rq_last_log_idx req + 1" and "rq_last_log_idx req + 1 \<le> rl_next (sv_log s)"
  shows "rs_accepted (fst (append_checked env req s))"
proof -
  have "\<not> fst (write_entries env (rq_last_log_idx req) (rq_log_entries req) t)"
    if "sv_log t = sv_log s" "sv_stopping t = sv_stopping s" for t
    using write_entries_log(1) [of t] that assms by simp
  then show ?thesis
    using assms
    by (simp add: append_checked_def call_cb_def finish_append_def resp_accept_def Let_def case_prod_beta)
qed

lemma sample_follower_fields:
  "sv_role sample_follower = follower" "sv_state sample_follower = default_srv_state\<lparr>ss_term := 2\<rparr>"
  "sv_stopping sample_follower = False" "sv_quick_commit_index sample_follower = 0" "sv_last_snapshot sample_follower = None"
  "sv_log sample_follower = \<lparr>rl_start = 1, rl_entries = [sample_rentry 1, sample_rentry 1, sample_rentry 1]\<rparr>"
  "p_use_full_consensus_among_healthy_members (sv_params sample_follower) = False"
  by (simp_all add: sample_follower_def sample_server_def new_server_def apply_and_log_current_params_def
      sample_env_def fix_timeouts_def default_raft_params_def Let_def)

theorem follower_append_entries_witness:
  "\<exists>resp s'. handle_append_entries (sample_env 5) sample_append_req sample_follower = (Some resp, s') \<and>
     rs_accepted resp \<and> rs_next_idx resp = 4 \<and> map re_term (rl_entries (sv_log s')) = [1, 1, 2] \<and> sv_leader s' = 1 \<and>
     sv_quick_commit_index s' = 2"
proof -
  let ?r = "handle_append_entries (sample_env 5) sample_append_req sample_follower"
  let ?u = "update_target_priority (sample_env 5) (sample_follower\<lparr>sv_last_rcvd_append_entries_req :=
    timer_reset 5 0 (sv_last_rcvd_append_entries_req sample_follower)\<rparr>)"
  have req: "rq_term sample_append_req = 2" "rq_last_log_idx sample_append_req = 1"
      "rq_last_log_term sample_append_req = 1" "rq_src sample_append_req = 1"
      "rq_log_entries sample_append_req = [sample_rentry 1, sample_rentry 2]" "rq_commit_idx sample_append_req = 2"
    by (simp_all add: sample_append_req_def new_req_msg_def)
  have st: "sv_term sample_follower = 2" "\<not> ss_catching_up (sv_state sample_follower)"
      "\<not> ss_receiving_snapshot (sv_state sample_follower)"
    by (simp_all add: sv_term_def sample_follower_fields default_srv_state_def new_srv_state_def)
  have u: "sv_log ?u = sv_log sample_follower" "sv_stopping ?u = False" "sv_state ?u = sv_state sample_follower"
      "sv_last_snapshot ?u = None"
    by (simp_all add: update_target_priority_def sample_follower_fields Let_def)
  have r: "?r = (Some (fst (append_checked (sample_env 5) sample_append_req ?u)),
      (snd (append_checked (sample_env 5) sample_append_req ?u))\<lparr>sv_serving_req := False\<rparr>)"
    using st by (simp add: handle_append_entries_def clear_catching_up_def sample_follower_fields req
        sample_env_def sv_term_def Let_def case_prod_beta)
  have "log_okay_for_append (sample_env 5) sample_append_req ?u"
    by (simp add: log_okay_for_append_def term_for_log_def log_term_at_def rl_get_def rl_next_def u
        sample_follower_fields req sample_rentry_def Let_def)
  then have acc: "rs_accepted (fst (append_checked (sample_env 5) sample_append_req ?u))"
    using st u by (intro append_checked_accepts)
      (simp_all add: sv_term_def req sample_env_def sample_follower_fields rl_next_def)
  have log: "map re_term (rl_entries (merged_log (sv_log sample_follower) 2 [sample_rentry 1, sample_rentry 2])) = [1, 1, 2]"
    by (simp add: merged_log_def log_term_at_def rl_get_def rl_next_def sample_follower_fields sample_rentry_def Let_def)
  show ?thesis
    using follower_append_entries [OF r acc] r acc log st
    by (simp add: req sample_follower_fields kept_commit_def Let_def numeral_2_eq_2)
qed

end
