(* ===== verification/Raft_Steady.thy ===== *)
theory Raft_Steady
  imports Raft_Append
begin

text \<open>
  Which operations leave a server's term, vote, count of votes and membership alone. The relation
  \<open>steady\<close> says so, and each operation and handler that does has a rule in \<open>steady_intros\<close>.
\<close>

subsection \<open>Handlers that leave the vote alone\<close>

text \<open>
  A calm server is not removing a member, has no reserved message and no automatic quorum adjustment,
  and its term and vote are on disk.
\<close>

definition calm :: "server \<Rightarrow> bool" where
  "calm s \<longleftrightarrow> sv_srv_to_leave s = None \<and> no_rsv s \<and> \<not> auto_adjust s \<and>
     ss_term (sv_saved s) = ss_term (sv_state s) \<and> ss_voted_for (sv_saved s) = ss_voted_for (sv_state s)"

definition same_vote :: "server \<Rightarrow> server \<Rightarrow> bool" where
  "same_vote s t \<longleftrightarrow> sv_id t = sv_id s \<and> members t = members s \<and> sv_im_learner t = sv_im_learner s \<and>
     p_custom_election_quorum_size (sv_params t) = p_custom_election_quorum_size (sv_params s) \<and>
     sv_term t = sv_term s \<and> ss_voted_for (sv_state t) = ss_voted_for (sv_state s) \<and>
     sv_votes_granted t = sv_votes_granted s \<and> vote_sends t = vote_sends s"

text \<open>\<open>L\<close> allows the server to become leader.\<close>

definition steady :: "bool \<Rightarrow> server \<Rightarrow> server \<Rightarrow> bool" where
  "steady L s t \<longleftrightarrow>
     (calm s \<longrightarrow> calm t \<and> same_vote s t \<and> (sv_role t = leader \<longrightarrow> L \<or> sv_role s = leader))"

lemma steady_refl [simp, intro]: "steady L s s"
  by (simp add: steady_def same_vote_def)

lemma steady_trans: "steady L s t \<Longrightarrow> steady L t u \<Longrightarrow> steady L s u"
  by (auto simp: steady_def same_vote_def)

lemma steady_mono: "steady False s t \<Longrightarrow> steady L s t"
  by (auto simp: steady_def)

named_theorems steady_intros

lemma rae_frame_fields:
  assumes "rae_frame t u"
  shows "sv_srv_to_leave u = sv_srv_to_leave t" "sv_saved u = sv_saved t" "sv_state u = sv_state t"
    "sv_id u = sv_id t" "sv_im_learner u = sv_im_learner t" "sv_votes_granted u = sv_votes_granted t"
    "sv_role u = sv_role t"
  using arg_cong [where f = sv_srv_to_leave, OF assms [unfolded rae_frame_def]]
    arg_cong [where f = sv_saved, OF assms [unfolded rae_frame_def]]
    arg_cong [where f = sv_state, OF assms [unfolded rae_frame_def]]
    arg_cong [where f = sv_id, OF assms [unfolded rae_frame_def]]
    arg_cong [where f = sv_im_learner, OF assms [unfolded rae_frame_def]]
    arg_cong [where f = sv_votes_granted, OF assms [unfolded rae_frame_def]]
    arg_cong [where f = sv_role, OF assms [unfolded rae_frame_def]]
  by simp_all

lemma steady_quiet: "quiet env t u \<Longrightarrow> steady L s t \<Longrightarrow> steady L s u"
  by (erule steady_trans)
    (simp add: steady_def calm_def same_vote_def quiet_def sv_term_def rae_frame_fields [of t u])

text \<open>Fields that the vote does not depend on.\<close>

lemma steady_field:
  assumes "steady L s t" and "sv_srv_to_leave u = sv_srv_to_leave t" and "sv_saved u = sv_saved t"
    and "sv_state u = sv_state t" and "sv_id u = sv_id t" and "sv_im_learner u = sv_im_learner t"
    and "sv_votes_granted u = sv_votes_granted t" and "sv_role u = sv_role t"
    and "sv_peers u = sv_peers t" and "sv_params u = sv_params t" and "sv_out u = sv_out t"
  shows "steady L s u"
  using assms by (simp add: steady_def calm_def same_vote_def sv_term_def members_def no_rsv_def vote_sends_def)

lemma steady_fields [steady_intros]:
  assumes "steady L s t"
  shows
    "steady L s (t\<lparr>sv_initialized := x_initialized\<rparr>)"
    "steady L s (t\<lparr>sv_leader := x_leader\<rparr>)"
    "steady L s (t\<lparr>sv_my_priority := x_my_priority\<rparr>)"
    "steady L s (t\<lparr>sv_target_priority := x_target_priority\<rparr>)"
    "steady L s (t\<lparr>sv_priority_change_timer := x_priority_change_timer\<rparr>)"
    "steady L s (t\<lparr>sv_votes_responded := x_votes_responded\<rparr>)"
    "steady L s (t\<lparr>sv_precommit_index := x_precommit_index\<rparr>)"
    "steady L s (t\<lparr>sv_leader_commit_index := x_leader_commit_index\<rparr>)"
    "steady L s (t\<lparr>sv_quick_commit_index := x_quick_commit_index\<rparr>)"
    "steady L s (t\<lparr>sv_sm_commit_index := x_sm_commit_index\<rparr>)"
    "steady L s (t\<lparr>sv_lagging_sm_target_index := x_lagging_sm_target_index\<rparr>)"
    "steady L s (t\<lparr>sv_index_at_becoming_leader := x_index_at_becoming_leader\<rparr>)"
    "steady L s (t\<lparr>sv_hb_alive := x_hb_alive\<rparr>)"
    "steady L s (t\<lparr>sv_pre_vote := x_pre_vote\<rparr>)"
    "steady L s (t\<lparr>sv_election_completed := x_election_completed\<rparr>)"
    "steady L s (t\<lparr>sv_config_changing := x_config_changing\<rparr>)"
    "steady L s (t\<lparr>sv_out_of_log_range := x_out_of_log_range\<rparr>)"
    "steady L s (t\<lparr>sv_data_fresh := x_data_fresh\<rparr>)"
    "steady L s (t\<lparr>sv_stopping := x_stopping\<rparr>)"
    "steady L s (t\<lparr>sv_write_paused := x_write_paused\<rparr>)"
    "steady L s (t\<lparr>sv_next_leader_candidate := x_next_leader_candidate\<rparr>)"
    "steady L s (t\<lparr>sv_reelection_timer := x_reelection_timer\<rparr>)"
    "steady L s (t\<lparr>sv_serving_req := x_serving_req\<rparr>)"
    "steady L s (t\<lparr>sv_steps_to_down := x_steps_to_down\<rparr>)"
    "steady L s (t\<lparr>sv_et_cnt_receiving_snapshot := x_et_cnt_receiving_snapshot\<rparr>)"
    "steady L s (t\<lparr>sv_election_task := x_election_task\<rparr>)"
    "steady L s (t\<lparr>sv_election_scheduled := x_election_scheduled\<rparr>)"
    "steady L s (t\<lparr>sv_fixed_timeout := x_fixed_timeout\<rparr>)"
    "steady L s (t\<lparr>sv_log := x_log\<rparr>)" "steady L s (t\<lparr>sv_config := x_config\<rparr>)"
    "steady L s (t\<lparr>sv_uncommitted_config := x_uncommitted_config\<rparr>)"
    "steady L s (t\<lparr>sv_srv_to_join := x_srv_to_join\<rparr>)"
    "steady L s (t\<lparr>sv_srv_to_leave_target_idx := x_srv_to_leave_target_idx\<rparr>)"
    "steady L s (t\<lparr>sv_last_snapshot := x_last_snapshot\<rparr>)"
    "steady L s (t\<lparr>sv_vote_init_timer := x_vote_init_timer\<rparr>)"
    "steady L s (t\<lparr>sv_vote_init_timer_term := x_vote_init_timer_term\<rparr>)"
    "steady L s (t\<lparr>sv_leadership_transfer_timer := x_leadership_transfer_timer\<rparr>)"
    "steady L s (t\<lparr>sv_status_check_timer := x_status_check_timer\<rparr>)"
    "steady L s (t\<lparr>sv_last_election_timer_reset := x_last_election_timer_reset\<rparr>)"
    "steady L s (t\<lparr>sv_last_rcvd_append_entries_req := x_last_rcvd_append_entries_req\<rparr>)"
    "steady L s (t\<lparr>sv_last_rcvd_valid_append_entries_req := x_last_rcvd_valid_append_entries_req\<rparr>)"
    "steady L s (t\<lparr>sv_chk_timer := x_chk_timer\<rparr>)"
    "steady L s (t\<lparr>sv_self_mark_down := x_self_mark_down\<rparr>)"
    "steady L s (t\<lparr>sv_excluded_from_the_quorum := x_excluded_from_the_quorum\<rparr>)"
    "steady L s (t\<lparr>sv_sm_commit_notifier_target_idx := x_sm_commit_notifier_target_idx\<rparr>)"
    "steady L s (t\<lparr>sv_commit_ret_elems := x_commit_ret_elems\<rparr>)"
    "steady L s (t\<lparr>sv_exited := x_exited\<rparr>)"
    "steady L s (t\<lparr>sv_sm_commit_notifier_notified_idx := x_sm_commit_notifier_notified_idx\<rparr>)"
    "steady L s (t\<lparr>sv_sm_watchers := x_sm_watchers\<rparr>)"
    "steady L s (t\<lparr>sv_initial_commit_index := x_initial_commit_index\<rparr>)"
    "steady L s (t\<lparr>sv_saved_config := x_saved_config\<rparr>)"
    "steady L s (t\<lparr>sv_conf_to_add := x_conf_to_add\<rparr>)"
    "steady L s (t\<lparr>sv_srv_to_join_snp_retry_required := x_srv_to_join_snp_retry_required\<rparr>)"
    "steady L s (t\<lparr>sv_sm_commit_paused := x_sm_commit_paused\<rparr>)"
    "steady L s (t\<lparr>sv_snp_in_progress := x_snp_in_progress\<rparr>)"
    "steady L s (t\<lparr>sv_snp_creation_scheduled := x_snp_creation_scheduled\<rparr>)"
    "steady L s (t\<lparr>sv_first_snapshot_distance := x_first_snapshot_distance\<rparr>)"
  by (rule steady_field [OF assms], simp_all)+

lemma steady_role [steady_intros]: "steady L s t \<Longrightarrow> L \<or> r \<noteq> leader \<Longrightarrow> steady L s (t\<lparr>sv_role := r\<rparr>)"
  by (auto simp: steady_def calm_def same_vote_def sv_term_def members_def no_rsv_def vote_sends_def)

lemma steady_save [steady_intros]:
  assumes "steady L s t" and "ss_term (f (sv_state t)) = ss_term (sv_state t)"
    and "ss_voted_for (f (sv_state t)) = ss_voted_for (sv_state t)"
  shows "steady L s (save_state (set_sstate f t))"
  using assms
  by (simp add: save_state_def set_sstate_def steady_def calm_def same_vote_def sv_term_def
      members_def no_rsv_def vote_sends_def)

lemma steady_params [steady_intros]: "steady L s t \<Longrightarrow> auto_adjust t \<Longrightarrow> steady L s (t\<lparr>sv_params := p\<rparr>)"
  by (auto simp: steady_def calm_def)

lemma steady_peers [steady_intros]:
  "steady L s t \<Longrightarrow> pkeep f \<Longrightarrow> steady L s (t\<lparr>sv_peers := map (\<lambda>(k, p). (k, f p)) (sv_peers t)\<rparr>)"
  by (erule steady_trans)
    (auto simp: steady_def calm_def same_vote_def sv_term_def members_def no_rsv_def vote_sends_def pkeep_def)

lemma steady_if [steady_intros]:
  "(b \<Longrightarrow> steady L s x) \<Longrightarrow> (\<not> b \<Longrightarrow> steady L s y) \<Longrightarrow> steady L s (if b then x else y)"
  "(b \<Longrightarrow> steady L s (snd u)) \<Longrightarrow> (\<not> b \<Longrightarrow> steady L s (snd v)) \<Longrightarrow> steady L s (snd (if b then u else v))"
  by simp_all

lemma steady_snd_pair [steady_intros]: "steady L s t \<Longrightarrow> steady L s (snd (x, t))"
  by simp

lemma steady_option [steady_intros]:
  "(x = None \<Longrightarrow> steady L s (snd u)) \<Longrightarrow> (\<And>y. x = Some y \<Longrightarrow> steady L s (snd (f y))) \<Longrightarrow>
     steady L s (snd (case x of None \<Rightarrow> u | Some y \<Rightarrow> f y))"
  "(x = None \<Longrightarrow> steady L s t) \<Longrightarrow> (\<And>y. x = Some y \<Longrightarrow> steady L s (g y)) \<Longrightarrow>
     steady L s (case x of None \<Rightarrow> t | Some y \<Rightarrow> g y)"
  by (cases x; simp)+

lemma steady_fold [steady_intros]:
  "steady L s t \<Longrightarrow> (\<And>x u. steady L s u \<Longrightarrow> steady L s (f x u)) \<Longrightarrow> steady L s (fold f xs t)"
  by (induction xs arbitrary: t) auto

lemma steady_for_peers [steady_intros]:
  "steady L s t \<Longrightarrow> (\<And>i u. steady L s u \<Longrightarrow> steady L s (f i u)) \<Longrightarrow> steady L s (for_peers f t)"
  unfolding for_peers_def by (rule steady_fold)

lemma steady_emit [steady_intros]: "steady L s t \<Longrightarrow> \<not> is_vote_send e \<Longrightarrow> steady L s (emit e t)"
  by (erule steady_quiet [rotated]) (intro quiet_intros; simp)

lemma steady_notify_cb [steady_intros]: "steady L s t \<Longrightarrow> steady L s (notify_cb ty i t)"
  by (erule steady_quiet [rotated]) (intro quiet_intros quiet_refl)

lemma steady_call_cb [steady_intros]: "steady L s t \<Longrightarrow> steady L s (snd (call_cb env ty i t))"
  by (erule steady_quiet [where env = env, rotated]) (intro quiet_intros quiet_refl)

lemma steady_upd_peer [steady_intros]: "steady L s t \<Longrightarrow> pkeep f \<Longrightarrow> steady L s (upd_peer i f t)"
  by (erule steady_quiet [rotated]) (intro quiet_intros quiet_refl)

lemma steady_at_peer [steady_intros]:
  "steady L s t \<Longrightarrow> pkeep (\<lambda>p. snd (g p)) \<Longrightarrow> steady L s (snd (at_peer i none g t))"
  by (erule steady_quiet [rotated]) (intro quiet_intros quiet_refl)

lemma steady_send_to [steady_intros]:
  "steady L s t \<Longrightarrow> rq_type r \<noteq> request_vote_request \<Longrightarrow> steady L s (send_to i r t)"
  by (erule steady_quiet [rotated]) (intro quiet_intros quiet_refl; simp)

lemma steady_request_append_entries_to [steady_intros]:
  "steady L s t \<Longrightarrow> steady L s (snd (request_append_entries_to env i t))"
  by (erule steady_quiet [where env = env, rotated]) (intro quiet_intros quiet_refl)

lemma steady_request_append_entries [steady_intros]:
  "steady L s t \<Longrightarrow> steady L s (request_append_entries env t)"
  by (erule steady_quiet [where env = env, rotated]) (intro quiet_intros quiet_refl)

lemma steady_commit [steady_intros]: "steady L s t \<Longrightarrow> steady L s (commit env n t)"
  by (erule steady_quiet [where env = env, rotated]) (intro quiet_intros quiet_refl)

lemma steady_reconnect_client [steady_intros]:
  "steady L s t \<Longrightarrow> steady L s (snd (reconnect_client env i t))"
  by (erule steady_quiet [where env = env, rotated]) (intro quiet_intros quiet_refl)

text \<open>Timers, logs and priorities.\<close>

lemma steady_restart_election_timer [steady_intros]:
  "steady L s t \<Longrightarrow> steady L s (restart_election_timer env t)"
  unfolding restart_election_timer_def Let_def by (intro steady_intros) simp_all

lemma steady_stop_election_timer [steady_intros]: "steady L s t \<Longrightarrow> steady L s (stop_election_timer t)"
  unfolding stop_election_timer_def by (intro steady_intros)

lemma steady_cancel_schedulers [steady_intros]: "steady L s t \<Longrightarrow> steady L s (cancel_schedulers t)"
  by (erule steady_trans)
    (auto simp: cancel_schedulers_def steady_def calm_def same_vote_def sv_term_def members_def no_rsv_def
      vote_sends_def peer_shutdown_def pview_def pe_id_def)

lemma steady_precommit [steady_intros]: "steady L s t \<Longrightarrow> steady L s (snd (try_update_precommit_index n t))"
  unfolding try_update_precommit_index_def by (intro steady_intros)

lemma steady_store_log_entry [steady_intros]: "steady L s t \<Longrightarrow> steady L s (snd (store_log_entry env e n t))"
  unfolding store_log_entry_def Let_def by (intro steady_intros) simp_all

lemma steady_decay [steady_intros]: "steady L s t \<Longrightarrow> steady L s (decay_target_priority env t)"
  unfolding decay_target_priority_def Let_def by (intro steady_intros)

lemma steady_update_target_priority [steady_intros]:
  "steady L s t \<Longrightarrow> steady L s (update_target_priority env t)"
  unfolding update_target_priority_def Let_def by (intro steady_intros)

lemma steady_drop_pending [steady_intros]: "steady L s t \<Longrightarrow> steady L s (drop_all_pending_commit_elems t)"
proof (erule steady_trans)
  have "filter is_vote_send (map (\<lambda>kc. Client_Result (fst kc) Result_CANCELLED) m) = []" for m
    by (induction m) auto
  then show "steady L t (drop_all_pending_commit_elems t)"
    by (simp add: drop_all_pending_commit_elems_def Let_def steady_def calm_def same_vote_def sv_term_def
        members_def no_rsv_def vote_sends_def)
qed

lemma steady_enable_hb [steady_intros]: "steady L s t \<Longrightarrow> steady L s (enable_hb_for_peer i t)"
  unfolding enable_hb_for_peer_def
  by (intro steady_intros) (simp_all add: pkeep_def peer_op_defs pview_def pe_id_def Let_def)

lemma steady_become_follower [steady_intros]: "steady L s t \<Longrightarrow> steady L s (become_follower env t)"
  unfolding become_follower_def Let_def
  by (intro steady_intros)
    (simp_all add: pkeep_def peer_op_defs pview_def pe_id_def Let_def)

lemma steady_upd_pre_vote [steady_intros]: "steady L s t \<Longrightarrow> steady L s (upd_pre_vote f t)"
  unfolding upd_pre_vote_def by (intro steady_intros)

text \<open>Leadership and pre-vote.\<close>

lemma vote_req_type [simp]: "rq_type (vote_req env ty dst s) = ty"
  by (simp add: vote_req_def new_req_msg_def)

lemma new_req_type [simp]: "rq_type (new_req_msg tm ty a b c d e) = ty"
  by (simp add: new_req_msg_def)

lemma pkeep_priority [simp]: "pkeep (\<lambda>p. p\<lparr>pe_config := (pe_config p)\<lparr>sc_priority := n\<rparr>\<rparr>)"
  by (simp add: pkeep_def pview_def pe_id_def)

lemma pkeep_more_fields [simp]:
  "pkeep (\<lambda>p. p\<lparr>pe_lost_by_leader := b\<rparr>)" "pkeep (\<lambda>p. p\<lparr>pe_sm_committed_idx := n\<rparr>)"
  "pkeep (\<lambda>p. p\<lparr>pe_next_batch_size_hint := k\<rparr>)" "pkeep (\<lambda>p. p\<lparr>pe_next_log_idx := n\<rparr>)"
  by (simp_all add: pkeep_def pview_def pe_id_def)

lemma steady_yield [steady_intros]: "steady L s t \<Longrightarrow> steady L s (yield_leadership env b i t)"
  unfolding yield_leadership_def Let_def case_prod_beta by (intro steady_intros)

lemma steady_take_leadership: "steady True s t \<Longrightarrow> steady True s (take_leadership env t)"
  unfolding take_leadership_def take_over_peer_def Let_def case_prod_beta
  by (intro steady_intros) (simp_all add: pkeep_def peer_op_defs pview_def pe_id_def Let_def)

lemma steady_become_leader: "steady True s t \<Longrightarrow> steady True s (become_leader env t)"
  unfolding become_leader_def Let_def by (intro steady_intros steady_take_leadership)

lemma steady_forget_leader [steady_intros]: "steady L s t \<Longrightarrow> steady L s (forget_leader t)"
  unfolding forget_leader_def by (intro steady_intros)

lemma steady_vote_grace [steady_intros]: "steady L s t \<Longrightarrow> steady L s (snd (vote_grace env b t))"
  unfolding vote_grace_def Let_def by (intro steady_intros)

lemma steady_prevote_reconnect [steady_intros]: "steady L s t \<Longrightarrow> steady L s (prevote_reconnect env i t)"
  unfolding prevote_reconnect_def Let_def by (intro steady_intros) simp_all

lemma steady_prevote_count_failure [steady_intros]: "steady L s t \<Longrightarrow> steady L s (prevote_count_failure t)"
  unfolding prevote_count_failure_def Let_def by (intro steady_intros)

lemma steady_prevote_adjust [steady_intros]: "steady L s t \<Longrightarrow> steady L s (prevote_adjust env t)"
  unfolding prevote_adjust_def Let_def case_prod_beta
  by (intro steady_intros) (simp_all add: call_cb_def)

lemma steady_send_prevote_req [steady_intros]: "steady L s t \<Longrightarrow> steady L s (send_prevote_req env i t)"
  unfolding send_prevote_req_def Let_def case_prod_beta by (intro steady_intros) simp_all

lemma steady_prevote_count_busy [steady_intros]: "steady L s t \<Longrightarrow> steady L s (prevote_count_busy env n t)"
  unfolding prevote_count_busy_def Let_def by (intro steady_intros) simp_all

lemma steady_request_prevote [steady_intros]: "steady L s t \<Longrightarrow> steady L s (request_prevote env t)"
  unfolding request_prevote_def Let_def by (intro steady_intros) simp_all

lemma steady_handle_prevote_req [steady_intros]: "steady L s t \<Longrightarrow> steady L s (snd (handle_prevote_req req t))"
  unfolding handle_prevote_req_def Let_def by (intro steady_intros)

lemma steady_send_reconnect_request [steady_intros]: "steady L s t \<Longrightarrow> steady L s (send_reconnect_request t)"
  unfolding send_reconnect_request_def Let_def case_prod_beta by (intro steady_intros) simp_all

lemma steady_handle_reconnect_req [steady_intros]:
  "steady L s t \<Longrightarrow> steady L s (snd (handle_reconnect_req env req t))"
  unfolding handle_reconnect_req_def Let_def by (intro steady_intros) simp_all

lemma steady_mark_lost [steady_intros]: "steady L s t \<Longrightarrow> steady L s (mark_lost env p t)"
  unfolding mark_lost_def Let_def case_prod_beta by (intro steady_intros) simp_all

lemma steady_check_leadership_validity [steady_intros]:
  "steady L s t \<Longrightarrow> steady L s (snd (check_leadership_validity env t))"
  unfolding check_leadership_validity_def Let_def by (intro steady_intros)

lemma steady_check_leadership_transfer [steady_intros]:
  "steady L s t \<Longrightarrow> steady L s (check_leadership_transfer env t)"
  unfolding check_leadership_transfer_def Let_def case_prod_beta by (intro steady_intros)

lemma steady_request_leadership [steady_intros]: "steady L s t \<Longrightarrow> steady L s (snd (request_leadership env t))"
  unfolding request_leadership_def Let_def by (intro steady_intros) simp_all

lemma steady_set_srv_priority [steady_intros]: "steady L s t \<Longrightarrow> steady L s (set_srv_priority i n t)"
  unfolding set_srv_priority_def by (intro steady_intros) simp_all

lemma steady_broadcast_priority [steady_intros]:
  "steady L s t \<Longrightarrow> steady L s (broadcast_priority_change env i n t)"
  unfolding broadcast_priority_change_def Let_def case_prod_beta by (intro steady_intros) simp_all

lemma steady_set_priority [steady_intros]: "steady L s t \<Longrightarrow> steady L s (snd (set_priority env i n b t))"
  unfolding set_priority_def Let_def case_prod_beta by (intro steady_intros)

lemma steady_handle_priority_change_req [steady_intros]:
  "steady L s t \<Longrightarrow> steady L s (snd (handle_priority_change_req req t))"
  unfolding handle_priority_change_req_def Let_def
  by (auto split: list.split sum.split intro!: steady_intros)

text \<open>Replication.\<close>

lemma steady_rollback_entry [steady_intros]: "steady L s t \<Longrightarrow> steady L s (rollback_entry i t)"
  unfolding rollback_entry_def by (intro steady_intros) simp_all

lemma steady_rollback_logs [steady_intros]: "steady L s t \<Longrightarrow> steady L s (rollback_logs i t)"
  unfolding rollback_logs_def Let_def by (intro steady_intros)

lemma steady_note_entry [steady_intros]: "steady L s t \<Longrightarrow> steady L s (note_entry i e t)"
  unfolding note_entry_def by (intro steady_intros) simp_all

lemma steady_overwrite_logs: "steady L s t \<Longrightarrow> steady L s (snd (snd (overwrite_logs env i es t)))"
proof (induction env i es t rule: overwrite_logs.induct)
  case (2 env i e es t)
  have "steady L s (note_entry i e (snd (store_log_entry env e i t)))"
    using 2(2) by (intro steady_intros)
  then show ?case using 2(1,2) by (simp add: Let_def)
qed simp

lemma steady_append_logs: "steady L s t \<Longrightarrow> steady L s (snd (append_logs env es t))"
proof (induction env es t rule: append_logs.induct)
  case (2 env e es t)
  obtain i u where u: "store_log_entry env e 0 t = (i, u)" by force
  have "steady L s (note_entry i e u)"
    using steady_note_entry [OF steady_store_log_entry [OF 2(2), of env e 0], of i e] u by simp
  then show ?case using 2(1) [OF u [symmetric], of i u] u by (simp add: Let_def)
qed simp

lemma steady_write_entries [steady_intros]: "steady L s t \<Longrightarrow> steady L s (snd (write_entries env n es t))"
  unfolding write_entries_def Let_def case_prod_beta
  by (intro steady_intros steady_append_logs steady_overwrite_logs) simp_all

lemma steady_clear_catching_up [steady_intros]: "steady L s t \<Longrightarrow> steady L s (clear_catching_up t)"
  unfolding clear_catching_up_def by (intro steady_intros) simp_all

lemma steady_finish_append [steady_intros]: "steady L s t \<Longrightarrow> steady L s (snd (finish_append env req resp t))"
  unfolding finish_append_def Let_def case_prod_beta by (intro steady_intros)

lemma steady_append_checked [steady_intros]: "steady L s t \<Longrightarrow> steady L s (snd (append_checked env req t))"
  unfolding append_checked_def Let_def case_prod_beta by (intro steady_intros)

lemma steady_handle_append_entries [steady_intros]:
  "steady L s t \<Longrightarrow> steady L s (snd (handle_append_entries env req t))"
  unfolding handle_append_entries_def Let_def case_prod_beta by (intro steady_intros)

lemma steady_track_sm_commit [steady_intros]: "steady L s t \<Longrightarrow> steady L s (track_sm_commit env resp n i t)"
  unfolding track_sm_commit_def update_sm_commit_notifier_target_idx_def Let_def
  by (intro steady_intros) simp_all

lemma steady_append_accepted [steady_intros]: "steady L s t \<Longrightarrow> steady L s (snd (append_accepted env resp i p t))"
  unfolding append_accepted_def Let_def
  by (intro steady_intros)
    (simp_all add: pkeep_def pview_def pe_id_def note_accept_def try_stream_def clear_pending_commit_def
      set_last_streamed_log_idx_def Let_def)

lemma steady_admit_joiner [steady_intros]: "steady L s t \<Longrightarrow> steady L s (admit_joiner env p t)"
  unfolding admit_joiner_def Let_def case_prod_beta by (intro steady_intros)

lemma steady_hand_over [steady_intros]: "steady L s t \<Longrightarrow> steady L s (hand_over env i p t)"
  unfolding hand_over_def Let_def by (intro steady_intros) simp_all

lemma steady_check_overall_status [steady_intros]: "steady L s t \<Longrightarrow> steady L s (check_overall_status env t)"
  unfolding check_overall_status_def Let_def case_prod_beta by (intro steady_intros)

lemma steady_after_append_resp [steady_intros]: "steady L s t \<Longrightarrow> steady L s (after_append_resp env resp b i t)"
  unfolding after_append_resp_def by (intro steady_intros)

lemma steady_leaving: "steady L s t \<Longrightarrow> sv_srv_to_leave t \<noteq> None \<Longrightarrow> steady L s u"
  by (auto simp: steady_def calm_def)

lemma steady_handle_append_entries_resp [steady_intros]:
  assumes "steady L s t"
  shows "steady L s (handle_append_entries_resp env resp t)"
proof (cases "sv_srv_to_leave t")
  case None
  then have "check_srv_to_leave_timeout env t = t" by (simp add: check_srv_to_leave_timeout_def)
  with None show ?thesis
    unfolding handle_append_entries_resp_def Let_def case_prod_beta
    by (intro steady_intros assms)
      (auto simp: pkeep_def pview_def pe_id_def rewind_peer_def peer_op_defs Let_def assms intro!: steady_intros)
qed (use assms steady_leaving in blast)

lemma steady_append_for_all [steady_intros]: "steady L s t \<Longrightarrow> steady L s (request_append_entries_for_all env t)"
  unfolding request_append_entries_for_all_def by (intro steady_intros) simp_all

lemma steady_store_cli: "steady L s (snd r) \<Longrightarrow> steady L s (snd (fold (store_cli_entry env) bs r))"
proof (induction bs arbitrary: r)
  case (Cons b bs)
  have "steady L s (snd (store_cli_entry env b r))"
    unfolding store_cli_entry_def Let_def case_prod_beta by (intro steady_intros Cons.prems) simp_all
  then show ?case using Cons.IH by simp
qed simp

lemma steady_handle_cli_req [steady_intros]: "steady L s t \<Longrightarrow> steady L s (snd (handle_cli_req env req n t))"
  unfolding handle_cli_req_def Let_def case_prod_beta
  by (intro steady_intros steady_store_cli) simp_all

lemma steady_handle_cli_req_prelock [steady_intros]:
  "steady L s t \<Longrightarrow> steady L s (snd (handle_cli_req_prelock env req n t))"
  unfolding handle_cli_req_prelock_def Let_def case_prod_beta by (intro steady_intros)

lemma steady_notify_log_append_completion [steady_intros]:
  "steady L s t \<Longrightarrow> steady L s (notify_log_append_completion env b t)"
  unfolding notify_log_append_completion_def Let_def by (intro steady_intros) simp_all

lemma steady_handle_resignation_request [steady_intros]:
  "steady L s t \<Longrightarrow> steady L s (snd (handle_resignation_request env req resp t))"
  unfolding handle_resignation_request_def by (intro steady_intros)

lemma steady_handle_custom_notification_resp [steady_intros]:
  "steady L s t \<Longrightarrow> steady L s (handle_custom_notification_resp resp t)"
  unfolding handle_custom_notification_resp_def by (intro steady_intros) simp_all

end
