(* ===== verification/Election.thy ===== *)
theory Election
  imports "HOL-Library.Multiset"
begin

text \<open>
  The voting protocol that the server's handlers implement, without their code: per server a term, a
  vote, a count of granted votes and whether it leads, and the vote requests and granted votes that
  are on their way. The vote history and the counted votes are ghosts: no step reads them. The result
  is that a term has at most one leader.
\<close>

subsection \<open>Quorums\<close>

text \<open>Sets of voters of which any two meet.\<close>

locale quorums =
  fixes quorum :: "'a set \<Rightarrow> bool"
  assumes quorum_meet: "quorum A \<Longrightarrow> quorum B \<Longrightarrow> A \<inter> B \<noteq> {}"
begin

lemma quorum_agree:
  assumes "quorum A" and "quorum B"
    and "\<And>x. x \<in> A \<Longrightarrow> f x = a" and "\<And>x. x \<in> B \<Longrightarrow> f x = b"
  shows "a = b"
  using quorum_meet [OF assms(1,2)] assms(3,4) by blast

end

definition majority :: "int set \<Rightarrow> int set \<Rightarrow> bool" where
  "majority N Q \<longleftrightarrow> finite N \<and> Q \<subseteq> N \<and> card N < 2 * card Q"

interpretation maj: quorums "majority N" for N
proof
  fix A B
  assume A: "majority N A" and B: "majority N B"
  then have "finite A" "finite B" "card (A \<union> B) \<le> card N"
    by (auto simp: majority_def intro: finite_subset card_mono)
  then show "A \<inter> B \<noteq> {}"
    using A B card_Un_disjoint [of A B] by (auto simp: majority_def)
qed

lemma majority_mono: "majority N A \<Longrightarrow> A \<subseteq> B \<Longrightarrow> B \<subseteq> N \<Longrightarrow> majority N B"
  using card_mono [of B A] finite_subset [of B N] by (fastforce simp: majority_def)

subsection \<open>The protocol\<close>

text \<open>
  A ballot is a term, a candidate and a voter. \<open>ac_reqs\<close> are the vote requests and \<open>ac_grants\<close> the
  granted votes on their way; \<open>ac_hist\<close> are all votes ever cast, \<open>ac_counted\<close> those that reached
  their candidate and \<open>ac_led\<close> all terms ever led.
\<close>

type_synonym ballot = "nat \<times> int \<times> int"

record acluster =
  ac_term :: "int \<Rightarrow> nat"
  ac_vote :: "int \<Rightarrow> int"
  ac_granted :: "int \<Rightarrow> int"
  ac_lead :: "int \<Rightarrow> bool"
  ac_reqs :: "ballot multiset"
  ac_grants :: "ballot multiset"
  ac_hist :: "ballot set"
  ac_counted :: "ballot set"
  ac_led :: "(nat \<times> int) set"

text \<open>A cluster starts with whatever terms and votes its servers have, and with no message on its way.\<close>

definition ac_init :: "(int \<Rightarrow> nat) \<Rightarrow> (int \<Rightarrow> int) \<Rightarrow> acluster" where
  "ac_init t v = \<lparr>ac_term = t, ac_vote = v, ac_granted = (\<lambda>_. 0), ac_lead = (\<lambda>_. False),
     ac_reqs = {#}, ac_grants = {#}, ac_hist = {}, ac_counted = {}, ac_led = {}\<rparr>"

text \<open>
  A server may stop leading (\<open>a_relax\<close>), restart from its durable term and vote (\<open>a_restart\<close>), move to a later term (\<open>a_bump\<close>), stand as a candidate in a later term with its own
  vote (\<open>a_campaign\<close>), grant a vote (\<open>a_grant\<close>), count one (\<open>a_count\<close>) or lead with the votes it has
  counted (\<open>a_lead\<close>). Messages can be lost.
\<close>

inductive astep :: "int set \<Rightarrow> acluster \<Rightarrow> acluster \<Rightarrow> bool" for N where
  a_relax: "(l \<Longrightarrow> ac_lead a i) \<Longrightarrow> astep N a (a\<lparr>ac_lead := (ac_lead a)(i := l)\<rparr>)"
| a_restart: "astep N a (a\<lparr>ac_granted := (ac_granted a)(i := 0), ac_lead := (ac_lead a)(i := False)\<rparr>)"
| a_bump: "ac_term a i < t \<Longrightarrow>
    astep N a (a\<lparr>ac_term := (ac_term a)(i := t), ac_vote := (ac_vote a)(i := -1),
      ac_granted := (ac_granted a)(i := 0), ac_lead := (ac_lead a)(i := False)\<rparr>)"
| a_campaign: "ac_term a i < t \<Longrightarrow> i \<in> N \<Longrightarrow> distinct vs \<Longrightarrow> set vs \<subseteq> N - {i} \<Longrightarrow> (l \<Longrightarrow> card N < 2) \<Longrightarrow>
    astep N a (a\<lparr>ac_term := (ac_term a)(i := t), ac_vote := (ac_vote a)(i := i),
      ac_granted := (ac_granted a)(i := 1), ac_lead := (ac_lead a)(i := l),
      ac_reqs := ac_reqs a + mset (map (\<lambda>v. (t, i, v)) vs),
      ac_hist := insert (t, i, i) (ac_hist a), ac_counted := insert (t, i, i) (ac_counted a),
      ac_led := (if l then insert (t, i) (ac_led a) else ac_led a)\<rparr>)"
| a_grant: "(ac_term a v, c, v) \<in># ac_reqs a \<Longrightarrow> ac_vote a v = -1 \<or> ac_vote a v = c \<Longrightarrow>
    astep N a (a\<lparr>ac_vote := (ac_vote a)(v := c), ac_reqs := ac_reqs a - {#(ac_term a v, c, v)#},
      ac_grants := add_mset (ac_term a v, c, v) (ac_grants a),
      ac_hist := insert (ac_term a v, c, v) (ac_hist a)\<rparr>)"
| a_count: "(ac_term a c, c, v) \<in># ac_grants a \<Longrightarrow>
    (l \<Longrightarrow> ac_lead a c \<or> int (card N) < 2 * (ac_granted a c + 1)) \<Longrightarrow>
    astep N a (a\<lparr>ac_granted := (ac_granted a)(c := ac_granted a c + 1), ac_lead := (ac_lead a)(c := l),
      ac_grants := ac_grants a - {#(ac_term a c, c, v)#},
      ac_counted := insert (ac_term a c, c, v) (ac_counted a),
      ac_led := (if l then insert (ac_term a c, c) (ac_led a) else ac_led a)\<rparr>)"
| a_lead: "c \<in> N \<Longrightarrow> int (card N) < 2 * ac_granted a c \<Longrightarrow>
    astep N a (a\<lparr>ac_lead := (ac_lead a)(c := True), ac_led := insert (ac_term a c, c) (ac_led a)\<rparr>)"
| a_lose_req: "astep N a (a\<lparr>ac_reqs := ac_reqs a - {#b#}\<rparr>)"
| a_lose_grant: "astep N a (a\<lparr>ac_grants := ac_grants a - {#b#}\<rparr>)"

subsection \<open>The invariant\<close>

definition voters :: "acluster \<Rightarrow> nat \<Rightarrow> int \<Rightarrow> int set" where
  "voters a t c = {v. (t, c, v) \<in> ac_counted a}"

definition tokens :: "acluster \<Rightarrow> ballot multiset" where
  "tokens a = ac_reqs a + ac_grants a"

definition hist_ok :: "acluster \<Rightarrow> bool" where
  "hist_ok a \<longleftrightarrow> (\<forall>t c v. (t, c, v) \<in> ac_hist a \<longrightarrow>
     c \<noteq> -1 \<and> t \<le> ac_term a v \<and> (t = ac_term a v \<longrightarrow> ac_vote a v = c) \<and>
     (\<forall>c'. (t, c', v) \<in> ac_hist a \<longrightarrow> c' = c))"

definition tokens_ok :: "int set \<Rightarrow> acluster \<Rightarrow> bool" where
  "tokens_ok N a \<longleftrightarrow> ac_counted a \<subseteq> ac_hist a \<and> set_mset (ac_grants a) \<subseteq> ac_hist a \<and>
     (\<forall>b. count (tokens a) b \<le> (if b \<in> ac_counted a then 0 else 1)) \<and>
     (\<forall>t c v. (t, c, v) \<in># tokens a \<or> (t, c, v) \<in> ac_counted a \<longrightarrow>
        t \<le> ac_term a c \<and> c \<noteq> -1 \<and> v \<in> N)"

definition counts_ok :: "int set \<Rightarrow> acluster \<Rightarrow> bool" where
  "counts_ok N a \<longleftrightarrow> (\<forall>c. ac_granted a c \<le> int (card (voters a (ac_term a c) c))) \<and>
     (\<forall>t c. (t, c) \<in> ac_led a \<longrightarrow> majority N (voters a t c)) \<and>
     (\<forall>c. ac_lead a c \<longrightarrow> (ac_term a c, c) \<in> ac_led a)"

definition ainv :: "int set \<Rightarrow> acluster \<Rightarrow> bool" where
  "ainv N a \<longleftrightarrow> hist_ok a \<and> tokens_ok N a \<and> counts_ok N a"

lemmas ainv_defs = ainv_def hist_ok_def tokens_ok_def counts_ok_def

lemma ainv_init: "ainv N (ac_init t v)"
  by (simp add: ainv_defs ac_init_def tokens_def voters_def)

text \<open>The votes of one term agree, so a term is led by at most one server.\<close>

lemma ainv_one_leader:
  assumes inv: "ainv N a" and "(t, c) \<in> ac_led a" and "(t, c') \<in> ac_led a"
  shows "c = c'"
proof (rule maj.quorum_agree [where f = "\<lambda>v. THE c. (t, c, v) \<in> ac_hist a"])
  show "majority N (voters a t c)" "majority N (voters a t c')"
    using assms by (simp_all add: ainv_def counts_ok_def)
  have "(t, d, v) \<in> ac_hist a" if "v \<in> voters a t d" for v d
    using that inv by (auto simp: ainv_defs voters_def)
  moreover have "e = d" if "(t, d, v) \<in> ac_hist a" "(t, e, v) \<in> ac_hist a" for v d e
    using that inv unfolding ainv_def hist_ok_def by blast
  ultimately have "(THE c. (t, c, v) \<in> ac_hist a) = d" if "v \<in> voters a t d" for v d
    using that by (intro the_equality) blast+
  then show "\<And>v. v \<in> voters a t c \<Longrightarrow> (THE c. (t, c, v) \<in> ac_hist a) = c"
    "\<And>v. v \<in> voters a t c' \<Longrightarrow> (THE c. (t, c, v) \<in> ac_hist a) = c'"
    by blast+
qed

lemma hist_okD:
  assumes "hist_ok a" and "(t, c, v) \<in> ac_hist a"
  shows "c \<noteq> -1" and "t \<le> ac_term a v" and "t = ac_term a v \<Longrightarrow> ac_vote a v = c"
    and "(t, c', v) \<in> ac_hist a \<Longrightarrow> c' = c"
  using assms unfolding hist_ok_def by blast+

lemma hist_okI:
  assumes "\<And>t c v. (t, c, v) \<in> ac_hist a \<Longrightarrow>
     c \<noteq> -1 \<and> t \<le> ac_term a v \<and> (t = ac_term a v \<longrightarrow> ac_vote a v = c)"
    and "\<And>t c c' v. (t, c, v) \<in> ac_hist a \<Longrightarrow> (t, c', v) \<in> ac_hist a \<Longrightarrow> c' = c"
  shows "hist_ok a"
  unfolding hist_ok_def using assms by blast

lemma hist_ok_same:
  "hist_ok a \<Longrightarrow> ac_hist b = ac_hist a \<Longrightarrow> ac_term b = ac_term a \<Longrightarrow> ac_vote b = ac_vote a \<Longrightarrow> hist_ok b"
  unfolding hist_ok_def by simp

text \<open>A vote is added for a voter that had not voted in that term, or had voted alike.\<close>

lemma hist_ok_insert:
  assumes h: "hist_ok a" and b: "ac_hist b = insert (t, c, v) (ac_hist a)"
      "ac_term b = (ac_term a)(v := t)" "ac_vote b = (ac_vote a)(v := c)"
    and t: "ac_term a v \<le> t" and c: "c \<noteq> -1" "ac_term a v = t \<Longrightarrow> ac_vote a v = -1 \<or> ac_vote a v = c"
  shows "hist_ok b"
proof (rule hist_okI)
  have same: "d = c" if "(t, d, v) \<in> ac_hist a" for d
    using hist_okD [OF h that] t c(2) by auto
  show "d \<noteq> -1 \<and> t' \<le> ac_term b w \<and> (t' = ac_term b w \<longrightarrow> ac_vote b w = d)"
    if "(t', d, w) \<in> ac_hist b" for t' d w
  proof (cases "(t', d, w) = (t, c, v)")
    case False
    then have old: "(t', d, w) \<in> ac_hist a" using that b(1) by blast
    then show ?thesis
      using hist_okD(1-3) [OF h old] same t unfolding b(2,3) by (cases "w = v") auto
  qed (simp add: b c)
  show "e = d" if "(t', d, w) \<in> ac_hist b" "(t', e, w) \<in> ac_hist b" for t' d e w
    using that hist_okD(4) [OF h] same unfolding b(1) by blast
qed

lemma hist_ok_step: "astep N a b \<Longrightarrow> ainv N a \<Longrightarrow> -1 \<notin> N \<Longrightarrow> hist_ok b"
proof (induction rule: astep.induct)
  case (a_bump a i t)
  then have h: "hist_ok a" by (simp add: ainv_def)
  show ?case (is "hist_ok ?b")
  proof (rule hist_okI)
    show "c \<noteq> -1 \<and> t' \<le> ac_term ?b v \<and> (t' = ac_term ?b v \<longrightarrow> ac_vote ?b v = c)"
      if "(t', c, v) \<in> ac_hist ?b" for t' c v
      using hist_okD(1-3) [OF h, of t' c v] that a_bump(1) by (cases "v = i") auto
    show "c' = c" if "(t', c, v) \<in> ac_hist ?b" "(t', c', v) \<in> ac_hist ?b" for t' c c' v
      using that hist_okD(4) [OF h] by simp
  qed
next
  case (a_campaign a i t vs l)
  show ?case
    by (rule hist_ok_insert [of a _ t i i]) (use a_campaign(1,2,6,7) in \<open>auto simp: ainv_def\<close>)
next
  case (a_grant a v c)
  have "c \<noteq> -1"
    using a_grant(1,3) by (auto simp: ainv_def tokens_ok_def tokens_def)
  show ?case
    by (rule hist_ok_insert [of a _ "ac_term a v" c v]) (use a_grant \<open>c \<noteq> -1\<close> in \<open>auto simp: ainv_def\<close>)
next
  case (a_relax l a i)
  show ?case by (rule hist_ok_same [of a]) (use a_relax in \<open>simp_all add: ainv_def\<close>)
next
  case (a_restart a i)
  show ?case by (rule hist_ok_same [of a]) (use a_restart in \<open>simp_all add: ainv_def\<close>)
next
  case (a_count a c v l)
  show ?case by (rule hist_ok_same [of a]) (use a_count in \<open>simp_all add: ainv_def\<close>)
next
  case (a_lead c a)
  show ?case by (rule hist_ok_same [of a]) (use a_lead in \<open>simp_all add: ainv_def\<close>)
next
  case (a_lose_req a b)
  show ?case by (rule hist_ok_same [of a]) (use a_lose_req in \<open>simp_all add: ainv_def\<close>)
next
  case (a_lose_grant a b)
  show ?case by (rule hist_ok_same [of a]) (use a_lose_grant in \<open>simp_all add: ainv_def\<close>)
qed

lemma count_campaign:
  "distinct vs \<Longrightarrow> count (mset (map (\<lambda>v. (t, i, v)) vs)) b = (if b \<in> (\<lambda>v. (t, i, v)) ` set vs then 1 else 0)"
  by (induction vs) auto

lemma tokens_ok_count: "tokens_ok N a \<Longrightarrow> count (tokens a) b \<le> (if b \<in> ac_counted a then 0 else 1)"
  unfolding tokens_ok_def by blast

lemma tokens_ok_range:
  "tokens_ok N a \<Longrightarrow> (t, c, v) \<in># tokens a \<or> (t, c, v) \<in> ac_counted a \<Longrightarrow>
   t \<le> ac_term a c \<and> c \<noteq> -1 \<and> v \<in> N"
  unfolding tokens_ok_def by blast

lemma counted_hist: "tokens_ok N a \<Longrightarrow> ac_counted a \<subseteq> ac_hist a"
  and grants_hist: "tokens_ok N a \<Longrightarrow> set_mset (ac_grants a) \<subseteq> ac_hist a"
  unfolding tokens_ok_def by blast+

lemma tokens_okI:
  assumes "ac_counted a \<subseteq> ac_hist a" and "set_mset (ac_grants a) \<subseteq> ac_hist a"
    and "\<And>b. count (tokens a) b \<le> (if b \<in> ac_counted a then 0 else 1)"
    and "\<And>t c v. (t, c, v) \<in># tokens a \<or> (t, c, v) \<in> ac_counted a \<Longrightarrow> t \<le> ac_term a c \<and> c \<noteq> -1 \<and> v \<in> N"
  shows "tokens_ok N a"
  using assms unfolding tokens_ok_def by blast

lemma tokens_ok_less:
  assumes "tokens_ok N a" and "\<And>x. count (tokens b) x \<le> count (tokens a) x"
    and "set_mset (ac_grants b) \<subseteq> ac_hist b" and "ac_counted b = ac_counted a" and "ac_hist a \<subseteq> ac_hist b"
    and "\<And>c. ac_term a c \<le> ac_term b c"
  shows "tokens_ok N b"
proof -
  have mem: "x \<in># tokens a" if "x \<in># tokens b" for x
    using assms(2) [of x] that by (metis count_eq_zero_iff le_zero_eq)
  have "count (tokens b) x \<le> (if x \<in> ac_counted b then 0 else 1)" for x
    using order_trans [OF assms(2) tokens_ok_count [OF assms(1)]] by (simp add: assms(4))
  moreover have "t \<le> ac_term b c \<and> c \<noteq> -1 \<and> v \<in> N"
    if "(t, c, v) \<in># tokens b \<or> (t, c, v) \<in> ac_counted b" for t c v
  proof -
    have "(t, c, v) \<in># tokens a \<or> (t, c, v) \<in> ac_counted a" using that mem assms(4) by blast
    then have "t \<le> ac_term a c \<and> c \<noteq> -1 \<and> v \<in> N" by (rule tokens_ok_range [OF assms(1)])
    then show ?thesis using assms(6) [of c] by simp
  qed
  moreover have "ac_counted b \<subseteq> ac_hist b"
    using assms(1,4,5) unfolding tokens_ok_def by blast
  ultimately show ?thesis
    using assms(3) unfolding tokens_ok_def by blast
qed

lemma campaign_tokens:
  assumes "tokens_ok N a" and "\<And>v. (t, i, v) \<notin># tokens a" and "distinct vs" and "i \<notin> set vs"
    and "\<And>v. (t, i, v) \<notin> ac_counted a"
  shows "count (tokens a + mset (map (\<lambda>v. (t, i, v)) vs)) x \<le> (if x = (t, i, i) \<or> x \<in> ac_counted a then 0 else 1)"
proof (cases "x \<in> (\<lambda>v. (t, i, v)) ` set vs")
  case True
  then have "count (tokens a) x = 0" "x \<noteq> (t, i, i)" "x \<notin> ac_counted a"
    using assms by (auto simp: count_eq_zero_iff)
  then show ?thesis using True by (simp only: count_union count_campaign [OF assms(3)]) simp
next
  case False
  have "count (tokens a) x \<le> (if x \<in> ac_counted a then 0 else 1)"
    using assms(1) unfolding tokens_ok_def by blast
  moreover have "count (tokens a) (t, i, i) = 0"
    using assms(2) by (simp add: count_eq_zero_iff)
  ultimately show ?thesis using False by (auto simp only: count_union count_campaign [OF assms(3)] split: if_splits)
qed

lemma tokens_ok_step: "astep N a b \<Longrightarrow> ainv N a \<Longrightarrow> -1 \<notin> N \<Longrightarrow> tokens_ok N b"
proof (induction rule: astep.induct)
  case (a_relax l a i)
  then have old: "tokens_ok N a" by (simp add: ainv_def)
  then show ?case
    by (rule tokens_ok_less) (use grants_hist [OF old] in \<open>auto simp: tokens_def\<close>)
next
  case (a_restart a i)
  then have old: "tokens_ok N a" by (simp add: ainv_def)
  then show ?case
    by (rule tokens_ok_less) (use grants_hist [OF old] in \<open>auto simp: tokens_def\<close>)
next
  case (a_bump a i t)
  then have old: "tokens_ok N a" by (simp add: ainv_def)
  then show ?case
    by (rule tokens_ok_less) (use a_bump(1) grants_hist [OF old] in \<open>auto simp: tokens_def\<close>)
next
  case (a_campaign a i t vs l)
  then have old: "tokens_ok N a" by (simp add: ainv_def)
  then have fresh: "(t, i, v) \<notin># tokens a \<and> (t, i, v) \<notin> ac_counted a" for v
    using a_campaign(1) unfolding tokens_ok_def by (meson not_le)
  show ?case (is "tokens_ok N ?b")
  proof -
    have tok: "tokens ?b = tokens a + mset (map (\<lambda>v. (t, i, v)) vs)"
      by (simp add: tokens_def)
    have "count (tokens ?b) x \<le> (if x \<in> ac_counted ?b then 0 else 1)" for x
    proof -
      have "i \<notin> set vs" using a_campaign(4) by blast
      then show ?thesis
        using campaign_tokens [OF old, of t i vs x] fresh a_campaign(3) unfolding tok by simp
    qed
    moreover have "t' \<le> ac_term ?b c \<and> c \<noteq> -1 \<and> v \<in> N"
      if "(t', c, v) \<in># tokens ?b \<or> (t', c, v) \<in> ac_counted ?b" for t' c v
      using that old a_campaign unfolding tok tokens_ok_def by fastforce
    moreover have "ac_counted ?b \<subseteq> ac_hist ?b" "set_mset (ac_grants ?b) \<subseteq> ac_hist ?b"
      using old by (auto simp: tokens_ok_def)
    ultimately show ?thesis by (simp add: tokens_ok_def)
  qed
next
  case (a_grant a v c)
  then have old: "tokens_ok N a" by (simp add: ainv_def)
  then show ?case
    by (rule tokens_ok_less) (use a_grant(1) grants_hist [OF old] in \<open>auto simp: tokens_def\<close>)
next
  case (a_count a c v l)
  then have old: "tokens_ok N a" by (simp add: ainv_def)
  let ?x = "(ac_term a c, c, v)"
  have mem: "?x \<in># tokens a" using a_count(1) by (simp add: tokens_def)
  moreover have "count (tokens a) ?x \<le> 1"
    using tokens_ok_count [OF old, of ?x] by (simp split: if_splits)
  ultimately have one: "count (tokens a) ?x = 1"
    by (metis count_eq_zero_iff le_neq_implies_less less_one)
  show ?case (is "tokens_ok N ?b")
  proof (rule tokens_okI)
    have tok: "tokens ?b = tokens a - {#?x#}" using a_count(1) by (simp add: tokens_def)
    show "count (tokens ?b) y \<le> (if y \<in> ac_counted ?b then 0 else 1)" for y
      using tokens_ok_count [OF old, of y] one unfolding tok by (cases "y = ?x") simp_all
    show "t \<le> ac_term ?b d \<and> d \<noteq> -1 \<and> w \<in> N"
      if "(t, d, w) \<in># tokens ?b \<or> (t, d, w) \<in> ac_counted ?b" for t d w
    proof -
      have "(t, d, w) \<in># tokens a \<or> (t, d, w) \<in> ac_counted a"
        using that mem in_diffD [of "(t, d, w)" "tokens a"] unfolding tok by auto
      then show ?thesis using tokens_ok_range [OF old] by simp
    qed
  qed (use grants_hist [OF old] counted_hist [OF old] a_count(1) in \<open>auto dest: in_diffD\<close>)
next
  case (a_lead c a)
  then have old: "tokens_ok N a" by (simp add: ainv_def)
  then show ?case
    by (rule tokens_ok_less) (use grants_hist [OF old] in \<open>auto simp: tokens_def\<close>)
next
  case (a_lose_req a b)
  then have old: "tokens_ok N a" by (simp add: ainv_def)
  then show ?case
    by (rule tokens_ok_less) (use grants_hist [OF old] in \<open>auto simp: tokens_def\<close>)
next
  case (a_lose_grant a b)
  then have old: "tokens_ok N a" by (simp add: ainv_def)
  then show ?case
    by (rule tokens_ok_less) (use grants_hist [OF old] in \<open>auto simp: tokens_def dest: in_diffD\<close>)
qed

lemma voters_subset: "tokens_ok N a \<Longrightarrow> voters a t c \<subseteq> N"
  by (auto simp: tokens_ok_def voters_def)

lemma counts_okI:
  assumes "\<And>c. ac_granted a c \<le> int (card (voters a (ac_term a c) c))"
    and "\<And>t c. (t, c) \<in> ac_led a \<Longrightarrow> majority N (voters a t c)"
    and "\<And>c. ac_lead a c \<Longrightarrow> (ac_term a c, c) \<in> ac_led a"
  shows "counts_ok N a"
  using assms by (simp add: counts_ok_def)

lemma counts_ok_same:
  assumes cnt: "counts_ok N a" and b: "ac_term b = ac_term a" "ac_counted b = ac_counted a" "ac_led b = ac_led a"
    and g: "\<And>c. ac_granted b c \<le> ac_granted a c" and l: "\<And>c. ac_lead b c \<Longrightarrow> ac_lead a c"
  shows "counts_ok N b"
proof (rule counts_okI)
  have v: "voters b t c = voters a t c" for t c by (simp add: voters_def b)
  show "ac_granted b c \<le> int (card (voters b (ac_term b c) c))" for c
    using cnt g [of c] order_trans unfolding counts_ok_def v b by blast
  show "majority N (voters b t c)" if "(t, c) \<in> ac_led b" for t c
    using cnt that unfolding counts_ok_def v b by blast
  show "(ac_term b c, c) \<in> ac_led b" if "ac_lead b c" for c
    using cnt l [OF that] unfolding counts_ok_def b by blast
qed

text \<open>Standing in a term that is new to the candidate: its own vote is the only counted one.\<close>

lemma counts_ok_campaign:
  assumes cnt: "counts_ok N a" and fresh: "\<And>v. (t, i, v) \<notin> ac_counted a"
    and b: "ac_term b = (ac_term a)(i := t)" "ac_granted b = (ac_granted a)(i := 1)"
      "ac_lead b = (ac_lead a)(i := l)" "ac_counted b = insert (t, i, i) (ac_counted a)"
      "ac_led b = (if l then insert (t, i) (ac_led a) else ac_led a)"
    and l: "l \<Longrightarrow> majority N {i}"
  shows "counts_ok N b"
proof (rule counts_okI)
  have own: "voters b t i = {i}" and none: "voters a t i = {}"
    and rest: "t' \<noteq> t \<or> c \<noteq> i \<Longrightarrow> voters b t' c = voters a t' c" for t' c
    using fresh b(4) by (auto simp: voters_def)
  show "ac_granted b c \<le> int (card (voters b (ac_term b c) c))" for c
    using cnt own rest [of "ac_term a c" c] by (cases "c = i") (simp_all add: b(1,2) counts_ok_def)
  show "majority N (voters b t' c)" if "(t', c) \<in> ac_led b" for t' c
  proof (cases "t' = t \<and> c = i")
    case True
    have "(t, i) \<notin> ac_led a" 
    proof
      assume "(t, i) \<in> ac_led a"
      then have "majority N (voters a t i)" using cnt unfolding counts_ok_def by blast
      then show False using none by (simp add: majority_def)
    qed
    then show ?thesis using True that l own by (auto simp: b(5) split: if_splits)
  next
    case False
    then show ?thesis using that cnt rest [of t' c] by (auto simp: b(5) counts_ok_def split: if_splits)
  qed
  show "(ac_term b c, c) \<in> ac_led b" if "ac_lead b c" for c
    using that cnt by (cases "c = i") (simp_all add: b counts_ok_def)
qed

text \<open>Counting a vote that was not counted before.\<close>

lemma counts_ok_count:
  assumes cnt: "counts_ok N a" and sub: "\<And>t c. voters a t c \<subseteq> N" and N: "finite N" "v \<in> N"
    and new: "(ac_term a c, c, v) \<notin> ac_counted a"
    and b: "ac_term b = ac_term a" "ac_granted b = (ac_granted a)(c := ac_granted a c + 1)"
      "ac_lead b = (ac_lead a)(c := l)" "ac_counted b = insert (ac_term a c, c, v) (ac_counted a)"
      "ac_led b = (if l then insert (ac_term a c, c) (ac_led a) else ac_led a)"
    and l: "l \<Longrightarrow> ac_lead a c \<or> int (card N) < 2 * (ac_granted a c + 1)"
  shows "counts_ok N b"
proof (rule counts_okI)
  let ?t = "ac_term a c"
  have own: "voters b ?t c = insert v (voters a ?t c)" and grow: "voters a t' d \<subseteq> voters b t' d"
    and rest: "t' \<noteq> ?t \<or> d \<noteq> c \<Longrightarrow> voters b t' d = voters a t' d" for t' d
    by (auto simp: voters_def b(4))
  have card: "card (voters b ?t c) = Suc (card (voters a ?t c))"
  proof -
    have "finite (voters a ?t c)" using sub N(1) by (rule finite_subset)
    moreover have "v \<notin> voters a ?t c" using new by (simp add: voters_def)
    ultimately show ?thesis unfolding own by simp
  qed
  have subb: "voters b t' d \<subseteq> N" for t' d
    using sub [of t' d] N(2) own rest [of t' d] by (cases "t' = ?t \<and> d = c") auto
  have own_le: "ac_granted a d \<le> int (card (voters a (ac_term a d) d))" for d
    using cnt by (simp add: counts_ok_def)
  have keep: "majority N (voters b t' d)" if "(t', d) \<in> ac_led a" for t' d
  proof -
    have "majority N (voters a t' d)" using cnt that by (simp add: counts_ok_def)
    then show ?thesis using grow subb by (rule majority_mono)
  qed
  show "ac_granted b d \<le> int (card (voters b (ac_term b d) d))" for d
    using own_le [of d] rest [of "ac_term a d" d] card by (cases "d = c") (simp_all add: b(1,2))
  show "majority N (voters b t' d)" if "(t', d) \<in> ac_led b" for t' d
  proof (cases "(t', d) \<in> ac_led a")
    case False
    then have "l" "t' = ?t" "d = c" using that by (auto simp: b(5) split: if_splits)
    moreover have "\<not> ac_lead a c" using False cnt calculation by (auto simp: counts_ok_def)
    ultimately show ?thesis using l own_le [of c] card subb N(1) by (simp add: majority_def)
  qed (rule keep)
  show "(ac_term b d, d) \<in> ac_led b" if "ac_lead b d" for d
    using that cnt by (cases "d = c") (simp_all add: b counts_ok_def)
qed

text \<open>A server that forgets the votes it counted.\<close>

lemma counts_ok_reset:
  assumes cnt: "counts_ok N a"
    and b: "ac_granted b = (ac_granted a)(i := 0)" "ac_lead b = (ac_lead a)(i := False)"
      "\<And>c. c \<noteq> i \<Longrightarrow> ac_term b c = ac_term a c" "ac_counted b = ac_counted a" "ac_led b = ac_led a"
  shows "counts_ok N b"
proof (rule counts_okI)
  have v: "voters b t c = voters a t c" for t c by (simp add: voters_def b)
  show "ac_granted b c \<le> int (card (voters b (ac_term b c) c))" for c
    using cnt b(3) [of c] unfolding counts_ok_def v b(1) by (cases "c = i") simp_all
  show "majority N (voters b t c)" if "(t, c) \<in> ac_led b" for t c
    using cnt that unfolding counts_ok_def v b by blast
  show "(ac_term b c, c) \<in> ac_led b" if "ac_lead b c" for c
    using cnt that b(3) [of c] unfolding counts_ok_def b(2,5) by (cases "c = i") simp_all
qed

lemma counts_ok_step: "astep N a b \<Longrightarrow> ainv N a \<Longrightarrow> -1 \<notin> N \<Longrightarrow> finite N \<Longrightarrow> counts_ok N b"
proof (induction rule: astep.induct)
  case (a_bump a i t)
  then have cnt: "counts_ok N a" by (simp add: ainv_def)
  then show ?case by (rule counts_ok_reset [where i = i]) simp_all
next
  case (a_restart a i)
  then have cnt: "counts_ok N a" by (simp add: ainv_def)
  then show ?case by (rule counts_ok_reset [where i = i]) simp_all
next
  case (a_campaign a i t vs l)
  show ?case
  proof (rule counts_ok_campaign)
    show "counts_ok N a" using a_campaign by (simp add: ainv_def)
    show "(t, i, v) \<notin> ac_counted a" for v
      using a_campaign(1,6) tokens_ok_range [of N a t i v] by (auto simp: ainv_def)
    show "l \<Longrightarrow> majority N {i}" using a_campaign by (simp add: majority_def)
  qed simp_all
next
  case (a_count a c v l)
  have tok: "tokens_ok N a" using a_count by (simp add: ainv_def)
  have mem: "(ac_term a c, c, v) \<in># tokens a"
    using a_count(1) by (simp add: tokens_def)
  then have vN: "v \<in> N" using tokens_ok_range [OF tok] by blast
  have new: "(ac_term a c, c, v) \<notin> ac_counted a"
    using tokens_ok_count [OF tok, of "(ac_term a c, c, v)"] mem
    by (metis count_eq_zero_iff le_zero_eq)
  show ?case
  proof (rule counts_ok_count)
    show "counts_ok N a" using a_count by (simp add: ainv_def)
    show "\<And>t c. voters a t c \<subseteq> N" using tok by (rule voters_subset)
    show "l \<Longrightarrow> ac_lead a c \<or> int (card N) < 2 * (ac_granted a c + 1)" by (rule a_count(2))
  qed (use new vN a_count(5) in simp_all)
next
  case (a_relax l a i)
  show ?case by (rule counts_ok_same [of N a]) (use a_relax in \<open>simp_all add: ainv_def split: if_splits\<close>)
next
  case (a_grant a v c)
  show ?case by (rule counts_ok_same [of N a]) (use a_grant in \<open>simp_all add: ainv_def\<close>)
next
  case (a_lead c a)
  then have cnt: "counts_ok N a" and sub: "voters a t d \<subseteq> N" for t d
    using voters_subset [of N a] by (auto simp: ainv_def)
  have "int (card N) < 2 * int (card (voters a (ac_term a c) c))"
    using cnt a_lead(2) unfolding counts_ok_def by (smt (verit))
  then have "majority N (voters a (ac_term a c) c)"
    using sub a_lead(5) by (simp add: majority_def)
  then show ?case
    using cnt by (auto simp: counts_ok_def voters_def)
next
  case (a_lose_req a b)
  show ?case by (rule counts_ok_same [of N a]) (use a_lose_req in \<open>simp_all add: ainv_def\<close>)
next
  case (a_lose_grant a b)
  show ?case by (rule counts_ok_same [of N a]) (use a_lose_grant in \<open>simp_all add: ainv_def\<close>)
qed

theorem ainv_step: "astep N a b \<Longrightarrow> ainv N a \<Longrightarrow> -1 \<notin> N \<Longrightarrow> finite N \<Longrightarrow> ainv N b"
  unfolding ainv_def [of N b] using hist_ok_step tokens_ok_step counts_ok_step by blast

lemma ainv_steps: "(astep N)\<^sup>*\<^sup>* a b \<Longrightarrow> ainv N a \<Longrightarrow> -1 \<notin> N \<Longrightarrow> finite N \<Longrightarrow> ainv N b"
  by (induction rule: rtranclp_induct) (blast intro: ainv_step)+

lemma led_step: "astep N a b \<Longrightarrow> ac_led a \<subseteq> ac_led b"
  by (induction rule: astep.induct) auto

lemma led_steps: "(astep N)\<^sup>*\<^sup>* a b \<Longrightarrow> ac_led a \<subseteq> ac_led b"
  by (induction rule: rtranclp_induct) (auto dest: led_step)

end
