(* ===== verification/Raft_Election.thy ===== *)
theory Raft_Election
  imports Raft_Steady Election
begin

text \<open>
  How the handlers treat a server's term, vote, count of votes and role. Most leave them alone (see
  \<^verbatim>\<open>Raft_Steady\<close>); the others move to a later term, stand for election, grant a vote or count one, as
  in the protocol of \<^verbatim>\<open>Election\<close>.
\<close>

subsection \<open>Members and quorums\<close>

text \<open>The servers \<open>N\<close> are the voting members: the peers of each are the others, none is a learner, joining or asked to leave, and no quorum size is set.\<close>

definition fits :: "int set \<Rightarrow> server \<Rightarrow> bool" where
  "fits N s \<longleftrightarrow> finite N \<and> sv_id s \<in> N \<and> \<not> sv_im_learner s \<and>
     p_custom_election_quorum_size (sv_params s) \<le> 0 \<and>
     distinct (map fst (members s)) \<and> fst ` set (members s) = N - {sv_id s} \<and>
     (\<forall>(k, i, l, j, d) \<in> set (members s). i = k \<and> \<not> l \<and> \<not> j \<and> \<not> d)"

definition stable :: "int set \<Rightarrow> server \<Rightarrow> bool" where
  "stable N s \<longleftrightarrow> calm s \<and> fits N s"

lemma members_keys: "map fst (members s) = map fst (sv_peers s)"
  by (simp add: members_def case_prod_beta)

lemma fits_peer:
  assumes "fits N s" and "(k, p) \<in> set (sv_peers s)"
  shows "pe_id p = k" and "\<not> sc_learner (pe_config p)" and "\<not> sc_new_joiner (pe_config p)" and "\<not> pe_leave_requested p"
proof -
  have "(k, pview p) \<in> set (members s)"
    using assms(2) by (force simp: members_def)
  then show "pe_id p = k" and "\<not> sc_learner (pe_config p)" and "\<not> sc_new_joiner (pe_config p)" and "\<not> pe_leave_requested p"
    using assms(1) by (auto simp: fits_def pview_def)
qed

lemma stable_regular:
  assumes "stable N s" and "(k, p) \<in> set (sv_peers s)"
  shows "is_regular_member s p"
  using assms fits_peer [of N s k p] by (simp add: stable_def calm_def is_regular_member_def)

lemma stable_num_voting:
  assumes "stable N s"
  shows "get_num_voting_members s = int (card N)"
proof -
  have f: "fits N s" using assms by (simp add: stable_def)
  have "regular_peers s = map snd (sv_peers s)"
    unfolding regular_peers_def using stable_regular [OF assms] by (intro filter_True) auto
  moreover have "length (sv_peers s) = card (N - {sv_id s})"
  proof -
    have "distinct (map fst (members s))" and k: "set (map fst (members s)) = N - {sv_id s}"
      using f by (simp_all add: fits_def)
    then have "card (N - {sv_id s}) = length (members s)"
      using distinct_card [of "map fst (members s)"] by (simp only: length_map)
    then show ?thesis by (simp add: members_def)
  qed
  moreover have "card N = Suc (card (N - {sv_id s}))"
    using f unfolding fits_def by (intro card.remove) simp_all
  moreover have "\<not> sv_im_learner s" using f by (simp add: fits_def)
  ultimately show ?thesis
    by (simp only: get_num_voting_members_def length_map if_False of_nat_Suc)
qed

lemma stable_quorum: "stable N s \<Longrightarrow> get_quorum_for_election s = int (card N) div 2"
  using stable_num_voting [of N s] by (simp add: get_quorum_for_election_def stable_def fits_def Let_def)

lemma fits_same: "same_vote s t \<Longrightarrow> fits N s \<Longrightarrow> fits N t"
  by (simp add: same_vote_def fits_def)

lemma steady_stable: "steady L s t \<Longrightarrow> stable N s \<Longrightarrow> stable N t \<and> same_vote s t"
  using fits_same by (auto simp: steady_def stable_def)

text \<open>The same, for what leaves the vote alone only while the membership is that of \<open>N\<close>.\<close>

definition holds :: "int set \<Rightarrow> server \<Rightarrow> server \<Rightarrow> bool" where
  "holds N s t \<longleftrightarrow>
     (stable N s \<longrightarrow> stable N t \<and> same_vote s t \<and> (sv_role t = leader \<longrightarrow> sv_role s = leader))"

lemma holds_refl [simp, intro]: "holds N s s"
  by (simp add: holds_def same_vote_def)

lemma holds_trans: "holds N s t \<Longrightarrow> holds N t u \<Longrightarrow> holds N s u"
  by (auto simp: holds_def same_vote_def)

lemma steady_holds: "steady False s t \<Longrightarrow> holds N s t"
  using steady_stable [of False s t N] by (auto simp: holds_def steady_def stable_def)

lemma holds_steady: "holds N s t \<Longrightarrow> steady False t u \<Longrightarrow> holds N s u"
  by (blast intro: holds_trans steady_holds)

subsection \<open>Changing the term\<close>

definition same_members :: "server \<Rightarrow> server \<Rightarrow> bool" where
  "same_members s t \<longleftrightarrow> sv_id t = sv_id s \<and> members t = members s \<and> sv_im_learner t = sv_im_learner s \<and>
     p_custom_election_quorum_size (sv_params t) = p_custom_election_quorum_size (sv_params s)"

definition bumped :: "nat \<Rightarrow> server \<Rightarrow> server \<Rightarrow> bool" where
  "bumped n s t \<longleftrightarrow> sv_term s < n \<and> (calm s \<longrightarrow> calm t \<and> same_members s t \<and> vote_sends t = vote_sends s \<and>
     sv_term t = n \<and> ss_voted_for (sv_state t) = -1 \<and> sv_votes_granted t = 0 \<and> sv_role t \<noteq> leader)"

lemma update_term_bumped:
  assumes "sv_term s < n"
  shows "bumped n s (snd (update_term env n s))"
proof -
  define u where "u = s\<lparr>sv_role := follower,
      sv_state := (sv_state s)\<lparr>ss_term := n, ss_voted_for := -1, ss_election_timer_allowed := True\<rparr>,
      sv_election_completed := False, sv_votes_granted := 0, sv_votes_responded := 0,
      sv_saved := (sv_state s)\<lparr>ss_term := n, ss_voted_for := -1, ss_election_timer_allowed := True\<rparr>\<rparr>"
  have "snd (update_term env n s) = become_follower env u"
    using assms by (simp add: update_term_def Let_def save_state_def set_sstate_def u_def)
  moreover have "steady False u (become_follower env u)"
    by (intro steady_intros steady_refl)
  moreover have "calm s \<Longrightarrow> calm u"
    by (simp add: u_def calm_def no_rsv_def)
  moreover have "members u = members s" "vote_sends u = vote_sends s" "sv_id u = sv_id s" "sv_role u = follower"
      "sv_im_learner u = sv_im_learner s" "sv_params u = sv_params s" "sv_term u = n"
      "ss_voted_for (sv_state u) = -1" "sv_votes_granted u = 0"
    by (simp_all add: u_def members_def vote_sends_def sv_term_def)
  ultimately show ?thesis
    using assms unfolding bumped_def steady_def same_vote_def same_members_def by auto
qed

lemma update_term_same: "\<not> sv_term s < n \<Longrightarrow> update_term env n s = (False, s)"
  by (simp add: update_term_def)

subsection \<open>Standing for election\<close>

definition ballot_of :: "effect \<Rightarrow> ballot" where
  "ballot_of e = (case e of Send r \<Rightarrow> (rq_term r, rq_src r, rq_dst r) | _ \<Rightarrow> (0, 0, 0))"

definition ballots :: "server \<Rightarrow> ballot list" where
  "ballots s = map ballot_of (vote_sends s)"

definition campaigned :: "int set \<Rightarrow> server \<Rightarrow> server \<Rightarrow> bool" where
  "campaigned N s t \<longleftrightarrow> (stable N s \<longrightarrow> calm t \<and> same_members s t \<and> sv_term s < sv_term t \<and>
     ss_voted_for (sv_state t) = sv_id s \<and> sv_votes_granted t = 1 \<and>
     (\<exists>vs. distinct vs \<and> set vs \<subseteq> N - {sv_id s} \<and>
        ballots t = ballots s @ map (\<lambda>v. (sv_term t, sv_id s, v)) vs) \<and>
     (sv_role t = leader \<longrightarrow> card N < 2))"

text \<open>A vote request to one peer.\<close>

definition polled :: "server \<Rightarrow> int list \<Rightarrow> server \<Rightarrow> bool" where
  "polled s vs t \<longleftrightarrow> calm t \<and> same_members s t \<and> sv_term t = sv_term s \<and>
     ss_voted_for (sv_state t) = ss_voted_for (sv_state s) \<and> sv_votes_granted t = sv_votes_granted s \<and>
     sv_role t = sv_role s \<and> ballots t = ballots s @ map (\<lambda>v. (sv_term s, sv_id s, v)) vs"

lemma quiet_role: "quiet env s t \<Longrightarrow> sv_role t = sv_role s"
  by (simp add: quiet_def rae_frame_fields(7))

lemma quiet_polled:
  assumes "polled s vs t" and q: "quiet env t u"
  shows "polled s vs u"
proof -
  have "same_vote t u" "calm u"
    using steady_quiet [OF q steady_refl, of False] assms(1) by (simp_all add: steady_def polled_def)
  then show ?thesis
    using assms(1) quiet_role [OF q] by (simp add: polled_def same_vote_def same_members_def ballots_def)
qed

lemma polled_send:
  assumes "polled s vs t" and "rq_type r = request_vote_request" and "rq_term r = sv_term s"
    and "rq_src r = sv_id s" and "rq_dst r = v"
  shows "polled s (vs @ [v]) (emit (Send r) t)"
  using assms
  by (simp add: polled_def emit_def ballots_def vote_sends_def ballot_of_def same_members_def calm_def
      no_rsv_def members_def sv_term_def)

lemma send_vote_req_polled:
  assumes "polled s vs t" and "fits N s"
  shows "polled s vs (send_vote_req env f k t) \<or> polled s (vs @ [k]) (send_vote_req env f k t)"
proof (cases "find_peer k t")
  case None
  then show ?thesis using assms by (simp add: send_vote_req_def)
next
  case (Some p)
  let ?r = "(vote_req env request_vote_request (pe_id p) t)\<lparr>rq_log_entries := (if f then [force_vote_entry] else [])\<rparr>"
  let ?u = "snd (at_peer k False make_busy t)"
  let ?w = "snd (at_peer k False (send_req ?r) ?u)"
  have "fits N t"
    using assms by (simp add: polled_def fits_def same_members_def)
  moreover have "(k, p) \<in> set (sv_peers t)"
    using Some by (simp add: find_peer_def om_find_def map_of_SomeD)
  ultimately have id: "pe_id p = k" by (rule fits_peer)
  have u: "polled s vs ?u"
    by (rule quiet_polled [OF assms(1), where env = env]) (intro quiet_intros quiet_refl, simp)
  have w: "polled s vs ?w"
    by (rule quiet_polled [OF u, where env = env]) (intro quiet_intros quiet_refl, simp)
  have "polled s (vs @ [k]) (emit (Send ?r) ?w)"
    using assms(1) id
    by (intro polled_send w) (simp_all add: vote_req_def new_req_msg_def polled_def same_members_def)
  with assms u w show ?thesis
    using Some by (simp add: send_vote_req_def send_to_def Let_def case_prod_beta)
qed

lemma send_vote_reqs_polled:
  assumes "polled s vs t" and "fits N s" and "distinct (vs @ ks)"
  shows "\<exists>ws. polled s ws (fold (send_vote_req env f) ks t) \<and> distinct ws \<and> set ws \<subseteq> set vs \<union> set ks"
  using assms(1,3)
proof (induction ks arbitrary: vs t)
  case (Cons k ks)
  from send_vote_req_polled [OF Cons.prems(1) assms(2), of env f k] show ?case
  proof
    assume "polled s vs (send_vote_req env f k t)"
    from Cons.IH [OF this] Cons.prems(2) show ?case by fastforce
  next
    assume "polled s (vs @ [k]) (send_vote_req env f k t)"
    from Cons.IH [OF this] Cons.prems(2) show ?case by fastforce
  qed
qed auto

text \<open>Voting for itself and asking the others.\<close>

definition own_vote :: "server \<Rightarrow> server" where
  "own_vote s = (save_state (set_sstate (\<lambda>st. st\<lparr>ss_voted_for := sv_id s\<rparr>) s))
     \<lparr>sv_votes_granted := sv_votes_granted s + 1, sv_votes_responded := sv_votes_responded s + 1\<rparr>"

lemma request_vote_own:
  "request_vote env f s =
     (if sv_votes_granted (own_vote s) > get_quorum_for_election (own_vote s)
      then become_leader env ((own_vote s)\<lparr>sv_election_completed := True\<rparr>)
      else for_peers (send_vote_req env f) (own_vote s))"
  by (simp add: request_vote_def own_vote_def Let_def save_state_def set_sstate_def)

lemma own_vote_fields [simp]:
  "sv_id (own_vote s) = sv_id s" "sv_term (own_vote s) = sv_term s" "sv_role (own_vote s) = sv_role s"
  "ss_voted_for (sv_state (own_vote s)) = sv_id s" "sv_votes_granted (own_vote s) = sv_votes_granted s + 1"
  "same_members s (own_vote s)" "vote_sends (own_vote s) = vote_sends s" "sv_peers (own_vote s) = sv_peers s"
  by (simp_all add: own_vote_def save_state_def set_sstate_def sv_term_def same_members_def members_def vote_sends_def)

lemma own_vote_calm:
  "sv_srv_to_leave s = None \<Longrightarrow> no_rsv s \<Longrightarrow> \<not> auto_adjust s \<Longrightarrow> calm (own_vote s)"
  by (simp add: own_vote_def save_state_def set_sstate_def calm_def no_rsv_def)

lemma fits_members: "same_members s t \<Longrightarrow> fits N s \<Longrightarrow> fits N t"
  by (simp add: same_members_def fits_def)

lemma same_members_trans: "same_members s t \<Longrightarrow> same_members t u \<Longrightarrow> same_members s u"
  by (simp add: same_members_def)

lemma same_vote_members: "same_vote s t \<Longrightarrow> same_members s t"
  by (simp add: same_vote_def same_members_def)

lemma request_vote_campaign:
  assumes "sv_srv_to_leave s = None" "no_rsv s" "\<not> auto_adjust s" and fits: "fits N s"
    and "sv_votes_granted s = 0" "sv_role s \<noteq> leader"
    and t_def: "t = request_vote env f s"
  shows "calm t \<and> same_members s t \<and> sv_term t = sv_term s \<and> ss_voted_for (sv_state t) = sv_id s \<and>
    sv_votes_granted t = 1 \<and>
    (\<exists>vs. distinct vs \<and> set vs \<subseteq> N - {sv_id s} \<and> ballots t = ballots s @ map (\<lambda>v. (sv_term s, sv_id s, v)) vs) \<and>
    (sv_role t = leader \<longrightarrow> card N < 2)"
proof -
  let ?u = "own_vote s"
  have calm: "calm ?u" using assms(1-3) by (rule own_vote_calm)
  have fu: "fits N ?u" using fits_members [OF own_vote_fields(6) fits] .
  have q: "get_quorum_for_election ?u = int (card N) div 2"
    using calm fu by (intro stable_quorum) (simp add: stable_def)
  have b: "ballots ?u = ballots s" by (simp add: ballots_def)
  show ?thesis
  proof (cases "sv_votes_granted ?u > get_quorum_for_election ?u")
    case True
    then have small: "card N < 2" using q assms(5) by simp
    have "t = become_leader env (?u\<lparr>sv_election_completed := True\<rparr>)"
      using True by (simp add: t_def request_vote_own)
    moreover have "steady True ?u (become_leader env (?u\<lparr>sv_election_completed := True\<rparr>))"
      by (intro steady_become_leader steady_fields steady_refl)
    ultimately have "calm t" "same_vote ?u t" using calm by (simp_all add: steady_def)
    then show ?thesis
      using small assms(5) own_vote_fields(6) [of s]
      by (auto simp: same_vote_def same_members_def ballots_def)
  next
    case False
    have "polled ?u [] ?u" using calm by (simp add: polled_def same_members_def)
    from send_vote_reqs_polled [OF this fu, of "map fst (sv_peers s)" env f]
    obtain vs where vs: "polled ?u vs t" "distinct vs" "set vs \<subseteq> set (map fst (sv_peers s))"
      using False fits members_keys [of s] by (auto simp: t_def request_vote_own for_peers_def fits_def)
    moreover have "set (map fst (sv_peers s)) = N - {sv_id s}"
      using fits members_keys [of s] by (metis fits_def list.set_map)
    ultimately show ?thesis
      using assms(5,6) b own_vote_fields(6) [of s]
      by (auto simp: polled_def same_members_def)
  qed
qed

text \<open>An election attempt either leaves the vote alone or is a campaign in a later term.\<close>

lemma inc_term_larger:
  assumes "inc_term st = (Inr x, st')" and "ss_term st + 1 < 2 ^ 64"
  shows "ss_term st < ss_term st'"
  using assms by (auto simp: inc_term_def add64_def Let_def split: option.splits if_splits)

lemma forget_leader_steady: "steady False s (forget_leader s)"
  by (intro steady_intros steady_refl)

lemma initiate_vote_cases:
  assumes "sv_term s + 1 < 2 ^ 64"
  shows "steady False s (initiate_vote env f s) \<or> campaigned N s (initiate_vote env f s)"
proof -
  obtain held u where g: "vote_grace env f s = (held, u)" by force
  have u: "steady False s u"
    using steady_vote_grace [OF steady_refl, of False s env f] g by simp
  have state: "sv_state u = sv_state s"
    using g by (auto simp: vote_grace_def Let_def split: if_splits)
  show ?thesis
  proof (cases "held \<or> \<not> (sv_my_priority u \<ge> sv_target_priority u \<or> f \<or> check_cond_for_zp_election env u \<or>
                 get_quorum_for_election u = 0 \<and> sv_my_priority u > 0)")
    case True
    then have "initiate_vote env f s = u \<or> initiate_vote env f s = forget_leader u"
      using g by (auto simp: initiate_vote_def)
    then show ?thesis using u steady_trans [OF u forget_leader_steady] by auto
  next
    case go: False
    obtain r st where inc: "inc_term (sv_state u) = (r, st)" by force
    show ?thesis
    proof (cases r)
      case (Inl e)
      then have "initiate_vote env f s = u\<lparr>sv_exited := True\<rparr>"
        using g go inc by (simp add: initiate_vote_def)
      then show ?thesis using steady_fields [OF u] by simp
    next
      case (Inr x)
      define w where "w = u\<lparr>sv_state := st\<lparr>ss_voted_for := -1\<rparr>, sv_role := candidate,
                     sv_index_at_becoming_leader := 0, sv_votes_granted := 0,
                     sv_votes_responded := 0, sv_election_completed := False\<rparr>"
      have iv: "initiate_vote env f s = forget_leader (request_vote env f w)"
        using g go inc Inr by (simp add: initiate_vote_def w_def)
      have w: "members w = members u" "sv_id w = sv_id u" "sv_im_learner w = sv_im_learner u" "sv_params w = sv_params u"
        "vote_sends w = vote_sends u" "sv_term w = ss_term st" "sv_srv_to_leave w = sv_srv_to_leave u" "no_rsv w = no_rsv u"
        "sv_votes_granted w = 0" "sv_role w \<noteq> leader"
        by (simp_all add: w_def members_def vote_sends_def sv_term_def no_rsv_def)
      have lt: "sv_term s < sv_term w"
        using inc_term_larger [of "sv_state u" x st] inc Inr assms state w(6) by (simp add: sv_term_def)
      have "campaigned N s (forget_leader (request_vote env f w))"
        unfolding campaigned_def
      proof
        assume "stable N s"
        then have su: "stable N u" "same_vote s u" using steady_stable [OF u] by blast+
        have "same_members u w" using w by (simp add: same_members_def)
        with su have "fits N w" "same_members s w"
          using fits_members [of u w] same_members_trans [OF same_vote_members] unfolding stable_def by blast+
        then have rv: "calm (request_vote env f w) \<and> same_members w (request_vote env f w) \<and>
            sv_term (request_vote env f w) = sv_term w \<and> ss_voted_for (sv_state (request_vote env f w)) = sv_id w \<and>
            sv_votes_granted (request_vote env f w) = 1 \<and>
            (\<exists>vs. distinct vs \<and> set vs \<subseteq> N - {sv_id w} \<and>
               ballots (request_vote env f w) = ballots w @ map (\<lambda>v. (sv_term w, sv_id w, v)) vs) \<and>
            (sv_role (request_vote env f w) = leader \<longrightarrow> card N < 2)"
          using w su(1) by (intro request_vote_campaign [OF _ _ _ _ _ _ refl]) (auto simp: stable_def calm_def)
        let ?r = "request_vote env f w"
        have fl: "calm (forget_leader ?r)" "same_vote ?r (forget_leader ?r)"
            "sv_role (forget_leader ?r) = leader \<longrightarrow> sv_role ?r = leader"
          using forget_leader_steady [of ?r] rv by (simp_all add: steady_def)
        have "ballots w = ballots s" "sv_id w = sv_id s"
          using w(2,5) su(2) by (simp_all add: ballots_def same_vote_def)
        moreover have "ballots (forget_leader ?r) = ballots ?r"
          using fl(2) by (simp add: ballots_def same_vote_def)
        ultimately show "calm (forget_leader ?r) \<and> same_members s (forget_leader ?r) \<and> sv_term s < sv_term (forget_leader ?r) \<and>
            ss_voted_for (sv_state (forget_leader ?r)) = sv_id s \<and> sv_votes_granted (forget_leader ?r) = 1 \<and>
            (\<exists>vs. distinct vs \<and> set vs \<subseteq> N - {sv_id s} \<and>
               ballots (forget_leader ?r) = ballots s @ map (\<lambda>v. (sv_term (forget_leader ?r), sv_id s, v)) vs) \<and>
            (sv_role (forget_leader ?r) = leader \<longrightarrow> card N < 2)"
          using rv fl lt \<open>same_members s w\<close> by (auto simp: same_vote_def same_members_def)
      qed
      then show ?thesis by (simp add: iv)
    qed
  qed
qed

subsection \<open>Sequences of moves\<close>

text \<open>What a server does to its own vote without taking part in an exchange of vote messages.\<close>

inductive drift :: "int set \<Rightarrow> server \<Rightarrow> server \<Rightarrow> bool" for N s where
  drift_refl: "drift N s s"
| drift_holds: "drift N s t \<Longrightarrow> holds N t u \<Longrightarrow> drift N s u"
| drift_bumped: "drift N s t \<Longrightarrow> bumped n t u \<Longrightarrow> drift N s u"
| drift_campaigned: "drift N s t \<Longrightarrow> campaigned N t u \<Longrightarrow> drift N s u"

lemma drift_steady: "drift N s t \<Longrightarrow> steady False t u \<Longrightarrow> drift N s u"
  by (blast intro: drift_holds steady_holds)

lemma steady_drift: "steady False s t \<Longrightarrow> drift N s t"
  by (rule drift_steady [OF drift_refl])

lemma initiate_vote_drift:
  "drift N s t \<Longrightarrow> sv_term t + 1 < 2 ^ 64 \<Longrightarrow> drift N s (initiate_vote env f t)"
  using initiate_vote_cases [of t env f N] by (blast intro: drift_steady drift_campaigned)

lemma update_term_drift: "drift N s t \<Longrightarrow> drift N s (snd (update_term env n t))"
  using update_term_bumped [of t n env] update_term_same [of t n env]
  by (cases "sv_term t < n") (auto intro: drift_bumped)

lemma handle_prevote_resp_drift:
  assumes "sv_term s + 1 < 2 ^ 64"
  shows "drift N s (handle_prevote_resp env resp s)"
proof (cases "rs_term resp = pv_term (sv_pre_vote s)")
  case False
  then show ?thesis by (simp add: handle_prevote_resp_def drift_refl)
next
  case True
  let ?s1 = "upd_pre_vote (count_prevote resp) s"
  let ?q = "get_quorum_for_election ?s1 + 1"
  let ?iv = "initiate_vote env False (upd_pre_vote (\<lambda>v. v\<lparr>pv_done := True\<rparr>) ?s1)"
  let ?s2 = "if pv_dead (sv_pre_vote ?s1) \<ge> ?q \<and> \<not> pv_done (sv_pre_vote ?s1)
                 then if sv_role ?iv \<noteq> leader then restart_election_timer env ?iv else ?iv
                 else ?s1"
  have pv: "drift N s ?s1" "drift N s (upd_pre_vote (\<lambda>v. v\<lparr>pv_done := True\<rparr>) ?s1)"
    by (rule steady_drift, intro steady_intros steady_refl)+
  have "drift N s ?iv"
    using assms by (intro initiate_vote_drift pv) (simp add: upd_pre_vote_def sv_term_def)
  moreover have "steady False ?iv (restart_election_timer env ?iv)"
    by (intro steady_intros steady_refl)
  ultimately have s2: "drift N s ?s2"
    using pv by (auto intro: drift_steady)
  have "steady False ?s2 (handle_prevote_resp env resp s)"
    using True unfolding handle_prevote_resp_def Let_def
    by (simp only: if_False simp_thms not_True_eq_False) (intro steady_intros steady_refl)
  with s2 show ?thesis by (rule drift_steady)
qed

lemma run_election_drift:
  assumes "sv_term s + 1 < 2 ^ 64"
  shows "drift N s (run_election env s)"
proof -
  let ?a = "if \<not> sv_hb_alive s then decay_target_priority env s else s"
  let ?b = "if pv_term (sv_pre_vote ?a) \<noteq> sv_term ?a then upd_pre_vote (pre_vote_reset (sv_term ?a)) ?a else ?a"
  have b: "steady False s ?b" by (intro steady_intros steady_refl)
  have "sv_term ?b + 1 < 2 ^ 64"
    using assms by (simp add: upd_pre_vote_def decay_target_priority_def Let_def sv_term_def)
  then have "drift N s (initiate_vote env False ?b)"
    by (rule initiate_vote_drift [OF steady_drift [OF b]])
  moreover have "drift N s (request_prevote env ?b)"
    by (rule steady_drift) (intro steady_request_prevote b)
  ultimately show ?thesis by (simp add: run_election_def Let_def)
qed

lemma handle_election_timeout_drift:
  assumes "sv_term s + 1 < 2 ^ 64"
  shows "drift N s (handle_election_timeout env s)"
proof -
  let ?e = "if \<not> sv_im_learner s then run_election env s else s"
  have "drift N s ?e" using run_election_drift [OF assms] drift_refl by simp
  moreover have "steady False ?e (restart_election_timer env ?e)"
    by (intro steady_intros steady_refl)
  ultimately have e: "drift N s (if sv_role ?e \<noteq> leader then restart_election_timer env ?e else ?e)"
    by (auto intro: drift_steady)
  have "steady False s (if sv_steps_to_down s - 1 = 0
      then cancel_schedulers (save_state (set_sstate (\<lambda>st. st\<lparr>ss_election_timer_allowed := False\<rparr>)
             (s\<lparr>sv_steps_to_down := sv_steps_to_down s - 1\<rparr>)))
      else restart_election_timer env (s\<lparr>sv_steps_to_down := sv_steps_to_down s - 1\<rparr>))"
    by (intro steady_intros steady_refl) simp_all
  moreover have "steady False s (restart_election_timer env s)"
    "steady False s (restart_election_timer env (s\<lparr>sv_et_cnt_receiving_snapshot := sv_et_cnt_receiving_snapshot s + 1\<rparr>))"
    by (intro steady_intros steady_refl)+
  ultimately show ?thesis
    using e unfolding handle_election_timeout_def Let_def
    by (simp add: steady_drift drift_refl)
qed

lemma handle_leadership_takeover_drift:
  assumes "sv_term s + 1 < 2 ^ 64"
  shows "drift N s (snd (handle_leadership_takeover env resp s))"
proof -
  let ?e = "initiate_vote env True s"
  have "drift N s ?e" using drift_refl assms by (rule initiate_vote_drift)
  moreover have "steady False ?e (restart_election_timer env ?e)"
    by (intro steady_intros steady_refl)
  ultimately show ?thesis
    by (auto simp: handle_leadership_takeover_def Let_def drift_refl intro: drift_steady)
qed

lemma handle_out_of_log_msg_drift: "drift N s (snd (handle_out_of_log_msg env req msg resp s))"
proof -
  let ?u = "snd (update_term env (rq_term req) s)"
  have "drift N s ?u" by (intro update_term_drift drift_refl)
  moreover have "steady False ?u (snd (handle_out_of_log_msg env req msg resp s))"
    unfolding handle_out_of_log_msg_def Let_def
    by (auto split: option.split sum.split intro!: steady_intros steady_refl)
  ultimately show ?thesis by (rule drift_steady)
qed

lemma handle_custom_notification_req_drift:
  assumes "sv_term s + 1 < 2 ^ 64"
  shows "drift N s (snd (handle_custom_notification_req env req s))"
proof -
  have "drift N s (snd (handle_resignation_request env req resp s))" for resp
    by (rule steady_drift) (intro steady_intros steady_refl)
  then have "drift N s (snd (case d of Inl _ \<Rightarrow> (None, s)
       | Inr msg \<Rightarrow>
           if cn_type msg = out_of_log_range_warning then handle_out_of_log_msg env req msg resp s
           else if cn_type msg = leadership_takeover then handle_leadership_takeover env resp s
           else if cn_type msg = request_resignation then handle_resignation_request env req resp s
           else (Some resp, s)))" for d resp
    using handle_leadership_takeover_drift [OF assms] handle_out_of_log_msg_drift drift_refl
    by (simp split: sum.split)
  then show ?thesis
    unfolding handle_custom_notification_req_def Let_def
    by (cases "rq_log_entries req"; cases "re_body (hd (rq_log_entries req))")
      (simp_all del: body_bytes.simps add: drift_refl)
qed

end
