(* ===== verification/Raft_Member.thy ===== *)
theory Raft_Member
  imports Raft_Append
begin

text \<open>
  Changes of membership: applying a configuration (\<^verbatim>\<open>reconfigure\<close> of \<^verbatim>\<open>handle_commit.cc\<close>), adding,
  inviting and removing servers and copying the log to a joining server (\<^verbatim>\<open>handle_join_leave.cc\<close>), and
  installing snapshots (\<^verbatim>\<open>handle_snapshot_sync.cc\<close>).

  The joining server is a peer object outside \<open>sv_peers\<close>. Operations that work on any peer are run on it
  by \<open>on_joiner\<close>, which shows them the joining server as the only peer and puts the peers back.
\<close>

subsection \<open>The joining server\<close>

definition on_joiner :: "'a \<Rightarrow> (int \<Rightarrow> server \<Rightarrow> 'a \<times> server) \<Rightarrow> server \<Rightarrow> 'a \<times> server" where
  "on_joiner none f s =
     (case sv_srv_to_join s of
        None \<Rightarrow> (none, s\<lparr>sv_exited := True\<rparr>)
      | Some p \<Rightarrow>
          let (x, t) = f (pe_id p) (s\<lparr>sv_peers := [(pe_id p, p)]\<rparr>)
          in (x, t\<lparr>sv_peers := sv_peers s, sv_srv_to_join := find_peer (pe_id p) t\<rparr>))"

definition upd_joiner :: "(peer \<Rightarrow> peer) \<Rightarrow> server \<Rightarrow> server" where
  "upd_joiner f s = s\<lparr>sv_srv_to_join := map_option f (sv_srv_to_join s)\<rparr>"

text \<open>The code dereferences the joining server without looking; there has to be one.\<close>

definition reset_srv_to_join :: "server \<Rightarrow> server" where
  "reset_srv_to_join s =
     (case sv_srv_to_join s of None \<Rightarrow> s\<lparr>sv_exited := True\<rparr> | Some _ \<Rightarrow> s\<lparr>sv_srv_to_join := None\<rparr>)"

definition save_config :: "cluster_config \<Rightarrow> server \<Rightarrow> server" where
  "save_config c s = (emit (Save_Config c) s)\<lparr>sv_saved_config := c\<rparr>"

subsection \<open>Applying a configuration\<close>

definition note_own_config :: "renv \<Rightarrow> srv_config \<Rightarrow> server \<Rightarrow> server" where
  "note_own_config env srv s =
     (if sc_id srv \<noteq> sv_id s then s
      else
        let s = s\<lparr>sv_my_priority := sc_priority srv, sv_im_learner := sc_learner srv, sv_steps_to_down := 0\<rparr>
        in if \<not> sc_new_joiner srv \<and> sv_role s = follower \<and> ss_catching_up (sv_state s)
           then restart_election_timer env (save_state (set_sstate (\<lambda>st. st\<lparr>ss_catching_up := False\<rparr>) s))
           else s)"

text \<open>
  A new peer is set up before it enters the peers here, and after in the code; a second entry of the
  same id does not enter them either way.
\<close>

definition add_config_peer :: "renv \<Rightarrow> srv_config \<Rightarrow> server \<Rightarrow> server" where
  "add_config_peer env srv s =
     (let p = (new_peer (ev_now env) (ev_new_rpc env) (sv_params s) srv)\<lparr>pe_next_log_idx := rl_next (sv_log s)\<rparr>
      in if sv_role s = leader
         then
           let p = resume_hb_speed (enable_hb True (p\<lparr>pe_suppress_following_error := True\<rparr>));
               p = (if sv_stopping s then p else p\<lparr>pe_hb_task := Some (pe_current_hb_interval p)\<rparr>)
           in case sv_srv_to_join s of
                Some j \<Rightarrow>
                  if pe_id j = pe_id p
                  then s\<lparr>sv_srv_to_join := None,
                         sv_peers := insert_peer (sc_id srv) (p\<lparr>pe_next_log_idx := pe_next_log_idx j\<rparr>) (sv_peers s)\<rparr>
                  else s\<lparr>sv_peers := insert_peer (sc_id srv) p (sv_peers s)\<rparr>
              | None \<Rightarrow> s\<lparr>sv_peers := insert_peer (sc_id srv) p (sv_peers s)\<rparr>
         else s\<lparr>sv_peers := insert_peer (sc_id srv) p (sv_peers s)\<rparr>)"

definition remove_config_peer :: "int \<Rightarrow> server \<Rightarrow> server" where
  "remove_config_peer i s =
     (let s = (if i = sv_id s \<and> \<not> ss_catching_up (sv_state s)
               then (notify_cb RemovedFromCluster (-1) s)\<lparr>sv_steps_to_down := 2\<rparr> else s)
      in if find_peer i s = None then s
         else case sv_srv_to_leave s of
                Some j \<Rightarrow> if sv_role s = leader then upd_peer j clear_snapshot_sync_ctx s else remove_peer_from_peers i s
              | None \<Rightarrow> remove_peer_from_peers i s)"

definition set_peer_config :: "srv_config \<Rightarrow> server \<Rightarrow> server" where
  "set_peer_config srv s =
     s\<lparr>sv_peers := map (\<lambda>(k, p). (k, if pe_id p = sc_id srv then p\<lparr>pe_config := srv\<rparr> else p)) (sv_peers s)\<rparr>"

definition srvs_added :: "cluster_config \<Rightarrow> server \<Rightarrow> srv_config list" where
  "srvs_added c s = filter (\<lambda>srv. find_peer (sc_id srv) s = None \<and> sv_id s \<noteq> sc_id srv) (cc_servers c)"

definition srvs_removed :: "cluster_config \<Rightarrow> server \<Rightarrow> int list" where
  "srvs_removed c s =
     filter (\<lambda>i. get_server i c = None) (map fst (sv_peers s)) @ (if get_server (sv_id s) c = None then [sv_id s] else [])"

definition reconfigure :: "renv \<Rightarrow> cluster_config \<Rightarrow> server \<Rightarrow> server" where
  "reconfigure env c s =
     (let invoke_join_cb = (get_server (sv_id s) (sv_config s) = None \<and> get_server (sv_id s) c \<noteq> None);
          added = srvs_added c s; removed = srvs_removed c s;
          s = fold (note_own_config env) (cc_servers c) s;
          s = fold (add_config_peer env) added s;
          s = fold remove_config_peer removed s;
          s = s\<lparr>sv_config := c\<rparr>;
          s = (case sv_uncommitted_config s of
                 Some u \<Rightarrow> if cc_log_idx u = cc_log_idx c then s\<lparr>sv_uncommitted_config := None\<rparr> else s
               | None \<Rightarrow> s);
          s = (if invoke_join_cb then notify_cb JoinedCluster (-1) s else s);
          s = fold set_peer_config (cc_servers c) s
      in update_target_priority env s)"

subsection \<open>Adding a server\<close>

definition joiner_active :: "renv \<Rightarrow> peer \<Rightarrow> server \<Rightarrow> bool" where
  "joiner_active env p s \<longleftrightarrow>
     get_us (ev_now env) (pe_last_active_timer p) div 1000
       \<le> i32_to_u64 (if pe_snp_sync_ctx p \<noteq> None then get_snapshot_sync_ctx_timeout env s
                     else l_response_limit (ev_limits env) * p_heart_beat_interval (sv_params s))"

definition invite_srv_to_join_cluster :: "server \<Rightarrow> server" where
  "invite_srv_to_join_cluster s =
     snd (on_joiner () (\<lambda>i s. ((), send_to i
       ((new_req_msg (sv_term s) join_cluster_request (sv_id s) i 0 (last_idx s) (sv_quick_commit_index s))
          \<lparr>rq_log_entries := [\<lparr>re_term = sv_term s, re_body = Conf (sv_config s), re_time = 0\<rparr>]\<rparr>) s)) s)"

definition start_joining :: "renv \<Rightarrow> srv_config \<Rightarrow> resp_msg \<Rightarrow> server \<Rightarrow> resp_msg \<times> server" where
  "start_joining env srv resp s =
     (let srv = (if p_use_new_joiner_type (sv_params s) then srv\<lparr>sc_new_joiner := True\<rparr> else srv)
      in if find_peer (sc_id srv) s \<noteq> None \<or> sv_id s = sc_id srv
         then (resp\<lparr>rs_result_code := Result_SERVER_ALREADY_EXISTS\<rparr>, s)
         else if sv_config_changing s then (resp\<lparr>rs_result_code := Result_CONFIG_CHANGING\<rparr>, s)
         else
           let start = (\<lambda>s. (resp_accept (rl_next (sv_log s)) resp,
                  invite_srv_to_join_cluster
                    (s\<lparr>sv_conf_to_add := Some srv,
                       sv_srv_to_join := Some (new_peer (ev_now env) (ev_new_rpc env) (sv_params s) srv)\<rparr>)))
           in case sv_srv_to_join s of
                None \<Rightarrow> start s
              | Some p \<Rightarrow>
                  if joiner_active env p s then (resp\<lparr>rs_result_code := Result_SERVER_IS_JOINING\<rparr>, s)
                  else start (reset_srv_to_join (notify_cb ServerJoinFailed (pe_id p) s)))"

text \<open>
  The server to add is read from the entry; \<open>srv\<close> is \<open>None\<close> for an exception of the decoder or of reading an
  absent buffer, which leaves the handler without a response.
\<close>

definition add_decoded :: "renv \<Rightarrow> srv_config option \<Rightarrow> resp_msg \<Rightarrow> server \<Rightarrow> resp_msg option \<times> server" where
  "add_decoded env srv resp s =
     (if sv_role s \<noteq> leader \<or> sv_write_paused s then (Some (resp\<lparr>rs_result_code := Result_NOT_LEADER\<rparr>), s)
      else
        let s = check_srv_to_leave_timeout env s
        in case srv of
             None \<Rightarrow> (None, s)
           | Some srv \<Rightarrow> let (r, s) = start_joining env srv resp s in (Some r, s))"

definition handle_add_srv_req :: "renv \<Rightarrow> req_msg \<Rightarrow> server \<Rightarrow> resp_msg option \<times> server" where
  "handle_add_srv_req env req s =
     (let resp = new_resp_msg (sv_term s) add_server_response (sv_id s) (sv_leader s) 0;
          bad = (Some (resp\<lparr>rs_result_code := Result_BAD_REQUEST\<rparr>), s)
      in case map re_body (rq_log_entries req) of
           [Other t bs] \<Rightarrow>
             if t = cluster_server
             then add_decoded env (case fst (srv_config_deserialize (new_serializer LITTLE (blk 0 bs))) of
                                     Inl _ \<Rightarrow> None | Inr srv \<Rightarrow> Some srv) resp s
             else bad
         | [No_Buf t] \<Rightarrow> if t = cluster_server then add_decoded env None resp s else bad
         | _ \<Rightarrow> bad)"

subsection \<open>Joining a cluster\<close>

definition other_members :: "int \<Rightarrow> cluster_config \<Rightarrow> (int, u8 list) omap" where
  "other_members me c =
     fold (\<lambda>srv m. if sc_id srv \<noteq> me then om_set (sc_id srv) (sc_endpoint srv) m else m) (cc_servers c) []"

definition join_cluster :: "renv \<Rightarrow> req_msg \<Rightarrow> cluster_config \<Rightarrow> server \<Rightarrow> server" where
  "join_cluster env req c s =
     (let reset_commit_idx = (\<not> ss_catching_up (sv_state s));
          s = set_sstate (\<lambda>st. st\<lparr>ss_catching_up := True\<rparr>) s;
          s = s\<lparr>sv_role := follower, sv_index_at_becoming_leader := 0, sv_leader := rq_src req\<rparr>;
          s = (if reset_commit_idx
               then s\<lparr>sv_sm_commit_index := sv_initial_commit_index s, sv_quick_commit_index := sv_initial_commit_index s\<rparr>
               else s);
          s = save_state (set_sstate (\<lambda>st. st\<lparr>ss_voted_for := -1, ss_term := rq_term req\<rparr>) s);
          s = notify_cb BecomeFollower (-1) s
      in reconfigure env c (save_config c s))"

text \<open>
  A server that is in a cluster of several accepts only a repeated invitation by that cluster. Two
  servers that invite each other at the same time are told apart by their ids.
\<close>

definition handle_join_cluster_req :: "renv \<Rightarrow> req_msg \<Rightarrow> server \<Rightarrow> resp_msg \<times> server" where
  "handle_join_cluster_req env req s =
     (let resp = new_resp_msg (sv_term s) join_cluster_response (sv_id s) (rq_src req) 0;
          go = (\<lambda>c s. let s = join_cluster env req c s in (resp_accept (sv_quick_commit_index s + 1) resp, s))
      in case map re_body (rq_log_entries req) of
           [Conf c] \<Rightarrow>
             if length (cc_servers (sv_config s)) > 1
             then if other_members (sv_id s) c = other_members (sv_id s) (sv_config s)
                  then (resp_accept (sv_quick_commit_index s + 1) resp, s) else (resp, s)
             else if sv_srv_to_join s = None then go c s
             else if sv_id s > rq_src req then go c (reset_srv_to_join s)
             else (resp, s)
         | _ \<Rightarrow> (resp, s))"

text \<open>
  Copying the log to the joining server, until the gap is small enough to add it to the configuration.
  A snapshot request that could not be built is retried at the next heartbeat; in background mode the
  request is built later by the snapshot thread, and a null request stands for success.
\<close>

definition grown_config :: "srv_config \<Rightarrow> server \<Rightarrow> cluster_config" where
  "grown_config srv s =
     (let cur_conf = (case sv_uncommitted_config s of Some c \<Rightarrow> c | None \<Rightarrow> sv_config s)
      in (new_cluster_config (rl_next (sv_log s)) (cc_log_idx cur_conf) (cc_async_replication cur_conf))
           \<lparr>cc_servers := cc_servers cur_conf @ [srv], cc_user_ctx := cc_user_ctx cur_conf\<rparr>)"

definition propose_config :: "renv \<Rightarrow> cluster_config \<Rightarrow> server \<Rightarrow> server" where
  "propose_config env c s =
     (snd (store_log_entry env (conf_entry env s c) 0 s))\<lparr>sv_config_changing := True, sv_uncommitted_config := Some c\<rparr>"

definition sync_gap :: "nat \<Rightarrow> server \<Rightarrow> nat" where
  "sync_gap from_idx s = (if sv_quick_commit_index s > from_idx then sv_quick_commit_index s - from_idx else 0)"

definition sync_is_done :: "nat \<Rightarrow> server \<Rightarrow> bool" where
  "sync_is_done from_idx s \<longleftrightarrow>
     (let limit = p_log_sync_stop_gap (sv_params s)
      in limit > 0 \<and> sync_gap from_idx s < i32_to_u64 limit \<or> limit = 0 \<or> p_use_new_joiner_type (sv_params s))"

definition log_pack_req :: "renv \<Rightarrow> nat \<Rightarrow> int \<Rightarrow> server \<Rightarrow> req_msg" where
  "log_pack_req env from_idx dst s =
     (let size_to_sync = to_i32 (int (min (sync_gap from_idx s) (i32_to_u64 (p_log_sync_batch_size (sv_params s)))))
      in (new_req_msg (sv_term s) sync_log_request (sv_id s) dst 0 (sub64 from_idx 1) (sv_quick_commit_index s))
           \<lparr>rq_log_entries := [\<lparr>re_term = sv_term s,
              re_body = Other log_pack (ev_log_pack env (sv_log s) from_idx size_to_sync), re_time = 0\<rparr>]\<rparr>)"

definition send_sync :: "req_msg option \<Rightarrow> server \<Rightarrow> server" where
  "send_sync req s =
     (if \<not> p_use_bg_thread_for_snapshot_io (sv_params s)
      then case req of
             Some r \<Rightarrow> snd (on_joiner () (\<lambda>i s. ((), send_to i r s)) s)
           | None \<Rightarrow> s\<lparr>sv_exited := True\<rparr>
      else emit Invoke_Snapshot_Io s)"

definition sync_log_to_new_srv :: "renv \<Rightarrow> nat \<Rightarrow> server \<Rightarrow> server" where
  "sync_log_to_new_srv env from_idx s =
     (case (sv_srv_to_join s, sv_conf_to_add s) of
        (Some p, Some srv) \<Rightarrow>
          if sync_is_done from_idx s
          then request_append_entries env (propose_config env (grown_config srv s) s)
          else if from_idx < rl_start (sv_log s)
          then
            let s = s\<lparr>sv_srv_to_join_snp_retry_required := False\<rparr>;
                (req, s) = on_joiner None (\<lambda>i s. create_sync_snapshot_req env i from_idx (sv_term s) (sv_quick_commit_index s) s) s
            in if sv_exited s then s
               else if req = None \<and> \<not> p_use_bg_thread_for_snapshot_io (sv_params s)
               then snd (on_joiner () (\<lambda>i s. ((), enable_hb_for_peer i s))
                      (s\<lparr>sv_srv_to_join_snp_retry_required := True\<rparr>))
               else send_sync req s
          else send_sync (Some (log_pack_req env from_idx (pe_id p) s)) s
      | _ \<Rightarrow> s\<lparr>sv_exited := True\<rparr>)"

text \<open>\<open>same_peer\<close> says whether the response came through the connection of the present joining server.\<close>

definition handle_join_cluster_resp :: "renv \<Rightarrow> bool \<Rightarrow> resp_msg \<Rightarrow> server \<Rightarrow> server" where
  "handle_join_cluster_resp env same_peer resp s =
     (if sv_srv_to_join s \<noteq> None \<and> same_peer \<and> rs_accepted resp
      then sync_log_to_new_srv env (rs_next_idx resp) s else s)"

text \<open>An entry of type \<^verbatim>\<open>log_pack\<close> without a buffer, for which the code throws, is answered like a malformed one.\<close>

definition handle_log_sync_req :: "renv \<Rightarrow> req_msg \<Rightarrow> server \<Rightarrow> resp_msg \<times> server" where
  "handle_log_sync_req env req s =
     (let resp = new_resp_msg (sv_term s) sync_log_response (sv_id s) (rq_src req) (rl_next (sv_log s))
      in case map re_body (rq_log_entries req) of
           [Other t bs] \<Rightarrow>
             if t \<noteq> log_pack \<or> \<not> ss_catching_up (sv_state s) then (resp, s)
             else
               let s = s\<lparr>sv_log := ev_apply_pack env (sv_log s) (rq_last_log_idx req + 1) bs\<rparr>;
                   s = s\<lparr>sv_precommit_index := last_idx s\<rparr>;
                   s = commit env (last_idx s) s
               in (resp_accept (rl_next (sv_log s)) resp, s)
         | _ \<Rightarrow> (resp, s))"

definition handle_log_sync_resp :: "renv \<Rightarrow> resp_msg \<Rightarrow> server \<Rightarrow> server" where
  "handle_log_sync_resp env resp s =
     (if sv_srv_to_join s = None then s
      else sync_log_to_new_srv env (rs_next_idx resp)
             (upd_joiner (\<lambda>p. (resume_hb_speed p)\<lparr>pe_next_log_idx := rs_next_idx resp,
                                pe_matched_idx := sub64 (rs_next_idx resp) 1\<rparr>) s))"

subsection \<open>Removing a server\<close>

definition shrunk_config :: "int \<Rightarrow> server \<Rightarrow> cluster_config" where
  "shrunk_config srv_id s =
     (let cur_conf = (case sv_uncommitted_config s of Some c \<Rightarrow> c | None \<Rightarrow> sv_config s)
      in (new_cluster_config (rl_next (sv_log s)) (cc_log_idx cur_conf) (cc_async_replication cur_conf))
           \<lparr>cc_servers := filter (\<lambda>srv. sc_id srv \<noteq> srv_id) (cc_servers cur_conf),
            cc_user_ctx := cc_user_ctx cur_conf\<rparr>)"

definition rm_srv_from_cluster :: "renv \<Rightarrow> int \<Rightarrow> server \<Rightarrow> server" where
  "rm_srv_from_cluster env srv_id s =
     (if sv_srv_to_leave s \<noteq> None then s
      else
        let c = shrunk_config srv_id s;
            s = propose_config env c s;
            s = (if find_peer srv_id s \<noteq> None
                 then s\<lparr>sv_srv_to_leave := Some srv_id, sv_srv_to_leave_target_idx := cc_log_idx c\<rparr> else s)
        in request_append_entries env s)"

definition leave_req :: "int \<Rightarrow> server \<Rightarrow> req_msg" where
  "leave_req srv_id s =
     new_req_msg (sv_term s) leave_cluster_request (sv_id s) srv_id 0 (last_idx s) (sv_quick_commit_index s)"

definition ask_to_leave :: "int \<Rightarrow> server \<Rightarrow> server" where
  "ask_to_leave srv_id s =
     (let req = leave_req srv_id s;
          s = upd_peer srv_id (\<lambda>p. p\<lparr>pe_leave_requested := True\<rparr>) s;
          (got, s) = at_peer srv_id False make_busy s
      in if got then send_to srv_id req s else upd_peer srv_id (\<lambda>p. p\<lparr>pe_rsv_msg := Some req\<rparr>) s)"

definition rm_srv_error :: "int \<Rightarrow> server \<Rightarrow> cmd_result_code option" where
  "rm_srv_error srv_id s =
     (if srv_id = sv_id s then Some Result_CANNOT_REMOVE_LEADER
      else if find_peer srv_id s = None then Some Result_SERVER_NOT_FOUND
      else None)"

definition handle_rm_srv_req :: "renv \<Rightarrow> req_msg \<Rightarrow> server \<Rightarrow> resp_msg option \<times> server" where
  "handle_rm_srv_req env req s =
     (let resp = new_resp_msg (sv_term s) remove_server_response (sv_id s) (sv_leader s) 0;
          fail = (\<lambda>code s. (Some (resp\<lparr>rs_result_code := code\<rparr>), s))
      in case map re_body (rq_log_entries req) of
           [b] \<Rightarrow>
             if (case b of No_Buf _ \<Rightarrow> True | _ \<Rightarrow> False) then (None, s)
             else if length (body_bytes b) \<noteq> sz_int then fail Result_BAD_REQUEST s
             else if sv_role s \<noteq> leader \<or> sv_write_paused s then fail Result_NOT_LEADER s
             else
               let s = check_srv_to_leave_timeout env s
               in if sv_srv_to_leave s \<noteq> None \<or> (\<exists>kp \<in> set (sv_peers s). pe_leave_requested (snd kp))
                  then fail Result_SERVER_IS_LEAVING s
                  else if sv_config_changing s then fail Result_CONFIG_CHANGING s
                  else
                    (case fst (get_int (blk 0 (body_bytes b))) of
                       Inl _ \<Rightarrow> (None, s)
                     | Inr srv_id \<Rightarrow>
                         (case rm_srv_error srv_id s of
                            Some code \<Rightarrow> fail code s
                          | None \<Rightarrow> (Some (resp_accept (rl_next (sv_log s)) resp), ask_to_leave srv_id s)))
         | _ \<Rightarrow> fail Result_BAD_REQUEST s)"

definition handle_leave_cluster_req :: "req_msg \<Rightarrow> server \<Rightarrow> resp_msg \<times> server" where
  "handle_leave_cluster_req req s =
     (let resp = new_resp_msg (sv_term s) leave_cluster_response (sv_id s) (rq_src req) 0
      in if sv_config_changing s then (resp, s)
         else (resp_accept (rl_next (sv_log s)) resp, s\<lparr>sv_steps_to_down := 2\<rparr>))"

definition handle_leave_cluster_resp :: "renv \<Rightarrow> resp_msg \<Rightarrow> server \<Rightarrow> server" where
  "handle_leave_cluster_resp env resp s =
     (if rs_accepted resp then rm_srv_from_cluster env (rs_src resp) s else s)"

definition handle_join_leave_rpc_err :: "renv \<Rightarrow> msg_type \<Rightarrow> int \<Rightarrow> server \<Rightarrow> server" where
  "handle_join_leave_rpc_err env t_msg i s =
     (if t_msg = leave_cluster_request
      then
        let s = (if length (sv_peers s) = 1
                 then let s = (if find_peer i s \<noteq> None then remove_peer_from_peers i s else s)
                      in if sv_srv_to_leave s \<noteq> None then reset_srv_to_leave s else s
                 else s)
        in case sv_srv_to_leave s of
             Some j \<Rightarrow> reset_srv_to_leave (remove_peer_from_peers j s)
           | None \<Rightarrow> rm_srv_from_cluster env i s
      else notify_cb ServerJoinFailed i (reset_srv_to_join (s\<lparr>sv_config_changing := False\<rparr>)))"

subsection \<open>Installing a snapshot\<close>

text \<open>
  Applying a snapshot that has arrived completely. The lock is released while the commit thread comes
  to a halt; \<open>gap\<close> is what happens to the server in that time. Compacting uses the specification log;
  a failure of the log store leaves it as it is.
\<close>

definition resume_state_machine_execution :: "server \<Rightarrow> server" where
  "resume_state_machine_execution s = emit Request_Commit (s\<lparr>sv_sm_commit_paused := False\<rparr>)"

definition install_snapshot :: "renv \<Rightarrow> snapshot \<Rightarrow> server \<Rightarrow> bool \<times> server" where
  "install_snapshot env snp s =
     (let s = save_state (set_sstate (\<lambda>st. st\<lparr>ss_receiving_snapshot := False\<rparr>) s); idx = sn_last_log_idx snp
      in if sv_role s \<noteq> follower then (False, sys_exit (-11) s)
         else if \<not> ev_log_compact env then (False, s)
         else
           let s = stop_election_timer (s\<lparr>sv_log := rl_compact idx (sv_log s)\<rparr>);
               s = emit (Apply_Snapshot idx) s
           in if \<not> ev_apply_snapshot env then (False, sys_exit (-12) s)
              else
                let snap_conf = sn_last_config snp;
                    s = (if cc_log_idx snap_conf > cc_log_idx (sv_config s)
                         then reconfigure env snap_conf (save_config snap_conf s) else s);
                    s = s\<lparr>sv_precommit_index := idx, sv_sm_commit_index := idx, sv_quick_commit_index := idx,
                          sv_lagging_sm_target_index := idx\<rparr>;
                    s = save_state s;
                    s = s\<lparr>sv_last_snapshot := Some (snp\<lparr>sn_last_config := sv_config s\<rparr>)\<rparr>
                in (True, restart_election_timer env s))"

definition handle_snapshot_sync_req ::
    "renv \<Rightarrow> (server \<Rightarrow> server) \<Rightarrow> snapshot_sync_req \<Rightarrow> server \<Rightarrow> (bool \<times> nat) \<times> server" where
  "handle_snapshot_sync_req env gap r s =
     (let (ok, s) = call_cb env SaveSnapshot (-1) s
      in if \<not> ok then ((False, sr_offset r), s)
         else
           let s = (if \<not> ss_receiving_snapshot (sv_state s)
                    then save_state (set_sstate (\<lambda>st. st\<lparr>ss_receiving_snapshot := True\<rparr>) s) else s);
               s = s\<lparr>sv_et_cnt_receiving_snapshot := 0, sv_initialized := True\<rparr>;
               snp = sr_snapshot r;
               s = emit (Save_Snapshot_Obj (sn_last_log_idx snp) (sr_offset r)) s;
               offset = (if sn_type snp = raw_binary then sr_offset r else ev_save_logical_snp_obj env snp (sr_offset r))
           in if \<not> sr_done r then ((True, offset), s)
              else
                let (done, s) = install_snapshot env snp (gap (s\<lparr>sv_sm_commit_paused := True\<rparr>))
                in if sv_exited s then ((False, offset), s)
                   else ((done, offset), resume_state_machine_execution s))"

text \<open>A request of this kind reaches a leader of the same term only if two leaders were elected in it.\<close>

definition handle_install_snapshot_req ::
    "renv \<Rightarrow> (server \<Rightarrow> server) \<Rightarrow> req_msg \<Rightarrow> server \<Rightarrow> resp_msg option \<times> server" where
  "handle_install_snapshot_req env gap req s =
     (let in_term = (rq_term req = sv_term s \<and> \<not> ss_catching_up (sv_state s))
      in if in_term \<and> sv_role s = leader then (None, sys_exit (-10) s)
         else
           let s = (if in_term then if sv_role s = candidate then become_follower env s else restart_election_timer env s
                    else s);
               resp = new_resp_msg (sv_term s) install_snapshot_response (sv_id s) (rq_src req) (rl_next (sv_log s))
           in if \<not> ss_catching_up (sv_state s) \<and> rq_term req < sv_term s then (Some resp, s)
              else
                (case map re_body (rq_log_entries req) of
                   [Snp_Sync r] \<Rightarrow>
                     let snp = sr_snapshot r
                     in if sn_last_log_idx snp \<le> sv_quick_commit_index s then (Some (resp\<lparr>rs_done_ctx := True\<rparr>), s)
                        else
                          let ((ok, offset), s) = handle_snapshot_sync_req env gap r s
                          in if sv_exited s then (None, s)
                             else if \<not> ok then (Some resp, s)
                             else if sn_type snp = raw_binary
                             then (Some (resp_accept (add64 (sr_offset r) (buf_size (sr_data r))) resp), s)
                             else (Some ((resp_accept offset resp)\<lparr>rs_done_ctx := sr_done r\<rparr>), s)
                 | _ \<Rightarrow> (Some resp, s)))"

definition snp_install_done :: "snapshot \<Rightarrow> resp_msg \<Rightarrow> bool" where
  "snp_install_done snp resp \<longleftrightarrow>
     sn_type snp = raw_binary \<and> rs_next_idx resp \<ge> sn_size snp \<or>
     sn_type snp = logical_object \<and> (rs_done_ctx resp \<or> rs_ctx resp \<noteq> None)"

text \<open>What an accepted response does to the peer, and whether there is more to send.\<close>

definition snapshot_accepted :: "renv \<Rightarrow> resp_msg \<Rightarrow> nat \<Rightarrow> peer \<Rightarrow> bool \<times> peer" where
  "snapshot_accepted env resp nxt p =
     (case pe_snp_sync_ctx p of
        None \<Rightarrow> (False, p)
      | Some c \<Rightarrow>
          let snp = sx_snapshot c
          in if snp_install_done snp resp
             then
               let p = (clear_snapshot_sync_ctx (p\<lparr>pe_next_log_idx := sn_last_log_idx snp + 1,
                          pe_matched_idx := sn_last_log_idx snp\<rparr>))\<lparr>pe_snapshot_sync_is_needed := False\<rparr>;
                   (pending, p) = clear_pending_commit p
               in (pending \<or> pe_next_log_idx p < nxt, p)
             else (True, p\<lparr>pe_snp_sync_ctx := Some (set_offset (ev_now env) (rs_next_idx resp) c)\<rparr>))"

definition snapshot_declined :: "resp_msg \<Rightarrow> nat \<Rightarrow> peer \<Rightarrow> bool \<times> peer" where
  "snapshot_declined resp nxt p =
     (rs_next_idx resp < nxt, clear_snapshot_sync_ctx (p\<lparr>pe_next_log_idx := rs_next_idx resp\<rparr>))"

definition handle_install_snapshot_resp :: "renv \<Rightarrow> resp_msg \<Rightarrow> server \<Rightarrow> server" where
  "handle_install_snapshot_resp env resp s =
     (let i = rs_src resp; nxt = rl_next (sv_log s)
      in if find_peer i s = None then s
         else
           let (need_to_catchup, s) =
                 at_peer i False (if rs_accepted resp then snapshot_accepted env resp nxt
                                  else snapshot_declined resp nxt) s
           in if sv_role s = leader \<and> need_to_catchup then snd (request_append_entries_to env i s) else s)"

definition handle_install_snapshot_resp_new_member :: "renv \<Rightarrow> resp_msg \<Rightarrow> server \<Rightarrow> server" where
  "handle_install_snapshot_resp_new_member env resp s =
     (case sv_srv_to_join s of
        None \<Rightarrow> s
      | Some p \<Rightarrow>
          let p = (if rs_accepted resp then p else p\<lparr>pe_next_log_idx := rs_next_idx resp\<rparr>);
              p = reset_resp_timer (ev_now env) p
          in case pe_snp_sync_ctx p of
               None \<Rightarrow> s\<lparr>sv_srv_to_join := Some p\<rparr>
             | Some c \<Rightarrow>
                 let snp = sx_snapshot c;
                     p = (if snp_install_done snp resp
                          then clear_snapshot_sync_ctx (p\<lparr>pe_next_log_idx := sn_last_log_idx snp + 1,
                                 pe_matched_idx := sn_last_log_idx snp\<rparr>)
                          else p\<lparr>pe_snp_sync_ctx := Some (set_offset (ev_now env) (rs_next_idx resp) c)\<rparr>)
                 in sync_log_to_new_srv env (pe_next_log_idx p) (s\<lparr>sv_srv_to_join := Some p\<rparr>))"

end
