(* ===== verification/Raft_Commit.thy ===== *)
theory Raft_Commit
  imports Raft_Member
begin

text \<open>
  The commit thread: applying committed entries to the state machine, answering the clients that wait
  for them, creating snapshots and compacting the log (\<^verbatim>\<open>handle_commit.cc\<close>), and the waiting ends of
  client requests and state machine watchers (\<^verbatim>\<open>handle_client_request.cc\<close>).

  The thread works without \<^verbatim>\<open>lock_\<close> between two entries; \<open>commit_one\<close> is what it does for one entry, and
  \<open>commit_loop\<close> repeats it with nothing in between.
\<close>

subsection \<open>Creating a snapshot\<close>

text \<open>
  The configuration in force at the snapshot is found by following the previous indexes of newer ones.
  The loop has no bound of its own; \<open>search_conf\<close> gives up where \<open>fuel\<close> runs out, and
  \<open>search_conf_ends\<close> shows that the fuel given to it is enough for configurations that were numbered
  by \<^verbatim>\<open>set_log_idx\<close>. Reading a log index that is not there ends the process.
\<close>

definition decode_conf :: "log_body \<Rightarrow> cluster_config option" where
  "decode_conf b =
     (case b of
        Conf c \<Rightarrow> Some c
      | No_Buf _ \<Rightarrow> None
      | _ \<Rightarrow> (case fst (cluster_config_deserialize (new_serializer LITTLE (blk 0 (body_bytes b)))) of
               Inl _ \<Rightarrow> None | Inr c \<Rightarrow> Some c))"

datatype conf_search = Conf_Found cluster_config | Conf_Broken | Conf_Missing | Conf_No_Snapshot | Conf_Spins

primrec search_conf :: "nat \<Rightarrow> nat \<Rightarrow> rentry rlog \<Rightarrow> cluster_config \<Rightarrow> conf_search" where
  "search_conf 0 committed_idx l c =
     (if cc_log_idx c > committed_idx \<and> cc_prev_log_idx c \<ge> rl_start l then Conf_Spins else Conf_Found c)"
| "search_conf (Suc fuel) committed_idx l c =
     (if cc_log_idx c > committed_idx \<and> cc_prev_log_idx c \<ge> rl_start l
      then case rl_get (cc_prev_log_idx c) l of
             None \<Rightarrow> Conf_Missing
           | Some e \<Rightarrow> (case decode_conf (re_body e) of None \<Rightarrow> Conf_Broken | Some c' \<Rightarrow> search_conf fuel committed_idx l c')
      else Conf_Found c)"

definition snapshot_conf :: "nat \<Rightarrow> server \<Rightarrow> conf_search" where
  "snapshot_conf committed_idx s =
     (case search_conf (cc_log_idx (sv_config s)) committed_idx (sv_log s) (sv_config s) of
        Conf_Found c \<Rightarrow>
          if cc_log_idx c > committed_idx \<and> cc_prev_log_idx c > 0 \<and> cc_prev_log_idx c < rl_start (sv_log s)
          then case sv_last_snapshot s of None \<Rightarrow> Conf_No_Snapshot | Some snp \<Rightarrow> Conf_Found (sn_last_config snp)
          else Conf_Found c
      | r \<Rightarrow> r)"

definition snapshot_distance_for :: "server \<Rightarrow> nat" where
  "snapshot_distance_for s =
     (if p_enable_randomized_snapshot_creation (sv_params s) \<and> \<not> sv_snp_in_progress s \<and>
         sv_last_snapshot s = None \<and> p_snapshot_distance (sv_params s) \<noteq> 0
      then sv_first_snapshot_distance s else i32_to_u64 (p_snapshot_distance (sv_params s)))"

definition snapshot_due :: "renv \<Rightarrow> nat \<Rightarrow> server \<Rightarrow> bool" where
  "snapshot_due env committed_idx s \<longleftrightarrow>
     p_snapshot_distance (sv_params s) \<noteq> 0 \<and>
     add64 (sub64 committed_idx (rl_start (sv_log s))) 1 \<ge> snapshot_distance_for s \<and>
     ev_chk_create_snapshot env"

definition can_create_snapshot :: "nat \<Rightarrow> bool \<Rightarrow> server \<Rightarrow> bool" where
  "can_create_snapshot committed_idx forced s \<longleftrightarrow>
     forced \<or> sv_snp_creation_scheduled s \<or>
     (case sv_last_snapshot s of
        None \<Rightarrow> True
      | Some snp \<Rightarrow> committed_idx \<ge> add64 (snapshot_distance_for s) (sn_last_log_idx snp))"

definition snapshot_inverted :: "nat \<Rightarrow> server \<Rightarrow> bool" where
  "snapshot_inverted committed_idx s \<longleftrightarrow>
     (case sv_last_snapshot s of None \<Rightarrow> False | Some snp \<Rightarrow> sn_last_log_idx snp \<ge> committed_idx)"

text \<open>
  A configuration that cannot be decoded raises an exception, which is caught. Without a snapshot to
  take the configuration from, \<^verbatim>\<open>system_exit\<close> is called.
\<close>

definition snapshot_and_compact :: "renv \<Rightarrow> nat \<Rightarrow> bool \<Rightarrow> server \<Rightarrow> bool \<times> server" where
  "snapshot_and_compact env committed_idx forced s =
     (if cc_prev_log_idx (sv_config s) \<ge> rl_next (sv_log s) then (False, s)
      else if \<not> forced \<and> \<not> sv_snp_creation_scheduled s \<and> \<not> snapshot_due env committed_idx s then (False, s)
      else
        let (ok, s) = call_cb env SnapshotCreationBegin (-1) s
        in if \<not> ok \<or> \<not> can_create_snapshot committed_idx forced s \<or> sv_snp_in_progress s \<or>
              snapshot_inverted committed_idx s then (False, s)
           else
             case snapshot_conf committed_idx s of
               Conf_Found c \<Rightarrow>
                 (True, emit (Create_Snapshot
                    \<lparr>sn_last_log_idx = committed_idx, sn_last_log_term = log_term_at committed_idx (sv_log s),
                     sn_size = 0, sn_last_config = c, sn_type = logical_object\<rparr>) (s\<lparr>sv_snp_in_progress := True\<rparr>))
             | Conf_Broken \<Rightarrow> (False, s)
             | Conf_Missing \<Rightarrow> (False, s\<lparr>sv_exited := True\<rparr>)
             | Conf_No_Snapshot \<Rightarrow> (False, sys_exit (-6) s)
             | Conf_Spins \<Rightarrow> (False, s\<lparr>sv_exited := True\<rparr>))"

text \<open>
  The state machine calls back when a snapshot is done; \<open>manual\<close> says that the user had scheduled it.
  The new snapshot is read back from the state machine and has to be there. Compaction is that of
  \<^verbatim>\<open>log_store::compact_async\<close>, which compacts and then calls back.
\<close>

definition on_snapshot_completed :: "renv \<Rightarrow> snapshot \<Rightarrow> bool \<Rightarrow> bool \<Rightarrow> server \<Rightarrow> server" where
  "on_snapshot_completed env snp manual ok s =
     (let s = (if ok
               then case ev_sm_last_snapshot env of
                      None \<Rightarrow> s\<lparr>sv_last_snapshot := None, sv_exited := True\<rparr>
                    | Some new_snp \<Rightarrow>
                        let s = s\<lparr>sv_last_snapshot := Some new_snp\<rparr>;
                            reserved = i32_to_u64 (p_reserved_log_items (sv_params s))
                        in if sn_last_log_idx new_snp > reserved
                           then let compact_upto = sn_last_log_idx new_snp - reserved; s = emit (Compact_Async compact_upto) s
                                in if ev_log_compact env then s\<lparr>sv_log := rl_compact compact_upto (sv_log s)\<rparr> else s
                           else s
               else s)
      in if sv_exited s then s
         else
           let s = (if manual
                    then (emit (Snapshot_Result (if ok then sn_last_log_idx snp else 0)
                            (if ok then Result_OK else Result_FAILED)) s)\<lparr>sv_snp_creation_scheduled := False\<rparr>
                    else s)
           in s\<lparr>sv_snp_in_progress := False\<rparr>)"

definition create_snapshot :: "renv \<Rightarrow> server \<Rightarrow> nat \<times> server" where
  "create_snapshot env s =
     (let committed_idx = sv_sm_commit_index s; (done, s) = snapshot_and_compact env committed_idx True s
      in (if done then committed_idx else 0, s))"

definition schedule_snapshot_creation :: "server \<Rightarrow> bool \<times> server" where
  "schedule_snapshot_creation s =
     (if sv_snp_creation_scheduled s then (False, s) else (True, s\<lparr>sv_snp_creation_scheduled := True\<rparr>))"

definition get_last_snapshot_idx :: "server \<Rightarrow> nat" where
  "get_last_snapshot_idx s = (case sv_last_snapshot s of None \<Rightarrow> 0 | Some snp \<Rightarrow> sn_last_log_idx snp)"

subsection \<open>Committing one entry\<close>

definition settle_client :: "nat \<Rightarrow> server \<Rightarrow> server" where
  "settle_client idx s =
     (case om_find idx (sv_commit_ret_elems s) of
        Some elem \<Rightarrow>
          let elem = elem\<lparr>ce_result_code := Result_OK\<rparr>;
              s = s\<lparr>sv_commit_ret_elems := om_set idx elem (sv_commit_ret_elems s)\<rparr>;
              drop = s\<lparr>sv_commit_ret_elems := om_erase idx (sv_commit_ret_elems s)\<rparr>
          in if p_track_peers_sm_commit_idx (sv_params s) then s
             else if p_return_method (sv_params s) = blocking
             then if ce_callback_invoked elem then drop else emit (Notify_Client idx) s
             else if ce_async_result elem then emit (Client_Result idx Result_OK) drop else drop
      | None \<Rightarrow>
          if idx = sv_precommit_index s
          then
            let elem = \<lparr>ce_result_code = Result_OK, ce_callback_invoked = False, ce_async_result = False\<rparr>;
                blocking = (p_return_method (sv_params s) = blocking);
                track = p_track_peers_sm_commit_idx (sv_params s);
                s = s\<lparr>sv_commit_ret_elems :=
                        om_set idx (elem\<lparr>ce_async_result := (\<not> track \<and> \<not> blocking)\<rparr>) (sv_commit_ret_elems s)\<rparr>
            in if \<not> track \<and> blocking then emit (Notify_Client idx) s else s
          else s)"

definition commit_app_log :: "nat \<Rightarrow> bool \<Rightarrow> server \<Rightarrow> server" where
  "commit_app_log idx need_to_handle_commit_elem s =
     (if sv_precommit_index s < idx then sys_exit (-23) s
      else let s = emit (Commit_Log idx) s in if need_to_handle_commit_elem then settle_client idx s else s)"

definition commit_conf :: "renv \<Rightarrow> nat \<Rightarrow> cluster_config \<Rightarrow> server \<Rightarrow> server" where
  "commit_conf env idx c s =
     (let s = s\<lparr>sv_config_changing := False\<rparr>;
          s = (if cc_log_idx (sv_config s) < cc_log_idx c then reconfigure env c (save_config c s) else s)
      in emit (Commit_Config idx) (notify_cb NewConfig (-1) s))"

definition notify_watchers :: "nat \<Rightarrow> server \<Rightarrow> server" where
  "notify_watchers idx s =
     (case om_find idx (sv_sm_watchers s) of
        None \<Rightarrow> s
      | Some n \<Rightarrow> s\<lparr>sv_out := sv_out s @ replicate n (Watcher_Result idx True), sv_sm_watchers := om_erase idx (sv_sm_watchers s)\<rparr>)"

text \<open>
  An application entry without a buffer is a null dereference; for a configuration without one reading
  the buffer throws, and the thread ends the process.
\<close>

definition commit_entry :: "renv \<Rightarrow> bool \<Rightarrow> nat \<Rightarrow> rentry \<Rightarrow> server \<Rightarrow> server" where
  "commit_entry env need idx e s =
     (case re_body e of
        App_Log _ \<Rightarrow> commit_app_log idx need s
      | Conf c \<Rightarrow> commit_conf env idx c s
      | No_Buf t \<Rightarrow> if t = app_log then s\<lparr>sv_exited := True\<rparr> else if t = conf then sys_exit (-20) s else s
      | _ \<Rightarrow> s)"

definition commit_one :: "renv \<Rightarrow> bool \<Rightarrow> server \<Rightarrow> server" where
  "commit_one env need s =
     (let idx = sv_sm_commit_index s + 1
      in case rl_get idx (sv_log s) of
           None \<Rightarrow> sys_exit (-19) s
         | Some e \<Rightarrow>
             if re_term e = 0 then sys_exit (-19) s
             else
               let s = commit_entry env need idx e s
               in if sv_exited s then s
                  else
                    let s = s\<lparr>sv_sm_commit_index := idx\<rparr>;
                        s = snd (snapshot_and_compact env idx False s)
                    in if sv_exited s then s
                       else notify_watchers idx (notify_cb StateMachineExecution (-1) s))"

text \<open>What applying a configuration and creating a snapshot leave alone.\<close>

definition is_sm_op :: "effect \<Rightarrow> bool" where
  "is_sm_op x \<longleftrightarrow> (case x of Commit_Log _ \<Rightarrow> True | Commit_Config _ \<Rightarrow> True | _ \<Rightarrow> False)"

definition sm_ops :: "server \<Rightarrow> effect list" where
  "sm_ops s = filter is_sm_op (sv_out s)"

definition same_progress :: "server \<Rightarrow> server \<Rightarrow> bool" where
  "same_progress s t \<longleftrightarrow>
     sv_log t = sv_log s \<and> sv_quick_commit_index t = sv_quick_commit_index s \<and>
     sv_sm_commit_index t = sv_sm_commit_index s \<and> sv_precommit_index t = sv_precommit_index s \<and>
     sv_sm_watchers t = sv_sm_watchers s \<and> sv_commit_ret_elems t = sv_commit_ret_elems s \<and>
     sv_sm_commit_paused t = sv_sm_commit_paused s \<and> sv_snp_creation_scheduled t = sv_snp_creation_scheduled s \<and>
     sv_last_snapshot t = sv_last_snapshot s \<and> sv_snp_in_progress t = sv_snp_in_progress s \<and>
     sv_first_snapshot_distance t = sv_first_snapshot_distance s \<and> sv_params t = sv_params s \<and> sm_ops t = sm_ops s"

lemma same_progress_refl: "same_progress s s"
  by (simp add: same_progress_def)

lemma same_progress_trans: "same_progress s t \<Longrightarrow> same_progress t u \<Longrightarrow> same_progress s u"
  by (simp add: same_progress_def)

lemma same_progress_fold:
  assumes "\<And>x s. same_progress s (f x s) \<and> sv_exited (f x s) = sv_exited s"
  shows "same_progress s (fold f xs s) \<and> sv_exited (fold f xs s) = sv_exited s"
proof (induction xs arbitrary: s)
  case (Cons x xs)
  show ?case
    using Cons [of "f x s"] assms [of s x] same_progress_trans by auto
qed (simp add: same_progress_refl)

lemma sm_ops_emit [simp]: "sm_ops (emit x s) = sm_ops s @ (if is_sm_op x then [x] else [])"
  by (simp add: sm_ops_def emit_def)

lemmas progress_simps = same_progress_def sm_ops_def is_sm_op_def emit_def notify_cb_def sys_exit_def call_cb_def Let_def

lemma reconfigure_progress:
  "same_progress s (reconfigure env c s) \<and> sv_exited (reconfigure env c s) = sv_exited s"
proof -
  let ?P = "\<lambda>s t. same_progress s t \<and> sv_exited t = sv_exited s"
  define s1 where "s1 = fold (note_own_config env) (cc_servers c) s"
  define s2 where "s2 = fold (add_config_peer env) (srvs_added c s) s1"
  define s3 where "s3 = (fold remove_config_peer (srvs_removed c s) s2)\<lparr>sv_config := c\<rparr>"
  define s4 where "s4 = (case sv_uncommitted_config s3 of
                 Some u \<Rightarrow> if cc_log_idx u = cc_log_idx c then s3\<lparr>sv_uncommitted_config := None\<rparr> else s3
               | None \<Rightarrow> s3)"
  define s5 where "s5 = (if get_server (sv_id s) (sv_config s) = None \<and> get_server (sv_id s) c \<noteq> None
    then notify_cb JoinedCluster (-1) s4 else s4)"
  have "?P s s1"
    unfolding s1_def
    by (rule same_progress_fold)
      (simp add: note_own_config_def restart_election_timer_def save_state_def set_sstate_def progress_simps)
  moreover have "?P s1 s2"
    unfolding s2_def by (rule same_progress_fold) (simp add: add_config_peer_def progress_simps split: option.split)
  moreover have "?P s2 (fold remove_config_peer (srvs_removed c s) s2)"
    by (rule same_progress_fold)
      (simp add: remove_config_peer_def upd_peer_def remove_peer_from_peers_def progress_simps split: option.split)
  then have "?P s2 s3"
    unfolding s3_def by (simp add: same_progress_def sm_ops_def)
  moreover have "?P s3 s4"
    unfolding s4_def by (simp add: progress_simps split: option.split)
  moreover have "?P s4 s5"
    unfolding s5_def by (simp add: progress_simps)
  moreover have "?P s5 (fold set_peer_config (cc_servers c) s5)"
    by (rule same_progress_fold) (simp add: set_peer_config_def progress_simps)
  moreover have "reconfigure env c s = update_target_priority env (fold set_peer_config (cc_servers c) s5)"
    unfolding reconfigure_def Let_def s5_def s4_def s3_def s2_def s1_def by (rule refl)
  ultimately show ?thesis
    by (simp add: update_target_priority_def same_progress_def sm_ops_def Let_def)
qed

lemma snapshot_and_compact_progress:
  "same_progress (s\<lparr>sv_snp_in_progress := sv_snp_in_progress (snd (snapshot_and_compact env idx forced s))\<rparr>)
     (snd (snapshot_and_compact env idx forced s))"
  by (simp add: snapshot_and_compact_def progress_simps split: conf_search.split)

lemma settle_client_progress:
  "same_progress (s\<lparr>sv_commit_ret_elems := sv_commit_ret_elems (settle_client idx s)\<rparr>) (settle_client idx s)"
  "sv_exited (settle_client idx s) = sv_exited s"
  by (simp_all add: settle_client_def progress_simps split: option.split)

definition sm_op :: "nat \<Rightarrow> rentry \<Rightarrow> effect list" where
  "sm_op idx e = (case re_body e of App_Log _ \<Rightarrow> [Commit_Log idx] | Conf _ \<Rightarrow> [Commit_Config idx] | _ \<Rightarrow> [])"

lemma commit_app_log_progress:
  assumes "idx \<le> sv_precommit_index s"
  shows "same_progress (s\<lparr>sv_commit_ret_elems := sv_commit_ret_elems (commit_app_log idx need s),
      sv_out := sv_out s @ [Commit_Log idx]\<rparr>) (commit_app_log idx need s)"
    and "sv_exited (commit_app_log idx need s) = sv_exited s"
  using assms settle_client_progress [where s = "emit (Commit_Log idx) s" and idx = idx]
  by (simp_all add: commit_app_log_def same_progress_def sm_ops_def emit_def Let_def)

lemma commit_conf_progress:
  "same_progress (s\<lparr>sv_out := sv_out s @ [Commit_Config idx]\<rparr>) (commit_conf env idx c s)"
  "sv_exited (commit_conf env idx c s) = sv_exited s"
  using reconfigure_progress [of "save_config c (s\<lparr>sv_config_changing := False\<rparr>)" env c]
  by (simp_all add: commit_conf_def save_config_def progress_simps)

lemma commit_entry_progress:
  assumes "idx \<le> sv_precommit_index s"
  shows "same_progress (s\<lparr>sv_commit_ret_elems := sv_commit_ret_elems (commit_entry env need idx e s),
      sv_out := sv_out s @ sm_op idx e\<rparr>) (commit_entry env need idx e s)"
    and "re_body e \<notin> {No_Buf app_log, No_Buf conf} \<Longrightarrow> sv_exited (commit_entry env need idx e s) = sv_exited s"
  using commit_app_log_progress [OF assms, where need = need] commit_conf_progress [where s = s and idx = idx and env = env]
  by (simp_all add: commit_entry_def sm_op_def progress_simps sys_exit_def split: log_body.split)

lemma commit_entry_frame:
  "sv_log (commit_entry env need idx e s) = sv_log s \<and>
   sv_quick_commit_index (commit_entry env need idx e s) = sv_quick_commit_index s \<and>
   sv_sm_commit_index (commit_entry env need idx e s) = sv_sm_commit_index s \<and>
   sv_precommit_index (commit_entry env need idx e s) = sv_precommit_index s"
proof (cases "idx \<le> sv_precommit_index s")
  case True
  then show ?thesis
    using commit_entry_progress(1) [where idx = idx and s = s and env = env and need = need and e = e] by (simp add: same_progress_def)
next
  case False
  then show ?thesis
    using commit_conf_progress(1) [where s = s and idx = idx and env = env]
    by (simp add: commit_entry_def commit_app_log_def sys_exit_def emit_def same_progress_def split: log_body.split)
qed

lemma commit_one_frame:
  "sv_log (commit_one env need s) = sv_log s"
  "sv_quick_commit_index (commit_one env need s) = sv_quick_commit_index s"
  "sv_precommit_index (commit_one env need s) = sv_precommit_index s"
  "\<not> sv_exited (commit_one env need s) \<Longrightarrow> sv_sm_commit_index (commit_one env need s) = sv_sm_commit_index s + 1"
proof -
  let ?i = "sv_sm_commit_index s + 1"
  have all: "sv_log (commit_one env need s) = sv_log s \<and>
    sv_quick_commit_index (commit_one env need s) = sv_quick_commit_index s \<and>
    sv_precommit_index (commit_one env need s) = sv_precommit_index s \<and>
    (\<not> sv_exited (commit_one env need s) \<longrightarrow> sv_sm_commit_index (commit_one env need s) = ?i)"
  proof (cases "rl_get ?i (sv_log s)")
    case None
    then show ?thesis by (simp add: commit_one_def sys_exit_def emit_def)
  next
    case (Some e)
    let ?u = "(commit_entry env need ?i e s)\<lparr>sv_sm_commit_index := ?i\<rparr>"
    have "sv_log ?u = sv_log s" "sv_quick_commit_index ?u = sv_quick_commit_index s"
      "sv_precommit_index ?u = sv_precommit_index s"
      using commit_entry_frame [of env need ?i e s] by simp_all
    with Some show ?thesis
      using commit_entry_frame [of env need ?i e s] snapshot_and_compact_progress [of env ?i False ?u]
      by (simp add: commit_one_def notify_watchers_def notify_cb_def sys_exit_def emit_def Let_def
          same_progress_def split: option.split)
  qed
  then show "sv_log (commit_one env need s) = sv_log s"
    "sv_quick_commit_index (commit_one env need s) = sv_quick_commit_index s"
    "sv_precommit_index (commit_one env need s) = sv_precommit_index s" by simp_all
  show "\<not> sv_exited (commit_one env need s) \<Longrightarrow> sv_sm_commit_index (commit_one env need s) = ?i"
    using all by simp
qed

subsection \<open>The commit loop\<close>

text \<open>
  \<open>expired i\<close> says that the time limit of a global worker has passed when entry \<open>i\<close> is reached; it is not
  looked at for the first one.
\<close>

function commit_loop :: "renv \<Rightarrow> (nat \<Rightarrow> bool) \<Rightarrow> bool \<Rightarrow> bool \<Rightarrow> server \<Rightarrow> bool \<times> server" where
  "commit_loop env expired need first s =
     (if sv_exited s \<or> \<not> (sv_sm_commit_index s < sv_quick_commit_index s \<and> sv_sm_commit_index s < last_idx s) then (True, s)
      else if \<not> first \<and> expired (sv_sm_commit_index s + 1) then (False, s)
      else if sv_sm_commit_paused s then (True, s)
      else commit_loop env expired need False (commit_one env need s))"
  by pat_completeness auto
termination
proof (relation "measure (\<lambda>(env, expired, need, first, s).
    if sv_exited s then 0 else Suc (sv_quick_commit_index s - sv_sm_commit_index s))", simp)
  fix env :: renv and expired :: "nat \<Rightarrow> bool" and need first :: bool and s :: server
  assume "\<not> (sv_exited s \<or> \<not> (sv_sm_commit_index s < sv_quick_commit_index s \<and> sv_sm_commit_index s < last_idx s))"
  then show "((env, expired, need, False, commit_one env need s), env, expired, need, first, s) \<in>
    measure (\<lambda>(env, expired, need, first, s).
      if sv_exited s then 0 else Suc (sv_quick_commit_index s - sv_sm_commit_index s))"
    by (cases "sv_exited (commit_one env need s)") (auto simp: commit_one_frame)
qed

declare commit_loop.simps [simp del]

definition note_freshness :: "server \<Rightarrow> server" where
  "note_freshness s =
     (if sv_role s \<noteq> follower then s
      else if sv_data_fresh s \<and>
              sv_leader_commit_index s > add64 (sv_sm_commit_index s) (i32_to_u64 (p_stale_log_gap (sv_params s)))
      then notify_cb BecomeStale (-1) (s\<lparr>sv_data_fresh := False\<rparr>)
      else if \<not> sv_data_fresh s \<and>
              sv_leader_commit_index s < add64 (sv_sm_commit_index s) (i32_to_u64 (p_fresh_log_gap (sv_params s)))
      then notify_cb BecomeFresh (-1) (s\<lparr>sv_data_fresh := True\<rparr>)
      else s)"

definition skip_to_log_start :: "server \<Rightarrow> server" where
  "skip_to_log_start s =
     (let start = rl_start (sv_log s)
      in if start \<noteq> 0 \<and> sv_sm_commit_index s < start - 1 then s\<lparr>sv_sm_commit_index := start - 1\<rparr> else s)"

definition commit_in_bg_exec :: "renv \<Rightarrow> (nat \<Rightarrow> bool) \<Rightarrow> server \<Rightarrow> bool \<times> server" where
  "commit_in_bg_exec env expired s =
     (let s = skip_to_log_start s;
          (finished, s) = commit_loop env expired (is_leader s \<and> \<not> cc_async_replication (sv_config s)) True s
      in if sv_exited s then (finished, s)
         else
           let s = note_freshness s;
               s = (if p_track_peers_sm_commit_idx (sv_params s)
                    then update_sm_commit_notifier_target_idx (find_sm_commit_idx_to_notify env s) s else s)
           in (finished, s))"

text \<open>
  With tracking of the peers' state machines, the clients are answered once all of them have applied
  the entry. In blocking mode the waiting clients take their elements out themselves.
\<close>

definition notify_elem :: "raft_params \<Rightarrow> nat \<times> commit_ret_elem \<Rightarrow> effect list" where
  "notify_elem p kc =
     (if p_return_method p = blocking then if ce_callback_invoked (snd kc) then [] else [Notify_Client (fst kc)]
      else if ce_async_result (snd kc) then [Client_Result (fst kc) Result_OK] else [])"

definition keep_elem :: "raft_params \<Rightarrow> nat \<Rightarrow> nat \<times> commit_ret_elem \<Rightarrow> bool" where
  "keep_elem p idx_upto kc \<longleftrightarrow> fst kc > idx_upto \<or> p_return_method p = blocking \<and> \<not> ce_callback_invoked (snd kc)"

definition scan_sm_commit_and_notify :: "nat \<Rightarrow> server \<Rightarrow> server" where
  "scan_sm_commit_and_notify idx_upto s =
     (if \<not> p_track_peers_sm_commit_idx (sv_params s) then s
      else s\<lparr>sv_out := sv_out s @ concat (map (notify_elem (sv_params s))
                          (takeWhile (\<lambda>kc. fst kc \<le> idx_upto) (sv_commit_ret_elems s))),
             sv_commit_ret_elems := filter (keep_elem (sv_params s) idx_upto) (sv_commit_ret_elems s),
             sv_sm_commit_notifier_notified_idx := idx_upto\<rparr>)"

text \<open>One round of the thread; it sleeps while \<open>commit_bg_idle\<close> holds, and ends when it finds the server stopping there.\<close>

definition commit_bg_idle :: "server \<Rightarrow> bool" where
  "commit_bg_idle s \<longleftrightarrow>
     (sv_quick_commit_index s \<le> sv_sm_commit_index s \<or> sv_sm_commit_index s \<ge> last_idx s \<or> sv_sm_commit_paused s) \<and>
     sv_sm_commit_notifier_target_idx s = sv_sm_commit_notifier_notified_idx s"

definition commit_in_bg :: "renv \<Rightarrow> server \<Rightarrow> server" where
  "commit_in_bg env s =
     (if commit_bg_idle s then s
      else
        let s = snd (commit_in_bg_exec env (\<lambda>_. False) s)
        in if \<not> sv_exited s \<and> sv_sm_commit_notifier_target_idx s > sv_sm_commit_notifier_notified_idx s
           then scan_sm_commit_and_notify (sv_sm_commit_notifier_target_idx s) s else s)"

definition pause_state_machine_execution :: "server \<Rightarrow> server" where
  "pause_state_machine_execution s = s\<lparr>sv_sm_commit_paused := True\<rparr>"

subsection \<open>Waiting for a commit\<close>

text \<open>
  The blocking client's callback, after its wait. \<open>elem\<close> is the element it holds: the one in the list,
  or one that \<^verbatim>\<open>drop_all_pending_commit_elems\<close> has marked cancelled and taken out.
\<close>

definition handle_cli_req_callback :: "renv \<Rightarrow> nat \<Rightarrow> resp_msg \<Rightarrow> server \<Rightarrow> resp_msg \<times> server" where
  "handle_cli_req_callback env idx resp s =
     (let code = (case om_find idx (sv_commit_ret_elems s) of Some elem \<Rightarrow> ce_result_code elem | None \<Rightarrow> Result_CANCELLED);
          s = (case om_find idx (sv_commit_ret_elems s) of
                 None \<Rightarrow> s
               | Some elem \<Rightarrow>
                   if code \<noteq> Result_TIMEOUT then s\<lparr>sv_commit_ret_elems := om_erase idx (sv_commit_ret_elems s)\<rparr>
                   else s\<lparr>sv_commit_ret_elems := om_set idx (elem\<lparr>ce_callback_invoked := True\<rparr>) (sv_commit_ret_elems s)\<rparr>);
          s = (if code = Result_OK then s else snd (check_leadership_validity env s))
      in (resp\<lparr>rs_result_code := code\<rparr>, s))"

text \<open>The result is \<open>Some True\<close> when the index is applied already, and \<open>None\<close> when a watcher is left behind.\<close>

definition wait_for_state_machine_commit :: "nat \<Rightarrow> server \<Rightarrow> bool option \<times> server" where
  "wait_for_state_machine_commit target_idx s =
     (if target_idx \<le> sv_sm_commit_index s then (Some True, s)
      else (None, s\<lparr>sv_sm_watchers := om_set target_idx
              (case om_find target_idx (sv_sm_watchers s) of Some n \<Rightarrow> n + 1 | None \<Rightarrow> 1) (sv_sm_watchers s)\<rparr>))"

subsection \<open>What the commit thread achieves\<close>

text \<open>The calls of the state machine that the entries from \<open>i\<close> up to, but not including, \<open>j\<close> stand for.\<close>

definition log_ops :: "rentry rlog \<Rightarrow> nat \<Rightarrow> nat \<Rightarrow> effect list" where
  "log_ops l i j = concat (map (\<lambda>k. case rl_get k l of Some e \<Rightarrow> sm_op k e | None \<Rightarrow> []) [i ..< j])"

lemma log_ops_rec: "i < j \<Longrightarrow> rl_get i l = Some e \<Longrightarrow> log_ops l i j = sm_op i e @ log_ops l (Suc i) j"
  by (simp add: log_ops_def upt_conv_Cons)

lemma log_ops_empty: "j \<le> i \<Longrightarrow> log_ops l i j = []"
  by (simp add: log_ops_def)

text \<open>An entry that can be executed: it is there, has a term, and has its buffer where one is read.\<close>

definition intact :: "rentry rlog \<Rightarrow> nat \<Rightarrow> bool" where
  "intact l i \<longleftrightarrow>
     (case rl_get i l of None \<Rightarrow> False | Some e \<Rightarrow> re_term e \<noteq> 0 \<and> re_body e \<notin> {No_Buf app_log, No_Buf conf})"

text \<open>No snapshot was asked for, and none of the entries up to \<open>n\<close> that are still to be executed calls for one.\<close>

definition no_snapshots :: "renv \<Rightarrow> nat \<Rightarrow> server \<Rightarrow> bool" where
  "no_snapshots env n s \<longleftrightarrow> \<not> sv_snp_creation_scheduled s \<and>
     (\<forall>i \<in> {sv_sm_commit_index s <.. n}. \<not> snapshot_due env i s)"

lemma snapshot_skip:
  "\<not> sv_snp_creation_scheduled s \<Longrightarrow> \<not> snapshot_due env idx s \<Longrightarrow> snapshot_and_compact env idx False s = (False, s)"
  by (simp add: snapshot_and_compact_def)

lemma snapshot_due_cong:
  "same_progress s t \<Longrightarrow> snapshot_due env idx t = snapshot_due env idx s"
  by (simp add: snapshot_due_def snapshot_distance_for_def same_progress_def)

lemma snapshot_due_fields [simp]:
  "snapshot_due env idx (s\<lparr>sv_sm_commit_index := n\<rparr>) = snapshot_due env idx s"
  "snapshot_due env idx (s\<lparr>sv_commit_ret_elems := es\<rparr>) = snapshot_due env idx s"
  "snapshot_due env idx (s\<lparr>sv_out := os\<rparr>) = snapshot_due env idx s"
  "snapshot_due env idx (s\<lparr>sv_sm_watchers := ws\<rparr>) = snapshot_due env idx s"
  "snapshot_due env idx (notify_cb c i s) = snapshot_due env idx s"
  by (simp_all add: snapshot_due_def snapshot_distance_for_def notify_cb_def emit_def)

lemma notify_watchers_progress:
  "same_progress (s\<lparr>sv_sm_watchers := sv_sm_watchers (notify_watchers idx s)\<rparr>) (notify_watchers idx s)"
  "sv_exited (notify_watchers idx s) = sv_exited s"
  by (simp_all add: notify_watchers_def progress_simps split: option.split)

lemma commit_one_step:
  assumes e: "rl_get (sv_sm_commit_index s + 1) (sv_log s) = Some e" "re_term e \<noteq> 0" "re_body e \<notin> {No_Buf app_log, No_Buf conf}"
    and s: "sv_sm_commit_index s + 1 \<le> sv_precommit_index s" "\<not> sv_exited s"
      "\<not> sv_snp_creation_scheduled s" "\<not> snapshot_due env (sv_sm_commit_index s + 1) s"
  shows "\<not> sv_exited (commit_one env need s)"
    and "\<not> sv_snp_creation_scheduled (commit_one env need s)"
    and "sv_sm_commit_paused (commit_one env need s) = sv_sm_commit_paused s"
    and "sm_ops (commit_one env need s) = sm_ops s @ sm_op (sv_sm_commit_index s + 1) e"
    and "snapshot_due env j (commit_one env need s) = snapshot_due env j s"
proof -
  let ?i = "sv_sm_commit_index s + 1"
  define t where "t = commit_entry env need ?i e s"
  define u where "u = notify_cb StateMachineExecution (-1) (t\<lparr>sv_sm_commit_index := ?i\<rparr>)"
  have ops: "filter is_sm_op (sm_op ?i e) = sm_op ?i e"
    by (simp add: sm_op_def is_sm_op_def split: log_body.split)
  note pr = commit_entry_progress [OF s(1), where env = env and need = need and e = e, folded t_def]
  have t: "\<not> sv_exited t" "\<not> sv_snp_creation_scheduled t" "sv_sm_commit_paused t = sv_sm_commit_paused s"
      "sm_ops t = sm_ops s @ sm_op ?i e"
    using pr s e(3) ops by (simp_all add: same_progress_def sm_ops_def)
  have due: "snapshot_due env k t = snapshot_due env k s" for k
    using snapshot_due_cong [OF pr(1)] by simp
  have u: "\<not> sv_exited u" "\<not> sv_snp_creation_scheduled u" "sv_sm_commit_paused u = sv_sm_commit_paused s"
      "sm_ops u = sm_ops s @ sm_op ?i e"
    using t by (simp_all add: u_def progress_simps)
  have "snapshot_and_compact env ?i False (t\<lparr>sv_sm_commit_index := ?i\<rparr>) = (False, t\<lparr>sv_sm_commit_index := ?i\<rparr>)"
    using t(2) due s(4) by (intro snapshot_skip) simp_all
  then have one: "commit_one env need s = notify_watchers ?i u"
    using e t(1) by (simp add: commit_one_def Let_def t_def u_def)
  then show "\<not> sv_exited (commit_one env need s)" "\<not> sv_snp_creation_scheduled (commit_one env need s)"
    "sv_sm_commit_paused (commit_one env need s) = sv_sm_commit_paused s"
    "sm_ops (commit_one env need s) = sm_ops s @ sm_op ?i e"
    using u notify_watchers_progress [where idx = ?i and s = u]
    by (simp_all add: same_progress_def sm_ops_def)
  show "snapshot_due env j (commit_one env need s) = snapshot_due env j s"
    using snapshot_due_cong [OF notify_watchers_progress(1), of env j ?i u] due unfolding one by (simp add: u_def)
qed

lemma commit_loop_applies:
  assumes "\<not> sv_exited s" and "\<not> sv_sm_commit_paused s" and "no_snapshots env n s"
    and "rl_start (sv_log s) \<le> sv_sm_commit_index s + 1"
    and "\<And>i. sv_sm_commit_index s < i \<Longrightarrow> i \<le> n \<Longrightarrow> intact (sv_log s) i"
    and "n \<le> sv_precommit_index s"
    and n: "n = min (sv_quick_commit_index s) (last_idx s)"
  shows "fst (commit_loop env (\<lambda>_. False) need first s) \<and>
    (let t = snd (commit_loop env (\<lambda>_. False) need first s)
     in \<not> sv_exited t \<and> sv_sm_commit_index t = max (sv_sm_commit_index s) n \<and>
        sm_ops t = sm_ops s @ log_ops (sv_log s) (sv_sm_commit_index s + 1) (n + 1))"
  using assms
proof (induction "n - sv_sm_commit_index s" arbitrary: s first)
  case 0
  then have "commit_loop env (\<lambda>_. False) need first s = (True, s)"
    by (subst commit_loop.simps) auto
  with 0 show ?case
    by (auto simp: log_ops_empty)
next
  case (Suc k)
  let ?i = "sv_sm_commit_index s + 1" and ?t = "commit_one env need s"
  have lt: "sv_sm_commit_index s < n" using Suc(2) by linarith
  have "intact (sv_log s) ?i" using Suc(7) [of ?i] lt by simp
  then obtain e where e: "rl_get ?i (sv_log s) = Some e" "re_term e \<noteq> 0" "re_body e \<notin> {No_Buf app_log, No_Buf conf}"
    unfolding intact_def by (auto split: option.splits)
  have nos: "\<not> sv_snp_creation_scheduled s" "\<not> snapshot_due env ?i s"
    using Suc(5) lt by (auto simp: no_snapshots_def)
  note step = commit_one_step [OF e _ Suc(3) nos, where need = need]
  have i: "?i \<le> sv_precommit_index s" using lt Suc(8) by simp
  note fr = commit_one_frame [where env = env and need = need and s = s]
  have sm: "sv_sm_commit_index ?t = ?i" using fr(4) step(1) [OF i] by simp
  have li: "last_idx ?t = last_idx s" by (simp add: last_idx_def fr(1))
  have nos': "no_snapshots env n ?t"
    using Suc(5) step(2,5) [OF i] sm by (auto simp: no_snapshots_def)
  have IH: "fst (commit_loop env (\<lambda>_. False) need False ?t) \<and>
    (let u = snd (commit_loop env (\<lambda>_. False) need False ?t)
     in \<not> sv_exited u \<and> sv_sm_commit_index u = max ?i n \<and>
        sm_ops u = sm_ops ?t @ log_ops (sv_log s) (?i + 1) (n + 1))"
    using Suc(1) [of ?t False] Suc(2,4,6-9) nos' step(1,3) [OF i] sm fr(1-3) li by simp
  have "commit_loop env (\<lambda>_. False) need first s = commit_loop env (\<lambda>_. False) need False ?t"
    using lt Suc(3,4,9) by (subst commit_loop.simps) simp
  then show ?case
    using IH step(4) [OF i] lt log_ops_rec [OF _ e(1), of "n + 1"] by (simp add: Let_def)
qed

text \<open>
  C5. The commit thread delivers. Let the execution of the state machine not be paused, let the log hold
  every entry between the applied index and the lower of the commit index and the last index, intact and
  pre-committed, and let no snapshot have been scheduled and none be due at any of these entries. Then one
  run of \<^verbatim>\<open>commit_in_bg_exec\<close> without a time limit, once it has the commit lock, returns, the process is
  still alive, the applied index has reached that bound, and the state machine has been called exactly
  once for each application entry and each configuration in between, in log order.
\<close>

theorem commit_in_bg_delivers:
  assumes "\<not> sv_exited s" and "\<not> sv_sm_commit_paused s" and "no_snapshots env n s"
    and "rl_start (sv_log s) \<le> sv_sm_commit_index s + 1"
    and "\<forall>i. sv_sm_commit_index s < i \<and> i \<le> n \<longrightarrow> intact (sv_log s) i"
    and "n \<le> sv_precommit_index s"
    and "n = min (sv_quick_commit_index s) (last_idx s)"
  shows "\<exists>t. commit_in_bg_exec env (\<lambda>_. False) s = (True, t) \<and> \<not> sv_exited t \<and>
    sv_sm_commit_index t = max (sv_sm_commit_index s) n \<and>
    sm_ops t = sm_ops s @ log_ops (sv_log s) (sv_sm_commit_index s + 1) (n + 1)"
proof -
  have skip: "skip_to_log_start s = s"
    using assms(4) by (auto simp: skip_to_log_start_def Let_def)
  obtain f t where loop: "commit_loop env (\<lambda>_. False) (is_leader s \<and> \<not> cc_async_replication (sv_config s)) True s = (f, t)"
    by (metis prod.exhaust)
  have t: "f" "\<not> sv_exited t" "sv_sm_commit_index t = max (sv_sm_commit_index s) n"
      "sm_ops t = sm_ops s @ log_ops (sv_log s) (sv_sm_commit_index s + 1) (n + 1)"
    using commit_loop_applies [OF assms(1-4) _ assms(6,7), of "is_leader s \<and> \<not> cc_async_replication (sv_config s)" True]
      assms(5) loop by (simp_all add: Let_def)
  then show ?thesis
    unfolding commit_in_bg_exec_def Let_def skip loop
    by (simp add: note_freshness_def update_sm_commit_notifier_target_idx_def progress_simps)
qed

definition sample_two :: server where
  "sample_two = (sample_server 1 [1])\<lparr>sv_log := \<lparr>rl_start = 1, rl_entries = [sample_rentry 1, sample_rentry 1]\<rparr>,
     sv_quick_commit_index := 2, sv_precommit_index := 2\<rparr>"

lemma sample_two_fields:
  "sv_exited sample_two = False" "sv_sm_commit_paused sample_two = False" "sv_sm_commit_index sample_two = 0"
  "sv_quick_commit_index sample_two = 2" "sv_precommit_index sample_two = 2" "sv_out sample_two = []"
  "sv_snp_creation_scheduled sample_two = False" "p_snapshot_distance (sv_params sample_two) = 0"
  "sv_log sample_two = \<lparr>rl_start = 1, rl_entries = [sample_rentry 1, sample_rentry 1]\<rparr>"
  by (simp_all add: sample_two_def sample_server_def new_server_def apply_and_log_current_params_def
      sample_env_def fix_timeouts_def default_raft_params_def Let_def)

theorem commit_in_bg_delivers_witness:
  "\<exists>t. commit_in_bg_exec (sample_env 5) (\<lambda>_. False) sample_two = (True, t) \<and> \<not> sv_exited t \<and>
    sv_sm_commit_index t = 2 \<and> sm_ops t = [Commit_Log 1, Commit_Log 2]"
proof -
  have le2: "i = 1 \<or> i = 2" if "0 < i \<and> i \<le> 2" for i :: nat
    using that by auto
  have pre: "\<not> sv_exited sample_two" "\<not> sv_sm_commit_paused sample_two" "no_snapshots (sample_env 5) 2 sample_two"
      "rl_start (sv_log sample_two) \<le> sv_sm_commit_index sample_two + 1"
      "2 \<le> sv_precommit_index sample_two" "2 = min (sv_quick_commit_index sample_two) (last_idx sample_two)"
    by (simp_all add: sample_two_fields no_snapshots_def snapshot_due_def last_idx_def rl_next_def)
  have terms: "\<forall>i. sv_sm_commit_index sample_two < i \<and> i \<le> 2 \<longrightarrow> intact (sv_log sample_two) i"
    by (auto simp: sample_two_fields intact_def rl_get_def rl_next_def sample_rentry_def dest!: le2)
  have "[1 ..< 3] = [1, 2 :: nat]"
    by code_simp
  then have ops: "log_ops (sv_log sample_two) (sv_sm_commit_index sample_two + 1) (2 + 1) = [Commit_Log 1, Commit_Log 2]"
    by (simp add: sample_two_fields log_ops_def rl_get_def rl_next_def sm_op_def sample_rentry_def)
  have init: "sm_ops sample_two = []" "max (sv_sm_commit_index sample_two) 2 = 2"
    by (simp_all add: sm_ops_def sample_two_fields)
  show ?thesis
    using commit_in_bg_delivers [OF pre(1-4) terms pre(5,6)]
    unfolding ops init append.simps .
qed

end
