(* ===== verification/Raft_Dispatch.thy ===== *)
theory Raft_Dispatch
  imports Raft_Commit
begin

text \<open>
  The entry points of the server: requests and responses from other members, their failures, the
  heartbeat timer (\<^verbatim>\<open>raft_server.cc\<close>, \<^verbatim>\<open>handle_timeout.cc\<close>), and the operations of the user
  (\<^verbatim>\<open>handle_user_cmd.cc\<close>, \<^verbatim>\<open>raft_server.cc\<close>).
\<close>

subsection \<open>Requests\<close>

definition handle_ext_msg :: "renv \<Rightarrow> (server \<Rightarrow> server) \<Rightarrow> req_msg \<Rightarrow> server \<Rightarrow> resp_msg option \<times> server" where
  "handle_ext_msg env gap req s =
     (case rq_type req of
        add_server_request \<Rightarrow> handle_add_srv_req env req s
      | remove_server_request \<Rightarrow> handle_rm_srv_req env req s
      | sync_log_request \<Rightarrow> apfst Some (handle_log_sync_req env req s)
      | join_cluster_request \<Rightarrow> apfst Some (handle_join_cluster_req env req s)
      | leave_cluster_request \<Rightarrow> apfst Some (handle_leave_cluster_req req s)
      | install_snapshot_request \<Rightarrow> handle_install_snapshot_req env gap req s
      | reconnect_request \<Rightarrow> apfst Some (handle_reconnect_req env req s)
      | custom_notification_request \<Rightarrow> handle_custom_notification_req env req s
      | _ \<Rightarrow> (None, s))"

text \<open>What a request of the three kinds that carry a term does before it is handled.\<close>

definition note_req_term :: "renv \<Rightarrow> req_msg \<Rightarrow> server \<Rightarrow> server" where
  "note_req_term env req s =
     (if rq_type req \<in> {append_entries_request, request_vote_request, install_snapshot_request}
      then
        let (term_updated, s) = update_term env (rq_term req) s;
            s = (if \<not> sv_im_learner s \<and> \<not> sv_hb_alive s \<and> term_updated \<and> rq_type req = request_vote_request
                 then decay_target_priority env s else s)
        in if sv_steps_to_down s > 0 then s\<lparr>sv_steps_to_down := 2\<rparr> else s
      else s)"

definition process_append :: "renv \<Rightarrow> req_msg \<Rightarrow> server \<Rightarrow> resp_msg option \<times> server" where
  "process_append env req s =
     (let (ok, s) = call_cb env ReceivedAppendEntriesReq (rq_src req) s
      in if \<not> ok then (None, s)
         else
           let (resp, s) = handle_append_entries env req s;
               (ok, s) = call_cb env SentAppendEntriesResp (rq_src req) s
           in if \<not> ok then (None, s) else (resp, s))"

text \<open>
  \<open>et\<close> is the term a client expects, \<open>gap\<close> what happens to the server while installing a snapshot
  releases the lock.
\<close>

definition process_req ::
    "renv \<Rightarrow> (server \<Rightarrow> server) \<Rightarrow> nat \<Rightarrow> req_msg \<Rightarrow> server \<Rightarrow> resp_msg option \<times> server" where
  "process_req env gap et req s =
     (let (ok, s) = call_cb env ProcessReq (-1) s
      in if \<not> ok \<or> sv_stopping s then (None, s)
         else if rq_type req = client_request then handle_cli_req_prelock env req et s
         else
           let s = note_req_term env req s
           in case rq_type req of
                append_entries_request \<Rightarrow> process_append env req s
              | request_vote_request \<Rightarrow> apfst Some (handle_vote_req req s)
              | pre_vote_request \<Rightarrow> apfst Some (handle_prevote_req req s)
              | ping_request \<Rightarrow> (Some (new_resp_msg (sv_term s) ping_response (sv_id s) (rq_src req) 0), s)
              | priority_change_request \<Rightarrow> apfst Some (handle_priority_change_req req s)
              | _ \<Rightarrow> handle_ext_msg env gap req s)"

subsection \<open>Responses\<close>

definition note_answer :: "renv \<Rightarrow> peer \<Rightarrow> peer" where
  "note_answer env p = reset_resp_timer (ev_now env) (p\<lparr>pe_lost_by_leader := False, pe_rpc_errs := 0\<rparr>)"

definition handle_peer_resp :: "renv \<Rightarrow> resp_msg \<Rightarrow> server \<Rightarrow> server" where
  "handle_peer_resp env resp s =
     (let s = (if rs_accepted resp then upd_peer (rs_src resp) (note_answer env) s else s);
          (updated, s) = (if is_valid_msg (rs_type resp) then update_term env (rs_term resp) s else (False, s))
      in if updated then s
         else case rs_type resp of
                pre_vote_response \<Rightarrow> handle_prevote_resp env resp s
              | request_vote_response \<Rightarrow> handle_vote_resp env resp s
              | append_entries_response \<Rightarrow>
                  handle_append_entries_resp env resp (notify_cb ReceivedAppendEntriesResp (rs_src resp) s)
              | install_snapshot_response \<Rightarrow> handle_install_snapshot_resp env resp s
              | custom_notification_response \<Rightarrow> handle_custom_notification_resp resp s
              | _ \<Rightarrow> s)"

text \<open>
  A request to \<open>i\<close> has failed. The callback that reports a lost follower is asserted to return \<^verbatim>\<open>Ok\<close>;
  otherwise the process ends there.
\<close>

definition handle_peer_err :: "renv \<Rightarrow> int \<Rightarrow> server \<Rightarrow> server" where
  "handle_peer_err env i s =
     (let pp = find_peer i s;
          s = upd_peer i (\<lambda>p. snd (check_snapshot_timeout env (p\<lparr>pe_rpc_errs := pe_rpc_errs p + 1\<rparr>))) s;
          rpc_errs = (case pp of None \<Rightarrow> 0 | Some p \<Rightarrow> pe_rpc_errs p + 1);
          report = (rpc_errs = l_warning_limit (ev_limits env) \<and>
                    (case pp of None \<Rightarrow> True | Some p \<Rightarrow> \<not> pe_lost_by_leader p));
          (ok, s) = (if report then call_cb env FollowerLost i (upd_peer i (\<lambda>p. p\<lparr>pe_lost_by_leader := True\<rparr>) s)
                     else (True, s))
      in if \<not> ok then s\<lparr>sv_exited := True\<rparr>
         else case pp of
                None \<Rightarrow> s
              | Some p \<Rightarrow>
                  if pe_leave_requested p then handle_join_leave_rpc_err env leave_cluster_request (pe_id p) s else s)"

definition handle_ext_resp :: "renv \<Rightarrow> bool \<Rightarrow> resp_msg \<Rightarrow> server \<Rightarrow> server" where
  "handle_ext_resp env same_peer resp s =
     (case rs_type resp of
        sync_log_response \<Rightarrow> handle_log_sync_resp env resp s
      | join_cluster_response \<Rightarrow> handle_join_cluster_resp env same_peer resp s
      | leave_cluster_response \<Rightarrow> handle_leave_cluster_resp env resp s
      | install_snapshot_response \<Rightarrow> handle_install_snapshot_resp_new_member env resp s
      | _ \<Rightarrow> s)"

text \<open>A failed snapshot request to the joining server is retried by a temporary heartbeat.\<close>

definition retry_joiner_snapshot :: "renv \<Rightarrow> req_msg \<Rightarrow> server \<Rightarrow> server" where
  "retry_joiner_snapshot env req s =
     (case sv_srv_to_join s of
        None \<Rightarrow> s
      | Some j \<Rightarrow>
          if pe_id j \<noteq> rq_dst req then s
          else
            let (timed_out, j') = check_snapshot_timeout env j; s = s\<lparr>sv_srv_to_join := Some j'\<rparr>
            in if timed_out then s
               else snd (on_joiner () (\<lambda>i s. ((), enable_hb_for_peer i s)) (s\<lparr>sv_srv_to_join_snp_retry_required := True\<rparr>)))"

definition slow_down :: "bool \<Rightarrow> int \<Rightarrow> server \<Rightarrow> server" where
  "slow_down joining i s = (if joining then upd_joiner slow_down_hb s else upd_peer i slow_down_hb s)"

definition handle_ext_resp_err :: "renv \<Rightarrow> req_msg \<Rightarrow> server \<Rightarrow> server" where
  "handle_ext_resp_err env req s =
     (let t = rq_type req; s = (if t = install_snapshot_request then retry_joiner_snapshot env req s else s)
      in if t \<notin> {sync_log_request, join_cluster_request, leave_cluster_request} then s
         else
           let joining = (t \<noteq> leave_cluster_request)
           in case (if joining then sv_srv_to_join s else find_peer (rq_dst req) s) of
                None \<Rightarrow> s
              | Some p \<Rightarrow>
                  if pe_current_hb_interval p \<ge> max_hb_interval (sv_params s)
                  then handle_join_leave_rpc_err env t (pe_id p) s
                  else
                    let s = slow_down joining (rq_dst req) s
                    in if sv_stopping s then s
                       else emit (Retry_Request (pe_id p) req (pe_current_hb_interval (slow_down_hb p))) s)"

text \<open>The retry of a request; a joining server that has been given up meanwhile is shut down and gets nothing.\<close>

definition on_retryable_req_err :: "bool \<Rightarrow> int \<Rightarrow> req_msg \<Rightarrow> server \<Rightarrow> server" where
  "on_retryable_req_err joining i req s =
     (let resend = (\<lambda>i s. let (got, s) = at_peer i False make_busy s in if got then send_to i req s else s)
      in if \<not> joining then resend i s
         else if sv_srv_to_join s = None then s
         else snd (on_joiner () (\<lambda>i s. ((), resend i s)) s))"

subsection \<open>The heartbeat timer\<close>

text \<open>The temporary heartbeat of a joining server: reconnect if necessary, then try the snapshot again.\<close>

definition retry_joiner :: "renv \<Rightarrow> peer \<Rightarrow> server \<Rightarrow> server" where
  "retry_joiner env j s =
     (if need_to_reconnect (ev_now env) j
      then
        if get_us (ev_now env) (pe_last_resp_timer j) div 1000
             \<ge> i32_to_u64 (p_heart_beat_interval (sv_params s) * l_response_limit (ev_limits env))
        then upd_joiner clear_snapshot_sync_ctx s
        else
          let (succ, j') = recreate_rpc (ev_now env) (ev_rpc_factory env) (ev_backoff_disabled env) (ev_new_rpc env) j;
              s = s\<lparr>sv_srv_to_join := Some j'\<rparr>
          in if \<not> succ then upd_joiner clear_snapshot_sync_ctx s else sync_log_to_new_srv env 0 s
      else sync_log_to_new_srv env 0 s)"

definition hb_leader :: "renv \<Rightarrow> int \<Rightarrow> server \<Rightarrow> server" where
  "hb_leader env i s =
     (let s = notify_cb HeartBeat i s
      in if sv_stopping s then s
         else
           let (valid, s) = check_leadership_validity env s
           in if \<not> valid \<or> sv_role s \<noteq> leader then s
              else
                let s = snd (request_append_entries_to env i (update_target_priority env s))
                in upd_peer i (\<lambda>p. if pe_hb_enabled p then p\<lparr>pe_hb_task := Some (pe_current_hb_interval p)\<rparr> else p) s)"

definition hb_peer :: "renv \<Rightarrow> int \<Rightarrow> server \<Rightarrow> server" where
  "hb_peer env i s =
     (case find_peer i s of
        None \<Rightarrow> s
      | Some p \<Rightarrow>
          if pe_leave_requested p
          then
            let cur_cnt = pe_hb_cnt_since_leave p + 1;
                s = upd_peer i (\<lambda>p. p\<lparr>pe_hb_cnt_since_leave := cur_cnt\<rparr>) s
            in if cur_cnt \<ge> l_leave_limit (ev_limits env)
               then handle_join_leave_rpc_err env leave_cluster_request (pe_id p) s
               else hb_leader env i s
          else hb_leader env i s)"

definition handle_hb_timeout :: "renv \<Rightarrow> int \<Rightarrow> server \<Rightarrow> server" where
  "handle_hb_timeout env i s =
     (let s = check_srv_to_leave_timeout env s
      in if sv_write_paused s \<and> fst (timeout (ev_now env) (sv_reelection_timer s))
         then (become_follower env (s\<lparr>sv_leader := -1\<rparr>))\<lparr>sv_hb_alive := False\<rparr>
         else case sv_srv_to_join s of
                Some j \<Rightarrow>
                  if sv_srv_to_join_snp_retry_required s \<and> pe_id j = i then retry_joiner env j s
                  else hb_peer env i s
              | None \<Rightarrow> hb_peer env i s)"

subsection \<open>Operations of the user\<close>

text \<open>
  A command ends at once with a code, waits for its entry to be committed, or is forwarded to the
  leader. Waiting is \<^verbatim>\<open>handle_cli_req_callback\<close> in blocking mode and the asynchronous result otherwise.
\<close>

datatype cmd_outcome = Cmd_Done cmd_result_code bool | Cmd_Waits resp_msg | Cmd_Forwarded req_msg

definition send_msg_to_leader ::
    "renv \<Rightarrow> (server \<Rightarrow> server) \<Rightarrow> nat \<Rightarrow> req_msg \<Rightarrow> server \<Rightarrow> cmd_outcome \<times> server" where
  "send_msg_to_leader env gap et req s =
     (if sv_leader s = -1 then (Cmd_Done Result_NOT_LEADER False, s)
      else if sv_leader s = sv_id s
      then
        let (resp, s) = process_req env gap et req s
        in case resp of
             None \<Rightarrow> (Cmd_Done Result_BAD_REQUEST False, s)
           | Some r \<Rightarrow>
               (if rq_type req = client_request \<and> rs_accepted r \<and> \<not> cc_async_replication (sv_config s) then Cmd_Waits r
                else Cmd_Done (rs_result_code r) (rs_accepted r), s)
      else if \<not> p_auto_forwarding (sv_params s) then (Cmd_Done Result_NOT_LEADER False, s)
      else (Cmd_Forwarded req, s))"

definition user_req :: "msg_type \<Rightarrow> log_body list \<Rightarrow> req_msg" where
  "user_req type bodies =
     (new_req_msg 0 type 0 0 0 0 0)\<lparr>rq_log_entries := map (\<lambda>b. \<lparr>re_term = 0, re_body = b, re_time = 0\<rparr>) bodies\<rparr>"

definition add_srv :: "renv \<Rightarrow> srv_config \<Rightarrow> server \<Rightarrow> cmd_outcome \<times> server" where
  "add_srv env srv s =
     send_msg_to_leader env id 0 (user_req add_server_request [Other cluster_server (enc_srv srv)]) s"

definition remove_srv :: "renv \<Rightarrow> int \<Rightarrow> server \<Rightarrow> cmd_outcome \<times> server" where
  "remove_srv env srv_id s =
     send_msg_to_leader env id 0 (user_req remove_server_request [Other cluster_server (bytes_le 4 srv_id)]) s"

definition append_entries_ext :: "renv \<Rightarrow> nat \<Rightarrow> u8 list list \<Rightarrow> server \<Rightarrow> cmd_outcome \<times> server" where
  "append_entries_ext env et bufs s =
     (if bufs = [] then (Cmd_Done Result_OK False, s)
      else send_msg_to_leader env id et (user_req client_request (map App_Log bufs)) s)"

fun flip_learner :: "int \<Rightarrow> bool \<Rightarrow> srv_config list \<Rightarrow> (bool \<times> srv_config list) option" where
  "flip_learner i to [] = None"
| "flip_learner i to (srv # srvs) =
     (if sc_id srv = i then Some (sc_learner srv = to, srv\<lparr>sc_learner := to\<rparr> # srvs)
      else map_option (apsnd ((#) srv)) (flip_learner i to srvs))"

definition flip_learner_flag :: "renv \<Rightarrow> int \<Rightarrow> bool \<Rightarrow> server \<Rightarrow> cmd_result_code \<times> server" where
  "flip_learner_flag env srv_id to s =
     (if sv_role s \<noteq> leader \<or> sv_write_paused s then (Result_NOT_LEADER, s)
      else if sv_config_changing s then (Result_CONFIG_CHANGING, s)
      else case flip_learner srv_id to (cc_servers (sv_config s)) of
             None \<Rightarrow> (Result_SERVER_NOT_FOUND, s)
           | Some (same, srvs) \<Rightarrow>
               if same then (Result_OK, s)
               else
                 let c = (set_log_idx (rl_next (sv_log s)) (sv_config s))\<lparr>cc_servers := srvs\<rparr>
                 in (Result_OK, request_append_entries env (propose_config env c s)))"

text \<open>The user context goes into a configuration that is appended whatever the role of the server.\<close>

definition set_user_ctx :: "renv \<Rightarrow> u8 list \<Rightarrow> server \<Rightarrow> server" where
  "set_user_ctx env ctx s =
     (let c = (set_log_idx (rl_next (sv_log s)) (sv_config s))\<lparr>cc_user_ctx := ctx\<rparr>
      in request_append_entries env (snd (store_log_entry env (conf_entry env s c) 0 s)))"

fun replace_first_srv :: "srv_config \<Rightarrow> srv_config list \<Rightarrow> srv_config list" where
  "replace_first_srv srv [] = []"
| "replace_first_srv srv (x # xs) = (if sc_id x = sc_id srv then srv # xs else x # replace_first_srv srv xs)"

definition update_srv_config :: "renv \<Rightarrow> srv_config \<Rightarrow> server \<Rightarrow> bool \<times> server" where
  "update_srv_config env srv s =
     (if \<not> is_leader s then (False, s)
      else case get_server (sc_id srv) (sv_config s) of
             None \<Rightarrow> (False, s)
           | Some prev \<Rightarrow>
               if sc_new_joiner prev \<or> sc_endpoint prev \<noteq> sc_endpoint srv then (False, s)
               else
                 let c = set_log_idx (rl_next (sv_log s)) (sv_config s);
                     c = c\<lparr>cc_servers := replace_first_srv srv (cc_servers c)\<rparr>
                 in (True, request_append_entries env (snd (store_log_entry env (conf_entry env s c) 0 s))))"

definition set_self_mark_down :: "bool \<Rightarrow> server \<Rightarrow> bool \<times> server" where
  "set_self_mark_down to s =
     (sv_self_mark_down s, if is_leader s then s else s\<lparr>sv_self_mark_down := to\<rparr>)"

definition is_part_of_full_consensus :: "renv \<Rightarrow> server \<Rightarrow> bool" where
  "is_part_of_full_consensus env s \<longleftrightarrow>
     \<not> (sv_self_mark_down s \<or> sv_excluded_from_the_quorum s \<or> \<not> sv_initialized s \<or> sv_stopping s) \<and>
     (let limit = p_heart_beat_interval (sv_params s) * l_full_consensus_follower_limit (ev_limits env)
      in if is_leader s
         then \<not> get_num_voting_members s - int (get_not_responding_peers_count env limit 0 s) < get_quorum_for_commit s + 1
         else get_ms (ev_now env) (sv_last_rcvd_valid_append_entries_req s) \<le> i32_to_u64 limit)"

definition is_excluded_by_leader :: "server \<Rightarrow> bool" where
  "is_excluded_by_leader s \<longleftrightarrow> \<not> is_leader s \<and> sv_excluded_from_the_quorum s"

definition get_peer_info :: "renv \<Rightarrow> int \<Rightarrow> server \<Rightarrow> (int \<times> nat \<times> nat) option" where
  "get_peer_info env srv_id s =
     (if \<not> is_leader s then None
      else map_option (\<lambda>p. (pe_id p, pe_last_accepted_log_idx p, get_us (ev_now env) (pe_last_resp_timer p)))
             (find_peer srv_id s))"

text \<open>
  \<^verbatim>\<open>shutdown\<close>, once the background threads have stopped: what it does to the state of the server. The
  peers are shut down before the waiting clients are cancelled.
\<close>

definition shutdown_server :: "server \<Rightarrow> server" where
  "shutdown_server s =
     (let s = drop_all_sm_watcher_elems (drop_all_pending_commit_elems (cancel_schedulers (s\<lparr>sv_stopping := True\<rparr>)));
          s = s\<lparr>sv_srv_to_join := None\<rparr>
      in if sv_srv_to_leave s \<noteq> None then reset_srv_to_leave s else s)"

definition reset_peer_info :: "renv \<Rightarrow> server \<Rightarrow> server" where
  "reset_peer_info env s =
     (let c = sv_config s
      in if length (cc_servers c) \<le> 1 then s
         else case get_server (sv_id s) c of
                None \<Rightarrow> s
              | Some my_srv_config \<Rightarrow>
                  let c' = (new_cluster_config (cc_log_idx c) (cc_prev_log_idx c) (cc_async_replication c))
                             \<lparr>cc_servers := [my_srv_config], cc_user_ctx := cc_user_ctx c\<rparr>;
                      s = save_config c' (s\<lparr>sv_config := c'\<rparr>)
                  in snd (store_log_entry env (conf_entry env s c') (last_idx s) s))"

end
