(* ===== verification/Raft_Drift.thy ===== *)
theory Raft_Drift
  imports Raft_Election Raft_Dispatch
begin

text \<open>
  The remaining operations of a server whose membership stays that of \<open>N\<close>: applying a configuration with
  the same members, the commit thread, installing a snapshot, the heartbeat timer, the entry points for
  requests and responses, and the user's commands. Each leaves the vote alone (\<open>steady\<close>, or \<open>holds\<close>
  where it matters that the members are those of \<open>N\<close>) or changes it as the election protocol allows
  (\<open>drift\<close>).
\<close>

subsection \<open>Applying a configuration with the same members\<close>

definition static_conf :: "int set \<Rightarrow> cluster_config \<Rightarrow> bool" where
  "static_conf N c \<longleftrightarrow> distinct (map sc_id (cc_servers c)) \<and> sc_id ` set (cc_servers c) = N \<and>
     (\<forall>srv \<in> set (cc_servers c). \<not> sc_learner srv \<and> \<not> sc_new_joiner srv)"

lemma holds_fold:
  assumes "\<And>x u. x \<in> set xs \<Longrightarrow> holds N u (f x u)"
  shows "holds N s (fold f xs s)"
  using assms by (induction xs arbitrary: s) (auto intro: holds_trans)

lemma note_own_holds:
  assumes "\<not> sc_learner srv"
  shows "holds N s (note_own_config env srv s)"
proof (cases "sv_im_learner s")
  case True
  then show ?thesis by (simp add: holds_def stable_def fits_def)
next
  case False
  let ?u = "s\<lparr>sv_my_priority := sc_priority srv, sv_im_learner := sc_learner srv, sv_steps_to_down := 0\<rparr>"
  have "?u = s\<lparr>sv_my_priority := sc_priority srv, sv_steps_to_down := 0\<rparr>"
    using assms False by simp
  then have u: "steady False s ?u" by (simp only:) (intro steady_intros steady_refl)
  then have "steady False s (restart_election_timer env (save_state (set_sstate (\<lambda>st. st\<lparr>ss_catching_up := False\<rparr>) ?u)))"
    by (rule steady_restart_election_timer [OF steady_save]) simp_all
  with u have "steady False s (note_own_config env srv s)"
    unfolding note_own_config_def Let_def by (simp only: steady_if(1) steady_refl split: if_split)
  then show ?thesis by (rule steady_holds)
qed

lemma set_peer_config_holds:
  assumes "\<not> sc_learner srv" and "\<not> sc_new_joiner srv"
  shows "holds N s (set_peer_config srv s)"
  unfolding holds_def
proof
  assume s: "stable N s"
  let ?g = "\<lambda>p. if pe_id p = sc_id srv then p\<lparr>pe_config := srv\<rparr> else p"
  have fits: "fits N s" using s by (simp add: stable_def)
  have "pview (?g p) = pview p" if "(k, p) \<in> set (sv_peers s)" for k p
    using fits_peer [OF fits that] assms by (auto simp: pview_def pe_id_def)
  then have "members (set_peer_config srv s) = members s"
    by (auto simp: members_def set_peer_config_def)
  moreover have "no_rsv (set_peer_config srv s) = no_rsv s"
    by (auto simp: no_rsv_def set_peer_config_def split: if_splits)
  ultimately show "stable N (set_peer_config srv s) \<and> same_vote s (set_peer_config srv s) \<and>
      (sv_role (set_peer_config srv s) = leader \<longrightarrow> sv_role s = leader)"
    using s by (simp add: stable_def calm_def fits_def same_vote_def vote_sends_def sv_term_def set_peer_config_def)
qed

lemma fits_find_peer: "fits N s \<Longrightarrow> i \<in> N \<Longrightarrow> i \<noteq> sv_id s \<Longrightarrow> find_peer i s \<noteq> None"
proof -
  assume "fits N s" "i \<in> N" "i \<noteq> sv_id s"
  then have "i \<in> set (map fst (members s))" by (simp add: fits_def)
  then show ?thesis
    unfolding members_keys by (simp add: find_peer_def om_find_def map_of_eq_None_iff)
qed

lemma static_no_change:
  assumes "fits N s" and "static_conf N c"
  shows "srvs_added c s = []" and "srvs_removed c s = []"
proof -
  show "srvs_added c s = []"
    using fits_find_peer [OF assms(1)] assms(2)
    by (auto simp: srvs_added_def static_conf_def filter_empty_conv)
  have "get_server i c \<noteq> None" if "i \<in> N" for i
    using that assms(2) by (auto simp: get_server_def find_None_iff static_conf_def)
  moreover have "set (map fst (sv_peers s)) \<subseteq> N" "sv_id s \<in> N"
    using assms(1) members_keys [of s] unfolding fits_def by (metis Diff_subset list.set_map, blast)
  ultimately show "srvs_removed c s = []"
    by (auto simp: srvs_removed_def filter_empty_conv)
qed

lemma reconfigure_holds:
  assumes "static_conf N c"
  shows "holds N s (reconfigure env c s)"
proof (cases "fits N s")
  case True
  have srv: "\<not> sc_learner srv" "\<not> sc_new_joiner srv" if "srv \<in> set (cc_servers c)" for srv
    using that assms by (simp_all add: static_conf_def)
  define s1 where "s1 = fold (note_own_config env) (cc_servers c) s"
  define s2 where "s2 = (case sv_uncommitted_config (s1\<lparr>sv_config := c\<rparr>) of
      Some u \<Rightarrow> if cc_log_idx u = cc_log_idx c then s1\<lparr>sv_config := c, sv_uncommitted_config := None\<rparr> else s1\<lparr>sv_config := c\<rparr>
    | None \<Rightarrow> s1\<lparr>sv_config := c\<rparr>)"
  define s3 where "s3 = (if get_server (sv_id s) (sv_config s) = None \<and> get_server (sv_id s) c \<noteq> None
    then notify_cb JoinedCluster (-1) s2 else s2)"
  define s4 where "s4 = fold set_peer_config (cc_servers c) s3"
  have "reconfigure env c s = update_target_priority env s4"
    unfolding reconfigure_def Let_def static_no_change [OF True assms] fold_simps id_apply s4_def s3_def s2_def s1_def
    by (rule refl)
  moreover have "holds N s s1"
    unfolding s1_def by (intro holds_fold note_own_holds srv)
  moreover have "steady False s1 s3"
    unfolding s3_def s2_def by (intro steady_intros steady_refl)
  moreover have "holds N s3 s4"
    unfolding s4_def by (intro holds_fold set_peer_config_holds srv)
  moreover have "steady False s4 (update_target_priority env s4)"
    by (intro steady_intros steady_refl)
  ultimately show ?thesis
    by (metis holds_steady holds_trans)
qed (simp add: holds_def stable_def)

lemma steady_save_config [steady_intros]: "steady L s t \<Longrightarrow> steady L s (save_config c t)"
  unfolding save_config_def by (intro steady_intros) (simp_all add: is_vote_send_def)

lemma reconfigure_saved_holds:
  assumes "static_conf N c" and "holds N s t"
  shows "holds N s (reconfigure env c (save_config c t))"
  by (intro holds_trans [OF _ reconfigure_holds [OF assms(1)]] holds_steady [OF assms(2)] steady_intros steady_refl)

subsection \<open>The commit thread\<close>

lemma steady_snapshot_and_compact [steady_intros]:
  "steady L s t \<Longrightarrow> steady L s (snd (snapshot_and_compact env i b t))"
  unfolding snapshot_and_compact_def sys_exit_def Let_def case_prod_beta
  by (auto split: conf_search.split intro!: steady_intros)

lemma steady_sys_exit [steady_intros]: "steady L s t \<Longrightarrow> steady L s (sys_exit n t)"
  unfolding sys_exit_def by (intro steady_intros) simp_all

lemma steady_settle_client [steady_intros]: "steady L s t \<Longrightarrow> steady L s (settle_client i t)"
  unfolding settle_client_def Let_def by (intro steady_intros) simp_all

lemma steady_commit_app_log [steady_intros]: "steady L s t \<Longrightarrow> steady L s (commit_app_log i b t)"
  unfolding commit_app_log_def Let_def by (intro steady_intros) simp_all

lemma steady_notify_watchers [steady_intros]:
  assumes "steady L s t"
  shows "steady L s (notify_watchers i t)"
proof -
  have "filter is_vote_send (replicate n (Watcher_Result i True)) = []" for n
    by (induction n) (simp_all add: is_vote_send_def)
  then have "steady L t (notify_watchers i t)"
    by (simp add: notify_watchers_def steady_def calm_def same_vote_def sv_term_def members_def no_rsv_def
        vote_sends_def split: option.split)
  with assms show ?thesis by (rule steady_trans)
qed

text \<open>The configurations in the log, those above the applied index at least, have the members \<open>N\<close>.\<close>

definition static_log :: "int set \<Rightarrow> server \<Rightarrow> bool" where
  "static_log N s \<longleftrightarrow>
     (\<forall>i e c. sv_sm_commit_index s < i \<and> rl_get i (sv_log s) = Some e \<and> re_body e = Conf c \<longrightarrow> static_conf N c)"

lemma commit_conf_holds:
  assumes "static_conf N c"
  shows "holds N s (commit_conf env i c s)"
proof -
  have "holds N s (s\<lparr>sv_config_changing := False\<rparr>)"
    by (intro steady_holds steady_intros steady_refl)
  then have "holds N s (if cc_log_idx (sv_config (s\<lparr>sv_config_changing := False\<rparr>)) < cc_log_idx c
      then reconfigure env c (save_config c (s\<lparr>sv_config_changing := False\<rparr>)) else s\<lparr>sv_config_changing := False\<rparr>)"
    using reconfigure_saved_holds [OF assms] by auto
  then show ?thesis
    unfolding commit_conf_def Let_def by (rule holds_steady) (intro steady_intros steady_refl; simp)
qed

lemma commit_entry_holds:
  assumes "\<And>c. re_body e = Conf c \<Longrightarrow> static_conf N c"
  shows "holds N s (commit_entry env need i e s)"
proof (cases "re_body e")
  case (Conf c)
  then show ?thesis using assms commit_conf_holds by (simp add: commit_entry_def)
next
  case (No_Buf t)
  have "steady False s (s\<lparr>sv_exited := True\<rparr>)" "steady False s (sys_exit (-20) s)"
    by (intro steady_intros steady_refl)+
  then show ?thesis using No_Buf steady_holds by (simp add: commit_entry_def)
next
  case (App_Log bs)
  have "steady False s (commit_app_log i need s)" by (intro steady_intros steady_refl)
  then show ?thesis using App_Log steady_holds by (simp add: commit_entry_def)
qed (simp_all add: commit_entry_def)

lemma commit_one_holds:
  assumes "static_log N s"
  shows "holds N s (commit_one env need s)"
proof (cases "rl_get (sv_sm_commit_index s + 1) (sv_log s)")
  case None
  have "steady False s (sys_exit (-19) s)" by (intro steady_intros steady_refl)
  then show ?thesis using None steady_holds by (simp add: commit_one_def)
next
  case (Some e)
  let ?i = "sv_sm_commit_index s + 1"
  let ?t = "commit_entry env need ?i e s"
  have "holds N s ?t"
    using assms Some by (intro commit_entry_holds) (auto simp: static_log_def)
  moreover define u where "u = snd (snapshot_and_compact env ?i False (?t\<lparr>sv_sm_commit_index := ?i\<rparr>))"
  moreover have "steady False ?t (if sv_exited ?t then ?t else if sv_exited u then u
      else notify_watchers ?i (notify_cb StateMachineExecution (-1) u))"
    unfolding u_def by (intro steady_intros steady_refl)
  moreover have "steady False s (sys_exit (-19) s)" by (intro steady_intros steady_refl)
  moreover have "commit_one env need s = (if re_term e = 0 then sys_exit (-19) s else if sv_exited ?t then ?t
      else if sv_exited u then u else notify_watchers ?i (notify_cb StateMachineExecution (-1) u))"
    unfolding commit_one_def Let_def Some option.case u_def by (rule refl)
  ultimately show ?thesis
    using holds_steady [of N s ?t] steady_holds [of s] by (simp only: split: if_split) blast
qed

lemma commit_one_static:
  "static_log N s \<Longrightarrow> \<not> sv_exited (commit_one env need s) \<Longrightarrow> static_log N (commit_one env need s)"
  by (simp add: static_log_def commit_one_frame) (meson Suc_lessD)

lemma commit_loop_holds: "static_log N s \<Longrightarrow> holds N s (snd (commit_loop env expired need first s))"
proof (induction env expired need first s rule: commit_loop.induct)
  case (1 env expired need first s)
  let ?t = "commit_one env need s"
  show ?case
  proof (cases "sv_exited ?t")
    case True
    have "commit_loop env expired need False ?t = (True, ?t)"
      using True by (subst commit_loop.simps) simp
    then show ?thesis
      using commit_one_holds [OF 1(2), of env need] by (subst commit_loop.simps) simp
  next
    case False
    then have st: "static_log N ?t" using commit_one_static 1(2) by blast
    show ?thesis
      using 1(1) [OF _ _ _ st] holds_trans [OF commit_one_holds [OF 1(2), of env need]]
      by (subst commit_loop.simps) simp
  qed
qed

lemma steady_note_freshness [steady_intros]: "steady L s t \<Longrightarrow> steady L s (note_freshness t)"
  unfolding note_freshness_def by (intro steady_intros)

lemma steady_update_notifier [steady_intros]:
  "steady L s t \<Longrightarrow> steady L s (update_sm_commit_notifier_target_idx n t)"
  unfolding update_sm_commit_notifier_target_idx_def by (intro steady_intros)

lemma skip_to_log_start_holds:
  "static_log N s \<Longrightarrow> static_log N (skip_to_log_start s)"
  "steady L s t \<Longrightarrow> steady L s (skip_to_log_start t)"
proof -
  show "static_log N s \<Longrightarrow> static_log N (skip_to_log_start s)"
    by (simp add: static_log_def skip_to_log_start_def Let_def) (meson less_trans)
  show "steady L s t \<Longrightarrow> steady L s (skip_to_log_start t)"
    unfolding skip_to_log_start_def Let_def by (intro steady_intros)
qed

lemma commit_in_bg_exec_holds:
  assumes "static_log N s"
  shows "holds N s (snd (commit_in_bg_exec env expired s))"
proof -
  let ?u = "skip_to_log_start s"
  define need where "need = (is_leader ?u \<and> \<not> cc_async_replication (sv_config ?u))"
  let ?t = "snd (commit_loop env expired need True ?u)"
  have "holds N s ?u"
    by (intro steady_holds skip_to_log_start_holds(2) steady_refl)
  moreover have "holds N ?u ?t"
    by (intro commit_loop_holds skip_to_log_start_holds(1) assms)
  ultimately have "holds N s ?t" by (rule holds_trans)
  moreover have "steady False ?t (snd (commit_in_bg_exec env expired s))"
    unfolding commit_in_bg_exec_def Let_def case_prod_beta need_def by (intro steady_intros steady_refl)
  ultimately show ?thesis by (rule holds_steady)
qed

lemma steady_scan_sm_commit [steady_intros]:
  assumes "steady L s t"
  shows "steady L s (scan_sm_commit_and_notify n t)"
proof -
  have "filter is_vote_send (concat (map (notify_elem p) kcs)) = []" for p kcs
    by (induction kcs) (auto simp: notify_elem_def is_vote_send_def)
  then have "steady L t (scan_sm_commit_and_notify n t)"
    by (simp add: scan_sm_commit_and_notify_def steady_def calm_def same_vote_def sv_term_def members_def no_rsv_def
        vote_sends_def)
  with assms show ?thesis by (rule steady_trans)
qed

lemma commit_in_bg_holds: "static_log N s \<Longrightarrow> holds N s (commit_in_bg env s)"
  using commit_in_bg_exec_holds [of N s env "\<lambda>_. False"]
    holds_steady [OF _ steady_scan_sm_commit [OF steady_refl], of N s "snd (commit_in_bg_exec env (\<lambda>_. False) s)"]
  by (simp add: commit_in_bg_def Let_def)

lemma steady_on_snapshot_completed [steady_intros]:
  "steady L s t \<Longrightarrow> steady L s (on_snapshot_completed env snp manual ok t)"
  unfolding on_snapshot_completed_def Let_def by (intro steady_intros) simp_all

lemma steady_create_snapshot [steady_intros]: "steady L s t \<Longrightarrow> steady L s (snd (create_snapshot env t))"
  unfolding create_snapshot_def Let_def case_prod_beta by (intro steady_intros)

lemma steady_handle_cli_req_callback [steady_intros]:
  "steady L s t \<Longrightarrow> steady L s (snd (handle_cli_req_callback env i resp t))"
  unfolding handle_cli_req_callback_def Let_def by (intro steady_intros)

subsection \<open>Installing a snapshot\<close>

lemma install_snapshot_holds:
  assumes "static_conf N (sn_last_config snp)"
  shows "holds N s (snd (install_snapshot env snp s))"
proof -
  let ?u = "save_state (set_sstate (\<lambda>st. st\<lparr>ss_receiving_snapshot := False\<rparr>) s)"
  let ?v = "emit (Apply_Snapshot (sn_last_log_idx snp))
    (stop_election_timer (?u\<lparr>sv_log := rl_compact (sn_last_log_idx snp) (sv_log ?u)\<rparr>))"
  let ?w = "if cc_log_idx (sn_last_config snp) > cc_log_idx (sv_config ?v)
    then reconfigure env (sn_last_config snp) (save_config (sn_last_config snp) ?v) else ?v"
  have u: "steady False s ?u" by (intro steady_intros steady_refl) simp_all
  have v: "steady False s ?v" by (intro steady_intros u) simp
  have w: "holds N s ?w"
    using reconfigure_saved_holds [OF assms steady_holds [OF v], of env] steady_holds [OF v] by simp
  have "steady False s (sys_exit (-11) ?u)" "steady False s (sys_exit (-12) ?v)"
    by (intro steady_intros u v)+
  moreover have "holds N s (restart_election_timer env ((save_state (?w\<lparr>sv_precommit_index := i, sv_sm_commit_index := i,
      sv_quick_commit_index := i, sv_lagging_sm_target_index := i\<rparr>))\<lparr>sv_last_snapshot := x\<rparr>))" for i x
  proof (rule holds_steady [OF w])
    let ?x = "?w\<lparr>sv_precommit_index := i, sv_sm_commit_index := i, sv_quick_commit_index := i, sv_lagging_sm_target_index := i\<rparr>"
    have "save_state ?x = save_state (set_sstate (\<lambda>st. st) ?x)" by (simp add: save_state_def set_sstate_def)
    then show "steady False ?w (restart_election_timer env ((save_state ?x)\<lparr>sv_last_snapshot := x\<rparr>))"
      by (simp only:) (intro steady_intros steady_refl; simp)
  qed
  ultimately show ?thesis
    using steady_holds [OF u, of N] steady_holds [of s _ N] unfolding install_snapshot_def Let_def by simp
qed

lemma handle_snapshot_sync_req_holds:
  assumes "static_conf N (sn_last_config (sr_snapshot r))"
  shows "holds N s (snd (handle_snapshot_sync_req env id r s))"
proof -
  let ?a = "snd (call_cb env SaveSnapshot (-1) s)"
  let ?b = "if \<not> ss_receiving_snapshot (sv_state ?a)
    then save_state (set_sstate (\<lambda>st. st\<lparr>ss_receiving_snapshot := True\<rparr>) ?a) else ?a"
  let ?c = "emit (Save_Snapshot_Obj (sn_last_log_idx (sr_snapshot r)) (sr_offset r))
    (?b\<lparr>sv_et_cnt_receiving_snapshot := 0, sv_initialized := True\<rparr>)"
  let ?d = "snd (install_snapshot env (sr_snapshot r) (?c\<lparr>sv_sm_commit_paused := True\<rparr>))"
  have a: "steady False s ?a" by (intro steady_intros steady_refl)
  have c: "steady False s ?c" by (intro steady_intros a) simp_all
  have "steady False s (?c\<lparr>sv_sm_commit_paused := True\<rparr>)" by (intro steady_intros c)
  then have d: "holds N s ?d"
    by (blast intro: holds_trans steady_holds install_snapshot_holds assms)
  have "steady False ?d (resume_state_machine_execution ?d)"
    unfolding resume_state_machine_execution_def by (intro steady_intros steady_refl) simp
  then have e: "holds N s (resume_state_machine_execution ?d)" by (rule holds_steady [OF d])
  show ?thesis
    using steady_holds [OF a, of N] steady_holds [OF c, of N] d e
    unfolding handle_snapshot_sync_req_def Let_def case_prod_beta by simp
qed

text \<open>The request carries no snapshot whose configuration has other members.\<close>

definition static_snapshot :: "int set \<Rightarrow> req_msg \<Rightarrow> bool" where
  "static_snapshot N req \<longleftrightarrow>
     (\<forall>r. map re_body (rq_log_entries req) = [Snp_Sync r] \<longrightarrow> static_conf N (sn_last_config (sr_snapshot r)))"

lemma handle_install_snapshot_req_holds:
  assumes "static_snapshot N req"
  shows "holds N s (snd (handle_install_snapshot_req env id req s))"
proof -
  define b where "b = (rq_term req = sv_term s \<and> \<not> ss_catching_up (sv_state s))"
  define u where "u = (if b then if sv_role s = candidate then become_follower env s else restart_election_timer env s else s)"
  have u: "steady False s u" unfolding u_def by (intro steady_intros steady_refl)
  have "holds N s (snd (handle_snapshot_sync_req env id r u))" if "map re_body (rq_log_entries req) = [Snp_Sync r]" for r
    using assms that by (intro holds_trans [OF steady_holds [OF u] handle_snapshot_sync_req_holds]) (simp add: static_snapshot_def)
  moreover have "steady False s (sys_exit (-10) s)" by (intro steady_intros steady_refl)
  ultimately show ?thesis
    using steady_holds [OF u, of N] steady_holds [of s "sys_exit (-10) s" N]
    unfolding handle_install_snapshot_req_def Let_def case_prod_beta b_def [symmetric] u_def [symmetric]
    by (auto split: list.split log_body.split)
qed

subsection \<open>Requests\<close>

lemma steady_handle_log_sync_req [steady_intros]:
  assumes "steady L s t"
  shows "steady L s (snd (handle_log_sync_req env req t))"
proof -
  define u where "u bs = t\<lparr>sv_log := ev_apply_pack env (sv_log t) (rq_last_log_idx req + 1) bs\<rparr>" for bs
  define v where "v bs = (u bs)\<lparr>sv_precommit_index := last_idx (u bs)\<rparr>" for bs
  have "steady L s (commit env (last_idx (v bs)) (v bs))" for bs
    unfolding v_def u_def by (intro steady_intros assms)
  then show ?thesis
    using assms unfolding handle_log_sync_req_def Let_def u_def [symmetric] v_def [symmetric]
    by (auto split: list.split log_body.split)
qed

lemma steady_handle_leave_cluster_req [steady_intros]:
  "steady L s t \<Longrightarrow> steady L s (snd (handle_leave_cluster_req req t))"
  unfolding handle_leave_cluster_req_def Let_def by (intro steady_intros)

lemma note_req_term_drift:
  assumes "drift N s t"
  shows "drift N s (note_req_term env req t)"
proof -
  let ?u = "update_term env (rq_term req) t"
  have "drift N s (snd ?u)" by (intro update_term_drift assms)
  moreover have "steady False (snd ?u)
     (let v = (if \<not> sv_im_learner (snd ?u) \<and> \<not> sv_hb_alive (snd ?u) \<and> fst ?u \<and> rq_type req = request_vote_request
               then decay_target_priority env (snd ?u) else snd ?u)
      in if sv_steps_to_down v > 0 then v\<lparr>sv_steps_to_down := 2\<rparr> else v)"
    unfolding Let_def by (intro steady_intros steady_refl)
  ultimately show ?thesis
    using assms drift_steady [of N s "snd ?u"] by (simp add: note_req_term_def case_prod_beta Let_def)
qed

lemma steady_process_append [steady_intros]: "steady L s t \<Longrightarrow> steady L s (snd (process_append env req t))"
  unfolding process_append_def Let_def case_prod_beta by (intro steady_intros)

lemma note_req_term_other:
  "rq_type req \<notin> {append_entries_request, request_vote_request, install_snapshot_request} \<Longrightarrow> note_req_term env req s = s"
  by (simp add: note_req_term_def)

text \<open>The requests that change the membership.\<close>

definition member_request :: "msg_type \<Rightarrow> bool" where
  "member_request t \<longleftrightarrow> t \<in> {add_server_request, remove_server_request, join_cluster_request}"

lemma handle_ext_msg_drift:
  assumes "\<not> member_request (rq_type req)" and "rq_type req = install_snapshot_request \<Longrightarrow> static_snapshot N req"
    and "drift N s t" and "rq_type req = custom_notification_request \<Longrightarrow> sv_term t + 1 < 2 ^ 64"
  shows "drift N s (snd (handle_ext_msg env id req t))"
proof -
  have trans: "drift N s u" if "drift N t u" for u
    using that assms(3) by (induction rule: drift.induct) (auto intro: drift.intros)
  have "steady False t (snd (handle_log_sync_req env req t))" "steady False t (snd (handle_leave_cluster_req req t))"
    "steady False t (snd (handle_reconnect_req env req t))"
    by (intro steady_intros steady_refl)+
  then show ?thesis
    using assms handle_custom_notification_req_drift [of t N env req] handle_install_snapshot_req_holds [of N req t env]
      drift_steady [OF assms(3)] drift_holds [OF assms(3)] trans
    by (cases "rq_type req") (simp_all add: handle_ext_msg_def member_request_def)
qed

lemma process_req_drift:
  assumes "rq_type req \<noteq> request_vote_request" and "\<not> member_request (rq_type req)"
    and "rq_type req = install_snapshot_request \<Longrightarrow> static_snapshot N req" and "sv_term s + 1 < 2 ^ 64"
  shows "drift N s (snd (process_req env id et req s))"
proof -
  let ?t = "snd (call_cb env ProcessReq (-1) s)"
  let ?u = "note_req_term env req ?t"
  have t: "drift N s ?t" by (rule steady_drift) (intro steady_intros steady_refl)
  then have u: "drift N s ?u" by (rule note_req_term_drift)
  have "sv_term ?t = sv_term s" by (simp add: call_cb_def emit_def sv_term_def)
  then have ext: "drift N s (snd (handle_ext_msg env id req ?u))"
    using assms by (intro handle_ext_msg_drift u) (simp_all add: note_req_term_other)
  have "steady False ?t (snd (handle_cli_req_prelock env req et ?t))" "steady False ?u (snd (process_append env req ?u))"
      "steady False ?u (snd (handle_prevote_req req ?u))" "steady False ?u (snd (handle_priority_change_req req ?u))"
    by (intro steady_intros steady_refl)+
  note this [THEN drift_steady [rotated]]
  then show ?thesis
    using t u ext assms(1) unfolding process_req_def Let_def case_prod_beta
    by (cases "rq_type req") simp_all
qed

text \<open>A vote request is denied or granted, once the server has moved to its term.\<close>

definition voted :: "req_msg \<Rightarrow> server \<Rightarrow> server \<Rightarrow> bool" where
  "voted req s t \<longleftrightarrow> rq_term req = sv_term s \<and> ss_voted_for (sv_state s) \<in> {-1, rq_src req} \<and>
     (calm s \<longrightarrow> calm t \<and> same_members s t \<and> vote_sends t = vote_sends s \<and> sv_term t = sv_term s \<and>
        ss_voted_for (sv_state t) = rq_src req \<and> sv_votes_granted t = sv_votes_granted s \<and> sv_role t = sv_role s)"

definition vote_resp_of :: "req_msg \<Rightarrow> server \<Rightarrow> resp_msg \<Rightarrow> bool" where
  "vote_resp_of req s resp \<longleftrightarrow> rs_type resp = request_vote_response \<and> rs_term resp = sv_term s \<and>
     rs_src resp = sv_id s \<and> rs_dst resp = rq_src req"

lemma handle_vote_req_cases:
  obtains resp where "handle_vote_req req s = (resp, s)" and "\<not> rs_accepted resp" and "vote_resp_of req s resp"
  | resp t where "handle_vote_req req s = (resp, t)" and "rs_accepted resp" and "vote_resp_of req s resp" and "voted req s t"
proof (cases "can_vote req s \<and> \<not> priority_denied req s")
  case True
  let ?t = "save_state (set_sstate (\<lambda>st. st\<lparr>ss_voted_for := rq_src req\<rparr>) s)"
  have "voted req s ?t"
    using True
    by (auto simp: voted_def can_vote_def save_state_def set_sstate_def calm_def no_rsv_def same_members_def members_def
        vote_sends_def sv_term_def)
  moreover have "vote_resp_of req s (resp_accept (rl_next (sv_log s)) (new_resp_msg (sv_term s) request_vote_response (sv_id s) (rq_src req) 0))"
    by (simp add: vote_resp_of_def resp_accept_def new_resp_msg_def)
  ultimately show ?thesis
    using True that(2) [of _ ?t] by (simp add: handle_vote_req_def resp_accept_def)
next
  case False
  let ?r = "new_resp_msg (sv_term s) request_vote_response (sv_id s) (rq_src req) 0"
  have "handle_vote_req req s = (?r, s)" using False by (auto simp: handle_vote_req_def Let_def)
  moreover have "\<not> rs_accepted ?r" "vote_resp_of req s ?r"
    by (simp_all add: vote_resp_of_def new_resp_msg_def)
  ultimately show ?thesis by (rule that(1))
qed

lemma process_vote_req_cases:
  assumes "rq_type req = request_vote_request"
  obtains (none) u where "process_req env gap et req s = (None, u)" and "drift N s u"
  | (denied) u resp where "process_req env gap et req s = (Some resp, u)" and "drift N s u"
      and "\<not> rs_accepted resp" and "vote_resp_of req u resp"
  | (given) u t resp where "process_req env gap et req s = (Some resp, t)" and "drift N s u" and "voted req u t"
      and "rs_accepted resp" and "vote_resp_of req u resp"
proof -
  obtain ok t where cb: "call_cb env ProcessReq (-1) s = (ok, t)" by force
  have "steady False s (snd (call_cb env ProcessReq (-1) s))" by (intro steady_intros steady_refl)
  then have t: "drift N s t" using cb by (simp add: steady_drift)
  then have u: "drift N s (note_req_term env req t)" by (rule note_req_term_drift)
  show ?thesis
  proof (cases "\<not> ok \<or> sv_stopping t")
    case True
    then show ?thesis using none [OF _ t] cb by (simp add: process_req_def)
  next
    case False
    then have "process_req env gap et req s = apfst Some (handle_vote_req req (note_req_term env req t))"
      using cb assms by (simp add: process_req_def Let_def)
    then show ?thesis
      using u by (cases rule: handle_vote_req_cases [of req "note_req_term env req t"]) (auto intro: denied given)
  qed
qed

subsection \<open>Responses\<close>

lemma pkeep_note_answer [simp]: "pkeep (note_answer env)"
  by (simp add: pkeep_def pview_def pe_id_def peer_op_defs note_answer_def)

lemma steady_handle_install_snapshot_resp [steady_intros]:
  assumes "steady L s t"
  shows "steady L s (handle_install_snapshot_resp env resp t)"
proof -
  let ?g = "if rs_accepted resp then snapshot_accepted env resp (rl_next (sv_log t)) else snapshot_declined resp (rl_next (sv_log t))"
  have "pkeep (\<lambda>p. snd (?g p))"
    by (auto simp: pkeep_def pview_def pe_id_def peer_op_defs snapshot_accepted_def snapshot_declined_def Let_def
        split: option.split)
  then show ?thesis
    unfolding handle_install_snapshot_resp_def Let_def case_prod_beta by (intro steady_intros assms)
qed

lemma handle_peer_resp_drift:
  assumes "rs_type resp \<noteq> request_vote_response" and "sv_term s + 1 < 2 ^ 64"
  shows "drift N s (handle_peer_resp env resp s)"
proof -
  let ?a = "if rs_accepted resp then upd_peer (rs_src resp) (note_answer env) s else s"
  have a: "steady False s ?a" by (intro steady_intros steady_refl) simp
  obtain up u where ut: "update_term env (rs_term resp) ?a = (up, u)" by force
  have du: "drift N s u"
    using update_term_drift [OF steady_drift [OF a], of N env "rs_term resp"] ut by simp
  show ?thesis
  proof (cases up)
    case True
    then show ?thesis using du ut by (simp add: handle_peer_resp_def)
  next
    case False
    then have "u = ?a" using ut by (auto simp: update_term_def Let_def split: if_splits)
    then have "sv_term u + 1 < 2 ^ 64" using assms(2) by (auto simp: upd_peer_def sv_term_def)
    then have "drift N u (handle_prevote_resp env resp u)" by (rule handle_prevote_resp_drift)
    then have pv: "drift N s (handle_prevote_resp env resp u)"
      using du by (induction rule: drift.induct) (auto intro: drift.intros)
    have "steady False u (handle_append_entries_resp env resp (notify_cb ReceivedAppendEntriesResp (rs_src resp) u))"
      "steady False u (handle_install_snapshot_resp env resp u)" "steady False u (handle_custom_notification_resp resp u)"
      by (intro steady_intros steady_refl)+
    then show ?thesis
      using False du ut pv drift_steady [OF du] assms(1)
      by (cases "rs_type resp") (simp_all add: handle_peer_resp_def)
  qed
qed

text \<open>A vote response is counted, whatever its answer, or ignored.\<close>

definition counted :: "int set \<Rightarrow> int \<Rightarrow> server \<Rightarrow> server \<Rightarrow> bool" where
  "counted N k s t \<longleftrightarrow>
     (stable N s \<longrightarrow> calm t \<and> same_members s t \<and> vote_sends t = vote_sends s \<and> sv_term t = sv_term s \<and>
        ss_voted_for (sv_state t) = ss_voted_for (sv_state s) \<and> sv_votes_granted t = sv_votes_granted s + k \<and>
        (sv_role t = leader \<longrightarrow> sv_role s = leader \<or> int (card N) < 2 * (sv_votes_granted s + k)))"

lemma handle_vote_resp_counted:
  assumes "\<not> sv_election_completed s" and "rs_term resp = sv_term s"
  shows "counted N (if rs_accepted resp then 1 else 0) s (handle_vote_resp env resp s)"
  unfolding counted_def
proof
  let ?k = "if rs_accepted resp then 1 else 0"
  assume s: "stable N s"
  define u where "u = s\<lparr>sv_votes_responded := sv_votes_responded s + 1, sv_votes_granted := sv_votes_granted s + ?k\<rparr>"
  define v where "v = (if sv_votes_responded u \<ge> get_num_voting_members u then u\<lparr>sv_election_completed := True\<rparr> else u)"
  have u: "stable N u" "same_members s u" "vote_sends u = vote_sends s" "sv_term u = sv_term s" "sv_role u = sv_role s"
      "ss_voted_for (sv_state u) = ss_voted_for (sv_state s)" "sv_votes_granted u = sv_votes_granted s + ?k"
    using s by (simp_all add: u_def stable_def calm_def fits_def no_rsv_def same_members_def members_def vote_sends_def sv_term_def)
  have "steady False u v" unfolding v_def by (intro steady_intros steady_refl)
  then have v: "stable N v" "same_vote u v" "sv_role v = leader \<Longrightarrow> sv_role u = leader"
    using u(1) steady_stable by (blast, blast, simp add: steady_def stable_def)
  have q: "get_quorum_for_election v = int (card N) div 2" using v(1) by (rule stable_quorum)
  have "steady True v (become_leader env (v\<lparr>sv_election_completed := True\<rparr>))"
    by (intro steady_become_leader steady_fields steady_refl)
  then have l: "calm (become_leader env (v\<lparr>sv_election_completed := True\<rparr>))"
      "same_vote v (become_leader env (v\<lparr>sv_election_completed := True\<rparr>))"
    using v(1) by (simp_all add: steady_def stable_def)
  have eq: "handle_vote_resp env resp s = (if sv_votes_granted v \<ge> get_quorum_for_election v + 1
      then become_leader env (v\<lparr>sv_election_completed := True\<rparr>) else v)"
    using assms unfolding handle_vote_resp_def Let_def v_def u_def by simp
  have "sv_votes_granted v = sv_votes_granted s + ?k" using v(2) u(7) by (simp add: same_vote_def)
  then show "calm (handle_vote_resp env resp s) \<and> same_members s (handle_vote_resp env resp s) \<and>
      vote_sends (handle_vote_resp env resp s) = vote_sends s \<and> sv_term (handle_vote_resp env resp s) = sv_term s \<and>
      ss_voted_for (sv_state (handle_vote_resp env resp s)) = ss_voted_for (sv_state s) \<and>
      sv_votes_granted (handle_vote_resp env resp s) = sv_votes_granted s + ?k \<and>
      (sv_role (handle_vote_resp env resp s) = leader \<longrightarrow>
         sv_role s = leader \<or> int (card N) < 2 * (sv_votes_granted s + ?k))"
    using u v l q unfolding eq by (auto simp: same_vote_def same_members_def stable_def)
qed

lemma handle_peer_vote_resp_cases:
  assumes "rs_type resp = request_vote_response"
  obtains (ignored) "drift N s (handle_peer_resp env resp s)"
  | (counts) u where "drift N s u" and "rs_term resp = sv_term u"
      and "counted N (if rs_accepted resp then 1 else 0) u (handle_peer_resp env resp s)"
proof -
  let ?a = "if rs_accepted resp then upd_peer (rs_src resp) (note_answer env) s else s"
  have a: "steady False s ?a" by (intro steady_intros steady_refl) simp
  obtain up u where ut: "update_term env (rs_term resp) ?a = (up, u)" by force
  have du: "drift N s u"
    using update_term_drift [OF steady_drift [OF a], of N env "rs_term resp"] ut by simp
  have eq: "handle_peer_resp env resp s = (if up then u else handle_vote_resp env resp u)"
    using assms ut by (simp add: handle_peer_resp_def)
  show ?thesis
  proof (cases "up \<or> sv_election_completed u \<or> rs_term resp \<noteq> sv_term u")
    case True
    then show ?thesis using ignored du eq by (simp add: handle_vote_resp_def split: if_splits)
  next
    case False
    then show ?thesis
      using counts [OF du] handle_vote_resp_counted [of u resp N env] eq by simp
  qed
qed

subsection \<open>Timers, failures and commands\<close>

lemma holdsI: "(stable N s \<Longrightarrow> steady False s t) \<Longrightarrow> holds N s t"
  using steady_holds [of s t N] by (auto simp: holds_def)

lemma stable_peer:
  "stable N s \<Longrightarrow> find_peer i s = Some p \<Longrightarrow> \<not> pe_leave_requested p"
  using fits_peer(4) [of N s i p] by (simp add: stable_def find_peer_def om_find_def map_of_SomeD)

lemma handle_peer_err_holds: "holds N s (handle_peer_err env i s)"
proof (rule holdsI)
  assume s: "stable N s"
  have k: "pkeep (\<lambda>p. snd (check_snapshot_timeout env (p\<lparr>pe_rpc_errs := pe_rpc_errs p + 1\<rparr>)))"
    by (auto simp: pkeep_def pview_def pe_id_def peer_op_defs Let_def split: option.split)
  let ?u = "upd_peer i (\<lambda>p. snd (check_snapshot_timeout env (p\<lparr>pe_rpc_errs := pe_rpc_errs p + 1\<rparr>))) s"
  let ?v = "snd (call_cb env FollowerLost i (upd_peer i (\<lambda>p. p\<lparr>pe_lost_by_leader := True\<rparr>) ?u))"
  have u: "steady False s ?u" by (intro steady_intros steady_refl k)
  have v: "steady False s ?v" by (intro steady_intros u) simp
  have x: "steady False s (?v\<lparr>sv_exited := True\<rparr>)" by (intro steady_intros v)
  show "steady False s (handle_peer_err env i s)"
    using u v x stable_peer [OF s, of i]
    unfolding handle_peer_err_def Let_def case_prod_beta by (auto split: option.split)
qed

lemma steady_hb_leader [steady_intros]: "steady L s t \<Longrightarrow> steady L s (hb_leader env i t)"
  unfolding hb_leader_def Let_def case_prod_beta
  by (intro steady_intros) (simp_all add: pkeep_def pview_def pe_id_def)

lemma handle_hb_timeout_holds:
  assumes "sv_srv_to_join s = None"
  shows "holds N s (handle_hb_timeout env i s)"
proof (rule holdsI)
  assume s: "stable N s"
  have c: "check_srv_to_leave_timeout env s = s"
    using s by (simp add: check_srv_to_leave_timeout_def stable_def calm_def)
  have "hb_peer env i s = (if find_peer i s = None then s else hb_leader env i s)"
    using stable_peer [OF s, of i] by (auto simp: hb_peer_def split: option.split)
  moreover have "steady False s (hb_leader env i s)" by (intro steady_intros steady_refl)
  moreover have "steady False s ((become_follower env (s\<lparr>sv_leader := -1\<rparr>))\<lparr>sv_hb_alive := False\<rparr>)"
    by (intro steady_intros steady_refl)
  ultimately show "steady False s (handle_hb_timeout env i s)"
    using assms by (simp add: handle_hb_timeout_def c)
qed

lemma steady_rpc_result [steady_intros]:
  "steady L s t \<Longrightarrow> steady L s (upd_peer i (handle_rpc_ok now rpc req b) t)"
  "steady L s t \<Longrightarrow> steady L s (upd_peer i (handle_rpc_err now rpc req b) t)"
  by (intro steady_intros; simp add: pkeep_def pview_def pe_id_def peer_op_defs handle_rpc_ok_def handle_rpc_err_def
      try_set_free_def slow_down_hb_def Let_def)+

lemma steady_propose_config [steady_intros]: "steady L s t \<Longrightarrow> steady L s (propose_config env c t)"
  unfolding propose_config_def by (intro steady_intros)

lemma steady_flip_learner_flag [steady_intros]: "steady L s t \<Longrightarrow> steady L s (snd (flip_learner_flag env i b t))"
  unfolding flip_learner_flag_def Let_def
  by (auto split: option.split prod.split intro!: steady_intros)

lemma steady_set_user_ctx [steady_intros]: "steady L s t \<Longrightarrow> steady L s (set_user_ctx env ctx t)"
  unfolding set_user_ctx_def Let_def by (intro steady_intros)

lemma steady_update_srv_config [steady_intros]: "steady L s t \<Longrightarrow> steady L s (snd (update_srv_config env srv t))"
  unfolding update_srv_config_def Let_def by (intro steady_intros)

lemma steady_set_self_mark_down [steady_intros]: "steady L s t \<Longrightarrow> steady L s (snd (set_self_mark_down b t))"
  unfolding set_self_mark_down_def by (simp add: steady_fields)

lemma steady_drop_watchers [steady_intros]:
  assumes "steady L s t"
  shows "steady L s (drop_all_sm_watcher_elems t)"
proof -
  have rep: "filter is_vote_send (replicate n (Watcher_Result i False)) = []" for n i
    by (induction n) (simp_all add: is_vote_send_def)
  have "filter is_vote_send (concat (map (\<lambda>kn. replicate (snd kn) (Watcher_Result (fst kn) False)) m)) = []" for m
    by (induction m) (simp_all add: rep)
  then have "steady L t (drop_all_sm_watcher_elems t)"
    by (simp add: drop_all_sm_watcher_elems_def steady_def calm_def same_vote_def sv_term_def members_def no_rsv_def
        vote_sends_def case_prod_beta)
  with assms show ?thesis by (rule steady_trans)
qed

lemma steady_stop_server [steady_intros]: "steady L s t \<Longrightarrow> steady L s (stop_server t)"
  unfolding stop_server_def by (intro steady_intros)

end
