(* ===== verification/Raft_Cluster.thy ===== *)
theory Raft_Cluster
  imports Raft_Drift
begin

text \<open>
  A cluster of servers with a fixed membership \<open>N\<close>, running the code of the handlers. Vote requests
  and their responses travel between the servers and can be delayed, reordered and lost. All other
  messages have any content and arrive at any time: nothing is assumed about them but that they do
  not change the membership. Servers crash and restart from what they saved. The cluster is shown to
  follow the protocol of \<^verbatim>\<open>Election\<close>, so that a term has at most one leader.
\<close>

subsection \<open>Steps of one server\<close>

datatype event =
    Election_Timer
  | Heartbeat_Timer int
  | Request nat req_msg
  | Response resp_msg
  | Request_Failed int
  | Rpc_Ok int nat req_msg bool
  | Rpc_Err int nat req_msg bool
  | Append_Done bool
  | Commit_Round
  | Snapshot_Done snapshot bool bool
  | Client_Wakes nat resp_msg
  | Priority int int bool
  | Yield bool int
  | Ask_Leadership
  | Learner int bool
  | User_Context "u8 list"
  | Server_Record srv_config
  | Mark_Down bool
  | Take_Snapshot
  | Stop

text \<open>What a server does at an event; responses to requests other than vote requests need not be kept.\<close>

fun happens :: "renv \<Rightarrow> event \<Rightarrow> server \<Rightarrow> server" where
  "happens env Election_Timer s = handle_election_timeout env s"
| "happens env (Heartbeat_Timer i) s = handle_hb_timeout env i s"
| "happens env (Request et req) s = snd (process_req env id et req s)"
| "happens env (Response resp) s = handle_peer_resp env resp s"
| "happens env (Request_Failed i) s = handle_peer_err env i s"
| "happens env (Rpc_Ok i rpc req b) s = upd_peer i (handle_rpc_ok (ev_now env) rpc req b) s"
| "happens env (Rpc_Err i rpc req b) s = upd_peer i (handle_rpc_err (ev_now env) rpc req b) s"
| "happens env (Append_Done b) s = notify_log_append_completion env b s"
| "happens env Commit_Round s = commit_in_bg env s"
| "happens env (Snapshot_Done snp manual ok) s = on_snapshot_completed env snp manual ok s"
| "happens env (Client_Wakes i resp) s = snd (handle_cli_req_callback env i resp s)"
| "happens env (Priority i n b) s = snd (set_priority env i n b s)"
| "happens env (Yield b i) s = yield_leadership env b i s"
| "happens env Ask_Leadership s = snd (request_leadership env s)"
| "happens env (Learner i b) s = snd (flip_learner_flag env i b s)"
| "happens env (User_Context ctx) s = set_user_ctx env ctx s"
| "happens env (Server_Record srv) s = snd (update_srv_config env srv s)"
| "happens env (Mark_Down b) s = snd (set_self_mark_down b s)"
| "happens env Take_Snapshot s = snd (create_snapshot env s)"
| "happens env Stop s = stop_server s"

text \<open>The events of a server whose membership stays \<open>N\<close>. Votes are exchanged by steps of their own.\<close>

fun allowed :: "int set \<Rightarrow> event \<Rightarrow> server \<Rightarrow> bool" where
  "allowed N (Heartbeat_Timer i) s \<longleftrightarrow> sv_srv_to_join s = None"
| "allowed N (Request et req) s \<longleftrightarrow> rq_type req \<noteq> request_vote_request \<and> \<not> member_request (rq_type req) \<and>
     (rq_type req = install_snapshot_request \<longrightarrow> static_snapshot N req)"
| "allowed N (Response resp) s \<longleftrightarrow> rs_type resp \<noteq> request_vote_response"
| "allowed N Commit_Round s \<longleftrightarrow> static_log N s"
| "allowed N _ s \<longleftrightarrow> True"

lemma happens_drift:
  assumes "allowed N e s" and "sv_term s + 1 < 2 ^ 64"
  shows "drift N s (happens env e s)"
proof (cases e)
  case Election_Timer
  then show ?thesis using handle_election_timeout_drift [OF assms(2)] by simp
next
  case (Heartbeat_Timer i)
  then show ?thesis
    using assms(1) drift_holds [OF drift_refl handle_hb_timeout_holds] by simp
next
  case (Request et req)
  then show ?thesis using assms process_req_drift [of req N s env et] by simp
next
  case (Response resp)
  then show ?thesis using assms handle_peer_resp_drift [of resp s N env] by simp
next
  case (Request_Failed i)
  then show ?thesis using drift_holds [OF drift_refl handle_peer_err_holds] by simp
next
  case Commit_Round
  then show ?thesis using assms(1) drift_holds [OF drift_refl commit_in_bg_holds] by simp
qed (simp_all only: happens.simps, (rule steady_drift, intro steady_intros steady_refl)+)

subsection \<open>Starting a server\<close>

text \<open>
  A server that starts with the durable state \<open>st\<close>, a configuration with the members \<open>N\<close>, and parameters
  without a quorum size. The log and the state machine may be in any condition.
\<close>

definition booted :: "int set \<Rightarrow> int \<Rightarrow> srv_state option \<Rightarrow> server \<Rightarrow> bool" where
  "booted N i st s \<longleftrightarrow> (\<exists>env test junk params c log applied skip.
     s = start_server env skip (new_server env test junk i params st c log applied) \<and> static_conf N c \<and>
     \<not> p_auto_adjust_quorum_for_small_cluster params \<and> p_custom_election_quorum_size params \<le> 0)"

lemma om_set_elems: "set (om_set k v m) \<subseteq> insert (k, v) (set m)" "fst ` set (om_set k v m) = insert k (fst ` set m)"
  by (induction m) auto

lemma insert_peer_elems:
  "omap_ok m \<Longrightarrow> omap_ok (insert_peer k p m)" "set (insert_peer k p m) \<subseteq> insert (k, p) (set m)"
  "fst ` set (insert_peer k p m) = insert k (fst ` set m)"
  using om_set_elems [of k p m]
  by (auto simp: insert_peer_def om_find_def omap_ok_set split: option.split dest: map_of_SomeD)
    (metis fst_conv image_eqI map_of_SomeD)

lemma boot_peers:
  assumes "omap_ok m" and "\<And>k p. (k, p) \<in> set m \<Longrightarrow> g k p" and "\<And>srv. srv \<in> set srvs \<Longrightarrow> g (sc_id srv) (mk srv)"
    and "m' = fold (\<lambda>srv m. if sc_id srv \<noteq> me then insert_peer (sc_id srv) (mk srv) m else m) srvs m"
  shows "omap_ok m' \<and> fst ` set m' = fst ` set m \<union> (sc_id ` set srvs - {me}) \<and> (\<forall>(k, p) \<in> set m'. g k p)"
  using assms
proof (induction srvs arbitrary: m)
  case (Cons x srvs)
  let ?m = "if sc_id x \<noteq> me then insert_peer (sc_id x) (mk x) m else m"
  have ok: "omap_ok ?m" using Cons.prems(1) insert_peer_elems(1) by simp
  have el: "g k p" if "(k, p) \<in> set ?m" for k p
    using that insert_peer_elems(2) [of "sc_id x" "mk x" m] Cons.prems(2,3) by (fastforce split: if_splits)
  have srvs: "g (sc_id srv) (mk srv)" if "srv \<in> set srvs" for srv
    using that Cons.prems(3) by simp
  have "m' = fold (\<lambda>srv m. if sc_id srv \<noteq> me then insert_peer (sc_id srv) (mk srv) m else m) srvs ?m"
    using Cons.prems(4) by simp
  from Cons.IH [OF ok el srvs this] show ?case
    using insert_peer_elems(3) [of "sc_id x" "mk x" m] by auto
qed auto

lemma booted_stable:
  assumes "booted N i st s" and "finite N" and "i \<in> N"
  shows "stable N s" and "sv_id s = i" and "sv_role s = follower" and "sv_votes_granted s = 0" and "vote_sends s = []"
    and "sv_term s = ss_term (case st of Some x \<Rightarrow> x | None \<Rightarrow> default_srv_state)"
    and "ss_voted_for (sv_state s) = ss_voted_for (case st of Some x \<Rightarrow> x | None \<Rightarrow> default_srv_state)"
proof -
  obtain env test junk params c log applied skip where
    s: "s = start_server env skip (new_server env test junk i params st c log applied)" and c: "static_conf N c"
    and p: "\<not> p_auto_adjust_quorum_for_small_cluster params" "p_custom_election_quorum_size params \<le> 0"
    using assms(1) unfolding booted_def by blast
  define n where "n = new_server env test junk i params st c log applied"
  let ?st = "case st of Some x \<Rightarrow> x | None \<Rightarrow> default_srv_state"
  let ?fixed = "fix_timeouts test (if p_stale_log_gap params < p_fresh_log_gap params
                    then params\<lparr>p_stale_log_gap := p_fresh_log_gap params\<rparr> else params)"
  have fixed: "p_auto_adjust_quorum_for_small_cluster ?fixed = p_auto_adjust_quorum_for_small_cluster params"
      "p_custom_election_quorum_size ?fixed = p_custom_election_quorum_size params"
    by (simp_all add: fix_timeouts_def Let_def)
  define mk where "mk = new_peer (ev_now env) (ev_new_rpc env) ?fixed"
  have n: "sv_id n = i" "sv_role n = follower" "sv_votes_granted n = 0" "sv_out n = []" "sv_state n = ?st" "sv_saved n = ?st"
      "sv_srv_to_leave n = None" "sv_params n = ?fixed"
      "sv_peers n = fold (\<lambda>srv m. if sc_id srv \<noteq> i then insert_peer (sc_id srv) (mk srv) m else m) (cc_servers c) []"
    unfolding mk_def by (simp_all add: n_def new_server_def apply_and_log_current_params_def Let_def)
  have learner: "\<not> sv_im_learner n"
  proof -
    have "\<not> sc_learner (last xs)" if "xs \<noteq> []" "set xs \<subseteq> set (cc_servers c)" for xs
      using that(2) c last_in_set [OF that(1)] unfolding static_conf_def by blast
    then show ?thesis
      by (auto simp: n_def new_server_def apply_and_log_current_params_def Let_def)
  qed
  define good where "good k p \<longleftrightarrow> (\<exists>srv. sc_id srv = k \<and> \<not> sc_learner srv \<and> \<not> sc_new_joiner srv \<and> p = mk srv)" for k p
  have "good (sc_id srv) (mk srv)" if "srv \<in> set (cc_servers c)" for srv
    using that c unfolding good_def static_conf_def by blast
  from boot_peers [where g = good and m = "[]", OF _ _ this n(9)] c
  have peers: "omap_ok (sv_peers n)" "fst ` set (sv_peers n) = N - {i}" "\<And>k p. (k, p) \<in> set (sv_peers n) \<Longrightarrow> good k p"
    by (auto simp: static_conf_def omap_ok_def)
  have pv: "pview (mk srv) = (sc_id srv, sc_learner srv, sc_new_joiner srv, False)" "pe_rsv_msg (mk srv) = None" for srv
    by (simp_all add: pview_def pe_id_def new_peer_def mk_def)
  have "calm n"
    using n fixed p(1) peers(3) pv(2) by (fastforce simp: calm_def no_rsv_def good_def)
  moreover have "fits N n"
    unfolding fits_def
  proof (intro conjI)
    show "p_custom_election_quorum_size (sv_params n) \<le> 0" using n(8) fixed(2) p(2) by simp
    show "distinct (map fst (members n))"
      using peers(1) by (simp add: members_keys omap_ok_def strict_sorted_iff)
    show "fst ` set (members n) = N - {sv_id n}"
      using peers(2) n(1) members_keys [of n] by (metis list.set_map)
    show "\<forall>(k, i, l, j, d) \<in> set (members n). i = k \<and> \<not> l \<and> \<not> j \<and> \<not> d"
      using peers(3) pv(1) by (fastforce simp: members_def good_def)
  qed (use assms(2,3) n(1) learner in simp_all)
  ultimately have stable: "stable N n" by (simp add: stable_def)
  have "steady False n s"
    unfolding s n_def [symmetric] start_server_def Let_def by (intro steady_intros steady_refl) simp_all
  then have st: "stable N s" "same_vote n s" "sv_role s \<noteq> leader"
    using steady_stable [OF _ stable] stable n(2) by (auto simp: steady_def stable_def)
  then show "stable N s" "sv_id s = i" "sv_votes_granted s = 0" "vote_sends s = []" "sv_term s = ss_term ?st"
    "ss_voted_for (sv_state s) = ss_voted_for ?st"
    using n by (simp_all add: same_vote_def vote_sends_def sv_term_def)
  show "sv_role s = follower"
    using n(2) unfolding s n_def [symmetric]
    by (simp add: start_server_def restart_election_timer_def save_state_def set_sstate_def Let_def)
qed

subsection \<open>The cluster\<close>

record cluster =
  cl_server :: "int \<Rightarrow> server"
  cl_reqs :: "req_msg multiset"
  cl_resps :: "resp_msg multiset"

definition sent_votes :: "server \<Rightarrow> req_msg list" where
  "sent_votes s = concat (map (\<lambda>e. case e of Send r \<Rightarrow> [r] | _ \<Rightarrow> []) (vote_sends s))"

text \<open>
  One server runs a handler at a time, on an empty list of effects; the vote requests it sends join
  those on their way. Every handler runs below the largest term.
\<close>

definition at_server :: "cluster \<Rightarrow> int \<Rightarrow> server \<Rightarrow> bool" where
  "at_server c i s \<longleftrightarrow> s = (cl_server c i)\<lparr>sv_out := []\<rparr> \<and> sv_term s + 1 < 2 ^ 64"

inductive cstep :: "int set \<Rightarrow> cluster \<Rightarrow> cluster \<Rightarrow> bool" for N where
  c_local: "i \<in> N \<Longrightarrow> at_server c i s \<Longrightarrow> allowed N e s \<Longrightarrow> happens env e s = t \<Longrightarrow>
    cstep N c (c\<lparr>cl_server := (cl_server c)(i := t), cl_reqs := cl_reqs c + mset (sent_votes t)\<rparr>)"
| c_ask: "i \<in> N \<Longrightarrow> at_server c i s \<Longrightarrow> req \<in># cl_reqs c \<Longrightarrow> rq_dst req = i \<Longrightarrow> process_req env id 0 req s = (resp, t) \<Longrightarrow>
    cstep N c (c\<lparr>cl_server := (cl_server c)(i := t), cl_reqs := cl_reqs c - {#req#} + mset (sent_votes t),
      cl_resps := cl_resps c + (case resp of None \<Rightarrow> {#} | Some r \<Rightarrow> {#r#})\<rparr>)"
| c_answer: "i \<in> N \<Longrightarrow> at_server c i s \<Longrightarrow> resp \<in># cl_resps c \<Longrightarrow> rs_dst resp = i \<Longrightarrow> handle_peer_resp env resp s = t \<Longrightarrow>
    cstep N c (c\<lparr>cl_server := (cl_server c)(i := t), cl_reqs := cl_reqs c + mset (sent_votes t),
      cl_resps := cl_resps c - {#resp#}\<rparr>)"
| c_restart: "i \<in> N \<Longrightarrow> booted N i (Some (sv_saved (cl_server c i))) t \<Longrightarrow>
    cstep N c (c\<lparr>cl_server := (cl_server c)(i := t)\<rparr>)"
| c_lose_req: "cstep N c (c\<lparr>cl_reqs := cl_reqs c - {#req#}\<rparr>)"
| c_lose_resp: "cstep N c (c\<lparr>cl_resps := cl_resps c - {#resp#}\<rparr>)"

definition starts :: "int set \<Rightarrow> cluster \<Rightarrow> bool" where
  "starts N c \<longleftrightarrow> (\<forall>i \<in> N. \<exists>st. booted N i st (cl_server c i)) \<and> cl_reqs c = {#} \<and> cl_resps c = {#}"

definition leads :: "cluster \<Rightarrow> int \<Rightarrow> nat \<Rightarrow> bool" where
  "leads c i t \<longleftrightarrow> sv_role (cl_server c i) = leader \<and> sv_term (cl_server c i) = t"

subsection \<open>Simulation\<close>

definition agrees :: "acluster \<Rightarrow> int \<Rightarrow> server \<Rightarrow> bool" where
  "agrees a i s \<longleftrightarrow> ac_term a i = sv_term s \<and> ac_vote a i = ss_voted_for (sv_state s) \<and>
     ac_granted a i = sv_votes_granted s \<and> (ac_lead a i \<longleftrightarrow> sv_role s = leader)"

definition req_ballot :: "req_msg \<Rightarrow> ballot" where
  "req_ballot r = (rq_term r, rq_src r, rq_dst r)"

definition resp_ballot :: "resp_msg \<Rightarrow> ballot" where
  "resp_ballot r = (rs_term r, rs_dst r, rs_src r)"

definition sim :: "int set \<Rightarrow> cluster \<Rightarrow> acluster \<Rightarrow> bool" where
  "sim N c a \<longleftrightarrow>
     (\<forall>i \<in> N. stable N (cl_server c i) \<and> sv_id (cl_server c i) = i \<and> agrees a i (cl_server c i)) \<and>
     (\<forall>r. r \<in># cl_reqs c \<longrightarrow> rq_type r = request_vote_request) \<and>
     (\<forall>r. r \<in># cl_resps c \<longrightarrow> rs_type r = request_vote_response) \<and>
     ac_reqs a = image_mset req_ballot (cl_reqs c) \<and>
     ac_grants a = image_mset resp_ballot (filter_mset rs_accepted (cl_resps c))"

text \<open>A move of one server in the protocol.\<close>

definition moves :: "int set \<Rightarrow> int \<Rightarrow> acluster \<Rightarrow> acluster \<Rightarrow> bool" where
  "moves N i a b \<longleftrightarrow> (astep N)\<^sup>*\<^sup>* a b \<and>
     (\<forall>j. j \<noteq> i \<longrightarrow> ac_term b j = ac_term a j \<and> ac_vote b j = ac_vote a j \<and> ac_granted b j = ac_granted a j \<and>
        ac_lead b j = ac_lead a j)"

lemma moves_refl [simp]: "moves N i a a"
  by (simp add: moves_def)

lemma moves_trans: "moves N i a b \<Longrightarrow> moves N i b c \<Longrightarrow> moves N i a c"
  by (auto simp: moves_def)

lemma moves_step:
  "astep N a b \<Longrightarrow>
     (\<And>j. j \<noteq> i \<Longrightarrow> ac_term b j = ac_term a j \<and> ac_vote b j = ac_vote a j \<and> ac_granted b j = ac_granted a j \<and>
        ac_lead b j = ac_lead a j) \<Longrightarrow> moves N i a b"
  by (simp add: moves_def r_into_rtranclp)

lemma agrees_other: "moves N i a b \<Longrightarrow> j \<noteq> i \<Longrightarrow> agrees a j s \<Longrightarrow> agrees b j s"
  by (simp add: moves_def agrees_def)

lemma holds_moves:
  assumes "holds N s t" and "stable N s" and "agrees a i s"
  shows "\<exists>b. moves N i a b \<and> agrees b i t \<and> ac_reqs b = ac_reqs a \<and> ac_grants b = ac_grants a"
proof -
  let ?b = "a\<lparr>ac_lead := (ac_lead a)(i := (sv_role t = leader))\<rparr>"
  have t: "same_vote s t" "sv_role t = leader \<Longrightarrow> sv_role s = leader"
    using assms(1,2) by (auto simp: holds_def)
  have "astep N a ?b"
    using t(2) assms(3) by (intro a_relax) (simp add: agrees_def)
  then have "moves N i a ?b" by (rule moves_step) simp
  moreover have "agrees ?b i t"
    using t(1) assms(3) by (simp add: agrees_def same_vote_def)
  ultimately show ?thesis by (intro exI [of _ ?b]) simp
qed

lemma bumped_moves:
  assumes "bumped n s t" and "stable N s" and "agrees a i s"
  shows "\<exists>b. moves N i a b \<and> agrees b i t \<and> ac_reqs b = ac_reqs a \<and> ac_grants b = ac_grants a"
proof -
  let ?b = "a\<lparr>ac_term := (ac_term a)(i := n), ac_vote := (ac_vote a)(i := -1),
      ac_granted := (ac_granted a)(i := 0), ac_lead := (ac_lead a)(i := False)\<rparr>"
  have t: "sv_term s < n" "sv_term t = n" "ss_voted_for (sv_state t) = -1" "sv_votes_granted t = 0" "sv_role t \<noteq> leader"
    using assms(1,2) by (auto simp: bumped_def stable_def)
  have "astep N a ?b"
    using t(1) assms(3) by (intro a_bump) (simp add: agrees_def)
  then have "moves N i a ?b" by (rule moves_step) simp
  then show ?thesis
    using t by (intro exI [of _ ?b]) (simp add: agrees_def)
qed

lemma campaigned_moves:
  assumes "campaigned N s t" and "stable N s" and "agrees a i s" and "sv_id s = i" and "i \<in> N"
  shows "\<exists>b bs. moves N i a b \<and> agrees b i t \<and> ballots t = ballots s @ bs \<and>
    ac_reqs b = ac_reqs a + mset bs \<and> ac_grants b = ac_grants a"
proof -
  obtain vs where vs: "distinct vs" "set vs \<subseteq> N - {i}" "ballots t = ballots s @ map (\<lambda>v. (sv_term t, i, v)) vs"
    and t: "sv_term s < sv_term t" "ss_voted_for (sv_state t) = i" "sv_votes_granted t = 1"
      "sv_role t = leader \<Longrightarrow> card N < 2"
    using assms(1,2,4) by (auto simp: campaigned_def)
  let ?t = "sv_term t" and ?l = "sv_role t = leader"
  let ?b = "a\<lparr>ac_term := (ac_term a)(i := ?t), ac_vote := (ac_vote a)(i := i),
      ac_granted := (ac_granted a)(i := 1), ac_lead := (ac_lead a)(i := ?l),
      ac_reqs := ac_reqs a + mset (map (\<lambda>v. (?t, i, v)) vs),
      ac_hist := insert (?t, i, i) (ac_hist a), ac_counted := insert (?t, i, i) (ac_counted a),
      ac_led := (if ?l then insert (?t, i) (ac_led a) else ac_led a)\<rparr>"
  have "astep N a ?b"
    using t vs assms(3,5) by (intro a_campaign) (simp_all add: agrees_def)
  then have "moves N i a ?b" by (rule moves_step) simp
  moreover have "agrees ?b i t" using t(2,3) by (simp add: agrees_def)
  ultimately show ?thesis
    using vs(3) by (intro exI [of _ ?b] exI [of _ "map (\<lambda>v. (?t, i, v)) vs"]) simp
qed

lemma bumped_stable: "bumped n s t \<Longrightarrow> stable N s \<Longrightarrow> stable N t \<and> sv_id t = sv_id s \<and> ballots t = ballots s"
  using fits_members [of s t N] by (auto simp: bumped_def stable_def same_members_def ballots_def)

lemma campaigned_stable: "campaigned N s t \<Longrightarrow> stable N s \<Longrightarrow> stable N t \<and> sv_id t = sv_id s"
  using fits_members [of s t N] by (auto simp: campaigned_def stable_def same_members_def)

lemma holds_stable: "holds N s t \<Longrightarrow> stable N s \<Longrightarrow> stable N t \<and> sv_id t = sv_id s \<and> ballots t = ballots s"
  by (simp add: holds_def same_vote_def ballots_def)

lemma drift_moves:
  assumes "drift N s t" and "stable N s" and "agrees a i s" and "sv_id s = i" and "i \<in> N"
  shows "stable N t \<and> sv_id t = i \<and> (\<exists>b bs. moves N i a b \<and> agrees b i t \<and> ballots t = ballots s @ bs \<and>
    ac_reqs b = ac_reqs a + mset bs \<and> ac_grants b = ac_grants a)"
  using assms(1)
proof (induction rule: drift.induct)
  case drift_refl
  show ?case using assms by (intro conjI exI [of _ a] exI [of _ "[]"]) simp_all
next
  case (drift_holds t u)
  then obtain b bs where t: "stable N t" "sv_id t = i" "moves N i a b" "agrees b i t" "ballots t = ballots s @ bs"
      "ac_reqs b = ac_reqs a + mset bs" "ac_grants b = ac_grants a" by blast
  from holds_moves [OF drift_holds(2) t(1,4)] t holds_stable [OF drift_holds(2) t(1)] show ?case
    by (metis moves_trans)
next
  case (drift_bumped t n u)
  then obtain b bs where t: "stable N t" "sv_id t = i" "moves N i a b" "agrees b i t" "ballots t = ballots s @ bs"
      "ac_reqs b = ac_reqs a + mset bs" "ac_grants b = ac_grants a" by blast
  from bumped_moves [OF drift_bumped(2) t(1,4)] t bumped_stable [OF drift_bumped(2) t(1)] show ?case
    by (metis moves_trans)
next
  case (drift_campaigned t u)
  then obtain b bs where t: "stable N t" "sv_id t = i" "moves N i a b" "agrees b i t" "ballots t = ballots s @ bs"
      "ac_reqs b = ac_reqs a + mset bs" "ac_grants b = ac_grants a" by blast
  from campaigned_moves [OF drift_campaigned(2) t(1,4,2) assms(5)] obtain b' bs' where
    b': "moves N i b b'" "agrees b' i u" "ballots u = ballots t @ bs'" "ac_reqs b' = ac_reqs b + mset bs'"
      "ac_grants b' = ac_grants b" by blast
  then have "moves N i a b' \<and> agrees b' i u \<and> ballots u = ballots s @ (bs @ bs') \<and>
      ac_reqs b' = ac_reqs a + mset (bs @ bs') \<and> ac_grants b' = ac_grants a"
    using t moves_trans [OF t(3) b'(1)] by simp
  then show ?case
    using campaigned_stable [OF drift_campaigned(2) t(1)] t(2) by blast
qed

text \<open>Vote requests leave a server as ballots.\<close>

lemma sent_votes_type: "r \<in> set (sent_votes s) \<Longrightarrow> rq_type r = request_vote_request"
  by (auto simp: sent_votes_def vote_sends_def is_vote_send_def split: effect.splits)

lemma sent_votes_ballots: "map req_ballot (sent_votes s) = ballots s"
proof -
  have "map req_ballot (concat (map (\<lambda>e. case e of Send r \<Rightarrow> [r] | _ \<Rightarrow> []) es)) = map ballot_of es"
    if "\<forall>e \<in> set es. is_vote_send e" for es
    using that
  proof (induction es)
    case (Cons e es)
    then show ?case by (cases e) (simp_all add: is_vote_send_def ballot_of_def req_ballot_def)
  qed simp
  then show ?thesis by (simp add: sent_votes_def ballots_def vote_sends_def)
qed

lemma sim_at:
  assumes "sim N c a" and "i \<in> N" and "at_server c i s"
  shows "stable N s" and "sv_id s = i" and "agrees a i s" and "ballots s = []"
  using assms
  by (auto simp: sim_def at_server_def stable_def calm_def fits_def no_rsv_def members_def agrees_def sv_term_def
      ballots_def vote_sends_def)

lemma sim_update:
  assumes "sim N c a" and "moves N i a b" and "stable N t" and "sv_id t = i" and "agrees b i t"
    and "\<And>r. r \<in># R \<Longrightarrow> rq_type r = request_vote_request" and "\<And>r. r \<in># P \<Longrightarrow> rs_type r = request_vote_response"
    and "ac_reqs b = image_mset req_ballot R" and "ac_grants b = image_mset resp_ballot (filter_mset rs_accepted P)"
  shows "sim N (c\<lparr>cl_server := (cl_server c)(i := t), cl_reqs := R, cl_resps := P\<rparr>) b"
  using assms agrees_other [OF assms(2)] by (auto simp: sim_def)

lemma sim_messages:
  assumes "sim N c a"
  shows "ac_reqs a = image_mset req_ballot (cl_reqs c)" "ac_grants a = image_mset resp_ballot (filter_mset rs_accepted (cl_resps c))"
    "\<And>r. r \<in># cl_reqs c \<Longrightarrow> rq_type r = request_vote_request" "\<And>r. r \<in># cl_resps c \<Longrightarrow> rs_type r = request_vote_response"
  using assms by (auto simp: sim_def)

lemma image_mset_remove: "x \<in># M \<Longrightarrow> image_mset f (M - {#x#}) = image_mset f M - {#f x#}"
  by (metis add_mset_remove_trivial image_mset_add_mset insert_DiffM)

text \<open>The steps in which a server only drifts.\<close>

lemma sim_drift:
  assumes "sim N c a" and "i \<in> N" and "at_server c i s" and "drift N s t"
  obtains b where "moves N i a b" and "stable N t" and "sv_id t = i" and "agrees b i t"
    and "ac_reqs b = image_mset req_ballot (cl_reqs c + mset (sent_votes t))" and "ac_grants b = ac_grants a"
proof -
  note s = sim_at [OF assms(1-3)]
  obtain b bs where b: "stable N t" "sv_id t = i" "moves N i a b" "agrees b i t" "ballots t = ballots s @ bs"
      "ac_reqs b = ac_reqs a + mset bs" "ac_grants b = ac_grants a"
    using drift_moves [OF assms(4) s(1,3,2) assms(2)] by blast
  have "ac_reqs b = image_mset req_ballot (cl_reqs c + mset (sent_votes t))"
    using b(5,6) s(4) sim_messages(1) [OF assms(1)] sent_votes_ballots [of t] by (metis append_Nil image_mset_union mset_map)
  then show ?thesis using that b by blast
qed

lemma moves_lose_req: "moves N i a (a\<lparr>ac_reqs := ac_reqs a - {#x#}\<rparr>)"
  by (rule moves_step [OF a_lose_req]) simp

lemma moves_lose_grant: "moves N i a (a\<lparr>ac_grants := ac_grants a - {#x#}\<rparr>)"
  by (rule moves_step [OF a_lose_grant]) simp

lemma agrees_messages [simp]:
  "agrees (a\<lparr>ac_reqs := R\<rparr>) i s = agrees a i s" "agrees (a\<lparr>ac_grants := P\<rparr>) i s = agrees a i s"
  by (simp_all add: agrees_def)

lemma cl_update_id: "c\<lparr>cl_server := f, cl_reqs := R\<rparr> = c\<lparr>cl_server := f, cl_reqs := R, cl_resps := cl_resps c\<rparr>"
  "c\<lparr>cl_server := f\<rparr> = c\<lparr>cl_server := f, cl_reqs := cl_reqs c, cl_resps := cl_resps c\<rparr>"
  by simp_all

lemma sim_local:
  assumes "sim N c a" and "i \<in> N" and "at_server c i s" and "drift N s t"
  shows "\<exists>b. (astep N)\<^sup>*\<^sup>* a b \<and>
    sim N (c\<lparr>cl_server := (cl_server c)(i := t), cl_reqs := cl_reqs c + mset (sent_votes t)\<rparr>) b"
proof -
  note m = sim_messages [OF assms(1)]
  from sim_drift [OF assms] obtain b where b: "moves N i a b" "stable N t" "sv_id t = i" "agrees b i t"
      "ac_reqs b = image_mset req_ballot (cl_reqs c + mset (sent_votes t))" "ac_grants b = ac_grants a" .
  have "sim N (c\<lparr>cl_server := (cl_server c)(i := t), cl_reqs := cl_reqs c + mset (sent_votes t), cl_resps := cl_resps c\<rparr>) b"
    by (rule sim_update [OF assms(1) b(1-4)]) (use b(5,6) m sent_votes_type in auto)
  from this [folded cl_update_id(1)] show ?thesis using b(1) unfolding moves_def by blast
qed

text \<open>A vote request arrives.\<close>

lemma sim_ask_denied:
  assumes "sim N c a" and "i \<in> N" and "at_server c i s" and "drift N s t" and req: "req \<in># cl_reqs c"
    and P: "\<And>r. r \<in># P \<Longrightarrow> rs_type r = request_vote_response" "filter_mset rs_accepted P = {#}"
  shows "\<exists>b. (astep N)\<^sup>*\<^sup>* a b \<and> sim N (c\<lparr>cl_server := (cl_server c)(i := t),
    cl_reqs := cl_reqs c - {#req#} + mset (sent_votes t), cl_resps := cl_resps c + P\<rparr>) b"
proof -
  note m = sim_messages [OF assms(1)]
  from sim_drift [OF assms(1-4)] obtain b where b: "moves N i a b" "stable N t" "sv_id t = i" "agrees b i t"
      "ac_reqs b = image_mset req_ballot (cl_reqs c + mset (sent_votes t))" "ac_grants b = ac_grants a" .
  let ?b = "b\<lparr>ac_reqs := ac_reqs b - {#req_ballot req#}\<rparr>"
  have mv: "moves N i a ?b" using b(1) moves_lose_req by (rule moves_trans)
  have "sim N (c\<lparr>cl_server := (cl_server c)(i := t), cl_reqs := cl_reqs c - {#req#} + mset (sent_votes t),
      cl_resps := cl_resps c + P\<rparr>) ?b"
  proof (rule sim_update [OF assms(1) mv b(2,3)])
    show "ac_reqs ?b = image_mset req_ballot (cl_reqs c - {#req#} + mset (sent_votes t))"
      using b(5) req by (simp add: image_mset_remove)
    show "ac_grants ?b = image_mset resp_ballot (filter_mset rs_accepted (cl_resps c + P))"
      using b(6) m(2) P(2) by simp
    show "rq_type r = request_vote_request" if "r \<in># cl_reqs c - {#req#} + mset (sent_votes t)" for r
      using that m(3) sent_votes_type by (auto dest: in_diffD)
  qed (use b(4) m(4) P(1) in auto)
  then show ?thesis using mv unfolding moves_def by blast
qed

lemma voted_stable: "voted req s t \<Longrightarrow> stable N s \<Longrightarrow> stable N t \<and> sv_id t = sv_id s \<and> ballots t = ballots s"
  using fits_members [of s t N] by (auto simp: voted_def stable_def same_members_def ballots_def)

lemma sent_votes_same: "ballots t = ballots s \<Longrightarrow> mset (map req_ballot (sent_votes t)) = mset (map req_ballot (sent_votes s))"
  by (simp add: sent_votes_ballots)

lemma sim_ask_given:
  assumes "sim N c a" and "i \<in> N" and "at_server c i s" and "drift N s u" and v: "voted req u t"
    and req: "req \<in># cl_reqs c" "rq_dst req = i" and resp: "rs_accepted resp" "vote_resp_of req u resp"
  shows "\<exists>b. (astep N)\<^sup>*\<^sup>* a b \<and> sim N (c\<lparr>cl_server := (cl_server c)(i := t),
    cl_reqs := cl_reqs c - {#req#} + mset (sent_votes t), cl_resps := cl_resps c + {#resp#}\<rparr>) b"
proof -
  note m = sim_messages [OF assms(1)]
  from sim_drift [OF assms(1-4)] obtain b where b: "moves N i a b" "stable N u" "sv_id u = i" "agrees b i u"
      "ac_reqs b = image_mset req_ballot (cl_reqs c + mset (sent_votes u))" "ac_grants b = ac_grants a" .
  let ?c = "rq_src req" and ?bal = "(ac_term b i, rq_src req, i)"
  have bal: "req_ballot req = ?bal" "resp_ballot resp = ?bal"
    using v b(3,4) req(2) resp(2) by (auto simp: req_ballot_def resp_ballot_def voted_def vote_resp_of_def agrees_def)
  let ?b = "b\<lparr>ac_vote := (ac_vote b)(i := ?c), ac_reqs := ac_reqs b - {#?bal#},
      ac_grants := add_mset ?bal (ac_grants b), ac_hist := insert ?bal (ac_hist b)\<rparr>"
  have in_reqs: "?bal \<in># image_mset req_ballot (cl_reqs c)" using req(1) bal(1) by (metis imageI set_image_mset)
  moreover have "ac_vote b i = - 1 \<or> ac_vote b i = ?c" using b(4) v by (auto simp: voted_def agrees_def)
  ultimately have "astep N b ?b" using b(5) by (intro a_grant) auto
  then have mv: "moves N i a ?b" by (intro moves_trans [OF b(1)] moves_step) simp_all
  have t: "stable N t" "sv_id t = i" "ballots t = ballots u"
    using voted_stable [OF v b(2)] b(3) by simp_all
  have "sim N (c\<lparr>cl_server := (cl_server c)(i := t), cl_reqs := cl_reqs c - {#req#} + mset (sent_votes t),
      cl_resps := cl_resps c + {#resp#}\<rparr>) ?b"
  proof (rule sim_update [OF assms(1) mv t(1,2)])
    show "agrees ?b i t"
      using b(2,4) v by (auto simp: agrees_def voted_def stable_def)
    have "image_mset req_ballot (cl_reqs c - {#req#} + mset (sent_votes t)) =
        image_mset req_ballot (cl_reqs c) - {#?bal#} + image_mset req_ballot (mset (sent_votes u))"
      using image_mset_remove [OF req(1), of req_ballot] bal(1) sent_votes_same [OF t(3)] by simp
    then show "ac_reqs ?b = image_mset req_ballot (cl_reqs c - {#req#} + mset (sent_votes t))"
      using b(5) in_reqs by simp
    show "ac_grants ?b = image_mset resp_ballot (filter_mset rs_accepted (cl_resps c + {#resp#}))"
      using b(6) m(2) resp(1) bal(2) by simp
    show "rq_type r = request_vote_request" if "r \<in># cl_reqs c - {#req#} + mset (sent_votes t)" for r
      using that m(3) sent_votes_type by (auto dest: in_diffD)
  qed (use m(4) resp(2) in \<open>auto simp: vote_resp_of_def\<close>)
  then show ?thesis using mv unfolding moves_def by blast
qed

text \<open>A vote response arrives.\<close>

definition without_grant :: "resp_msg \<Rightarrow> acluster \<Rightarrow> acluster" where
  "without_grant resp a = (if rs_accepted resp then a\<lparr>ac_grants := ac_grants a - {#resp_ballot resp#}\<rparr> else a)"

lemma without_grant_messages:
  assumes "resp \<in># P" and "ac_grants a = image_mset resp_ballot (filter_mset rs_accepted P)"
  shows "ac_grants (without_grant resp a) = image_mset resp_ballot (filter_mset rs_accepted (P - {#resp#}))"
  using assms image_mset_remove [of resp "filter_mset rs_accepted P" resp_ballot]
  by (simp add: without_grant_def filter_diff_mset)

lemma sim_answer_ignored:
  assumes "sim N c a" and "i \<in> N" and "at_server c i s" and "drift N s t" and resp: "resp \<in># cl_resps c"
  shows "\<exists>b. (astep N)\<^sup>*\<^sup>* a b \<and> sim N (c\<lparr>cl_server := (cl_server c)(i := t),
    cl_reqs := cl_reqs c + mset (sent_votes t), cl_resps := cl_resps c - {#resp#}\<rparr>) b"
proof -
  note m = sim_messages [OF assms(1)]
  from sim_drift [OF assms(1-4)] obtain b where b: "moves N i a b" "stable N t" "sv_id t = i" "agrees b i t"
      "ac_reqs b = image_mset req_ballot (cl_reqs c + mset (sent_votes t))" "ac_grants b = ac_grants a" .
  let ?b = "without_grant resp b"
  have "moves N i b ?b" using moves_lose_grant by (simp add: without_grant_def)
  with b(1) have mv: "moves N i a ?b" by (rule moves_trans)
  have "sim N (c\<lparr>cl_server := (cl_server c)(i := t), cl_reqs := cl_reqs c + mset (sent_votes t),
      cl_resps := cl_resps c - {#resp#}\<rparr>) ?b"
  proof (rule sim_update [OF assms(1) mv b(2,3)])
    show "ac_grants ?b = image_mset resp_ballot (filter_mset rs_accepted (cl_resps c - {#resp#}))"
      using b(6) m(2) by (intro without_grant_messages resp) simp
  qed (use b(4,5) m(3,4) sent_votes_type in \<open>auto simp: without_grant_def dest: in_diffD\<close>)
  then show ?thesis using mv unfolding moves_def by blast
qed

lemma counted_stable: "counted N k s t \<Longrightarrow> stable N s \<Longrightarrow> stable N t \<and> sv_id t = sv_id s \<and> ballots t = ballots s"
  using fits_members [of s t N] by (auto simp: counted_def stable_def same_members_def ballots_def)

lemma counted_moves:
  assumes "counted N (if rs_accepted resp then 1 else 0) u t" and "stable N u" and "agrees b i u" and "i \<in> N"
    and "rs_term resp = sv_term u" and "rs_dst resp = i" and "rs_accepted resp \<Longrightarrow> resp_ballot resp \<in># ac_grants b"
  shows "\<exists>b'. moves N i b b' \<and> agrees b' i t \<and> ac_reqs b' = ac_reqs b \<and> ac_grants b' = ac_grants (without_grant resp b)"
proof (cases "rs_accepted resp")
  case True
  let ?bal = "(ac_term b i, i, rs_src resp)" and ?l = "sv_role t = leader"
  have bal: "resp_ballot resp = ?bal" using assms(3,5,6) by (simp add: resp_ballot_def agrees_def)
  let ?b = "b\<lparr>ac_granted := (ac_granted b)(i := ac_granted b i + 1), ac_lead := (ac_lead b)(i := ?l),
      ac_grants := ac_grants b - {#?bal#}, ac_counted := insert ?bal (ac_counted b),
      ac_led := (if ?l then insert (ac_term b i, i) (ac_led b) else ac_led b)\<rparr>"
  have "astep N b ?b"
    using True assms bal by (intro a_count) (auto simp: counted_def agrees_def)
  then have "moves N i b ?b" by (rule moves_step) simp
  moreover have "agrees ?b i t" using True assms(1-3) by (auto simp: counted_def agrees_def)
  ultimately show ?thesis using True bal by (intro exI [of _ ?b]) (simp add: without_grant_def)
next
  case False
  let ?b = "if sv_role t = leader \<and> sv_role u \<noteq> leader
    then b\<lparr>ac_lead := (ac_lead b)(i := True), ac_led := insert (ac_term b i, i) (ac_led b)\<rparr>
    else b\<lparr>ac_lead := (ac_lead b)(i := (sv_role t = leader))\<rparr>"
  have "astep N b ?b"
  proof (cases "sv_role t = leader \<and> sv_role u \<noteq> leader")
    case True
    then have "int (card N) < 2 * ac_granted b i" using False assms(1-3) by (auto simp: counted_def agrees_def)
    then show ?thesis unfolding if_P [OF True] by (rule a_lead [OF assms(4)])
  next
    case not_new: False
    then show ?thesis unfolding if_not_P [OF not_new] using assms(3) by (intro a_relax) (auto simp: agrees_def)
  qed
  then have "moves N i b ?b" by (rule moves_step) simp
  moreover have "agrees ?b i t" using False assms(1-3) by (auto simp: counted_def agrees_def)
  ultimately show ?thesis using False by (intro exI [of _ ?b]) (simp add: without_grant_def)
qed

lemma sim_answer_counted:
  assumes "sim N c a" and "i \<in> N" and "at_server c i s" and "drift N s u"
    and k: "counted N (if rs_accepted resp then 1 else 0) u t" "rs_term resp = sv_term u"
    and resp: "resp \<in># cl_resps c" "rs_dst resp = i"
  shows "\<exists>b. (astep N)\<^sup>*\<^sup>* a b \<and> sim N (c\<lparr>cl_server := (cl_server c)(i := t),
    cl_reqs := cl_reqs c + mset (sent_votes t), cl_resps := cl_resps c - {#resp#}\<rparr>) b"
proof -
  note m = sim_messages [OF assms(1)]
  from sim_drift [OF assms(1-4)] obtain b where b: "moves N i a b" "stable N u" "sv_id u = i" "agrees b i u"
      "ac_reqs b = image_mset req_ballot (cl_reqs c + mset (sent_votes u))" "ac_grants b = ac_grants a" .
  have "resp_ballot resp \<in># ac_grants b" if "rs_accepted resp"
    using that resp(1) b(6) m(2) by simp
  from counted_moves [OF k(1) b(2,4) assms(2) k(2) resp(2) this] obtain b' where
    b': "moves N i b b'" "agrees b' i t" "ac_reqs b' = ac_reqs b" "ac_grants b' = ac_grants (without_grant resp b)" by blast
  have mv: "moves N i a b'" using b(1) b'(1) by (rule moves_trans)
  have t: "stable N t" "sv_id t = i" "ballots t = ballots u"
    using counted_stable [OF k(1) b(2)] b(3) by simp_all
  have "sim N (c\<lparr>cl_server := (cl_server c)(i := t), cl_reqs := cl_reqs c + mset (sent_votes t),
      cl_resps := cl_resps c - {#resp#}\<rparr>) b'"
  proof (rule sim_update [OF assms(1) mv t(1,2) b'(2)])
    show "ac_reqs b' = image_mset req_ballot (cl_reqs c + mset (sent_votes t))"
      using b(5) b'(3) sent_votes_same [OF t(3)] by simp
    show "ac_grants b' = image_mset resp_ballot (filter_mset rs_accepted (cl_resps c - {#resp#}))"
      using b(6) m(2) b'(4) without_grant_messages [OF resp(1), of b] by simp
  qed (use m(3,4) sent_votes_type in \<open>auto dest: in_diffD\<close>)
  then show ?thesis using mv unfolding moves_def by blast
qed

lemma sim_restart:
  assumes "sim N c a" and "i \<in> N" and "finite N" and "booted N i (Some (sv_saved (cl_server c i))) t"
  shows "\<exists>b. (astep N)\<^sup>*\<^sup>* a b \<and> sim N (c\<lparr>cl_server := (cl_server c)(i := t)\<rparr>) b"
proof -
  note m = sim_messages [OF assms(1)]
  note t = booted_stable [OF assms(4,3,2)]
  let ?b = "a\<lparr>ac_granted := (ac_granted a)(i := 0), ac_lead := (ac_lead a)(i := False)\<rparr>"
  have "calm (cl_server c i)" "agrees a i (cl_server c i)"
    using assms(1,2) by (auto simp: sim_def stable_def)
  then have ag: "agrees ?b i t"
    using t by (auto simp: agrees_def calm_def sv_term_def)
  have mv: "moves N i a ?b" by (rule moves_step [OF a_restart]) simp
  have "sim N (c\<lparr>cl_server := (cl_server c)(i := t), cl_reqs := cl_reqs c, cl_resps := cl_resps c\<rparr>) ?b"
    by (rule sim_update [OF assms(1) mv t(1,2) ag]) (use m in simp_all)
  from this [folded cl_update_id(2)] show ?thesis using mv unfolding moves_def by blast
qed

lemma sim_lose:
  assumes "sim N c a"
  shows "\<exists>b. (astep N)\<^sup>*\<^sup>* a b \<and> sim N (c\<lparr>cl_reqs := cl_reqs c - {#req#}\<rparr>) b"
    and "\<exists>b. (astep N)\<^sup>*\<^sup>* a b \<and> sim N (c\<lparr>cl_resps := cl_resps c - {#resp#}\<rparr>) b"
proof -
  let ?b = "if req \<in># cl_reqs c then a\<lparr>ac_reqs := ac_reqs a - {#req_ballot req#}\<rparr> else a"
  have "sim N (c\<lparr>cl_reqs := cl_reqs c - {#req#}\<rparr>) ?b"
    using assms image_mset_remove [of req "cl_reqs c" req_ballot]
    by (auto simp: sim_def dest: in_diffD)
  moreover have "(astep N)\<^sup>*\<^sup>* a ?b" by (simp add: a_lose_req r_into_rtranclp)
  ultimately show "\<exists>b. (astep N)\<^sup>*\<^sup>* a b \<and> sim N (c\<lparr>cl_reqs := cl_reqs c - {#req#}\<rparr>) b" by blast
next
  let ?b = "if resp \<in># cl_resps c then without_grant resp a else a"
  have "sim N (c\<lparr>cl_resps := cl_resps c - {#resp#}\<rparr>) ?b"
    using assms without_grant_messages [of resp "cl_resps c" a]
    by (auto simp: sim_def without_grant_def dest: in_diffD)
  moreover have "(astep N)\<^sup>*\<^sup>* a ?b" by (simp add: without_grant_def a_lose_grant r_into_rtranclp)
  ultimately show "\<exists>b. (astep N)\<^sup>*\<^sup>* a b \<and> sim N (c\<lparr>cl_resps := cl_resps c - {#resp#}\<rparr>) b" by blast
qed

lemma cstep_sim:
  assumes "cstep N c c'" and "sim N c a" and "finite N"
  shows "\<exists>b. (astep N)\<^sup>*\<^sup>* a b \<and> sim N c' b"
  using assms(1)
proof cases
  case (c_local i s e env t)
  have "drift N s t"
    using happens_drift [OF c_local(4), of env] c_local(3,5) unfolding at_server_def by blast
  then show ?thesis unfolding c_local(1) by (rule sim_local [OF assms(2) c_local(2,3)])
next
  case (c_ask i s req env resp t)
  have "rq_type req = request_vote_request" using sim_messages(3) [OF assms(2) c_ask(4)] .
  then show ?thesis
  proof (cases rule: process_vote_req_cases [where N = N and s = s and env = env and gap = id and et = 0])
    case (none u)
    then show ?thesis
      using sim_ask_denied [OF assms(2) c_ask(2,3) _ c_ask(4), of t "{#}"] c_ask(6) unfolding c_ask(1) by simp
  next
    case (denied u r)
    then have eq: "resp = Some r" "t = u" using c_ask(6) by simp_all
    show ?thesis
      using sim_ask_denied [OF assms(2) c_ask(2,3) denied(2) c_ask(4), of "{#r#}"] denied(3,4)
      unfolding c_ask(1) eq by (simp add: vote_resp_of_def)
  next
    case (given u t' r)
    then have eq: "resp = Some r" "t = t'" using c_ask(6) by simp_all
    show ?thesis
      using sim_ask_given [OF assms(2) c_ask(2,3) given(2,3) c_ask(4,5) given(4,5)] unfolding c_ask(1) eq by simp
  qed
next
  case (c_answer i s resp env t)
  have "rs_type resp = request_vote_response" using sim_messages(4) [OF assms(2) c_answer(4)] .
  then show ?thesis
  proof (cases rule: handle_peer_vote_resp_cases [where N = N and s = s and env = env])
    case ignored
    then show ?thesis
      using sim_answer_ignored [OF assms(2) c_answer(2,3) _ c_answer(4), of t] c_answer(6) unfolding c_answer(1) by simp
  next
    case (counts u)
    then show ?thesis
      using sim_answer_counted [OF assms(2) c_answer(2,3) counts(1) _ counts(2) c_answer(4,5), of t] c_answer(6)
      unfolding c_answer(1) by simp
  qed
next
  case (c_restart i t)
  show ?thesis unfolding c_restart(1) by (rule sim_restart [OF assms(2) c_restart(2) assms(3) c_restart(3)])
next
  case (c_lose_req req)
  show ?thesis unfolding c_lose_req by (rule sim_lose(1) [OF assms(2)])
next
  case (c_lose_resp resp)
  show ?thesis unfolding c_lose_resp by (rule sim_lose(2) [OF assms(2)])
qed

lemma csteps_sim:
  assumes "(cstep N)\<^sup>*\<^sup>* c c'" and "sim N c a" and "finite N"
  shows "\<exists>b. (astep N)\<^sup>*\<^sup>* a b \<and> sim N c' b"
  using assms(1)
proof (induction rule: rtranclp_induct)
  case base
  then show ?case using assms(2) by blast
next
  case (step d e)
  then obtain b where b: "(astep N)\<^sup>*\<^sup>* a b" "sim N d b" by blast
  from cstep_sim [OF step(2) b(2) assms(3)] show ?case
    using b(1) by (meson rtranclp_trans)
qed

definition init_of :: "cluster \<Rightarrow> acluster" where
  "init_of c = ac_init (\<lambda>i. sv_term (cl_server c i)) (\<lambda>i. ss_voted_for (sv_state (cl_server c i)))"

lemma starts_sim:
  assumes "starts N c" and "finite N"
  shows "sim N c (init_of c)"
proof -
  have "stable N (cl_server c i) \<and> sv_id (cl_server c i) = i \<and> agrees (init_of c) i (cl_server c i)" if i: "i \<in> N" for i
  proof -
    obtain st where st: "booted N i st (cl_server c i)" using assms(1) i unfolding starts_def by blast
    from booted_stable [OF st assms(2) i] show ?thesis
      by (simp add: agrees_def init_of_def ac_init_def)
  qed
  then show ?thesis
    using assms(1) by (simp add: sim_def starts_def init_of_def ac_init_def)
qed

lemma sim_led:
  assumes "sim N c a" and "ainv N a" and "i \<in> N" and "leads c i t"
  shows "(t, i) \<in> ac_led a"
proof -
  have "agrees a i (cl_server c i)" using assms(1,3) by (simp add: sim_def)
  then have "ac_lead a i" "ac_term a i = t" using assms(4) by (simp_all add: agrees_def leads_def)
  then show ?thesis using assms(2) unfolding ainv_def counts_ok_def by blast
qed

subsection \<open>A cluster of one server\<close>

text \<open>A server without peers leads as soon as it has voted for itself.\<close>

lemma quiet_role_term:
  assumes "quiet env s t"
  shows "sv_role t = sv_role s" "sv_state t = sv_state s" "sv_peers s = [] \<Longrightarrow> sv_peers t = []"
proof -
  have f: "rae_frame s t" and m: "members t = members s" using assms by (simp_all add: quiet_def)
  show "sv_role t = sv_role s" "sv_state t = sv_state s"
    using arg_cong [where f = sv_role, OF f [unfolded rae_frame_def]]
      arg_cong [where f = sv_state, OF f [unfolded rae_frame_def]] by simp_all
  show "sv_peers s = [] \<Longrightarrow> sv_peers t = []" using m by (simp add: members_def)
qed

lemma lone_take_leadership:
  assumes "sv_peers s = []"
  shows "sv_role (take_leadership env s) = leader" "sv_state (take_leadership env s) = sv_state s"
    "sv_peers (take_leadership env s) = []"
  using assms
  by (simp_all add: take_leadership_def for_peers_def store_log_entry_def try_update_precommit_index_def emit_def Let_def)

lemma lone_become_leader:
  assumes "sv_peers s = []"
  shows "sv_role (become_leader env s) = leader" "sv_state (become_leader env s) = sv_state s"
proof -
  define u where "u = take_leadership env (stop_election_timer s)"
  have u: "sv_role u = leader" "sv_state u = sv_state s" "sv_peers u = []"
    using lone_take_leadership [of "stop_election_timer s" env] assms by (auto simp: u_def stop_election_timer_def)
  define v where "v = (notify_cb BecomeLeader (-1) u)\<lparr>sv_write_paused := False, sv_next_leader_candidate := -1,
    sv_initialized := True, sv_pre_vote := (sv_pre_vote (notify_cb BecomeLeader (-1) u))
      \<lparr>pv_quorum_reject_count := 0, pv_no_response_failure_count := 0\<rparr>, sv_data_fresh := True\<rparr>"
  have v: "sv_role v = leader" "sv_state v = sv_state s" "sv_peers v = []"
    using u by (simp_all add: v_def notify_cb_def emit_def)
  define w where "w = request_append_entries env v"
  have "quiet env v w" unfolding w_def by (intro quiet_intros quiet_refl)
  from quiet_role_term [OF this] v have w: "sv_role w = leader" "sv_state w = sv_state s" "sv_peers w = []" by simp_all
  have "become_leader env s =
      (if sv_my_priority w = 0 \<and> get_num_voting_members w > 1 then yield_leadership env False (-1) w else w)"
    unfolding become_leader_def u_def v_def w_def Let_def by (rule refl)
  also have "\<dots> = w"
    using w(3) by (simp add: get_num_voting_members_def regular_peers_def)
  finally show "sv_role (become_leader env s) = leader" "sv_state (become_leader env s) = sv_state s" using w by simp_all
qed

definition lone :: "server \<Rightarrow> bool" where
  "lone s \<longleftrightarrow> sv_peers s = [] \<and> p_custom_election_quorum_size (sv_params s) \<le> 0 \<and> sv_my_priority s > 0 \<and>
     p_grace_period_of_lagging_state_machine (sv_params s) = 0 \<and> ss_inc_term_cb (sv_state s) = None"

lemma lone_quorum: "lone s \<Longrightarrow> get_quorum_for_election s = 0"
  by (simp add: lone_def get_quorum_for_election_def get_num_voting_members_def regular_peers_def)

lemma lone_initiate_vote:
  assumes "lone s"
  shows "sv_role (initiate_vote env f s) = leader" "sv_term (initiate_vote env f s) = add64 (sv_term s) 1"
proof -
  define st where "st = (sv_state s)\<lparr>ss_term := add64 (sv_term s) 1\<rparr>"
  define u where "u = s\<lparr>sv_state := st\<lparr>ss_voted_for := -1\<rparr>, sv_role := candidate,
                     sv_index_at_becoming_leader := 0, sv_votes_granted := 0,
                     sv_votes_responded := 0, sv_election_completed := False\<rparr>"
  have inc: "inc_term (sv_state s) = (Inr (), st)" and g: "vote_grace env f s = (False, s)"
    using assms by (simp_all add: lone_def inc_term_def st_def sv_term_def vote_grace_def)
  have iv: "initiate_vote env f s = forget_leader (request_vote env f u)"
    using assms lone_quorum [OF assms] unfolding initiate_vote_def g u_def inc by (simp add: inc lone_def)
  define w where "w = own_vote u"
  have "get_quorum_for_election w = 0" "sv_votes_granted w > 0" "sv_peers w = []" "sv_term w = add64 (sv_term s) 1"
    using lone_quorum [OF assms] assms
    by (simp_all add: w_def own_vote_def u_def st_def save_state_def set_sstate_def sv_term_def lone_def
        get_quorum_for_election_def get_num_voting_members_def regular_peers_def Let_def)
  then have rv: "request_vote env f u = become_leader env (w\<lparr>sv_election_completed := True\<rparr>)"
    unfolding w_def by (simp add: request_vote_own)
  note bl = lone_become_leader [of "w\<lparr>sv_election_completed := True\<rparr>" env]
  show "sv_role (initiate_vote env f s) = leader" "sv_term (initiate_vote env f s) = add64 (sv_term s) 1"
    using bl \<open>sv_peers w = []\<close> \<open>sv_term w = _\<close> unfolding iv rv by (simp_all add: forget_leader_def sv_term_def)
qed

lemma lone_run_election:
  assumes "lone s"
  shows "sv_role (run_election env s) = leader" "sv_term (run_election env s) = add64 (sv_term s) 1"
proof -
  define t where "t = (if \<not> sv_hb_alive s then decay_target_priority env s else s)"
  define u where "u = (if pv_term (sv_pre_vote t) \<noteq> sv_term t then upd_pre_vote (pre_vote_reset (sv_term t)) t else t)"
  have t: "lone t" "sv_term t = sv_term s"
    using assms by (simp_all add: t_def decay_target_priority_def lone_def sv_term_def Let_def)
  then have u: "lone u" "sv_term u = sv_term s" by (simp_all add: u_def upd_pre_vote_def lone_def sv_term_def)
  have "run_election env s = (if sv_peers u = [] \<or> pv_done (sv_pre_vote u) \<or> get_quorum_for_election u = 0
         then initiate_vote env False u else request_prevote env u)"
    unfolding run_election_def Let_def u_def t_def by (rule refl)
  also have "\<dots> = initiate_vote env False u" using u(1) by (simp add: lone_def)
  finally show "sv_role (run_election env s) = leader" "sv_term (run_election env s) = add64 (sv_term s) 1"
    using lone_initiate_vote [OF u(1)] u(2) by simp_all
qed

lemma lone_timeout:
  assumes "lone s" and "\<not> sv_stopping s" and "sv_steps_to_down s = 0" and "\<not> ss_catching_up (sv_state s)"
    and "\<not> sv_out_of_log_range s" and "\<not> ss_receiving_snapshot (sv_state s)" and "\<not> sv_serving_req s"
    and "to_i32 (int (get_us (ev_now env) (sv_last_election_timer_reset s) div 1000)) \<ge>
           p_election_timeout_lower_bound (sv_params s)"
    and "sv_role s \<noteq> leader" and "\<not> sv_im_learner s"
  shows "sv_role (handle_election_timeout env s) = leader" "sv_term (handle_election_timeout env s) = add64 (sv_term s) 1"
proof -
  have "handle_election_timeout env s =
      (let s = (if \<not> sv_im_learner s then run_election env s else s)
       in if sv_role s \<noteq> leader then restart_election_timer env s else s)"
    using assms unfolding handle_election_timeout_def by simp
  also have "\<dots> = run_election env s" using assms(10) lone_run_election [OF assms(1)] by simp
  finally show "sv_role (handle_election_timeout env s) = leader"
      "sv_term (handle_election_timeout env s) = add64 (sv_term s) 1"
    using lone_run_election [OF assms(1)] by simp_all
qed

definition sample_start :: "int list \<Rightarrow> cluster" where
  "sample_start ids =
     \<lparr>cl_server = (\<lambda>i. start_server (sample_env 0) True (sample_server i ids)), cl_reqs = {#}, cl_resps = {#}\<rparr>"

lemma sample_start_starts: "distinct ids \<Longrightarrow> starts (set ids) (sample_start ids)"
proof -
  assume ids: "distinct ids"
  have conf: "static_conf (set ids) (sample_config ids)"
    using ids by (auto simp: static_conf_def sample_config_def new_cluster_config_def new_srv_config_def comp_def image_image)
  have "booted (set ids) i None (start_server (sample_env 0) True (sample_server i ids))" for i
    unfolding booted_def sample_server_def
    by (rule exI, rule exI, rule exI, rule exI, rule exI, rule exI, rule exI, rule exI, rule conjI [OF refl])
      (simp add: conf default_raft_params_def)
  then show "starts (set ids) (sample_start ids)" unfolding starts_def sample_start_def by auto
qed

text \<open>The first server of a cluster of one, and the cluster in which it has won its election.\<close>

definition sample_one :: server where
  "sample_one = (start_server (sample_env 0) True (sample_server 1 [1]))\<lparr>sv_out := []\<rparr>"

definition sample_winner :: server where
  "sample_winner = handle_election_timeout (sample_env 1000000) sample_one"

definition sample_led :: cluster where
  "sample_led = (sample_start [1])\<lparr>cl_server := (cl_server (sample_start [1]))(1 := sample_winner),
     cl_reqs := cl_reqs (sample_start [1]) + mset (sent_votes sample_winner)\<rparr>"

lemma sample_one_fields:
  "lone sample_one" "\<not> sv_stopping sample_one" "sv_steps_to_down sample_one = 0" "\<not> ss_catching_up (sv_state sample_one)"
  "\<not> sv_out_of_log_range sample_one" "\<not> ss_receiving_snapshot (sv_state sample_one)" "\<not> sv_serving_req sample_one"
  "sv_last_election_timer_reset sample_one = new_timer 0 0 False"
  "p_election_timeout_lower_bound (sv_params sample_one) = 250" "sv_role sample_one \<noteq> leader"
  "\<not> sv_im_learner sample_one" "sv_term sample_one = 0"
  by (simp_all add: sample_one_def start_server_def sample_server_def new_server_def apply_and_log_current_params_def
      sample_env_def fix_timeouts_def default_raft_params_def Let_def save_state_def set_sstate_def default_srv_state_def
      new_srv_state_def sample_config_def new_srv_config_def new_cluster_config_def sv_term_def lone_def)

lemma sample_winner_leads: "sv_role sample_winner = leader" "sv_term sample_winner = 1"
  using lone_timeout [where s = sample_one and env = "sample_env 1000000"] sample_one_fields
  by (simp_all add: sample_winner_def sample_env_def new_timer_def get_us_def to_i32_def add64_def)

lemma sample_led_leads: "leads sample_led 1 1"
  using sample_winner_leads by (simp add: leads_def sample_led_def)

lemma sample_led_reached: "(cstep {1})\<^sup>*\<^sup>* (sample_start [1]) sample_led"
proof (rule r_into_rtranclp)
  have "at_server (sample_start [1]) 1 sample_one"
    using sample_one_fields(12) unfolding at_server_def by (simp add: sample_one_def sample_start_def)
  then show "cstep {1} (sample_start [1]) sample_led"
    unfolding sample_led_def sample_winner_def
    by (rule c_local [where e = Election_Timer and env = "sample_env 1000000", rotated]) simp_all
qed

subsection \<open>What the cluster guarantees\<close>

text \<open>
  C2. Refinement: every run of a cluster of fixed membership is a run of the voting protocol. Its
  state at the end agrees with that of the protocol in the terms, votes, counts of granted votes and
  leaders of all servers, and in the vote requests and granted votes on their way.
\<close>

theorem cluster_refines_election:
  assumes "finite N" and "starts N c0" and "(cstep N)\<^sup>*\<^sup>* c0 c"
  shows "\<exists>a. (astep N)\<^sup>*\<^sup>* (init_of c0) a \<and> sim N c a"
  using csteps_sim [OF assms(3) starts_sim [OF assms(2,1)] assms(1)] .

theorem cluster_refines_election_witness:
  "\<exists>a. (astep {1})\<^sup>*\<^sup>* (init_of (sample_start [1])) a \<and> sim {1} sample_led a"
  using cluster_refines_election [where N = "{1}" and ?c0.0 = "sample_start [1]" and c = sample_led]
    sample_start_starts [of "[1]"] sample_led_reached by simp

text \<open>
  C1. Election safety: in a cluster of fixed membership, whatever is lost, delayed or restarted, two
  servers that lead in the same term are the same server, at the same or at different times.
\<close>

theorem election_safety:
  assumes "finite N" and "-1 \<notin> N" and "starts N c0" and "(cstep N)\<^sup>*\<^sup>* c0 c" and "(cstep N)\<^sup>*\<^sup>* c c'"
    and "i \<in> N" and "j \<in> N" and "leads c i t" and "leads c' j t"
  shows "i = j"
proof -
  obtain a where a: "(astep N)\<^sup>*\<^sup>* (init_of c0) a" "sim N c a"
    using csteps_sim [OF assms(4) starts_sim [OF assms(3,1)] assms(1)] by blast
  obtain b where b: "(astep N)\<^sup>*\<^sup>* a b" "sim N c' b"
    using csteps_sim [OF assms(5) a(2) assms(1)] by blast
  have ia: "ainv N a"
    using a(1) ainv_init assms(1,2) unfolding init_of_def by (blast intro: ainv_steps)
  then have ib: "ainv N b" using b(1) assms(1,2) by (blast intro: ainv_steps)
  have "(t, i) \<in> ac_led b"
    using sim_led [OF a(2) ia assms(6,8)] led_steps [OF b(1)] by blast
  moreover have "(t, j) \<in> ac_led b" by (rule sim_led [OF b(2) ib assms(7,9)])
  ultimately show ?thesis by (rule ainv_one_leader [OF ib])
qed

theorem election_safety_witness: "{j. j \<in> {1} \<and> leads sample_led j 1} = {1}"
  using election_safety [where N = "{1}" and ?c0.0 = "sample_start [1]" and c = sample_led and c' = sample_led
      and i = 1 and t = 1] sample_start_starts [of "[1]"] sample_led_reached sample_led_leads by auto

text \<open>
  C6. Durable votes: whenever a handler of a server is done, the term and the vote that the server
  works with are those it has saved, so that a restart never forgets a vote.
\<close>

theorem votes_are_durable:
  assumes "finite N" and "starts N c0" and "(cstep N)\<^sup>*\<^sup>* c0 c" and "i \<in> N"
  shows "ss_term (sv_saved (cl_server c i)) = sv_term (cl_server c i) \<and>
    ss_voted_for (sv_saved (cl_server c i)) = ss_voted_for (sv_state (cl_server c i))"
proof -
  obtain a where "sim N c a" using csteps_sim [OF assms(3) starts_sim [OF assms(2,1)] assms(1)] by blast
  then have "calm (cl_server c i)" using assms(4) by (simp add: sim_def stable_def)
  then show ?thesis by (simp add: calm_def sv_term_def)
qed

theorem votes_are_durable_witness: "ss_term (sv_saved (cl_server sample_led 1)) = 1"
  using votes_are_durable [where N = "{1}" and ?c0.0 = "sample_start [1]" and c = sample_led and i = 1]
    sample_start_starts [of "[1]"] sample_led_reached sample_led_leads by (simp add: leads_def)

end
