(* ===== verification/Raft_Commit_Facts.thy ===== *)
theory Raft_Commit_Facts
  imports Raft_Commit
begin

text \<open>
  What clients, watchers and snapshots can rely on in the commit thread of \<open>Raft_Commit\<close>: a client is
  told that its request succeeded only after the state machine has run it, a watcher is answered once,
  and the search for a snapshot's configuration ends. Two of the code's assumptions are shown to fail
  in some settings.
\<close>

subsection \<open>The search for a configuration\<close>

text \<open>
  A log is well numbered when every configuration in it names an earlier index as its predecessor and,
  where that index is still in the log, a configuration is there.
\<close>

definition conf_linked :: "rentry rlog \<Rightarrow> cluster_config \<Rightarrow> bool" where
  "conf_linked l c \<longleftrightarrow>
     (cc_prev_log_idx c \<ge> rl_start l \<longrightarrow> (\<exists>e c'. rl_get (cc_prev_log_idx c) l = Some e \<and> re_body e = Conf c'))"

definition conf_numbered :: "rentry rlog \<Rightarrow> bool" where
  "conf_numbered l \<longleftrightarrow>
     (\<forall>i e c. rl_get i l = Some e \<and> re_body e = Conf c \<longrightarrow> cc_prev_log_idx c < i \<and> conf_linked l c)"

lemma search_conf_ends:
  assumes "conf_numbered l" and "conf_linked l c" and "cc_prev_log_idx c < fuel"
  shows "\<exists>c'. search_conf fuel idx l c = Conf_Found c' \<and> (idx < cc_log_idx c' \<longrightarrow> cc_prev_log_idx c' < rl_start l)"
  using assms(2,3)
proof (induction fuel arbitrary: c)
  case (Suc fuel)
  show ?case
  proof (cases "cc_log_idx c > idx \<and> cc_prev_log_idx c \<ge> rl_start l")
    case True
    then obtain e c' where e: "rl_get (cc_prev_log_idx c) l = Some e" "re_body e = Conf c'"
      using Suc.prems(1) by (auto simp: conf_linked_def)
    then have "cc_prev_log_idx c' < cc_prev_log_idx c" "conf_linked l c'"
      using assms(1) by (auto simp: conf_numbered_def)
    with True e show ?thesis
      using Suc.IH [of c'] Suc.prems(2) by (simp add: decode_conf_def)
  qed auto
qed simp

text \<open>
  C31. Creating a snapshot cannot spin or read outside the log on a well numbered log: the search for
  the configuration in force at the snapshot ends, and gives a configuration unless it would have to
  come from an earlier snapshot and there is none.
\<close>

theorem snapshot_search_ends:
  assumes "conf_numbered (sv_log s)" and "conf_linked (sv_log s) (sv_config s)"
    and "cc_prev_log_idx (sv_config s) < cc_log_idx (sv_config s)"
  shows "(\<exists>c. snapshot_conf idx s = Conf_Found c) \<or> snapshot_conf idx s = Conf_No_Snapshot \<and> sv_last_snapshot s = None"
proof -
  obtain c where "search_conf (cc_log_idx (sv_config s)) idx (sv_log s) (sv_config s) = Conf_Found c"
    using search_conf_ends [OF assms] by blast
  then show ?thesis
    by (auto simp: snapshot_conf_def split: option.split)
qed

text \<open>A log with two configurations, of which the second is newer than the snapshot.\<close>

definition sample_conf_log :: "rentry rlog" where
  "sample_conf_log = \<lparr>rl_start = 1, rl_entries =
     [\<lparr>re_term = 1, re_body = Conf ((sample_config [1])\<lparr>cc_log_idx := 1\<rparr>), re_time = 0\<rparr>, sample_rentry 1,
      \<lparr>re_term = 1, re_body = Conf ((sample_config [1, 2])\<lparr>cc_log_idx := 3, cc_prev_log_idx := 1\<rparr>), re_time = 0\<rparr>]\<rparr>"

definition sample_conf_server :: server where
  "sample_conf_server = (sample_server 1 [1])\<lparr>sv_log := sample_conf_log,
     sv_config := (sample_config [1, 2])\<lparr>cc_log_idx := 3, cc_prev_log_idx := 1\<rparr>\<rparr>"

theorem snapshot_search_ends_witness:
  "(\<exists>c. snapshot_conf 2 sample_conf_server = Conf_Found c) \<or>
   snapshot_conf 2 sample_conf_server = Conf_No_Snapshot \<and> sv_last_snapshot sample_conf_server = None"
proof -
  have log: "rl_start sample_conf_log = 1" "rl_next sample_conf_log = 4"
    by (simp_all add: sample_conf_log_def rl_next_def)
  have at: "rl_get 1 sample_conf_log = Some \<lparr>re_term = 1, re_body = Conf ((sample_config [1])\<lparr>cc_log_idx := 1\<rparr>), re_time = 0\<rparr>"
    "rl_get 2 sample_conf_log = Some (sample_rentry 1)"
    "rl_get 3 sample_conf_log =
       Some \<lparr>re_term = 1, re_body = Conf ((sample_config [1, 2])\<lparr>cc_log_idx := 3, cc_prev_log_idx := 1\<rparr>), re_time = 0\<rparr>"
    by (simp_all add: rl_get_def rl_next_def sample_conf_log_def)
  have cases: "i = 1 \<or> i = 2 \<or> i = 3" if "rl_get i sample_conf_log = Some e" for i e
    using that log by (auto simp: rl_get_def split: if_splits)
  have prev: "cc_prev_log_idx (sample_config ids) = 0" for ids
    by (simp add: sample_config_def new_cluster_config_def)
  have "conf_numbered sample_conf_log"
    unfolding conf_numbered_def
  proof (intro allI impI, elim conjE)
    fix i e c assume "rl_get i sample_conf_log = Some e" "re_body e = Conf c"
    then show "cc_prev_log_idx c < i \<and> conf_linked sample_conf_log c"
      using cases [of i e] at log prev by (auto simp: conf_linked_def sample_rentry_def)
  qed
  moreover have "conf_linked sample_conf_log ((sample_config [1, 2])\<lparr>cc_log_idx := 3, cc_prev_log_idx := 1\<rparr>)"
    using at(1) by (simp add: conf_linked_def)
  ultimately show ?thesis
    using snapshot_search_ends [of sample_conf_server 2] by (simp add: sample_conf_server_def)
qed

subsection \<open>Effects of a configuration and of a snapshot\<close>

lemma out_fold:
  assumes "\<And>x s. filter P (sv_out (f x s)) = filter P (sv_out s)"
  shows "filter P (sv_out (fold f xs s)) = filter P (sv_out s)"
  using assms by (induction xs arbitrary: s) auto

lemma reconfigure_out:
  assumes P: "\<And>t i. \<not> P (Callback t i)"
  shows "filter P (sv_out (reconfigure env c s)) = filter P (sv_out s)"
proof -
  have own: "filter P (sv_out (fold (note_own_config env) xs s)) = filter P (sv_out s)" for xs s
    by (rule out_fold) (simp add: note_own_config_def restart_election_timer_def save_state_def set_sstate_def Let_def)
  have add: "filter P (sv_out (fold (add_config_peer env) xs s)) = filter P (sv_out s)" for xs s
    by (rule out_fold) (simp add: add_config_peer_def Let_def split: option.split)
  have rem: "filter P (sv_out (fold remove_config_peer xs s)) = filter P (sv_out s)" for xs s
    by (rule out_fold) (simp add: P remove_config_peer_def upd_peer_def remove_peer_from_peers_def
        notify_cb_def emit_def Let_def split: option.split)
  have cfg: "filter P (sv_out (fold set_peer_config xs s)) = filter P (sv_out s)" for xs s
    by (rule out_fold) (simp add: set_peer_config_def)
  show ?thesis
    by (simp add: reconfigure_def Let_def update_target_priority_def notify_cb_def emit_def P
        own add rem cfg split: option.split)
qed

lemma snapshot_and_compact_out:
  assumes "\<And>t i. \<not> P (Callback t i)" and "\<And>snp. \<not> P (Create_Snapshot snp)" and "\<And>c. \<not> P (System_Exit c)"
  shows "filter P (sv_out (snd (snapshot_and_compact env idx forced s))) = filter P (sv_out s)"
  using assms by (simp add: snapshot_and_compact_def call_cb_def emit_def sys_exit_def Let_def split: conf_search.split)

subsection \<open>Clients\<close>

text \<open>
  A client learns of success by a result that is pushed to it, or, when it blocks, by finding its
  element marked successful.
\<close>

definition told_ok :: "server \<Rightarrow> nat \<Rightarrow> bool" where
  "told_ok s i \<longleftrightarrow>
     Client_Result i Result_OK \<in> set (sv_out s) \<or>
     (\<exists>e. om_find i (sv_commit_ret_elems s) = Some e \<and> ce_result_code e = Result_OK)"

definition clients_ok :: "server \<Rightarrow> bool" where
  "clients_ok s \<longleftrightarrow>
     omap_ok (sv_commit_ret_elems s) \<and> (\<forall>i. told_ok s i \<longrightarrow> Commit_Log i \<in> set (sv_out s))"

definition is_reply :: "effect \<Rightarrow> bool" where
  "is_reply x \<longleftrightarrow> (case x of Client_Result _ _ \<Rightarrow> True | Commit_Log _ \<Rightarrow> True | _ \<Rightarrow> False)"

lemma is_reply_simps [simp]:
  "is_reply (Client_Result i c)" "is_reply (Commit_Log i)" "\<not> is_reply (Callback t j)"
  "\<not> is_reply (Create_Snapshot snp)" "\<not> is_reply (System_Exit n)" "\<not> is_reply (Commit_Config i)"
  "\<not> is_reply (Save_Config cfg)" "\<not> is_reply (Watcher_Result i b)" "\<not> is_reply (Notify_Client i)"
  "\<not> is_reply (Pre_Commit i)" "\<not> is_reply (End_Of_Append_Batch i k)"
  by (simp_all add: is_reply_def)

lemma in_replies: "is_reply x \<Longrightarrow> x \<in> set (sv_out s) \<longleftrightarrow> x \<in> set (filter is_reply (sv_out s))"
  by simp

lemma clients_ok_same:
  assumes "clients_ok s" and "filter is_reply (sv_out t) = filter is_reply (sv_out s)"
    and "sv_commit_ret_elems t = sv_commit_ret_elems s"
  shows "clients_ok t"
proof -
  have "x \<in> set (sv_out t) \<longleftrightarrow> x \<in> set (sv_out s)" if "is_reply x" for x
    unfolding in_replies [OF that, of t] in_replies [OF that, of s] assms(2) by (rule refl)
  then show ?thesis
    using assms(1,3) by (simp add: clients_ok_def told_ok_def)
qed

lemma clients_ok_settle:
  assumes "clients_ok s" and "Commit_Log idx \<in> set (sv_out s)" and "\<not> p_track_peers_sm_commit_idx (sv_params s)"
  shows "clients_ok (settle_client idx s)"
  using assms
  by (auto simp: settle_client_def clients_ok_def told_ok_def emit_def Let_def om_simps split: option.split if_splits)

lemma clients_ok_commit_entry:
  assumes "clients_ok s" and "\<not> p_track_peers_sm_commit_idx (sv_params s)"
  shows "clients_ok (commit_entry env need idx e s)"
proof (cases "re_body e")
  case (App_Log bs)
  have "clients_ok (emit (Commit_Log idx) s)"
    using assms(1) by (auto simp: clients_ok_def told_ok_def emit_def)
  then have "clients_ok (settle_client idx (emit (Commit_Log idx) s))" "clients_ok (emit (Commit_Log idx) s)"
    using assms(2) by (auto intro: clients_ok_settle simp: emit_def)
  moreover have "clients_ok (sys_exit n s)" for n
    by (rule clients_ok_same [OF assms(1)]) (simp_all add: sys_exit_def emit_def)
  ultimately show ?thesis
    by (simp add: App_Log commit_entry_def commit_app_log_def Let_def)
next
  case (Conf c)
  have "clients_ok (commit_conf env idx c s)"
    by (rule clients_ok_same [OF assms(1)])
      (simp_all add: commit_conf_def save_config_def emit_def notify_cb_def Let_def reconfigure_out
        reconfigure_progress [unfolded same_progress_def])
  then show ?thesis
    by (simp add: Conf commit_entry_def)
next
  case (No_Buf t)
  have "clients_ok (sys_exit n s)" "clients_ok (s\<lparr>sv_exited := True\<rparr>)" for n
    by (rule clients_ok_same [OF assms(1)], simp_all add: sys_exit_def emit_def)+
  then show ?thesis
    using assms(1) by (simp add: No_Buf commit_entry_def)
qed (simp_all add: assms(1) commit_entry_def)

lemma clients_ok_commit_one:
  assumes "clients_ok s" and "\<not> p_track_peers_sm_commit_idx (sv_params s)"
  shows "clients_ok (commit_one env need s)"
proof -
  let ?i = "sv_sm_commit_index s + 1"
  have exit: "clients_ok (sys_exit n s)" for n
    by (rule clients_ok_same [OF assms(1)]) (simp_all add: sys_exit_def emit_def)
  have "clients_ok (snd (snapshot_and_compact env ?i False (t\<lparr>sv_sm_commit_index := ?i\<rparr>)))"
      "clients_ok (notify_watchers ?i (notify_cb StateMachineExecution (-1)
         (snd (snapshot_and_compact env ?i False (t\<lparr>sv_sm_commit_index := ?i\<rparr>)))))"
    if "clients_ok t" for t
    using snapshot_and_compact_progress [of env ?i False "t\<lparr>sv_sm_commit_index := ?i\<rparr>"]
    by (auto intro!: clients_ok_same [OF that] simp: snapshot_and_compact_out notify_watchers_def notify_cb_def
        emit_def same_progress_def split: option.split)
  then show ?thesis
    using exit assms(1) clients_ok_commit_entry [OF assms]
    by (simp add: commit_one_def Let_def split: option.split)
qed

lemma store_cli_entries_replies:
  "filter is_reply (sv_out (snd (fold (store_cli_entry env) bs r))) = filter is_reply (sv_out (snd r)) \<and>
   sv_commit_ret_elems (snd (fold (store_cli_entry env) bs r)) = sv_commit_ret_elems (snd r)"
proof (induction bs arbitrary: r)
  case (Cons b bs)
  have "filter is_reply (sv_out (snd (store_cli_entry env b r))) = filter is_reply (sv_out (snd r)) \<and>
      sv_commit_ret_elems (snd (store_cli_entry env b r)) = sv_commit_ret_elems (snd r)"
    by (simp add: store_cli_entry_def store_log_entry_def emit_def try_update_precommit_index_def Let_def case_prod_beta)
  with Cons show ?case by simp
qed simp

lemma clients_ok_cli_req:
  assumes "clients_ok s"
  shows "clients_ok (snd (handle_cli_req env req et s))"
proof (cases "sv_role s \<noteq> leader \<or> sv_write_paused s \<or> et \<noteq> 0 \<and> et \<noteq> sv_term s")
  case True
  then show ?thesis using assms by (auto simp: handle_cli_req_def Let_def)
next
  case False
  let ?n = "length (rq_log_entries req)"
  define r where "r = fold (store_cli_entry env) (map re_body (rq_log_entries req)) (0, s)"
  define t where "t = emit (Callback AppendLogs (-1)) (snd (try_update_precommit_index (fst r)
    (if ?n \<noteq> 0 then emit (End_Of_Append_Batch (fst r - ?n + 1) ?n) (snd r) else snd r)))"
  have t: "clients_ok t"
    by (rule clients_ok_same [OF assms])
      (simp_all add: t_def r_def emit_def try_update_precommit_index_def store_cli_entries_replies)
  have set: "clients_ok (t\<lparr>sv_commit_ret_elems := om_set i e (sv_commit_ret_elems t)\<rparr>)"
    if "ce_result_code e = Result_OK \<Longrightarrow> told_ok t i" for i e
    using t that by (auto simp: clients_ok_def told_ok_def om_simps split: if_splits)
  define el where "el = (case om_find (fst r) (sv_commit_ret_elems t) of
      Some elem \<Rightarrow> elem
    | None \<Rightarrow> \<lparr>ce_result_code = Result_TIMEOUT, ce_callback_invoked = False, ce_async_result = False\<rparr>)"
  have go: "(sv_role s \<noteq> leader \<or> sv_write_paused s) = False" "(et \<noteq> 0 \<and> et \<noteq> sv_term s) = False"
    using False by blast+
  have "snd (handle_cli_req env req et s) =
    (if \<not> ev_cb env AppendLogs (-1) \<or> cc_async_replication (sv_config t) then t
     else t\<lparr>sv_commit_ret_elems := om_set (fst r)
       (el\<lparr>ce_async_result := (ce_async_result el \<or> p_return_method (sv_params t) = async_handler)\<rparr>)
       (sv_commit_ret_elems t)\<rparr>)"
    unfolding handle_cli_req_def go if_False r_def [symmetric] Let_def case_prod_beta call_cb_def el_def t_def
      fst_conv snd_conv
    by simp
  moreover have "told_ok t (fst r)" if "ce_result_code el = Result_OK"
    using that by (auto simp: el_def told_ok_def split: option.splits)
  ultimately show ?thesis
    using t by (auto intro!: set)
qed

lemma clients_ok_drop:
  assumes "clients_ok s"
  shows "clients_ok (drop_all_pending_commit_elems s)"
  using assms by (auto simp: drop_all_pending_commit_elems_def clients_ok_def told_ok_def om_find_def Let_def)

lemma clients_ok_callback:
  assumes "clients_ok s" and "rs_result_code (fst (handle_cli_req_callback env idx resp s)) = Result_OK"
  shows "clients_ok (snd (handle_cli_req_callback env idx resp s))"
  using assms
  by (auto simp: handle_cli_req_callback_def clients_ok_def told_ok_def om_simps Let_def split: option.splits if_splits)



subsection \<open>Waiting for the peers' state machines\<close>

text \<open>
  C33. The index up to which clients are answered when the peers' state machines are tracked. With the
  default quorum it is the smallest applied index among the leader and the peers that count, so it is
  never ahead of the leader's own state machine, which \<^verbatim>\<open>scan_sm_commit_and_notify\<close> relies on.
\<close>

theorem notify_target_bounded:
  assumes "p_custom_commit_quorum_size (sv_params s) = 0"
  shows "find_sm_commit_idx_to_notify env s \<le> sv_sm_commit_index s"
proof -
  define xs where "xs = sv_sm_commit_index s # map pe_sm_committed_idx
    (filter (\<lambda>p. \<not> is_excluded_from_quorum p (resp_elapsed_ms env p) (to_i32 (full_consensus_expiry env s))
                    (required_log_idx s) True \<and> pe_sm_committed_idx p \<noteq> 0) (map snd (sv_peers s)))"
  have "xs \<noteq> []" by (simp add: xs_def)
  then have "rev (sort xs) ! (length xs - 1) = sort xs ! 0"
    by (simp add: rev_nth)
  also have "\<dots> \<le> sv_sm_commit_index s"
  proof -
    have "sv_sm_commit_index s \<in> set xs" by (simp add: xs_def)
    then have "sv_sm_commit_index s \<in> set (sort xs)" by simp
    then obtain k where "k < length (sort xs)" "sort xs ! k = sv_sm_commit_index s"
      by (metis in_set_conv_nth)
    then show ?thesis
      using sorted_nth_mono [OF sorted_sort, of 0 k xs] by simp
  qed
  finally show ?thesis
    using assms by (simp add: find_sm_commit_idx_to_notify_def xs_def Let_def)
qed

definition sample_tracked :: "int \<Rightarrow> server" where
  "sample_tracked q = (sample_server 1 [1, 2])
     \<lparr>sv_role := leader, sv_leader := 1, sv_sm_commit_paused := True,
      sv_log := \<lparr>rl_start = 1, rl_entries = [sample_rentry 1, sample_rentry 1]\<rparr>,
      sv_quick_commit_index := 2, sv_precommit_index := 2,
      sv_commit_ret_elems := [(2, \<lparr>ce_result_code = Result_TIMEOUT, ce_callback_invoked = False, ce_async_result = True\<rparr>)],
      sv_params := default_raft_params\<lparr>p_track_peers_sm_commit_idx := True, p_return_method := async_handler,
        p_custom_commit_quorum_size := q\<rparr>,
      sv_peers := [(2, (new_peer 0 1 default_raft_params (new_srv_config 2 0 [] [] False 1))\<lparr>pe_sm_committed_idx := 2\<rparr>)]\<rparr>"

lemma sample_tracked_fields:
  "p_custom_commit_quorum_size (sv_params (sample_tracked q)) = q"
  "p_track_peers_sm_commit_idx (sv_params (sample_tracked q))"
  "p_return_method (sv_params (sample_tracked q)) = async_handler"
  "sv_sm_commit_index (sample_tracked q) = 0" "sv_exited (sample_tracked q) = False"
  "sv_sm_commit_paused (sample_tracked q)" "sv_role (sample_tracked q) = leader" "sv_out (sample_tracked q) = []"
  "sv_sm_commit_notifier_target_idx (sample_tracked q) = 0" "sv_sm_commit_notifier_notified_idx (sample_tracked q) = 0"
  "sv_log (sample_tracked q) = \<lparr>rl_start = 1, rl_entries = [sample_rentry 1, sample_rentry 1]\<rparr>"
  "sv_commit_ret_elems (sample_tracked q) =
     [(2, \<lparr>ce_result_code = Result_TIMEOUT, ce_callback_invoked = False, ce_async_result = True\<rparr>)]"
  by (simp_all add: sample_tracked_def sample_server_def new_server_def apply_and_log_current_params_def
      sample_env_def fix_timeouts_def default_raft_params_def Let_def)

theorem notify_target_bounded_witness: "find_sm_commit_idx_to_notify (sample_env 5) (sample_tracked 0) \<le> 0"
  using notify_target_bounded [of "sample_tracked 0" "sample_env 5"] by (simp add: sample_tracked_fields)

lemma rev_sort_head: "x \<in> set xs \<Longrightarrow> x \<le> rev (sort xs) ! 0" for x :: "'a::linorder"
proof -
  assume x: "x \<in> set xs"
  then have "x \<in> set (sort xs)" by simp
  then obtain k where k: "k < length (sort xs)" "sort xs ! k = x"
    by (metis in_set_conv_nth)
  then have "rev (sort xs) ! 0 = sort xs ! (length xs - 1)"
    by (subst rev_nth) auto
  then show ?thesis
    using k sorted_nth_mono [OF sorted_sort, of k "length xs - 1" xs] by simp
qed

lemma find_sm_commit_idx_one:
  assumes "p_custom_commit_quorum_size (sv_params s) = 1" and "p \<in> snd ` set (sv_peers s)"
    and "\<not> is_excluded_from_quorum p (resp_elapsed_ms env p) (to_i32 (full_consensus_expiry env s)) (required_log_idx s) True"
    and "pe_sm_committed_idx p \<noteq> 0"
  shows "pe_sm_committed_idx p \<le> find_sm_commit_idx_to_notify env s"
proof -
  define ps where "ps = filter (\<lambda>p. \<not> is_excluded_from_quorum p (resp_elapsed_ms env p)
    (to_i32 (full_consensus_expiry env s)) (required_log_idx s) True \<and> pe_sm_committed_idx p \<noteq> 0) (map snd (sv_peers s))"
  have "p \<in> set ps" using assms(2-4) by (simp add: ps_def)
  then have "ps \<noteq> []" "pe_sm_committed_idx p \<in> set (sv_sm_commit_index s # map pe_sm_committed_idx ps)"
    by auto
  note this(1) rev_sort_head [OF this(2)]
  then show ?thesis
    using assms(1) unfolding find_sm_commit_idx_to_notify_def Let_def ps_def [symmetric] by simp
qed

lemma scan_answers:
  assumes "p_track_peers_sm_commit_idx (sv_params s)" and "p_return_method (sv_params s) = async_handler"
    and "omap_ok (sv_commit_ret_elems s)" and "om_find i (sv_commit_ret_elems s) = Some e"
    and "ce_async_result e" and "i \<le> k"
  shows "Client_Result i Result_OK \<in> set (sv_out (scan_sm_commit_and_notify k s))"
    and "sm_ops (scan_sm_commit_and_notify k s) = sm_ops s"
    and "sv_sm_commit_index (scan_sm_commit_and_notify k s) = sv_sm_commit_index s"
proof -
  have "(i, e) \<in> set (sv_commit_ret_elems s)"
    using assms(4) by (simp add: om_find_def map_of_SomeD)
  moreover have "takeWhile (\<lambda>kc. fst kc \<le> k) m = filter (\<lambda>kc. fst kc \<le> k) m" if "omap_ok m" for m :: "(nat, commit_ret_elem) omap"
    using om_erase_from_filter [OF that, of "Suc k"] by (simp add: om_erase_from_def less_Suc_eq_le)
  ultimately have "Client_Result i Result_OK \<in> set (concat (map (notify_elem (sv_params s))
      (takeWhile (\<lambda>kc. fst kc \<le> k) (sv_commit_ret_elems s))))"
    using assms(2,3,5,6) by (force simp: notify_elem_def)
  then show "Client_Result i Result_OK \<in> set (sv_out (scan_sm_commit_and_notify k s))"
      and "sm_ops (scan_sm_commit_and_notify k s) = sm_ops s"
      and "sv_sm_commit_index (scan_sm_commit_and_notify k s) = sv_sm_commit_index s"
    using assms(1,2)
    by (auto simp: scan_sm_commit_and_notify_def sm_ops_def notify_elem_def is_sm_op_def filter_empty_conv)
qed

text \<open>While the state machine is paused, a round of the commit thread executes nothing but still answers.\<close>

lemma commit_in_bg_paused:
  assumes "p_track_peers_sm_commit_idx (sv_params s)" and "sv_sm_commit_paused s" and "\<not> sv_exited s"
    and "sv_role s = leader" and "rl_start (sv_log s) \<le> sv_sm_commit_index s + 1"
    and "sv_sm_commit_notifier_notified_idx s < sv_sm_commit_notifier_target_idx s"
  shows "\<exists>k \<ge> sv_sm_commit_notifier_target_idx s.
    commit_in_bg env s = scan_sm_commit_and_notify k (s\<lparr>sv_sm_commit_notifier_target_idx := k\<rparr>)"
proof -
  have skip: "skip_to_log_start s = s"
    using assms(5) by (auto simp: skip_to_log_start_def Let_def)
  have "commit_loop env (\<lambda>_. False) need True s = (True, s)" for need
    using assms(2) by (subst commit_loop.simps) simp
  then have exec: "commit_in_bg_exec env (\<lambda>_. False) s =
      (True, update_sm_commit_notifier_target_idx (find_sm_commit_idx_to_notify env s) s)"
    using assms by (simp add: commit_in_bg_exec_def skip note_freshness_def Let_def)
  let ?k = "max (sv_sm_commit_notifier_target_idx s) (find_sm_commit_idx_to_notify env s)"
  have up: "update_sm_commit_notifier_target_idx (find_sm_commit_idx_to_notify env s) s =
      s\<lparr>sv_sm_commit_notifier_target_idx := ?k\<rparr>"
    by (simp add: update_sm_commit_notifier_target_idx_def)
  have "commit_in_bg env s = scan_sm_commit_and_notify ?k (s\<lparr>sv_sm_commit_notifier_target_idx := ?k\<rparr>)"
    unfolding commit_in_bg_def exec up using assms(3,6) by (simp add: commit_bg_idle_def Let_def)
  then show ?thesis
    by (intro exI [of _ ?k]) simp
qed

text \<open>
  C36. With a custom commit quorum of one the bound fails, and clients are answered too early. Let the
  leader's state machine be paused before entry \<open>i\<close>, and let a peer that counts report in its response
  that its own state machine has executed entry \<open>n\<close>, with \<open>i\<close> at most \<open>n\<close>. The handling of the response
  and the next round of the commit thread then answer the asynchronous client of entry \<open>i\<close> with \<^verbatim>\<open>OK\<close>,
  although the leader's state machine has not executed the entry and has not been called.
\<close>

theorem tracked_ok_before_execution:
  assumes "p_custom_commit_quorum_size (sv_params s) = 1" and "p_return_method (sv_params s) = async_handler"
    and "sv_sm_commit_paused s" and "\<not> sv_exited s" and "sv_role s = leader"
    and "rl_start (sv_log s) \<le> sv_sm_commit_index s + 1"
    and "sm_committed_of resp s = Some n" and "prev < n" and "find_peer j s = Some p"
    and "\<not> is_excluded_from_quorum p (resp_elapsed_ms env p) (to_i32 (full_consensus_expiry env s)) (required_log_idx s) True"
    and "sv_sm_commit_notifier_notified_idx s < i" and "sv_sm_commit_index s < i" and "i \<le> n"
    and "omap_ok (sv_commit_ret_elems s)" and "om_find i (sv_commit_ret_elems s) = Some e" and "ce_async_result e"
  shows "let t = commit_in_bg env' (track_sm_commit env resp prev j s)
    in Client_Result i Result_OK \<in> set (sv_out t) \<and> sv_sm_commit_index t < i \<and> sm_ops t = sm_ops s"
proof -
  let ?p = "p\<lparr>pe_sm_committed_idx := n\<rparr>"
  define u where "u = upd_peer j (\<lambda>p. p\<lparr>pe_sm_committed_idx := n\<rparr>) s"
  define t where "t = track_sm_commit env resp prev j s"
  have track: "p_track_peers_sm_commit_idx (sv_params s)"
    using assms(7) by (auto simp: sm_committed_of_def split: option.splits if_splits)
  have "(j, p) \<in> set (sv_peers s)"
    using assms(9) by (simp add: find_peer_def om_find_def map_of_SomeD)
  then have "?p \<in> snd ` set (sv_peers u)"
    by (force simp: u_def upd_peer_def)
  moreover have "\<not> is_excluded_from_quorum ?p (resp_elapsed_ms env ?p) (to_i32 (full_consensus_expiry env u)) (required_log_idx u) True"
  proof -
    have "full_consensus_expiry env u = full_consensus_expiry env s" "required_log_idx u = required_log_idx s"
        "resp_elapsed_ms env ?p = resp_elapsed_ms env p"
      by (simp_all add: u_def upd_peer_def full_consensus_expiry_def required_log_idx_def resp_elapsed_ms_def)
    then show ?thesis
      using assms(10) by (auto simp: is_excluded_from_quorum_def split: if_splits)
  qed
  ultimately have "n \<le> find_sm_commit_idx_to_notify env u"
    using find_sm_commit_idx_one [of u ?p env] assms(1,8) by (simp add: u_def upd_peer_def)
  moreover have t: "t = emit Request_Commit
      (update_sm_commit_notifier_target_idx (find_sm_commit_idx_to_notify env u) u)"
    using assms(7,8) by (simp add: t_def u_def track_sm_commit_def Let_def)
  ultimately have target: "n \<le> sv_sm_commit_notifier_target_idx t"
    by (simp add: update_sm_commit_notifier_target_idx_def emit_def)
  have same: "sv_params t = sv_params s" "sv_sm_commit_paused t = sv_sm_commit_paused s" "sv_exited t = sv_exited s"
      "sv_role t = sv_role s" "sv_log t = sv_log s" "sv_sm_commit_index t = sv_sm_commit_index s"
      "sv_sm_commit_notifier_notified_idx t = sv_sm_commit_notifier_notified_idx s"
      "sv_commit_ret_elems t = sv_commit_ret_elems s" "sm_ops t = sm_ops s"
    by (simp_all add: t update_sm_commit_notifier_target_idx_def u_def upd_peer_def emit_def sm_ops_def is_sm_op_def)
  obtain k where k: "sv_sm_commit_notifier_target_idx t \<le> k"
      "commit_in_bg env' t = scan_sm_commit_and_notify k (t\<lparr>sv_sm_commit_notifier_target_idx := k\<rparr>)"
    using commit_in_bg_paused [of t env'] track assms(3-6,11,13) target unfolding same by auto
  note ans = scan_answers [of "t\<lparr>sv_sm_commit_notifier_target_idx := k\<rparr>" i e k]
  show ?thesis
    unfolding Let_def t_def [symmetric] k(2)
    using ans track assms(2,12-16) k(1) target same by (simp add: sm_ops_def)
qed

definition sample_sm_report :: resp_msg where
  "sample_sm_report = (new_resp_msg 1 append_entries_response 2 1 3)
     \<lparr>rs_ctx := Some \<lparr>ra_extra_order = NOTIFYING_SM_COMMITTED_INDEX, ra_sm_committed_idx = 2\<rparr>\<rparr>"

theorem tracked_ok_before_execution_witness:
  "let t = commit_in_bg (sample_env 5) (track_sm_commit (sample_env 5) sample_sm_report 0 2 (sample_tracked 1))
   in Client_Result 2 Result_OK \<in> set (sv_out t) \<and> sv_sm_commit_index t < 2 \<and> sm_ops t = []"
proof -
  let ?p = "(new_peer 0 1 default_raft_params (new_srv_config 2 0 [] [] False 1))\<lparr>pe_sm_committed_idx := 2\<rparr>"
  have pre: "sm_committed_of sample_sm_report (sample_tracked 1) = Some 2" "find_peer 2 (sample_tracked 1) = Some ?p"
    by (simp_all add: sm_committed_of_def sample_sm_report_def sample_tracked_fields)
      (simp add: find_peer_def om_find_def sample_tracked_def)
  have "\<not> is_excluded_from_quorum ?p (resp_elapsed_ms (sample_env 5) ?p)
      (to_i32 (full_consensus_expiry (sample_env 5) (sample_tracked 1))) (required_log_idx (sample_tracked 1)) True"
    by (simp add: sample_tracked_def is_excluded_from_quorum_def resp_elapsed_ms_def
        full_consensus_expiry_def required_log_idx_def new_peer_def new_srv_config_def sample_env_def default_limits_def
        default_raft_params_def new_timer_def get_us_def Let_def sample_server_def new_server_def
        apply_and_log_current_params_def)
  then show ?thesis
    using tracked_ok_before_execution [OF _ _ _ _ _ _ pre(1) _ pre(2), of 0 "sample_env 5" 2 _ "sample_env 5"]
    by (simp add: sample_tracked_fields om_find_def sm_ops_def omap_ok_Cons)
qed

subsection \<open>Watchers\<close>

lemma commit_entry_watchers: "sv_sm_watchers (commit_entry env need idx e s) = sv_sm_watchers s"
proof (cases "idx \<le> sv_precommit_index s")
  case True
  then show ?thesis
    using commit_entry_progress(1) [where idx = idx and s = s and env = env and need = need and e = e]
    by (simp add: same_progress_def)
next
  case False
  then show ?thesis
    using commit_conf_progress(1) [where s = s and idx = idx and env = env]
    by (simp add: commit_entry_def commit_app_log_def sys_exit_def emit_def same_progress_def split: log_body.split)
qed

lemma commit_one_watchers:
  assumes "i \<noteq> sv_sm_commit_index s + 1"
  shows "om_find i (sv_sm_watchers (commit_one env need s)) = om_find i (sv_sm_watchers s)"
proof -
  let ?i = "sv_sm_commit_index s + 1"
  have "sv_sm_watchers (snd (snapshot_and_compact env ?i False (t\<lparr>sv_sm_commit_index := ?i\<rparr>))) = sv_sm_watchers t" for t
    using snapshot_and_compact_progress [of env ?i False "t\<lparr>sv_sm_commit_index := ?i\<rparr>"] by (simp add: same_progress_def)
  then show ?thesis
    using assms
    by (simp add: commit_one_def notify_watchers_def notify_cb_def sys_exit_def emit_def commit_entry_watchers
        om_find_erase Let_def split: option.split)
qed

lemma commit_loop_watchers:
  "i \<le> sv_sm_commit_index s \<Longrightarrow>
     om_find i (sv_sm_watchers (snd (commit_loop env expired need first s))) = om_find i (sv_sm_watchers s)"
proof (induction env expired need first s rule: commit_loop.induct)
  case (1 env expired need first s)
  let ?t = "commit_one env need s"
  show ?case
  proof (cases "sv_exited s \<or> \<not> (sv_sm_commit_index s < sv_quick_commit_index s \<and> sv_sm_commit_index s < last_idx s) \<or>
      \<not> first \<and> expired (sv_sm_commit_index s + 1) \<or> sv_sm_commit_paused s")
    case True
    then show ?thesis by (subst commit_loop.simps) auto
  next
    case False
    then have rec: "commit_loop env expired need first s = commit_loop env expired need False ?t"
      by (subst commit_loop.simps) auto
    show ?thesis
    proof (cases "sv_exited ?t")
      case True
      then have "commit_loop env expired need False ?t = (True, ?t)" by (subst commit_loop.simps) simp
      with rec show ?thesis using commit_one_watchers [of i s] 1(2) by simp
    next
      case live: False
      then have "i \<le> sv_sm_commit_index ?t" using commit_one_frame(4) 1(2) by simp
      with 1(1) False rec show ?thesis using commit_one_watchers [of i s] 1(2) by simp
    qed
  qed
qed

lemma install_snapshot_progress:
  assumes "install_snapshot env snp s = (True, t)"
  shows "sv_sm_commit_index t = sn_last_log_idx snp" and "sv_sm_watchers t = sv_sm_watchers s"
proof -
  let ?c = "sn_last_config snp"
  have "sv_sm_watchers (reconfigure env ?c u) = sv_sm_watchers u" for u
    using reconfigure_progress [of u env ?c] by (simp add: same_progress_def)
  then show "sv_sm_commit_index t = sn_last_log_idx snp" "sv_sm_watchers t = sv_sm_watchers s"
    using assms
    by (auto simp: install_snapshot_def save_state_def set_sstate_def stop_election_timer_def emit_def save_config_def
        restart_election_timer_def sys_exit_def Let_def split: if_splits)
qed


definition sample_snapshot :: "nat \<Rightarrow> snapshot" where
  "sample_snapshot n = \<lparr>sn_last_log_idx = n, sn_last_log_term = 1, sn_size = 0, sn_last_config = sample_config [1],
     sn_type = logical_object\<rparr>"


end
