(* ===== verification/Raft_Member_Facts.thy ===== *)
theory Raft_Member_Facts
  imports Raft_Member
begin

text \<open>
  What a change of membership achieves: applying a configuration makes the peers mirror it, one server is
  added or removed at a time so that old and new majorities meet, and two servers that invite each
  other cannot both follow.
\<close>

subsection \<open>The peers\<close>

definition peers_ok :: "int \<Rightarrow> (int, peer) omap \<Rightarrow> bool" where
  "peers_ok me m \<longleftrightarrow> omap_ok m \<and> (\<forall>k p. om_find k m = Some p \<longrightarrow> pe_id p = k) \<and> om_find me m = None"

lemma peers_okD: "peers_ok me m \<Longrightarrow> om_find k m = Some p \<Longrightarrow> pe_id p = k"
  by (simp add: peers_ok_def)

lemma om_find_map: "om_find k (map (\<lambda>(k, p). (k, g p)) m) = map_option g (om_find k m)"
  by (simp add: om_find_def map_of_map)

lemma omap_ok_map: "omap_ok (map (\<lambda>(k, p). (k, g p)) m) = omap_ok m"
  by (simp add: omap_ok_def comp_def case_prod_beta)

lemma om_erase_absent: "om_find k m = None \<Longrightarrow> om_erase k m = m"
  by (auto simp: om_find_def om_erase_def map_of_eq_None_iff intro!: filter_True)

text \<open>Each of the four loops of \<^verbatim>\<open>reconfigure\<close>, as far as the peers are concerned.\<close>

lemma note_own_peers:
  "sv_peers (fold (note_own_config env) xs s) = sv_peers s \<and> sv_id (fold (note_own_config env) xs s) = sv_id s \<and>
   sv_role (fold (note_own_config env) xs s) = sv_role s \<and> sv_srv_to_leave (fold (note_own_config env) xs s) = sv_srv_to_leave s"
proof (induction xs arbitrary: s)
  case (Cons x xs)
  have "sv_peers (note_own_config env x s) = sv_peers s \<and> sv_id (note_own_config env x s) = sv_id s \<and>
      sv_role (note_own_config env x s) = sv_role s \<and> sv_srv_to_leave (note_own_config env x s) = sv_srv_to_leave s"
    by (simp add: note_own_config_def restart_election_timer_def save_state_def set_sstate_def Let_def)
  with Cons show ?case by simp
qed simp

lemma pe_config_simps [simp]:
  "pe_config (new_peer now rpc p srv) = srv" "pe_config (enable_hb b q) = pe_config q"
  "pe_config (resume_hb_speed q) = pe_config q"
  by (simp_all add: new_peer_def enable_hb_def resume_hb_speed_def)

lemma add_config_peer_peers:
  "\<exists>q. sv_peers (add_config_peer env srv s) = insert_peer (sc_id srv) q (sv_peers s) \<and> pe_config q = srv"
  "sv_id (add_config_peer env srv s) = sv_id s" "sv_role (add_config_peer env srv s) = sv_role s"
  "sv_srv_to_leave (add_config_peer env srv s) = sv_srv_to_leave s"
  by (cases "sv_srv_to_join s"; cases "sv_role s = leader";
      auto simp: add_config_peer_def Let_def intro!: exI conjI)+

lemma add_fold_peers:
  assumes "peers_ok me (sv_peers s)" and "me \<notin> sc_id ` set xs"
  shows "peers_ok me (sv_peers (fold (add_config_peer env) xs s)) \<and>
    (\<forall>k. om_find k (sv_peers (fold (add_config_peer env) xs s)) = None \<longleftrightarrow> om_find k (sv_peers s) = None \<and> k \<notin> sc_id ` set xs) \<and>
    (\<forall>k p. om_find k (sv_peers s) = Some p \<longrightarrow> om_find k (sv_peers (fold (add_config_peer env) xs s)) = Some p) \<and>
    sv_role (fold (add_config_peer env) xs s) = sv_role s \<and>
    sv_srv_to_leave (fold (add_config_peer env) xs s) = sv_srv_to_leave s"
  using assms
proof (induction xs arbitrary: s)
  case (Cons x xs)
  obtain q where q: "pe_config q = x" "sv_peers (add_config_peer env x s) = insert_peer (sc_id x) q (sv_peers s)"
    using add_config_peer_peers(1) [of env x s] by blast
  have ok: "omap_ok (sv_peers s)" using Cons.prems(1) by (simp add: peers_ok_def)
  have find: "om_find k (sv_peers (add_config_peer env x s)) =
      (if k = sc_id x \<and> om_find k (sv_peers s) = None then Some q else om_find k (sv_peers s))" for k
    using ok by (auto simp: q(2) insert_peer_def om_find_set split: option.split)
  have "omap_ok (sv_peers (add_config_peer env x s))"
    using ok by (simp add: q(2) insert_peer_def omap_ok_set split: option.split)
  then have "peers_ok me (sv_peers (add_config_peer env x s))"
    using Cons.prems q(1) by (auto simp: peers_ok_def find pe_id_def)
  then show ?case
    using Cons.IH [of "add_config_peer env x s"] Cons.prems(2) add_config_peer_peers(3,4) [of env x s]
    by (auto simp: find)
qed simp

lemma remove_config_peer_peers:
  assumes "sv_role s \<noteq> leader \<or> sv_srv_to_leave s = None"
  shows "sv_peers (remove_config_peer i s) = om_erase i (sv_peers s)"
    and "sv_role (remove_config_peer i s) = sv_role s" and "sv_srv_to_leave (remove_config_peer i s) = sv_srv_to_leave s"
  using assms
  by (auto simp: remove_config_peer_def notify_cb_def emit_def find_peer_def remove_peer_from_peers_def om_erase_absent
      Let_def split: option.split)

lemma remove_fold_peers:
  assumes "sv_role s \<noteq> leader \<or> sv_srv_to_leave s = None"
  shows "om_find k (sv_peers (fold remove_config_peer is s)) = (if k \<in> set is then None else om_find k (sv_peers s)) \<and>
    (omap_ok (sv_peers s) \<longrightarrow> omap_ok (sv_peers (fold remove_config_peer is s)))"
  using assms
proof (induction "is" arbitrary: s)
  case (Cons i "is")
  note r = remove_config_peer_peers [OF Cons.prems, of i]
  show ?case
    using Cons.IH [of "remove_config_peer i s"] Cons.prems r by (simp add: om_find_erase omap_ok_erase)
qed simp

lemma set_config_fold_peers:
  assumes "peers_ok me (sv_peers s)" and "distinct (map sc_id xs)"
  shows "peers_ok me (sv_peers (fold set_peer_config xs s)) \<and>
    (\<forall>k. om_find k (sv_peers (fold set_peer_config xs s)) =
       map_option (\<lambda>p. case find (\<lambda>srv. sc_id srv = k) xs of Some srv \<Rightarrow> p\<lparr>pe_config := srv\<rparr> | None \<Rightarrow> p)
         (om_find k (sv_peers s)))"
  using assms
proof (induction xs arbitrary: s)
  case Nil
  then show ?case by (simp add: map_option.identity)
next
  case (Cons x xs)
  let ?g = "\<lambda>p. if pe_id p = sc_id x then p\<lparr>pe_config := x\<rparr> else p"
  have p: "sv_peers (set_peer_config x s) = map (\<lambda>(k, p). (k, ?g p)) (sv_peers s)"
    by (simp add: set_peer_config_def)
  have ok: "peers_ok me (sv_peers (set_peer_config x s))"
    using Cons.prems(1) unfolding p by (auto simp: peers_ok_def om_find_map omap_ok_map pe_id_def)
  have none: "find (\<lambda>srv. sc_id srv = sc_id x) xs = None"
    unfolding find_None_iff using Cons.prems(2) by clarsimp (metis image_eqI)
  have "map_option (\<lambda>p. case find (\<lambda>srv. sc_id srv = k) xs of None \<Rightarrow> p | Some srv \<Rightarrow> p\<lparr>pe_config := srv\<rparr>)
      (map_option ?g (om_find k (sv_peers s))) =
    map_option (\<lambda>p. case find (\<lambda>srv. sc_id srv = k) (x # xs) of None \<Rightarrow> p | Some srv \<Rightarrow> p\<lparr>pe_config := srv\<rparr>)
      (om_find k (sv_peers s))" for k
    using none peers_okD [OF Cons.prems(1), of k] by (cases "om_find k (sv_peers s)") auto
  then show ?case
    using Cons.IH [OF ok] Cons.prems(2) by (simp add: p om_find_map)
qed

lemma set_config_fold_config: "sv_config (fold set_peer_config xs s) = sv_config s"
  by (induction xs arbitrary: s) (simp_all add: set_peer_config_def)

lemma get_server_distinct:
  assumes "distinct (map sc_id (cc_servers c))" and "srv \<in> set (cc_servers c)"
  shows "get_server (sc_id srv) c = Some srv"
proof -
  have "find (\<lambda>x. sc_id x = sc_id srv) xs = Some srv" if "distinct (map sc_id xs)" "srv \<in> set xs" for xs
    using that by (induction xs) (auto simp: image_iff)
  then show ?thesis using assms by (simp add: get_server_def)
qed

text \<open>The end of \<^verbatim>\<open>reconfigure\<close>, from the point where the peers are those of the new configuration.\<close>

lemma reconfigure_last_loop:
  obtains s4 where
    "sv_peers s4 = sv_peers (fold remove_config_peer (srvs_removed c s)
       (fold (add_config_peer env) (srvs_added c s) (fold (note_own_config env) (cc_servers c) s)))"
    and "sv_config s4 = c"
    and "reconfigure env c s = update_target_priority env (fold set_peer_config (cc_servers c) s4)"
proof -
  define s3 where "s3 = (fold remove_config_peer (srvs_removed c s)
    (fold (add_config_peer env) (srvs_added c s) (fold (note_own_config env) (cc_servers c) s)))\<lparr>sv_config := c\<rparr>"
  define s4 where "s4 = (case sv_uncommitted_config s3 of
                 Some u \<Rightarrow> if cc_log_idx u = cc_log_idx c then s3\<lparr>sv_uncommitted_config := None\<rparr> else s3
               | None \<Rightarrow> s3)"
  define s5 where "s5 = (if get_server (sv_id s) (sv_config s) = None \<and> get_server (sv_id s) c \<noteq> None
    then notify_cb JoinedCluster (-1) s4 else s4)"
  have s4: "sv_peers s4 = sv_peers s3" "sv_config s4 = sv_config s3"
    by (auto simp: s4_def split: option.split)
  have "sv_peers s5 = sv_peers s3" "sv_config s5 = c"
    using s4 by (auto simp: s5_def notify_cb_def emit_def s3_def)
  moreover have "reconfigure env c s = update_target_priority env (fold set_peer_config (cc_servers c) s5)"
    unfolding reconfigure_def Let_def s5_def s4_def s3_def by (rule refl)
  ultimately show ?thesis
    using that [of s5] by (simp add: s3_def)
qed

text \<open>The peers after \<^verbatim>\<open>reconfigure\<close>.\<close>

lemma reconfigure_peers:
  assumes "peers_ok (sv_id s) (sv_peers s)" and "distinct (map sc_id (cc_servers c))"
    and "sv_role s \<noteq> leader \<or> sv_srv_to_leave s = None"
  shows "sv_config (reconfigure env c s) = c \<and> peers_ok (sv_id s) (sv_peers (reconfigure env c s)) \<and>
    (\<forall>srv \<in> set (cc_servers c). sc_id srv \<noteq> sv_id s \<longrightarrow>
       (\<exists>p. find_peer (sc_id srv) (reconfigure env c s) = Some p \<and> pe_config p = srv)) \<and>
    (\<forall>k. find_peer k (reconfigure env c s) \<noteq> None \<longrightarrow> k \<in> sc_id ` set (cc_servers c) - {sv_id s}) \<and>
    (\<forall>k p srv. find_peer k s = Some p \<and> get_server k c = Some srv \<longrightarrow>
       find_peer k (reconfigure env c s) = Some (p\<lparr>pe_config := srv\<rparr>))"
proof -
  let ?me = "sv_id s" and ?ids = "sc_id ` set (cc_servers c)"
  define s1 where "s1 = fold (note_own_config env) (cc_servers c) s"
  define s2 where "s2 = fold (add_config_peer env) (srvs_added c s) s1"
  define s3 where "s3 = fold remove_config_peer (srvs_removed c s) s2"
  have s1: "sv_peers s1 = sv_peers s" "sv_role s1 = sv_role s" "sv_srv_to_leave s1 = sv_srv_to_leave s"
    using note_own_peers [of env "cc_servers c" s] by (simp_all add: s1_def)
  have added: "k \<in> sc_id ` set (srvs_added c s) \<longleftrightarrow> k \<in> ?ids \<and> om_find k (sv_peers s) = None \<and> k \<noteq> ?me" for k
    by (auto simp: srvs_added_def find_peer_def)
  have "?me \<notin> sc_id ` set (srvs_added c s)" by (simp add: added)
  from add_fold_peers [OF _ this, of s1 env] assms(1)
  have s2: "peers_ok ?me (sv_peers s2)"
      "\<And>k. om_find k (sv_peers s2) = None \<longleftrightarrow> om_find k (sv_peers s) = None \<and> \<not> (k \<in> ?ids \<and> k \<noteq> ?me)"
      "\<And>k p. om_find k (sv_peers s) = Some p \<Longrightarrow> om_find k (sv_peers s2) = Some p"
      "sv_role s2 \<noteq> leader \<or> sv_srv_to_leave s2 = None"
    using assms(3) added by (auto simp: s1 s2_def [symmetric])
  have get: "get_server k c = None \<longleftrightarrow> k \<notin> ?ids" for k
    by (auto simp: get_server_def find_None_iff)
  have in_peers: "k \<in> fst ` set (sv_peers s) \<longleftrightarrow> om_find k (sv_peers s) \<noteq> None" for k
    by (simp add: om_find_def map_of_eq_None_iff)
  have removed: "k \<in> set (srvs_removed c s) \<longleftrightarrow> k \<notin> ?ids \<and> (om_find k (sv_peers s) \<noteq> None \<or> k = ?me)" for k
    using get in_peers by (auto simp: srvs_removed_def)
  have f3: "om_find k (sv_peers s3) = (if k \<in> ?ids then om_find k (sv_peers s2) else None)" for k
    using remove_fold_peers [OF s2(4), of k "srvs_removed c s"] s2(2) [of k] removed [of k]
    by (auto simp: s3_def)
  have s3: "peers_ok ?me (sv_peers s3)"
    using remove_fold_peers [OF s2(4), of _ "srvs_removed c s"] s2(1) f3 by (auto simp: peers_ok_def s3_def split: if_splits)
  obtain s4 where s4: "sv_peers s4 = sv_peers s3" "sv_config s4 = c"
      "reconfigure env c s = update_target_priority env (fold set_peer_config (cc_servers c) s4)"
    unfolding s3_def s2_def s1_def by (rule reconfigure_last_loop)
  have cfg: "sv_config (reconfigure env c s) = c"
    by (simp add: s4(2,3) update_target_priority_def Let_def set_config_fold_config)
  have ok: "peers_ok ?me (sv_peers (reconfigure env c s))"
    and f: "find_peer k (reconfigure env c s) =
      map_option (\<lambda>p. case get_server k c of Some srv \<Rightarrow> p\<lparr>pe_config := srv\<rparr> | None \<Rightarrow> p) (om_find k (sv_peers s3))" for k
    using set_config_fold_peers [of ?me s4, OF _ assms(2)] s3
    by (simp_all add: s4 update_target_priority_def find_peer_def get_server_def Let_def)
  have found: "get_server (sc_id srv) c = Some srv" if "srv \<in> set (cc_servers c)" for srv
    using get_server_distinct [OF assms(2) that] .
  have "\<exists>p. find_peer (sc_id srv) (reconfigure env c s) = Some p \<and> pe_config p = srv"
    if "srv \<in> set (cc_servers c)" "sc_id srv \<noteq> ?me" for srv
  proof -
    have "om_find (sc_id srv) (sv_peers s3) \<noteq> None"
      using that f3 s2(2) [of "sc_id srv"] by auto
    then show ?thesis
      using f found [OF that(1)] by auto
  qed
  moreover have "k \<in> ?ids - {?me}" if "find_peer k (reconfigure env c s) \<noteq> None" for k
    using that f [of k] f3 [of k] ok by (auto simp: peers_ok_def find_peer_def split: if_splits)
  moreover have "find_peer k (reconfigure env c s) = Some (p\<lparr>pe_config := srv\<rparr>)"
    if "find_peer k s = Some p" "get_server k c = Some srv" for k p srv
    using that f [of k] f3 [of k] s2(3) get [of k] by (auto simp: find_peer_def)
  ultimately show ?thesis
    using cfg ok by blast
qed

text \<open>
  C10. Applying a configuration with distinct ids, on a server that is not a leader in the middle of
  removing a peer, makes the peers exactly the other members of it: each member other than the server
  itself has a peer that carries its entry, nobody else has one, a peer that stays keeps its
  replication state, and the peers remain in order and under their own ids.
\<close>

theorem reconfigure_mirrors_config:
  assumes "peers_ok (sv_id s) (sv_peers s)" and "distinct (map sc_id (cc_servers c))"
    and "sv_role s \<noteq> leader \<or> sv_srv_to_leave s = None"
  shows "sv_config (reconfigure env c s) = c \<and> peers_ok (sv_id s) (sv_peers (reconfigure env c s)) \<and>
    (\<forall>srv \<in> set (cc_servers c). sc_id srv \<noteq> sv_id s \<longrightarrow>
       (\<exists>p. find_peer (sc_id srv) (reconfigure env c s) = Some p \<and> pe_config p = srv)) \<and>
    (\<forall>k. find_peer k (reconfigure env c s) \<noteq> None \<longrightarrow> k \<in> sc_id ` set (cc_servers c) - {sv_id s}) \<and>
    (\<forall>k p srv. find_peer k s = Some p \<and> get_server k c = Some srv \<longrightarrow>
       find_peer k (reconfigure env c s) = Some (p\<lparr>pe_config := srv\<rparr>))"
  by (rule reconfigure_peers [OF assms])

lemma sample_server_2:
  "sv_id (sample_server 2 [1, 2, 3]) = 2" "sv_role (sample_server 2 [1, 2, 3]) = follower"
  "sv_peers (sample_server 2 [1, 2, 3]) =
     [(1, new_peer 0 1 default_raft_params (new_srv_config 1 0 [] [] False 1)),
      (3, new_peer 0 1 default_raft_params (new_srv_config 3 0 [] [] False 1))]"
  by (simp_all add: sample_server_def new_server_def apply_and_log_current_params_def sample_env_def
      fix_timeouts_def default_raft_params_def Let_def sample_config_def new_cluster_config_def new_srv_config_def
      insert_peer_def om_find_def)

theorem reconfigure_mirrors_config_witness:
  "let t = reconfigure (sample_env 5) (sample_config [2, 3, 4]) (sample_server 2 [1, 2, 3])
   in find_peer 1 t = None \<and> find_peer 3 t \<noteq> None \<and> find_peer 4 t \<noteq> None"
proof -
  let ?s = "sample_server 2 [1, 2, 3]" and ?c = "sample_config [2, 3, 4]"
  have c: "cc_servers ?c = map (\<lambda>i. new_srv_config i 0 [] [] False 1) [2, 3, 4]"
    by (simp add: sample_config_def new_cluster_config_def)
  have id: "sc_id (new_srv_config i 0 [] [] False 1) = i" for i
    by (simp add: new_srv_config_def)
  have "peers_ok (sv_id ?s) (sv_peers ?s)"
    by (auto simp: peers_ok_def sample_server_2 omap_ok_Cons om_find_def pe_id_def id split: if_splits)
  from reconfigure_mirrors_config [OF this, of ?c "sample_env 5"] show ?thesis
    by (auto simp: c id sample_server_2 Let_def)
qed

subsection \<open>One change at a time\<close>

text \<open>
  The members that a configuration lets vote, and those that a server counts in
  \<^verbatim>\<open>get_num_voting_members\<close>, with their ids.
\<close>

definition voters :: "cluster_config \<Rightarrow> int set" where
  "voters c = sc_id ` set (filter (\<lambda>srv. \<not> sc_learner srv \<and> \<not> sc_new_joiner srv) (cc_servers c))"

definition voting_ids :: "server \<Rightarrow> int set" where
  "voting_ids s = pe_id ` set (regular_peers s) \<union> (if sv_im_learner s then {} else {sv_id s})"

lemma voting_ids_card:
  assumes "peers_ok (sv_id s) (sv_peers s)"
  shows "int (card (voting_ids s)) = get_num_voting_members s"
proof -
  have m: "omap_ok (sv_peers s)" "\<And>k p. om_find k (sv_peers s) = Some p \<Longrightarrow> pe_id p = k" "om_find (sv_id s) (sv_peers s) = None"
    using assms by (auto simp: peers_ok_def)
  have dist: "distinct (map fst (sv_peers s))"
    using m(1) by (auto simp: omap_ok_def strict_sorted_iff)
  have id: "pe_id p = k" if "(k, p) \<in> set (sv_peers s)" for k p
    using m(2) [of k p] dist that by (simp add: om_find_def)
  then have "map pe_id (map snd (sv_peers s)) = map fst (sv_peers s)"
    by auto
  then have "distinct (map pe_id (map snd (sv_peers s)))"
    using dist unfolding \<open>map pe_id (map snd (sv_peers s)) = map fst (sv_peers s)\<close> by simp
  then have d: "distinct (map pe_id (regular_peers s))"
    unfolding regular_peers_def by (rule distinct_map_filter)
  have "sv_id s \<notin> pe_id ` set (regular_peers s)"
  proof
    assume "sv_id s \<in> pe_id ` set (regular_peers s)"
    then obtain k p where "(k, p) \<in> set (sv_peers s)" "pe_id p = sv_id s"
      by (auto simp: regular_peers_def)
    then show False
      using id [of k p] m(3) by (auto simp: om_find_def map_of_eq_None_iff image_iff)
  qed
  then show ?thesis
    using distinct_card [OF d] by (simp add: voting_ids_def get_num_voting_members_def)
qed

text \<open>What else \<^verbatim>\<open>reconfigure\<close> keeps, and how it notes whether the server is a learner.\<close>

definition same_quorum_fields :: "server \<Rightarrow> server \<Rightarrow> bool" where
  "same_quorum_fields s t \<longleftrightarrow> sv_id t = sv_id s \<and> sv_params t = sv_params s \<and> sv_srv_to_leave t = sv_srv_to_leave s"

lemma same_quorum_fold:
  assumes "\<And>x s. same_quorum_fields s (f x s) \<and> sv_im_learner (f x s) = sv_im_learner s"
  shows "same_quorum_fields s (fold f xs s) \<and> sv_im_learner (fold f xs s) = sv_im_learner s"
proof (induction xs arbitrary: s)
  case (Cons x xs)
  then show ?case
    using assms [of s x] by (auto simp: same_quorum_fields_def)
qed (simp add: same_quorum_fields_def)

lemma same_quorum_own:
  "same_quorum_fields s (fold (note_own_config env) xs s) \<and>
   (sv_id s \<notin> sc_id ` set xs \<longrightarrow> sv_im_learner (fold (note_own_config env) xs s) = sv_im_learner s) \<and>
   (distinct (map sc_id xs) \<and> srv \<in> set xs \<and> sc_id srv = sv_id s \<longrightarrow>
     sv_im_learner (fold (note_own_config env) xs s) = sc_learner srv)"
proof (induction xs arbitrary: s)
  case (Cons x xs)
  have step: "same_quorum_fields s (note_own_config env x s)"
      "sv_im_learner (note_own_config env x s) = (if sc_id x = sv_id s then sc_learner x else sv_im_learner s)"
    by (simp_all add: note_own_config_def same_quorum_fields_def restart_election_timer_def save_state_def
        set_sstate_def Let_def)
  then have "sv_id (note_own_config env x s) = sv_id s"
    by (simp add: same_quorum_fields_def)
  moreover have "sc_id x \<notin> sc_id ` set xs" if "distinct (map sc_id (x # xs))"
    using that by auto
  ultimately show ?case
    using Cons [of "note_own_config env x s"] step by (auto simp: same_quorum_fields_def)
qed (simp add: same_quorum_fields_def)

lemma reconfigure_quorum_fields:
  assumes "distinct (map sc_id (cc_servers c))" and "srv \<in> set (cc_servers c)" and "sc_id srv = sv_id s"
  shows "same_quorum_fields s (reconfigure env c s) \<and> sv_im_learner (reconfigure env c s) = sc_learner srv"
proof -
  let ?P = "\<lambda>s t. same_quorum_fields s t \<and> sv_im_learner t = sv_im_learner s"
  define s1 where "s1 = fold (note_own_config env) (cc_servers c) s"
  define s2 where "s2 = fold (add_config_peer env) (srvs_added c s) s1"
  define s3 where "s3 = (fold remove_config_peer (srvs_removed c s) s2)\<lparr>sv_config := c\<rparr>"
  define s4 where "s4 = (case sv_uncommitted_config s3 of
                 Some u \<Rightarrow> if cc_log_idx u = cc_log_idx c then s3\<lparr>sv_uncommitted_config := None\<rparr> else s3
               | None \<Rightarrow> s3)"
  define s5 where "s5 = (if get_server (sv_id s) (sv_config s) = None \<and> get_server (sv_id s) c \<noteq> None
    then notify_cb JoinedCluster (-1) s4 else s4)"
  have 1: "same_quorum_fields s s1" "sv_im_learner s1 = sc_learner srv"
    using same_quorum_own [of s env "cc_servers c" srv] assms by (simp_all add: s1_def)
  have 2: "?P s1 s2"
    unfolding s2_def
    by (rule same_quorum_fold) (simp add: add_config_peer_def same_quorum_fields_def Let_def split: option.split)
  have "?P s2 (fold remove_config_peer (srvs_removed c s) s2)"
    by (rule same_quorum_fold) (simp add: remove_config_peer_def same_quorum_fields_def remove_peer_from_peers_def
        upd_peer_def notify_cb_def emit_def Let_def split: option.split)
  then have 3: "?P s2 s3"
    by (simp add: s3_def same_quorum_fields_def)
  have "?P s3 s4"
    by (simp add: s4_def same_quorum_fields_def split: option.split)
  then have 4: "?P s3 s5"
    by (simp add: s5_def same_quorum_fields_def notify_cb_def emit_def)
  have 5: "?P s5 (fold set_peer_config (cc_servers c) s5)"
    by (rule same_quorum_fold) (simp add: set_peer_config_def same_quorum_fields_def)
  have "reconfigure env c s = update_target_priority env (fold set_peer_config (cc_servers c) s5)"
    unfolding reconfigure_def Let_def s5_def s4_def s3_def s2_def s1_def by (rule refl)
  then show ?thesis
    using 1 2 3 4 5 unfolding same_quorum_fields_def by (simp add: update_target_priority_def same_quorum_fields_def Let_def)
qed

text \<open>A server that is a full member of \<open>c\<close> and can apply it, with the default quorum sizes.\<close>

definition can_apply :: "cluster_config \<Rightarrow> server \<Rightarrow> bool" where
  "can_apply c s \<longleftrightarrow> peers_ok (sv_id s) (sv_peers s) \<and> distinct (map sc_id (cc_servers c)) \<and> sv_srv_to_leave s = None \<and>
     (\<exists>srv \<in> set (cc_servers c). sc_id srv = sv_id s \<and> \<not> sc_new_joiner srv) \<and>
     p_custom_election_quorum_size (sv_params s) = 0 \<and> p_custom_commit_quorum_size (sv_params s) = 0 \<and>
     \<not> p_exclude_snp_receiver_from_quorum (sv_params s)"

lemma applied_voters:
  assumes "can_apply c s"
  shows "voting_ids (reconfigure env c s) = voters c"
    and "get_quorum_for_election (reconfigure env c s) = int (card (voters c)) div 2"
    and "get_quorum_for_commit (reconfigure env c s) = int (card (voters c)) div 2"
proof -
  let ?t = "reconfigure env c s"
  obtain own where own: "own \<in> set (cc_servers c)" "sc_id own = sv_id s" "\<not> sc_new_joiner own"
    using assms by (auto simp: can_apply_def)
  have d: "distinct (map sc_id (cc_servers c))" using assms by (simp add: can_apply_def)
  have f: "sv_id ?t = sv_id s" "sv_params ?t = sv_params s" "sv_srv_to_leave ?t = None" "sv_im_learner ?t = sc_learner own"
    using reconfigure_quorum_fields [OF d own(1,2), of env] assms by (simp_all add: same_quorum_fields_def can_apply_def)
  have "peers_ok (sv_id s) (sv_peers s)" "sv_role s \<noteq> leader \<or> sv_srv_to_leave s = None"
    using assms by (simp_all add: can_apply_def)
  note rp = reconfigure_peers [OF this(1) d this(2), of env]
  have m: "peers_ok (sv_id s) (sv_peers ?t)"
      "\<And>srv. srv \<in> set (cc_servers c) \<Longrightarrow> sc_id srv \<noteq> sv_id s \<Longrightarrow> \<exists>p. find_peer (sc_id srv) ?t = Some p \<and> pe_config p = srv"
      "\<And>k. find_peer k ?t \<noteq> None \<Longrightarrow> k \<in> sc_id ` set (cc_servers c) - {sv_id s}"
    using rp by blast+
  have unique: "srv = own" if "srv \<in> set (cc_servers c)" "sc_id srv = sv_id s" for srv
    using get_server_distinct [OF d that(1)] get_server_distinct [OF d own(1)] that(2) own(2) by simp
  have id: "pe_id p = k" if "find_peer k ?t = Some p" for k p
    using peers_okD [OF m(1)] that by (simp add: find_peer_def)
  have "distinct (map fst (sv_peers ?t))"
    using m(1) by (simp add: peers_ok_def omap_ok_def strict_sorted_iff)
  then have find: "(k, p) \<in> set (sv_peers ?t) \<longleftrightarrow> find_peer k ?t = Some p" for k p
    by (simp add: find_peer_def om_find_def)
  have snd: "p \<in> snd ` set (sv_peers ?t) \<longleftrightarrow> (\<exists>k. find_peer k ?t = Some p)" for p
    unfolding find [symmetric] by force
  have reg: "p \<in> set (regular_peers ?t) \<longleftrightarrow>
      (\<exists>k. find_peer k ?t = Some p) \<and> \<not> sc_learner (pe_config p) \<and> \<not> sc_new_joiner (pe_config p)" for p
    unfolding regular_peers_def set_filter mem_Collect_eq set_map snd is_regular_member_def f(3) by simp
  have "x \<in> voting_ids ?t \<longleftrightarrow> x \<in> voters c" for x
  proof (cases "x = sv_id s")
    case True
    have "x \<notin> pe_id ` set (regular_peers ?t)"
    proof
      assume "x \<in> pe_id ` set (regular_peers ?t)"
      then obtain k p where "find_peer k ?t = Some p" "pe_id p = sv_id s"
        using reg True by fastforce
      then show False using m(3) [of k] id [of k p] by auto
    qed
    moreover have "x \<in> voters c \<longleftrightarrow> \<not> sc_learner own"
    proof
      assume "x \<in> voters c"
      then obtain srv where "srv \<in> set (cc_servers c)" "x = sc_id srv" "\<not> sc_learner srv"
        by (auto simp: voters_def)
      then show "\<not> sc_learner own" using unique [of srv] True by simp
    qed (use own True in \<open>auto simp: voters_def intro!: image_eqI [of _ sc_id own]\<close>)
    ultimately show ?thesis
      using True f by (auto simp: voting_ids_def)
  next
    case False
    have "x \<in> pe_id ` set (regular_peers ?t) \<longleftrightarrow> x \<in> voters c"
    proof
      assume "x \<in> pe_id ` set (regular_peers ?t)"
      then obtain k p where p: "find_peer k ?t = Some p" "x = pe_id p" "\<not> sc_learner (pe_config p)" "\<not> sc_new_joiner (pe_config p)"
        using reg by fastforce
      then have x: "x = k" using id [of k p] by simp
      obtain srv where srv: "srv \<in> set (cc_servers c)" "sc_id srv = k"
        using m(3) [of k] p(1) by auto
      then have "pe_config p = srv"
        using m(2) [OF srv(1)] p(1) x False by simp
      then show "x \<in> voters c"
        using srv p(3,4) x by (auto simp: voters_def)
    next
      assume "x \<in> voters c"
      then obtain srv where srv: "srv \<in> set (cc_servers c)" "x = sc_id srv" "\<not> sc_learner srv" "\<not> sc_new_joiner srv"
        by (auto simp: voters_def)
      then obtain p where "find_peer x ?t = Some p" "pe_config p = srv"
        using m(2) False by auto
      then show "x \<in> pe_id ` set (regular_peers ?t)"
        using srv reg [of p] id [of x p] by (intro image_eqI [of x pe_id p]) auto
    qed
    then show ?thesis
      using False f by (auto simp: voting_ids_def)
  qed
  then show ids: "voting_ids ?t = voters c" by blast
  then have "get_num_voting_members ?t = int (card (voters c))"
    using voting_ids_card [of ?t] m(1) f(1) by simp
  then show "get_quorum_for_election ?t = int (card (voters c)) div 2"
      and "get_quorum_for_commit ?t = int (card (voters c)) div 2"
    using assms f(2) by (simp_all add: get_quorum_for_election_def get_quorum_for_commit_def can_apply_def Let_def)
qed

definition base_config :: "server \<Rightarrow> cluster_config" where
  "base_config s = (case sv_uncommitted_config s of Some c \<Rightarrow> c | None \<Rightarrow> sv_config s)"

lemma config_voters:
  "voters (grown_config srv s) = (if sc_learner srv \<or> sc_new_joiner srv then {} else {sc_id srv}) \<union> voters (base_config s)"
  "voters (shrunk_config i s) = voters (base_config s) - {i}"
  by (auto simp: voters_def base_config_def grown_config_def shrunk_config_def Let_def)

lemma majorities_meet:
  assumes "finite M" and "N \<subseteq> M" and "card M \<le> card N + 1"
    and "A \<subseteq> N" and "2 * card A > card N" and "B \<subseteq> M" and "2 * card B > card M"
  shows "A \<inter> B \<noteq> {}"
proof
  assume "A \<inter> B = {}"
  then have "card A + card B = card (A \<union> B)"
    using assms(1,2,4,6) by (intro card_Un_disjoint [symmetric]) (auto intro: finite_subset)
  also have "\<dots> \<le> card M"
    using assms(1,2,4,6) by (intro card_mono) auto
  finally show False
    using assms(3,5,7) by linarith
qed



lemma check_srv_to_leave_timeout_fields:
  "sv_log (check_srv_to_leave_timeout env s) = sv_log s"
  "sv_config_changing (check_srv_to_leave_timeout env s) = sv_config_changing s"
  "sv_out (check_srv_to_leave_timeout env s) = sv_out s"
  by (simp_all add: check_srv_to_leave_timeout_def reset_srv_to_leave_def remove_peer_from_peers_def upd_peer_def
      split: option.split)

lemma add_srv_changing:
  assumes "sv_config_changing s"
  shows "(\<forall>r. fst (handle_add_srv_req env req s) = Some r \<longrightarrow> \<not> rs_accepted r) \<and>
    sv_log (snd (handle_add_srv_req env req s)) = sv_log s \<and> sv_out (snd (handle_add_srv_req env req s)) = sv_out s"
proof -
  have decoded: "(\<forall>r. fst (add_decoded env srv resp s) = Some r \<longrightarrow> \<not> rs_accepted r) \<and>
      sv_log (snd (add_decoded env srv resp s)) = sv_log s \<and> sv_out (snd (add_decoded env srv resp s)) = sv_out s"
    if "\<not> rs_accepted resp" for srv resp
    using assms that
    by (simp add: add_decoded_def start_joining_def check_srv_to_leave_timeout_fields Let_def split: option.split)
  have "\<not> rs_accepted (new_resp_msg (sv_term s) add_server_response (sv_id s) (sv_leader s) 0)"
    by (simp add: new_resp_msg_def)
  from decoded [OF this] this show ?thesis
    by (auto simp: handle_add_srv_req_def Let_def split: list.split log_body.split)
qed

lemma rm_srv_changing:
  assumes "sv_config_changing s"
  shows "(\<forall>r. fst (handle_rm_srv_req env req s) = Some r \<longrightarrow> \<not> rs_accepted r) \<and>
    sv_log (snd (handle_rm_srv_req env req s)) = sv_log s \<and> sv_out (snd (handle_rm_srv_req env req s)) = sv_out s"
  using assms
  by (simp add: handle_rm_srv_req_def new_resp_msg_def check_srv_to_leave_timeout_fields Let_def split: list.split)

text \<open>
  C25. Membership changes are serialised: while a configuration is being changed, requests to add or to
  remove a server are not accepted, write nothing to the log and send nothing.
\<close>

theorem one_membership_change_at_a_time:
  assumes "sv_config_changing s"
  shows "(\<forall>r. fst (handle_add_srv_req env req s) = Some r \<longrightarrow> \<not> rs_accepted r) \<and>
    (\<forall>r. fst (handle_rm_srv_req env req s) = Some r \<longrightarrow> \<not> rs_accepted r) \<and>
    sv_log (snd (handle_add_srv_req env req s)) = sv_log s \<and> sv_log (snd (handle_rm_srv_req env req s)) = sv_log s \<and>
    sv_out (snd (handle_add_srv_req env req s)) = sv_out s \<and> sv_out (snd (handle_rm_srv_req env req s)) = sv_out s"
  using add_srv_changing [OF assms] rm_srv_changing [OF assms] by blast

theorem one_membership_change_at_a_time_witness:
  "let s = (sample_server 2 [1, 2, 3])\<lparr>sv_role := leader, sv_config_changing := True\<rparr>;
       req = (new_req_msg 0 remove_server_request 0 0 0 0 0)
               \<lparr>rq_log_entries := [\<lparr>re_term = 0, re_body = Other cluster_server (bytes_le 4 3), re_time = 0\<rparr>]\<rparr>
   in sv_log (snd (handle_rm_srv_req (sample_env 5) req s)) = sv_log s \<and>
      sv_out (snd (handle_rm_srv_req (sample_env 5) req s)) = []"
proof -
  have "sv_out (sample_server 2 [1, 2, 3]) = []"
    by (simp add: sample_server_def new_server_def apply_and_log_current_params_def Let_def)
  then show ?thesis
    using one_membership_change_at_a_time [of "(sample_server 2 [1, 2, 3])\<lparr>sv_role := leader, sv_config_changing := True\<rparr>"
      "sample_env 5" "(new_req_msg 0 remove_server_request 0 0 0 0 0)
        \<lparr>rq_log_entries := [\<lparr>re_term = 0, re_body = Other cluster_server (bytes_le 4 3), re_time = 0\<rparr>]\<rparr>"]
    by (simp add: Let_def)
qed

subsection \<open>Joining\<close>

text \<open>
  C30. Two servers on their own that have invited each other: whatever the configurations they send, of
  the two invitations exactly one is accepted, that of the server with the lower id.
\<close>

theorem mutual_invitations:
  assumes "sv_id s \<noteq> sv_id t"
    and "length (cc_servers (sv_config s)) \<le> 1" and "length (cc_servers (sv_config t)) \<le> 1"
    and "sv_srv_to_join s \<noteq> None" and "sv_srv_to_join t \<noteq> None"
    and "rq_src req_to_s = sv_id t" and "rq_src req_to_t = sv_id s"
    and "map re_body (rq_log_entries req_to_s) = [Conf c]" and "map re_body (rq_log_entries req_to_t) = [Conf c']"
  shows "(rs_accepted (fst (handle_join_cluster_req env req_to_s s)) \<longleftrightarrow> sv_id t < sv_id s) \<and>
    (rs_accepted (fst (handle_join_cluster_req env' req_to_t t)) \<longleftrightarrow> sv_id s < sv_id t)"
  using assms
  by (auto simp: handle_join_cluster_req_def new_resp_msg_def resp_accept_def Let_def)

theorem mutual_invitations_witness:
  "let inviting = (\<lambda>i j. (sample_server i [i])\<lparr>sv_srv_to_join :=
         Some (new_peer 0 1 default_raft_params (new_srv_config j 0 [] [] False 1))\<rparr>);
       req = (\<lambda>i. (new_req_msg 1 join_cluster_request i 0 0 0 0)
         \<lparr>rq_log_entries := [\<lparr>re_term = 1, re_body = Conf (sample_config [i]), re_time = 0\<rparr>]\<rparr>)
   in \<not> rs_accepted (fst (handle_join_cluster_req (sample_env 5) (req 2) (inviting 1 2))) \<and>
      rs_accepted (fst (handle_join_cluster_req (sample_env 5) (req 1) (inviting 2 1)))"
proof -
  let ?inv = "\<lambda>i j. (sample_server i [i])\<lparr>sv_srv_to_join :=
         Some (new_peer 0 1 default_raft_params (new_srv_config j 0 [] [] False 1))\<rparr>"
  let ?req = "\<lambda>i. (new_req_msg 1 join_cluster_request i 0 0 0 0)
         \<lparr>rq_log_entries := [\<lparr>re_term = 1, re_body = Conf (sample_config [i]), re_time = 0\<rparr>]\<rparr>"
  have f: "sv_id (?inv i j) = i" "sv_config (?inv i j) = sample_config [i]" "sv_srv_to_join (?inv i j) \<noteq> None" for i j
    by (simp_all add: sample_server_def new_server_def apply_and_log_current_params_def Let_def)
  have one: "length (cc_servers (sample_config [i])) \<le> 1" for i
    by (simp add: sample_config_def)
  have r: "rq_src (?req i) = i" "map re_body (rq_log_entries (?req i)) = [Conf (sample_config [i])]" for i
    by (simp_all add: new_req_msg_def)
  show ?thesis
    using mutual_invitations [of "?inv 1 2" "?inv 2 1" "?req 2" "?req 1" "sample_config [2]" "sample_config [1]"
      "sample_env 5" "sample_env 5"] f one r
    by (simp add: Let_def)
qed

text \<open>
  With background snapshot transfer switched on, the log of a joining server is never copied: when
  the entries it needs are in the log, \<^verbatim>\<open>sync_log_to_new_srv\<close> builds the request and then only wakes the
  snapshot thread, which has nothing queued for it. No request leaves the server and no state records
  that one is owed.
\<close>

lemma background_log_sync_sends_nothing:
  assumes "sv_srv_to_join s = Some p" and "sv_conf_to_add s = Some srv" and "\<not> sync_is_done n s"
    and "rl_start (sv_log s) \<le> n" and "p_use_bg_thread_for_snapshot_io (sv_params s)"
  shows "sync_log_to_new_srv env n s = emit Invoke_Snapshot_Io s"
  using assms by (simp add: sync_log_to_new_srv_def send_sync_def)

end
