(* ===== verification/Raft_Wire.thy ===== *)
theory Raft_Wire
  imports Raft_Msg_Codec "HOL-Library.Sublist"
begin

text \<open>
  The messages on the wire (\<^verbatim>\<open>xio_service.cc\<close>): what a client writes for a request, what a session
  makes of the bytes it receives, and the same for responses. A message travels with its log entries
  or its context as bytes, so a request here is a \<open>req_msg\<close> with the records of its log entries and
  a response is a \<open>resp_msg\<close> with the buffer of its context; the entries and the contexts inside the
  two records stay empty.
\<close>

unbundle bit_operations_syntax

subsection \<open>Sizes, flags and options\<close>

definition RPC_REQ_HEADER_SIZE :: nat where "RPC_REQ_HEADER_SIZE = 4 * 3 + 8 * 5 + 1 * 2"
definition RPC_RESP_HEADER_SIZE :: nat where "RPC_RESP_HEADER_SIZE = 4 * 3 + 8 * 3 + 1 * 3"
definition DATA_SIZE_LEN :: nat where "DATA_SIZE_LEN = 4"
definition CRC_FLAGS_LEN :: nat where "CRC_FLAGS_LEN = 8"

definition INCLUDE_META :: u32 where "INCLUDE_META = 0x1"
definition INCLUDE_HINT :: u32 where "INCLUDE_HINT = 0x2"
definition INCLUDE_LOG_TIMESTAMP :: u32 where "INCLUDE_LOG_TIMESTAMP = 0x4"
definition CRC_ON_ENTIRE_MESSAGE :: u32 where "CRC_ON_ENTIRE_MESSAGE = 0x8"
definition CRC_ON_PAYLOAD :: u32 where "CRC_ON_PAYLOAD = 0x10"
definition INCLUDE_RESULT_CODE :: u32 where "INCLUDE_RESULT_CODE = 0x20"
definition MARK_DOWN :: u32 where "MARK_DOWN = 0x40"

definition has_flag :: "u32 \<Rightarrow> u32 \<Rightarrow> bool" where
  "has_flag flags f \<longleftrightarrow> flags AND f \<noteq> 0"

definition add_flag :: "bool \<Rightarrow> u32 \<Rightarrow> u32 \<Rightarrow> u32" where
  "add_flag b f flags = (if b then flags OR f else flags)"

type_synonym wire_req = "req_msg \<times> log_entry list"
type_synonym wire_resp = "resp_msg \<times> block option"

text \<open>The options of the service that its messages depend on; the callbacks are the user's.\<close>

record rpc_options =
  ro_write_req_meta :: "(wire_req \<Rightarrow> u8 list) option"
  ro_read_req_meta :: "(wire_req \<Rightarrow> u8 list \<Rightarrow> bool) option"
  ro_invoke_req_cb_on_empty_meta :: bool
  ro_write_resp_meta :: "(wire_req \<Rightarrow> wire_resp \<Rightarrow> u8 list) option"
  ro_read_resp_meta :: "(wire_req \<Rightarrow> resp_msg \<Rightarrow> u8 list \<Rightarrow> bool) option"
  ro_invoke_resp_cb_on_empty_meta :: bool
  ro_replicate_log_timestamp :: bool
  ro_crc_on_entire_message :: bool
  ro_crc_on_payload :: bool
  ro_streaming_mode :: bool

text \<open>The last field of a header: the flags in its upper half, the checksum in its lower half.\<close>

definition flags_and_crc :: "u32 \<Rightarrow> u32 \<Rightarrow> nat" where
  "flags_and_crc flags crc = unat (push_bit 32 (ucast flags :: u64) OR ucast crc)"

definition crc_part :: "nat \<Rightarrow> u32" where
  "crc_part x = ucast ((word_of_nat x :: u64) AND 0xffffffff)"

definition flags_part :: "nat \<Rightarrow> u32" where
  "flags_part x = ucast (drop_bit 32 (word_of_nat x :: u64))"

text \<open>Message types as bytes. A byte outside the enumeration is one \<^verbatim>\<open>is_valid_msg\<close> refuses.\<close>

definition msg_types :: "msg_type list" where
  "msg_types =
     [request_vote_request, request_vote_response, append_entries_request, append_entries_response,
      client_request, add_server_request, add_server_response, remove_server_request,
      remove_server_response, sync_log_request, sync_log_response, join_cluster_request,
      join_cluster_response, leave_cluster_request, leave_cluster_response,
      install_snapshot_request, install_snapshot_response, ping_request, ping_response,
      pre_vote_request, pre_vote_response, other_request, other_response,
      priority_change_request, priority_change_response, reconnect_request, reconnect_response,
      custom_notification_request, custom_notification_response]"

definition msg_byte :: "msg_type \<Rightarrow> u8" where
  "msg_byte t = word_of_int (msg_code t)"

definition msg_of_byte :: "u8 \<Rightarrow> msg_type option" where
  "msg_of_byte b = find (\<lambda>t. msg_byte t = b) msg_types"

fun result_int :: "cmd_result_code \<Rightarrow> int" where
  "result_int Result_OK = 0"
| "result_int Result_CANCELLED = -1"
| "result_int Result_TIMEOUT = -2"
| "result_int Result_NOT_LEADER = -3"
| "result_int Result_BAD_REQUEST = -4"
| "result_int Result_SERVER_ALREADY_EXISTS = -5"
| "result_int Result_CONFIG_CHANGING = -6"
| "result_int Result_SERVER_IS_JOINING = -7"
| "result_int Result_SERVER_NOT_FOUND = -8"
| "result_int Result_CANNOT_REMOVE_LEADER = -9"
| "result_int Result_SERVER_IS_LEAVING = -10"
| "result_int Result_TERM_MISMATCH = -11"
| "result_int Result_RESULT_NOT_EXIST_YET = -10000"
| "result_int Result_FAILED = -32768"

subsection \<open>Writing a request\<close>

definition LOG_ENTRY_SIZE :: "bool \<Rightarrow> bool \<Rightarrow> nat" where
  "LOG_ENTRY_SIZE timestamp crc = 8 + 1 + 4 + (if timestamp then 8 else 0) + (if crc then 5 else 0)"

definition put_if :: "bool \<Rightarrow> (serializer, unit) cmd \<Rightarrow> (serializer, unit) cmd" where
  "put_if b c = (if b then c else ret ())"

definition entry_puts :: "rpc_options \<Rightarrow> log_entry \<Rightarrow> block \<Rightarrow> (serializer, unit) cmd" where
  "entry_puts opts le buf =
     thn (put_u64 (le_term le)) (thn (put_u8 (le_type le))
     (thn (put_if (ro_replicate_log_timestamp opts) (put_u64 (le_timestamp_us le)))
     (thn (put_if (ro_crc_on_payload opts)
             (thn (put_u8 (if le_has_crc32 le then 1 else 0)) (put_u32 (le_crc32 le))))
     (thn (put_i32 (int (buf_size buf))) (bs_put_raw (payload buf))))))"

definition entry_buf :: "(nat \<Rightarrow> u8) \<Rightarrow> rpc_options \<Rightarrow> log_entry \<Rightarrow> cpp_error + block" where
  "entry_buf uninit opts le =
     bndE (get_buf le) (\<lambda>buf.
       alloc_puts uninit (LOG_ENTRY_SIZE (ro_replicate_log_timestamp opts) (ro_crc_on_payload opts) + buf_size buf)
         (entry_puts opts le buf))"

definition req_meta :: "rpc_options \<Rightarrow> wire_req \<Rightarrow> u8 list" where
  "req_meta opts req = (case ro_write_req_meta opts of None \<Rightarrow> [] | Some f \<Rightarrow> f req)"

definition meta_size :: "u8 list \<Rightarrow> nat" where
  "meta_size meta = (if meta = [] then 0 else 4 + length meta)"

definition req_flags :: "rpc_options \<Rightarrow> u8 list \<Rightarrow> req_msg \<Rightarrow> u32" where
  "req_flags opts meta req =
     add_flag (meta \<noteq> []) INCLUDE_META
     (add_flag (rq_excluded_from_the_quorum req) MARK_DOWN
     (add_flag (ro_crc_on_payload opts) CRC_ON_PAYLOAD
     (add_flag (ro_replicate_log_timestamp opts) INCLUDE_LOG_TIMESTAMP 0)))"

definition log_data_size :: "block list \<Rightarrow> int" where
  "log_data_size bufs = fold (\<lambda>b n. to_i32 (n + int (buf_size b))) bufs 0"

definition req_header_puts :: "req_msg \<Rightarrow> int \<Rightarrow> (serializer, unit) cmd" where
  "req_header_puts req data_size =
     thn (put_u8 0x0) (thn (put_u8 (msg_byte (rq_type req)))
     (thn (put_i32 (rq_src req)) (thn (put_i32 (rq_dst req))
     (thn (put_u64 (rq_term req)) (thn (put_u64 (rq_last_log_term req))
     (thn (put_u64 (rq_last_log_idx req)) (thn (put_u64 (rq_commit_idx req))
        (put_i32 data_size))))))))"

text \<open>
  The checksum of the header goes in before the payload is there; a checksum of the entire message
  replaces it at the end.
\<close>

definition seal_message :: "bool \<Rightarrow> u32 \<Rightarrow> u32 \<Rightarrow> nat \<Rightarrow> nat \<Rightarrow> nat \<Rightarrow> (serializer, unit) cmd" where
  "seal_message entire flags crc_header crc_pos payload_pos len s =
     (if entire
      then let crc_payload = crc32_8 (take len (drop payload_pos (payload (bs_buf s)))) crc_header
           in thn (bs_set_pos crc_pos) (put_u64 (flags_and_crc (flags OR CRC_ON_ENTIRE_MESSAGE) crc_payload)) s
      else ret () s)"

definition req_puts :: "rpc_options \<Rightarrow> u8 list \<Rightarrow> block list \<Rightarrow> req_msg \<Rightarrow> (serializer, unit) cmd" where
  "req_puts opts meta bufs req =
     (let flags = req_flags opts meta req; data_size = to_i32 (int (meta_size meta) + log_data_size bufs)
      in thn (req_header_puts req data_size) (\<lambda>s.
        let crc_header = crc32_8 (take (RPC_REQ_HEADER_SIZE - CRC_FLAGS_LEN) (payload (bs_buf s))) 0;
            crc_pos = bs_pos s
        in thn (put_u64 (flags_and_crc flags crc_header)) (\<lambda>s.
          let payload_pos = bs_pos s
          in thn (put_if (has_flag flags INCLUDE_META) (bs_put_bytes meta))
               (thn (for_each bufs put_buffer)
                  (seal_message (ro_crc_on_entire_message opts) flags crc_header crc_pos payload_pos
                     (nat (int (meta_size meta) + log_data_size bufs)))) s) s))"

definition request_buf :: "(nat \<Rightarrow> u8) \<Rightarrow> rpc_options \<Rightarrow> wire_req \<Rightarrow> cpp_error + block" where
  "request_buf uninit opts req =
     bndE (mapE (entry_buf uninit opts) (snd req)) (\<lambda>bufs.
       let meta = req_meta opts req
       in alloc_puts uninit
            (nat ((int (RPC_REQ_HEADER_SIZE + meta_size meta) + log_data_size bufs) mod 2 ^ 64))
            (req_puts opts meta bufs (fst req)))"

subsection \<open>Reading a request\<close>

text \<open>
  A session of the listener: the flags and checksums of the message at hand, the server at the other
  end and whether it was the leader when last seen.
\<close>

record rpc_session =
  se_flags :: u32
  se_crc_header :: u32
  se_crc_from_msg :: u32
  se_src_id :: int
  se_is_leader :: bool

definition new_rpc_session :: rpc_session where
  "new_rpc_session =
     \<lparr>se_flags = 0, se_crc_header = 0, se_crc_from_msg = 0, se_src_id = -1, se_is_leader = False\<rparr>"

text \<open>
  What a session does next: it stops, having reported the message as corrupted or not; it waits for
  the data of a message; it takes the message as complete; it hands a request to the server. An
  exception outside a \<^verbatim>\<open>try\<close> block leaves the handler.
\<close>

datatype session_next = Stopped bool | Read_Data nat | Read_Complete | Deliver wire_req | Thrown cpp_error

datatype session_cb = Connection_Opened int bool | New_Session_From_Leader int

text \<open>The fields of the header are all read first: reading the whole header has no effects.\<close>

definition header_fields :: "block \<Rightarrow> cpp_error + (nat \<times> u8 \<times> u8 \<times> int)" where
  "header_fields header =
     fst (bnd (thn (bs_set_pos (RPC_REQ_HEADER_SIZE - CRC_FLAGS_LEN)) get_u64) (\<lambda>fc.
          bnd (thn (bs_set_pos 0) get_u8) (\<lambda>marker. bnd get_u8 (\<lambda>ty.
          bnd (thn (bs_set_pos (RPC_REQ_HEADER_SIZE - CRC_FLAGS_LEN - DATA_SIZE_LEN)) get_i32) (\<lambda>data_size.
            ret (fc, marker, ty, data_size))))) (new_serializer LITTLE header))"

definition on_header :: "block \<Rightarrow> rpc_session \<Rightarrow> session_next \<times> rpc_session" where
  "on_header header se =
     (case header_fields header of
        Inl e \<Rightarrow> (Thrown e, se)
      | Inr (fc, marker, ty, data_size) \<Rightarrow>
          let se = se\<lparr>se_crc_header := crc32_8 (take (RPC_REQ_HEADER_SIZE - CRC_FLAGS_LEN) (payload header)) 0,
                      se_crc_from_msg := crc_part fc, se_flags := flags_part fc\<rparr>
          in if \<not> has_flag (se_flags se) CRC_ON_ENTIRE_MESSAGE \<and> se_crc_header se \<noteq> se_crc_from_msg se
             then (Stopped True, se)
             else if marker \<noteq> 0 then (Stopped True, se)
             else if msg_of_byte ty = None then (Stopped True, se)
             else if data_size < 0 \<or> data_size > 0x40000000 then (Stopped True, se)
             else if data_size = 0 then (Read_Complete, se)
             else (Read_Data (nat data_size), se))"

definition get_if :: "bool \<Rightarrow> (serializer, 'a) cmd \<Rightarrow> 'a \<Rightarrow> (serializer, 'a) cmd" where
  "get_if b c x = (if b then c else ret x)"

text \<open>One log entry; no entry is a size beyond the data or a checksum that does not fit.\<close>

definition read_entry :: "(nat \<Rightarrow> u8) \<Rightarrow> u32 \<Rightarrow> (serializer, log_entry option) cmd" where
  "read_entry uninit flags =
     bnd get_u64 (\<lambda>term. bnd get_u8 (\<lambda>val_type.
     bnd (get_if (has_flag flags INCLUDE_LOG_TIMESTAMP) get_u64 0) (\<lambda>timestamp.
     bnd (get_if (has_flag flags CRC_ON_PAYLOAD) (bnd get_u8 (\<lambda>b. ret (b \<noteq> 0))) False) (\<lambda>has_crc32.
     bnd (get_if (has_flag flags CRC_ON_PAYLOAD) get_u32 0) (\<lambda>crc32.
     bnd get_i32 (\<lambda>n s.
       let val_size = nat (n mod 2 ^ 64)
       in if bs_size s - bs_pos s < val_size then ret None s
          else bnd (bnd (lift (buf_alloc uninit val_size)) get_buffer) (\<lambda>buf.
            if has_flag flags CRC_ON_PAYLOAD \<and> has_crc32 \<and> crc32_8 (payload buf) 0 \<noteq> crc32 then ret None
            else ret (Some (new_log_entry term (Some buf) val_type timestamp has_crc32 crc32 False))) s))))))"

datatype entries_result = Entries "log_entry list" | Bad_Entries | Entries_Thrown cpp_error | Out_Of_Fuel

fun read_entries :: "nat \<Rightarrow> (nat \<Rightarrow> u8) \<Rightarrow> u32 \<Rightarrow> log_entry list \<Rightarrow> serializer \<Rightarrow> entries_result" where
  "read_entries fuel uninit flags acc s =
     (if \<not> bs_size s > bs_pos s then Entries acc
      else if bs_size s - bs_pos s <
                LOG_ENTRY_SIZE (has_flag flags INCLUDE_LOG_TIMESTAMP) (has_flag flags CRC_ON_PAYLOAD)
      then Bad_Entries
      else case fuel of
             0 \<Rightarrow> Out_Of_Fuel
           | Suc n \<Rightarrow>
               (case read_entry uninit flags s of
                  (Inl e, s) \<Rightarrow> Entries_Thrown e
                | (Inr None, s) \<Rightarrow> Bad_Entries
                | (Inr (Some e), s) \<Rightarrow> read_entries n uninit flags (acc @ [e]) s))"

declare read_entries.simps [simp del]

text \<open>The data of a request: the meta string and the log entries.\<close>

definition read_data :: "(nat \<Rightarrow> u8) \<Rightarrow> u32 \<Rightarrow> block \<Rightarrow> u8 list \<times> entries_result" where
  "read_data uninit flags log_ctx =
     (case get_if (has_flag flags INCLUDE_META) bs_get_bytes [] (new_serializer LITTLE log_ctx) of
        (Inl e, _) \<Rightarrow> ([], Entries_Thrown e)
      | (Inr meta, s) \<Rightarrow> (meta, read_entries (buf_size log_ctx) uninit flags [] s))"

definition header_request :: "block \<Rightarrow> cpp_error + (u8 \<times> req_msg \<times> int)" where
  "header_request header =
     fst (bnd (thn (bs_set_pos 1) get_u8) (\<lambda>t. bnd get_i32 (\<lambda>src. bnd get_i32 (\<lambda>dst.
          bnd get_u64 (\<lambda>term. bnd get_u64 (\<lambda>last_term. bnd get_u64 (\<lambda>last_idx. bnd get_u64 (\<lambda>commit_idx.
          bnd get_i32 (\<lambda>log_data_size.
            ret (t, new_req_msg term (case msg_of_byte t of Some ty \<Rightarrow> ty | None \<Rightarrow> ping_request)
                      src dst last_term last_idx commit_idx, log_data_size)))))))))
       (new_serializer LITTLE header))"

definition from_leader :: "msg_type \<Rightarrow> bool" where
  "from_leader t \<longleftrightarrow>
     t = append_entries_request \<or> t = sync_log_request \<or> t = join_cluster_request \<or> t = leave_cluster_request \<or>
     t = install_snapshot_request \<or> t = priority_change_request \<or> t = custom_notification_request"

text \<open>Who is at the other end, given the leader the server knows; with the callbacks it makes.\<close>

definition note_source :: "int \<Rightarrow> req_msg \<Rightarrow> rpc_session \<Rightarrow> session_cb list \<times> rpc_session" where
  "note_source known_leader req se =
     (let lost = se_is_leader se \<and> (if se_src_id se = -1 then rq_src req else se_src_id se) \<noteq> known_leader;
          opened = (if se_src_id se = -1 then [Connection_Opened (rq_src req) (se_is_leader se \<and> \<not> lost)] else []);
          se = se\<lparr>se_src_id := (if se_src_id se = -1 then rq_src req else se_src_id se),
                  se_is_leader := se_is_leader se \<and> \<not> lost\<rparr>
      in if \<not> se_is_leader se \<and> from_leader (rq_type req)
         then (opened @ [New_Session_From_Leader (se_src_id se)], se\<lparr>se_is_leader := True\<rparr>)
         else (opened, se))"

definition meta_refused :: "rpc_options \<Rightarrow> wire_req \<Rightarrow> u8 list \<Rightarrow> bool" where
  "meta_refused opts req meta \<longleftrightarrow>
     (case ro_read_req_meta opts of
        None \<Rightarrow> False
      | Some f \<Rightarrow> (meta \<noteq> [] \<or> ro_invoke_req_cb_on_empty_meta opts) \<and> \<not> f req meta)"

text \<open>
  Everything here is inside a \<^verbatim>\<open>try\<close> block: an exception stops the session. An access outside a
  block is no exception.
\<close>

definition caught :: "cpp_error \<Rightarrow> session_next" where
  "caught e = (if e = Bad_Access then Thrown e else Stopped False)"

definition read_complete ::
    "(nat \<Rightarrow> u8) \<Rightarrow> rpc_options \<Rightarrow> int \<Rightarrow> block \<Rightarrow> block option \<Rightarrow> rpc_session
       \<Rightarrow> session_next \<times> session_cb list \<times> rpc_session" where
  "read_complete uninit opts known_leader header log_ctx se =
     (case header_request header of
        Inl e \<Rightarrow> (caught e, [], se)
      | Inr (t, req, data_size) \<Rightarrow>
          if has_flag (se_flags se) CRC_ON_ENTIRE_MESSAGE \<and>
             (case log_ctx of Some b \<Rightarrow> crc32_8 (payload b) (se_crc_header se) | None \<Rightarrow> se_crc_header se)
               \<noteq> se_crc_from_msg se
          then (Stopped True, [], se)
          else
            let (cbs, se) = note_source known_leader req se;
                req = req\<lparr>rq_excluded_from_the_quorum := has_flag (se_flags se) MARK_DOWN\<rparr>;
                (meta, es) = (case log_ctx of
                    Some b \<Rightarrow> if data_size > 0 then read_data uninit (se_flags se) b else ([], Entries [])
                  | None \<Rightarrow> ([], Entries []))
            in case es of
                 Entries les \<Rightarrow>
                   if meta_refused opts (req, les) meta then (Stopped False, cbs, se)
                   else (Deliver (req, les), cbs, se)
               | Bad_Entries \<Rightarrow> (Stopped True, cbs, se)
               | Entries_Thrown e \<Rightarrow> (caught e, cbs, se)
               | Out_Of_Fuel \<Rightarrow> (Thrown Length_Error, cbs, se))"

text \<open>
  One message from the bytes that arrive: the header, then as much data as it announces. With fewer
  bytes the read fails and the session stops.
\<close>

definition receive ::
    "(nat \<Rightarrow> u8) \<Rightarrow> rpc_options \<Rightarrow> int \<Rightarrow> u8 list \<Rightarrow> rpc_session
       \<Rightarrow> session_next \<times> session_cb list \<times> rpc_session \<times> u8 list" where
  "receive uninit opts known_leader bytes se =
     (if length bytes < RPC_REQ_HEADER_SIZE then (Stopped False, [], se, [])
      else
        let header = blk 0 (take RPC_REQ_HEADER_SIZE bytes); rest = drop RPC_REQ_HEADER_SIZE bytes
        in case on_header header se of
             (Read_Complete, se) \<Rightarrow>
               let (next, cbs, se) = read_complete uninit opts known_leader header None se in (next, cbs, se, rest)
           | (Read_Data n, se) \<Rightarrow>
               if length rest < n then (Stopped False, [], se, [])
               else let (next, cbs, se) = read_complete uninit opts known_leader header (Some (blk 0 (take n rest))) se
                    in (next, cbs, se, drop n rest)
           | (next, se) \<Rightarrow> (next, [], se, rest))"

subsection \<open>Flags and codes\<close>

lemma flags_and_crc_parts [simp]:
  "crc_part (flags_and_crc flags crc) = crc" "flags_part (flags_and_crc flags crc) = flags"
  "flags_and_crc flags crc < 2 ^ 64"
proof -
  let ?x = "push_bit 32 (ucast flags :: u64) OR ucast crc"
  have x: "(word_of_nat (unat ?x) :: u64) = ?x" by simp
  have m: "(0xffffffff :: u64) = mask 32" by (simp add: mask_eq_exp_minus_1)
  show "crc_part (flags_and_crc flags crc) = crc"
    unfolding crc_part_def flags_and_crc_def x m by (rule bit_word_eqI) (auto simp: bit_simps)
  show "flags_part (flags_and_crc flags crc) = flags"
    unfolding flags_part_def flags_and_crc_def x by (rule bit_word_eqI) (auto simp: bit_simps dest: bit_imp_le_length)
  show "flags_and_crc flags crc < 2 ^ 64"
    unfolding flags_and_crc_def using unsigned_less [of ?x] by simp
qed

lemmas flag_defs = INCLUDE_META_def INCLUDE_HINT_def INCLUDE_LOG_TIMESTAMP_def CRC_ON_ENTIRE_MESSAGE_def
  CRC_ON_PAYLOAD_def INCLUDE_RESULT_CODE_def MARK_DOWN_def

lemma req_flags_bits [simp]:
  "has_flag (req_flags opts meta req) INCLUDE_META \<longleftrightarrow> meta \<noteq> []"
  "has_flag (req_flags opts meta req) MARK_DOWN \<longleftrightarrow> rq_excluded_from_the_quorum req"
  "has_flag (req_flags opts meta req) CRC_ON_PAYLOAD \<longleftrightarrow> ro_crc_on_payload opts"
  "has_flag (req_flags opts meta req) INCLUDE_LOG_TIMESTAMP \<longleftrightarrow> ro_replicate_log_timestamp opts"
  "\<not> has_flag (req_flags opts meta req) CRC_ON_ENTIRE_MESSAGE"
  by (simp_all add: req_flags_def add_flag_def has_flag_def flag_defs)

lemma entire_flag_bits [simp]:
  "has_flag (flags OR CRC_ON_ENTIRE_MESSAGE) INCLUDE_META = has_flag flags INCLUDE_META"
  "has_flag (flags OR CRC_ON_ENTIRE_MESSAGE) MARK_DOWN = has_flag flags MARK_DOWN"
  "has_flag (flags OR CRC_ON_ENTIRE_MESSAGE) CRC_ON_PAYLOAD = has_flag flags CRC_ON_PAYLOAD"
  "has_flag (flags OR CRC_ON_ENTIRE_MESSAGE) INCLUDE_LOG_TIMESTAMP = has_flag flags INCLUDE_LOG_TIMESTAMP"
  "has_flag (flags OR CRC_ON_ENTIRE_MESSAGE) CRC_ON_ENTIRE_MESSAGE"
  by (simp_all add: has_flag_def flag_defs bit.conj_disj_distrib2)

lemma msg_of_byte_msg_byte [simp]: "msg_of_byte (msg_byte t) = Some t"
  by (cases t) (simp_all add: msg_of_byte_def msg_types_def msg_byte_def)

lemma result_int_inj: "result_int a = result_int b \<Longrightarrow> a = b"
  by (cases a; cases b) simp_all

subsection \<open>The bytes of a request\<close>

definition entry_data :: "log_entry \<Rightarrow> u8 list" where
  "entry_data e = (case le_buff e of Some m \<Rightarrow> payload m | None \<Rightarrow> [])"

definition entry_ok :: "log_entry \<Rightarrow> bool" where
  "entry_ok e \<longleftrightarrow> (\<exists>q. le_buff e = Some (blk q (entry_data e)) \<and> q \<le> length (entry_data e)) \<and>
     length (entry_data e) < 2 ^ 30 \<and> le_term e < 2 ^ 64 \<and> le_timestamp_us e < 2 ^ 64 \<and>
     (le_has_crc32 e \<longrightarrow> le_crc32 e = crc32_8 (entry_data e) 0)"

definition enc_entry :: "rpc_options \<Rightarrow> log_entry \<Rightarrow> u8 list" where
  "enc_entry opts e =
     bytes_le 8 (int (le_term e)) @ [le_type e]
     @ (if ro_replicate_log_timestamp opts then bytes_le 8 (int (le_timestamp_us e)) else [])
     @ (if ro_crc_on_payload opts then [if le_has_crc32 e then 1 else 0] @ bytes_le 4 (uint (le_crc32 e)) else [])
     @ bytes_le 4 (int (length (entry_data e))) @ entry_data e"

lemma length_enc_entry:
  "length (enc_entry opts e) =
     LOG_ENTRY_SIZE (ro_replicate_log_timestamp opts) (ro_crc_on_payload opts) + length (entry_data e)"
  by (simp add: enc_entry_def LOG_ENTRY_SIZE_def)

lemma emits_put_if: "(b \<Longrightarrow> emits mk c bs) \<Longrightarrow> emits mk (put_if b c) (if b then bs else [])"
  using emits_ret [of mk] by (simp add: put_if_def del: ret_simp)

lemma emits_u32_le: "emits (srl LITTLE q) (put_u32 w) (bytes_le 4 (uint w))"
  using emits_put_ints(3) [of LITTLE q w] by simp

lemma emits_bs_bytes_le:
  "length raw < 2 ^ 31 \<Longrightarrow> emits (srl LITTLE q) (bs_put_bytes raw) (bytes_le 4 (int (length raw)) @ raw)"
  using emits_bs_put_bytes [of raw LITTLE q] by simp

lemma emits_put_buffer:
  assumes "length d < 2 ^ 31"
  shows "emits (srl e q) (put_buffer (blk 0 d)) d"
proof -
  have "fst (rd (data_of_block (blk 0 d)) (sub64 (buf_size (blk 0 d)) (buf_pos (blk 0 d))) (blk 0 d)) = Inr d"
    using assms by (simp add: buf_simps peek_def)
  then have "put_buffer (blk 0 d) = bnd (lift (Inr d)) bs_put_raw" by (simp add: put_buffer_def)
  also have "\<dots> = bs_put_raw d" by (rule ext) (simp add: bnd_def lift_def)
  finally show ?thesis using emits_bs_put_raw [OF assms] by simp
qed

lemma entry_buf_blk:
  assumes "entry_ok e"
  shows "entry_buf u opts e = Inr (blk 0 (enc_entry opts e))"
proof -
  obtain q where q: "le_buff e = Some (blk q (entry_data e))" "q \<le> length (entry_data e)"
    and len: "length (entry_data e) < 2 ^ 30"
    using assms unfolding entry_ok_def by blast
  let ?b = "blk q (entry_data e)"
  have sz: "buf_size ?b = length (entry_data e)" "payload ?b = entry_data e"
    using q(2) len by (simp_all add: buf_simps)
  have "emits (srl LITTLE 0) (entry_puts opts e ?b) (enc_entry opts e)"
    unfolding entry_puts_def enc_entry_def sz using len
    by (intro emits_thn emits_put_if emits_u64_le emits_put_ints(1) emits_u32_le emits_i32_le emits_bs_put_raw) simp_all
  from alloc_puts_emits [OF this, where u = u] show ?thesis
    using q(1) len sz by (simp add: entry_buf_def get_buf_def length_enc_entry LOG_ENTRY_SIZE_def)
qed

definition enc_meta :: "u8 list \<Rightarrow> u8 list" where
  "enc_meta meta = (if meta = [] then [] else bytes_le 4 (int (length meta)) @ meta)"

definition enc_data :: "rpc_options \<Rightarrow> wire_req \<Rightarrow> u8 list" where
  "enc_data opts req = enc_meta (req_meta opts req) @ concat (map (enc_entry opts) (snd req))"

definition enc_head :: "req_msg \<Rightarrow> int \<Rightarrow> u8 list" where
  "enc_head req data_size =
     [0] @ [msg_byte (rq_type req)] @ bytes_le 4 (rq_src req) @ bytes_le 4 (rq_dst req) @ bytes_le 8 (int (rq_term req))
     @ bytes_le 8 (int (rq_last_log_term req)) @ bytes_le 8 (int (rq_last_log_idx req))
     @ bytes_le 8 (int (rq_commit_idx req)) @ bytes_le 4 data_size"

text \<open>The flags and the checksum a request ends up with.\<close>

definition sealed_flags :: "rpc_options \<Rightarrow> wire_req \<Rightarrow> u32" where
  "sealed_flags opts req =
     add_flag (ro_crc_on_entire_message opts) CRC_ON_ENTIRE_MESSAGE (req_flags opts (req_meta opts req) (fst req))"

definition sealed_crc :: "rpc_options \<Rightarrow> wire_req \<Rightarrow> u32" where
  "sealed_crc opts req =
     (let crc_header = crc32_8 (enc_head (fst req) (int (length (enc_data opts req)))) 0
      in if ro_crc_on_entire_message opts then crc32_8 (enc_data opts req) crc_header else crc_header)"

definition enc_req :: "rpc_options \<Rightarrow> wire_req \<Rightarrow> u8 list" where
  "enc_req opts req =
     enc_head (fst req) (int (length (enc_data opts req)))
     @ bytes_le 8 (int (flags_and_crc (sealed_flags opts req) (sealed_crc opts req))) @ enc_data opts req"

lemma length_enc_head [simp]: "length (enc_head req n) = 46"
  by (simp add: enc_head_def)

lemma meta_size_enc: "meta_size meta = length (enc_meta meta)"
  by (simp add: meta_size_def enc_meta_def)

lemma log_data_size_enc:
  assumes "length (concat ds) < 2 ^ 31"
  shows "log_data_size (map (blk 0) ds) = int (length (concat ds))"
proof -
  have "fold (\<lambda>b n. to_i32 (n + int (buf_size b))) (map (blk 0) ds) (int m) = int (m + length (concat ds))"
    if "m + length (concat ds) < 2 ^ 31" for m
    using that
  proof (induction ds arbitrary: m)
    case (Cons d ds)
    then have "to_i32 (int m + int (buf_size (blk 0 d))) = int (m + length d)"
      by (simp add: to_i32_def buf_simps)
    then show ?case using Cons.IH [of "m + length d"] Cons.prems by simp
  qed simp
  from this [of 0] assms show ?thesis by (simp add: log_data_size_def)
qed

lemma emits_over:
  assumes "emits mk c bs" and "length old = length bs" and "length (w @ old @ r) < 2 ^ 31"
  shows "c (mk (length w) (w @ old @ r)) = (Inr (), mk (length w + length bs) (w @ bs @ r))"
proof -
  have "c (mk (length w) (w @ (old @ r))) = (Inr (), mk (length (w @ bs)) (w @ bs @ drop (length bs) (old @ r)))"
    using assms unfolding emits_def by (metis le_add1 length_append)
  then show ?thesis using assms(2) by simp
qed

lemma payload_blk_0 [simp]: "length d < 2 ^ 31 \<Longrightarrow> payload (blk 0 d) = d"
  by (simp add: buf_simps)

lemma seal_message_srl:
  assumes "length H = 46" and "length fc = 8" and "length (H @ fc @ D) < 2 ^ 31"
  shows "seal_message entire flags crc 46 54 (length D) (srl LITTLE 0 p (H @ fc @ D)) =
    (Inr (), srl LITTLE 0 (if entire then 54 else p)
       (H @ (if entire then bytes_le 8 (int (flags_and_crc (flags OR CRC_ON_ENTIRE_MESSAGE) (crc32_8 D crc))) else fc) @ D))"
proof (cases entire)
  case True
  let ?n = "flags_and_crc (flags OR CRC_ON_ENTIRE_MESSAGE) (crc32_8 D crc)"
  have pos: "bs_set_pos 46 (srl LITTLE 0 p (H @ fc @ D)) = (Inr (), srl LITTLE 0 46 (H @ fc @ D))"
    using assms by (intro bs_set_pos_srl) simp_all
  have put: "put_u64 ?n (srl LITTLE 0 46 (H @ fc @ D)) = (Inr (), srl LITTLE 0 54 (H @ bytes_le 8 (int ?n) @ D))"
    using emits_over [OF emits_u64_le [of 0 ?n], where w = H and old = fc and r = D] assms by simp
  have "take (length D) (drop 54 (H @ fc @ D)) = D" using assms by simp
  then show ?thesis
    using True assms pos put by (simp add: seal_message_def thn_Inr)
qed (simp add: seal_message_def)

lemma req_puts_srl:
  assumes "\<And>e. e \<in> set les \<Longrightarrow> entry_ok e" and "opts_meta = req_meta opts (req, les)"
    and "length (enc_data opts (req, les)) < 2 ^ 30" and "length r = length (enc_req opts (req, les))"
  shows "\<exists>p. req_puts opts opts_meta (map (\<lambda>e. blk 0 (enc_entry opts e)) les) req (srl LITTLE 0 0 r) =
    (Inr (), srl LITTLE 0 p (enc_req opts (req, les)))"
proof -
  let ?D = "enc_data opts (req, les)" and ?es = "map (enc_entry opts) les" and ?meta = opts_meta
  let ?H = "enc_head req (int (length ?D))" and ?flags = "req_flags opts ?meta req"
  let ?fc = "bytes_le 8 (int (flags_and_crc ?flags (crc32_8 ?H 0)))"
  define r1 r2 r3 where "r1 = take 46 r" and "r2 = take 8 (drop 46 r)" and "r3 = drop 54 r"
  have r: "r = r1 @ r2 @ r3" "length r1 = 46" "length r2 = 8" "length r3 = length ?D"
    using assms(4) append_take_drop_id [of 46 r] append_take_drop_id [of 8 "drop 46 r"]
    by (simp_all add: r1_def r2_def r3_def enc_req_def)
  have D: "?D = enc_meta ?meta @ concat ?es" using assms(2) by (simp add: enc_data_def)
  have lds: "log_data_size (map (\<lambda>e. blk 0 (enc_entry opts e)) les) = int (length (concat ?es))"
    using log_data_size_enc [of ?es] assms(3) D by (simp add: comp_def)
  then have size: "int (meta_size ?meta) + log_data_size (map (\<lambda>e. blk 0 (enc_entry opts e)) les) = int (length ?D)"
    using D by (simp add: meta_size_enc)
  have i32: "to_i32 (int (length ?D)) = int (length ?D)"
    using assms(3) by (simp add: to_i32_def)
  have "emits (srl LITTLE 0) (req_header_puts req (int (length ?D))) ?H"
    unfolding req_header_puts_def enc_head_def by (intro emits_thn emits_put_ints(1) emits_i32_le emits_u64_le)
  from emits_over [OF this, where w = "[]" and old = r1 and r = "r2 @ r3"]
  have head: "req_header_puts req (int (length ?D)) (srl LITTLE 0 0 r) = (Inr (), srl LITTLE 0 46 (?H @ r2 @ r3))"
    using r assms(3) by simp
  have flags: "put_u64 (flags_and_crc ?flags (crc32_8 ?H 0)) (srl LITTLE 0 46 (?H @ r2 @ r3)) =
      (Inr (), srl LITTLE 0 54 (?H @ ?fc @ r3))"
    using emits_over [OF emits_u64_le, where w = ?H and old = r2 and r = r3] r assms(3) by simp
  have "emits (srl LITTLE 0) (put_if (has_flag ?flags INCLUDE_META) (bs_put_bytes ?meta)) (enc_meta ?meta)"
    using emits_put_if [OF emits_bs_bytes_le [of ?meta 0], of "?meta \<noteq> []"] assms(3) D
    by (auto simp: enc_meta_def split: if_splits)
  moreover have "emits (srl LITTLE 0) (for_each (map (\<lambda>e. blk 0 (enc_entry opts e)) les) put_buffer) (concat ?es)"
  proof -
    have "emits (srl LITTLE 0) (put_buffer (blk 0 (enc_entry opts e))) (enc_entry opts e)" if "e \<in> set les" for e
      using assms(1) [OF that] by (intro emits_put_buffer) (simp add: entry_ok_def length_enc_entry LOG_ENTRY_SIZE_def)
    then show ?thesis unfolding for_each_map by (rule emits_for_each)
  qed
  ultimately have body: "emits (srl LITTLE 0) (thn (put_if (has_flag ?flags INCLUDE_META) (bs_put_bytes ?meta))
      (for_each (map (\<lambda>e. blk 0 (enc_entry opts e)) les) put_buffer)) ?D"
    unfolding D by (rule emits_thn)
  have "thn (put_if (has_flag ?flags INCLUDE_META) (bs_put_bytes ?meta))
      (for_each (map (\<lambda>e. blk 0 (enc_entry opts e)) les) put_buffer) (srl LITTLE 0 54 (?H @ ?fc @ r3)) =
      (Inr (), srl LITTLE 0 (54 + length ?D) (?H @ ?fc @ ?D))"
    using emits_over [OF body, where w = "?H @ ?fc" and old = r3 and r = "[]"] r assms(3) by simp
  note body' = this
  have run: "thn (put_if (has_flag ?flags INCLUDE_META) (bs_put_bytes ?meta))
      (thn (for_each (map (\<lambda>e. blk 0 (enc_entry opts e)) les) put_buffer) k) (srl LITTLE 0 54 (?H @ ?fc @ r3)) =
      k (srl LITTLE 0 (54 + length ?D) (?H @ ?fc @ ?D))" for k :: "(serializer, unit) cmd"
    unfolding thn_assoc [symmetric] by (rule thn_Inr [where x = "()"]) (rule body')
  have "length (?H @ ?fc @ ?D) < 2 ^ 31" "length (?H @ r2 @ r3) < 2 ^ 31" using assms(3) r by simp_all
  then have "req_puts opts ?meta (map (\<lambda>e. blk 0 (enc_entry opts e)) les) req (srl LITTLE 0 0 r) =
      seal_message (ro_crc_on_entire_message opts) ?flags (crc32_8 ?H 0) 46 54 (length ?D)
        (srl LITTLE 0 (54 + length ?D) (?H @ ?fc @ ?D))"
    unfolding req_puts_def Let_def size i32 nat_int
    by (simp add: thn_Inr head flags run [simplified] RPC_REQ_HEADER_SIZE_def CRC_FLAGS_LEN_def)
  also have "\<dots> = (Inr (), srl LITTLE 0 (if ro_crc_on_entire_message opts then 54 else 54 + length ?D) (enc_req opts (req, les)))"
    using seal_message_srl [of ?H ?fc ?D "ro_crc_on_entire_message opts" ?flags "crc32_8 ?H 0" "54 + length ?D"] assms(2,3)
    by (simp add: enc_req_def sealed_flags_def sealed_crc_def add_flag_def)
  finally show ?thesis by blast
qed

lemma request_buf_blk:
  assumes "\<And>e. e \<in> set les \<Longrightarrow> entry_ok e" and "length (enc_data opts (req, les)) < 2 ^ 30"
  shows "request_buf u opts (req, les) = Inr (blk 0 (enc_req opts (req, les)))"
proof -
  let ?D = "enc_data opts (req, les)" and ?bufs = "map (\<lambda>e. blk 0 (enc_entry opts e)) les"
  let ?meta = "req_meta opts (req, les)"
  have bufs: "mapE (entry_buf u opts) les = Inr ?bufs"
    using entry_buf_blk assms(1) by (intro mapE_Inr) blast
  have "log_data_size ?bufs = int (length (concat (map (enc_entry opts) les)))"
    using log_data_size_enc [of "map (enc_entry opts) les"] assms(2) by (simp add: comp_def enc_data_def)
  then have n: "nat ((int (RPC_REQ_HEADER_SIZE + meta_size ?meta) + log_data_size ?bufs) mod 2 ^ 64) = length (enc_req opts (req, les))"
    using assms(2) by (simp add: meta_size_enc enc_req_def enc_data_def RPC_REQ_HEADER_SIZE_def nat_int_add)
  obtain r where r: "length r = length (enc_req opts (req, les))" "buf_alloc u (length (enc_req opts (req, les))) = Inr (blk 0 r)"
    by (rule alloc_blk [of "length (enc_req opts (req, les))"]) (use assms(2) in \<open>simp_all add: enc_req_def\<close>)
  obtain p where "req_puts opts ?meta ?bufs req (srl LITTLE 0 0 r) = (Inr (), srl LITTLE 0 p (enc_req opts (req, les)))"
    using req_puts_srl [OF assms(1) refl assms(2) r(1)] by blast
  then show ?thesis
    unfolding request_buf_def Let_def fst_conv snd_conv bufs bndE_simps n alloc_puts_def r(2)
    by (simp add: new_serializer_srl)
qed

subsection \<open>Reading the bytes back\<close>

lemma parses_u8: "parses (srl LITTLE q) get_u8 [b] b"
  using parses_get_ints(1) .

lemma parses_u32_le: "parses (srl LITTLE q) get_u32 (bytes_le 4 (uint w)) w"
  using parses_get_ints(3) [of LITTLE q w] by simp

lemma parses_get_if: "(b \<Longrightarrow> parses mk c bs x) \<Longrightarrow> (\<not> b \<Longrightarrow> x = y) \<Longrightarrow> parses mk (get_if b c y) (if b then bs else []) x"
  using parses_ret [of mk y] by (auto simp: get_if_def simp del: ret_simp)

lemma parses_get_buffer:
  assumes "length r = length d" and "length d < 2 ^ 31"
  shows "parses (srl LITTLE q) (get_buffer (blk 0 r)) d (blk 0 d)"
proof -
  have n: "sub64 (buf_size (blk 0 r)) (buf_pos (blk 0 r)) = length d"
    using assms by (simp add: buf_simps)
  let ?f = "\<lambda>p. lift (case wr (data_of_block (blk 0 r)) p (blk 0 r) of (Inl e, _) \<Rightarrow> Inl e | (Inr _, dst') \<Rightarrow> Inr dst')
      :: (serializer, block) cmd"
  have "wr (data_of_block (blk 0 r)) d (blk 0 r) = (Inr (), blk 0 d)"
    using assms by (simp add: buf_simps poke_def)
  then have "parses (srl LITTLE q) (?f d) [] (blk 0 d)"
    by (simp add: parses_def lift_def)
  with parses_bs_get_raw [of LITTLE q d] have "parses (srl LITTLE q) (bnd (bs_get_raw (length d)) ?f) (d @ []) (blk 0 d)"
    by (rule parses_bnd)
  then show ?thesis by (simp add: get_buffer_def n)
qed

text \<open>What arrives of a log entry.\<close>

definition sent_entry :: "rpc_options \<Rightarrow> log_entry \<Rightarrow> log_entry" where
  "sent_entry opts e =
     new_log_entry (le_term e) (Some (blk 0 (entry_data e))) (le_type e)
       (if ro_replicate_log_timestamp opts then le_timestamp_us e else 0)
       (ro_crc_on_payload opts \<and> le_has_crc32 e) (if ro_crc_on_payload opts then le_crc32 e else 0) False"

lemma parses_entry_value:
  assumes "entry_ok e"
  shows "parses (srl LITTLE q) (\<lambda>s. let val_size = nat (int (length (entry_data e)) mod 2 ^ 64)
       in if bs_size s - bs_pos s < val_size then ret None s
          else bnd (bnd (lift (buf_alloc u val_size)) get_buffer) (\<lambda>buf.
            if crc_flag \<and> (crc_flag \<and> le_has_crc32 e) \<and> crc32_8 (payload buf) 0 \<noteq> (if crc_flag then le_crc32 e else 0) then ret None
            else ret (Some (f buf))) s) (entry_data e) (Some (f (blk 0 (entry_data e))))"
proof -
  let ?d = "entry_data e"
  have len: "length ?d < 2 ^ 30" and crc: "le_has_crc32 e \<Longrightarrow> le_crc32 e = crc32_8 ?d 0"
    using assms by (auto simp: entry_ok_def)
  obtain r where r: "length r = length ?d" "buf_alloc u (length ?d) = Inr (blk 0 r)"
    by (rule alloc_blk [of "length ?d"]) (use len in simp_all)
  have "bnd (lift (buf_alloc u (length ?d))) get_buffer = get_buffer (blk 0 r)"
    unfolding r(2) by (rule ext) (simp add: bnd_def lift_def)
  then have get: "parses (srl LITTLE q) (bnd (lift (buf_alloc u (length ?d))) get_buffer) ?d (blk 0 ?d)"
    using parses_get_buffer [OF r(1)] len by simp
  show ?thesis
    unfolding parses_def
  proof (intro allI impI)
    fix w t :: "u8 list"
    assume l: "length (w @ ?d @ t) < 2 ^ 31"
    let ?s = "srl LITTLE q (length w) (w @ ?d @ t)"
    have "bnd (lift (buf_alloc u (length ?d))) get_buffer ?s = (Inr (blk 0 ?d), srl LITTLE q (length (w @ ?d)) (w @ ?d @ t))"
      using parsesD [OF get, of w t] l by simp
    moreover have "nat (int (length ?d) mod 2 ^ 64) = length ?d" using len by simp
    moreover have "bs_size ?s - bs_pos ?s = length ?d + length t" using l by (simp add: bs_size_def buf_simps)
    ultimately show "(let val_size = nat (int (length ?d) mod 2 ^ 64)
       in if bs_size ?s - bs_pos ?s < val_size then ret None ?s
          else bnd (bnd (lift (buf_alloc u val_size)) get_buffer) (\<lambda>buf.
            if crc_flag \<and> (crc_flag \<and> le_has_crc32 e) \<and> crc32_8 (payload buf) 0 \<noteq> (if crc_flag then le_crc32 e else 0) then ret None
            else ret (Some (f buf))) ?s) = (Inr (Some (f (blk 0 ?d))), srl LITTLE q (length (w @ ?d)) (w @ ?d @ t))"
      using crc len by (simp add: bnd_Inr)
  qed
qed

lemma parses_read_entry:
  assumes "entry_ok e"
    and "has_flag flags INCLUDE_LOG_TIMESTAMP = ro_replicate_log_timestamp opts"
    and "has_flag flags CRC_ON_PAYLOAD = ro_crc_on_payload opts"
  shows "parses (srl LITTLE q) (read_entry u flags) (enc_entry opts e) (Some (sent_entry opts e))"
proof -
  have ok: "le_term e < 2 ^ 64" "le_timestamp_us e < 2 ^ 64" "length (entry_data e) < 2 ^ 31"
    using assms(1) by (simp_all add: entry_ok_def)
  have has: "parses (srl LITTLE q) (bnd get_u8 (\<lambda>b. ret (b \<noteq> 0))) [if le_has_crc32 e then 1 else 0] (le_has_crc32 e)"
    using parses_bnd_ret [OF parses_u8, of q "\<lambda>b. b \<noteq> 0" "if le_has_crc32 e then 1 else 0"] by (simp split: if_splits)
  let ?ts = "if ro_replicate_log_timestamp opts then bytes_le 8 (int (le_timestamp_us e)) else []"
  let ?has = "if ro_crc_on_payload opts then [if le_has_crc32 e then 1 else 0] else []"
  let ?crc = "if ro_crc_on_payload opts then bytes_le 4 (uint (le_crc32 e)) else []"
  have ts: "parses (srl LITTLE q) (get_if (ro_replicate_log_timestamp opts) get_u64 0) ?ts
      (if ro_replicate_log_timestamp opts then le_timestamp_us e else 0)"
    by (rule parses_get_if) (use parses_u64_le [OF ok(2)] in simp_all)
  have hs: "parses (srl LITTLE q) (get_if (ro_crc_on_payload opts) (bnd get_u8 (\<lambda>b. ret (b \<noteq> 0))) False) ?has
      (ro_crc_on_payload opts \<and> le_has_crc32 e)"
    by (rule parses_get_if) (use has in simp_all)
  have cr: "parses (srl LITTLE q) (get_if (ro_crc_on_payload opts) get_u32 0) ?crc
      (if ro_crc_on_payload opts then le_crc32 e else 0)"
    by (rule parses_get_if) (use parses_u32_le in simp_all)
  have sz: "parses (srl LITTLE q) get_i32 (bytes_le 4 (int (length (entry_data e)))) (int (length (entry_data e)))"
    using ok(3) by (intro parses_i32_le) (simp add: i32_def)
  have "parses (srl LITTLE q) (read_entry u flags)
    (bytes_le 8 (int (le_term e)) @ [le_type e] @ ?ts @ ?has @ ?crc @ bytes_le 4 (int (length (entry_data e))) @ entry_data e)
    (Some (sent_entry opts e))"
    unfolding read_entry_def assms(2,3) sent_entry_def
    by (rule parses_bnd, rule parses_u64_le [OF ok(1)], rule parses_bnd, rule parses_u8, rule parses_bnd, rule ts,
        rule parses_bnd, rule hs, rule parses_bnd, rule cr, rule parses_bnd, rule sz) (rule parses_entry_value [OF assms(1)])
  moreover have "enc_entry opts e = bytes_le 8 (int (le_term e)) @ [le_type e] @ ?ts @ ?has @ ?crc @
      bytes_le 4 (int (length (entry_data e))) @ entry_data e"
    by (simp add: enc_entry_def)
  ultimately show ?thesis by simp
qed

lemma read_entries_enc:
  assumes "has_flag flags INCLUDE_LOG_TIMESTAMP = ro_replicate_log_timestamp opts"
    and "has_flag flags CRC_ON_PAYLOAD = ro_crc_on_payload opts"
    and "\<And>e. e \<in> set les \<Longrightarrow> entry_ok e" and "length les \<le> fuel"
    and "length (w @ concat (map (enc_entry opts) les)) < 2 ^ 31"
  shows "read_entries fuel u flags acc (srl LITTLE q (length w) (w @ concat (map (enc_entry opts) les))) =
    Entries (acc @ map (sent_entry opts) les)"
  using assms(3-5)
proof (induction les arbitrary: w acc fuel)
  case Nil
  then show ?case by (subst read_entries.simps) (simp add: bs_size_def buf_simps)
next
  case (Cons e les)
  let ?r = "concat (map (enc_entry opts) les)"
  let ?s = "srl LITTLE q (length w) (w @ enc_entry opts e @ ?r)"
  obtain n where n: "fuel = Suc n" using Cons.prems(2) by (cases fuel) simp_all
  have "read_entry u flags ?s =
      (Inr (Some (sent_entry opts e)), srl LITTLE q (length (w @ enc_entry opts e)) (w @ enc_entry opts e @ ?r))"
    using parsesD [OF parses_read_entry [OF Cons.prems(1) assms(1,2), of e q u], of w ?r] Cons.prems(3) by simp
  moreover have "bs_size ?s - bs_pos ?s = length (enc_entry opts e) + length ?r" "bs_pos ?s < bs_size ?s"
    using Cons.prems(3) by (simp_all add: bs_size_def buf_simps length_enc_entry LOG_ENTRY_SIZE_def)
  ultimately have "read_entries fuel u flags acc ?s =
      read_entries n u flags (acc @ [sent_entry opts e]) (srl LITTLE q (length (w @ enc_entry opts e)) ((w @ enc_entry opts e) @ ?r))"
    using n assms(1,2) by (subst read_entries.simps) (simp add: length_enc_entry)
  also have "\<dots> = Entries ((acc @ [sent_entry opts e]) @ map (sent_entry opts) les)"
    by (rule Cons.IH) (use Cons.prems n in simp_all)
  finally show ?case by simp
qed

lemma length_les_le: "length les \<le> length (concat (map (enc_entry opts) les))"
  by (induction les) (simp_all add: length_enc_entry LOG_ENTRY_SIZE_def)

lemma read_data_enc:
  assumes "has_flag flags INCLUDE_LOG_TIMESTAMP = ro_replicate_log_timestamp opts"
    and "has_flag flags CRC_ON_PAYLOAD = ro_crc_on_payload opts"
    and "has_flag flags INCLUDE_META \<longleftrightarrow> req_meta opts (req, les) \<noteq> []"
    and "\<And>e. e \<in> set les \<Longrightarrow> entry_ok e" and "length (enc_data opts (req, les)) < 2 ^ 30"
  shows "read_data u flags (blk 0 (enc_data opts (req, les))) = (req_meta opts (req, les), Entries (map (sent_entry opts) les))"
proof -
  let ?m = "req_meta opts (req, les)" and ?D = "enc_data opts (req, les)"
  let ?c = "concat (map (enc_entry opts) les)"
  have D: "?D = enc_meta ?m @ ?c" by (simp add: enc_data_def)
  have eq: "enc_meta ?m = (if ?m \<noteq> [] then bytes_le 4 (int (length ?m)) @ ?m else [])" by (simp add: enc_meta_def)
  have meta: "parses (srl LITTLE 0) (get_if (?m \<noteq> []) bs_get_bytes []) (enc_meta ?m) ?m"
    unfolding eq
  proof (rule parses_get_if)
    assume "?m \<noteq> []"
    then have "length ?m < 2 ^ 31" using assms(5) by (simp add: enc_data_def enc_meta_def)
    then show "parses (srl LITTLE 0) bs_get_bytes (bytes_le 4 (int (length ?m)) @ ?m) ?m"
      using parses_bs_get_bytes [of ?m LITTLE 0] by simp
  qed simp
  have len: "length (enc_meta ?m) + length ?c < 2 ^ 30" using assms(5) by (simp add: enc_data_def)
  have "get_if (?m \<noteq> []) bs_get_bytes [] (srl LITTLE 0 0 ?D) = (Inr ?m, srl LITTLE 0 (length (enc_meta ?m)) ?D)"
    using parsesD [OF meta, of "[]" ?c] len unfolding D by simp
  moreover have "read_entries (length ?D) u flags [] (srl LITTLE 0 (length (enc_meta ?m)) (enc_meta ?m @ ?c)) =
      Entries ([] @ map (sent_entry opts) les)"
    by (rule read_entries_enc [OF assms(1,2,4)]) (use length_les_le [of les opts] len in \<open>simp_all add: enc_data_def\<close>)
  moreover have "buf_size (blk 0 ?D) = length ?D" "new_serializer LITTLE (blk 0 ?D) = srl LITTLE 0 0 ?D"
    using assms(5) by (simp_all add: buf_simps new_serializer_srl)
  ultimately show ?thesis
    unfolding read_data_def assms(3) by (simp add: enc_data_def)
qed

text \<open>The header.\<close>

lemma header_fields_enc:
  assumes "i32 n" and "fc < 2 ^ 64"
  shows "header_fields (blk 0 (enc_head req n @ bytes_le 8 (int fc))) = Inr (fc, 0, msg_byte (rq_type req), n)"
proof -
  define H where "H = take 42 (enc_head req n)"
  let ?F = "bytes_le 8 (int fc)"
  have H: "enc_head req n = H @ bytes_le 4 n" "length H = 42"
    by (simp_all add: H_def enc_head_def)
  obtain H' where H': "H = [0] @ [msg_byte (rq_type req)] @ H'"
    by (simp add: H_def enc_head_def)
  let ?d = "(H @ bytes_le 4 n) @ ?F"
  have d: "length ?d = 54" using H by simp
  have pos: "bs_set_pos k (srl LITTLE 0 p ?d) = (Inr (), srl LITTLE 0 k ?d)" if "k \<le> 54" for k p
    using that d by (intro bs_set_pos_srl) simp_all
  have "get_u64 (srl LITTLE 0 46 ?d) = (Inr fc, srl LITTLE 0 54 ?d)"
    using parsesD [OF parses_u64_le [OF assms(2), of 0], of "H @ bytes_le 4 n" "[]"] H by simp
  moreover have "get_u8 (srl LITTLE 0 0 ?d) = (Inr 0, srl LITTLE 0 1 ?d)"
    using parsesD [OF parses_u8 [of 0 0], of "[]" "[msg_byte (rq_type req)] @ H' @ bytes_le 4 n @ ?F"] d H'
    by simp
  moreover have "get_u8 (srl LITTLE 0 1 ?d) = (Inr (msg_byte (rq_type req)), srl LITTLE 0 (Suc (Suc 0)) ?d)"
    using parsesD [OF parses_u8 [of 0 "msg_byte (rq_type req)"], of "[0]" "H' @ bytes_le 4 n @ ?F"] d H'
    by simp
  moreover have "get_i32 (srl LITTLE 0 42 ?d) = (Inr n, srl LITTLE 0 46 ?d)"
    using parsesD [OF parses_i32_le [OF assms(1), of 0], of H ?F] H by simp
  ultimately show ?thesis
    unfolding header_fields_def H(1) using d
    by (simp add: new_serializer_srl RPC_REQ_HEADER_SIZE_def CRC_FLAGS_LEN_def DATA_SIZE_LEN_def bnd_Inr thn_Inr pos)
qed

definition req_ok :: "req_msg \<Rightarrow> bool" where
  "req_ok req \<longleftrightarrow> i32 (rq_src req) \<and> i32 (rq_dst req) \<and> rq_term req < 2 ^ 64 \<and> rq_last_log_term req < 2 ^ 64 \<and>
     rq_last_log_idx req < 2 ^ 64 \<and> rq_commit_idx req < 2 ^ 64"

lemma thn_bnd: "bnd (thn a b) f = thn a (bnd b f)"
  by (rule ext) (auto simp: bnd_def thn_def split: prod.splits sum.splits)

lemma header_request_enc:
  assumes "req_ok req" and "i32 n" and "length F = 8"
  shows "header_request (blk 0 (enc_head req n @ F)) =
    Inr (msg_byte (rq_type req), new_req_msg (rq_term req) (rq_type req) (rq_src req) (rq_dst req)
       (rq_last_log_term req) (rq_last_log_idx req) (rq_commit_idx req), n)"
    (is "_ = Inr ?x")
proof -
  let ?H = "[msg_byte (rq_type req)] @ bytes_le 4 (rq_src req) @ bytes_le 4 (rq_dst req) @ bytes_le 8 (int (rq_term req))
     @ bytes_le 8 (int (rq_last_log_term req)) @ bytes_le 8 (int (rq_last_log_idx req))
     @ bytes_le 8 (int (rq_commit_idx req)) @ bytes_le 4 n"
  let ?c = "bnd get_u8 (\<lambda>t. bnd get_i32 (\<lambda>src. bnd get_i32 (\<lambda>dst.
          bnd get_u64 (\<lambda>term. bnd get_u64 (\<lambda>last_term. bnd get_u64 (\<lambda>last_idx. bnd get_u64 (\<lambda>commit_idx.
          bnd get_i32 (\<lambda>log_data_size.
            ret (t, new_req_msg term (case msg_of_byte t of Some ty \<Rightarrow> ty | None \<Rightarrow> ping_request)
                      src dst last_term last_idx commit_idx, log_data_size)))))))))"
  note ok = assms(1) [unfolded req_ok_def]
  have "parses (srl LITTLE 0) ?c (?H @ []) ?x"
    unfolding append_assoc
    by (rule parses_bnd, rule parses_u8, rule parses_bnd, rule parses_i32_le [OF ok [THEN conjunct1]],
        rule parses_bnd, rule parses_i32_le, use ok in blast, rule parses_bnd, rule parses_u64_le, use ok in blast,
        rule parses_bnd, rule parses_u64_le, use ok in blast, rule parses_bnd, rule parses_u64_le, use ok in blast,
        rule parses_bnd, rule parses_u64_le, use ok in blast, rule parses_bnd, rule parses_i32_le [OF assms(2)])
      (use parses_ret [of "srl LITTLE 0"] in \<open>simp del: ret_simp\<close>)
  from parsesD [OF this, of "[0]" F] assms(3)
  have "?c (srl LITTLE 0 1 (enc_head req n @ F)) = (Inr ?x, srl LITTLE 0 46 (enc_head req n @ F))"
    by (simp add: enc_head_def)
  moreover have "bs_set_pos 1 (srl LITTLE 0 0 (enc_head req n @ F)) = (Inr (), srl LITTLE 0 1 (enc_head req n @ F))"
    using assms(3) by (intro bs_set_pos_srl) simp_all
  ultimately have "thn (bs_set_pos 1) ?c (srl LITTLE 0 0 (enc_head req n @ F)) = (Inr ?x, srl LITTLE 0 46 (enc_head req n @ F))"
    by (simp only: thn_Inr)
  moreover have "new_serializer LITTLE (blk 0 (enc_head req n @ F)) = srl LITTLE 0 0 (enc_head req n @ F)"
    by (simp add: new_serializer_srl)
  ultimately show ?thesis
    unfolding header_request_def thn_bnd by simp
qed

definition data_len :: "rpc_options \<Rightarrow> wire_req \<Rightarrow> nat" where
  "data_len opts req = meta_size (req_meta opts req) +
     (\<Sum>e \<leftarrow> snd req. LOG_ENTRY_SIZE (ro_replicate_log_timestamp opts) (ro_crc_on_payload opts) + length (entry_data e))"

lemma data_len_enc: "length (enc_data opts req) = data_len opts req"
proof -
  have "length (concat (map (enc_entry opts) les)) = (\<Sum>e \<leftarrow> les. length (enc_entry opts e))" for les
    by (simp add: length_concat comp_def)
  then show ?thesis by (simp add: data_len_def enc_data_def meta_size_enc length_enc_entry)
qed

definition wire_ok :: "rpc_options \<Rightarrow> wire_req \<Rightarrow> bool" where
  "wire_ok opts req \<longleftrightarrow> req_ok (fst req) \<and> rq_log_entries (fst req) = [] \<and> list_all entry_ok (snd req) \<and>
     data_len opts req < 2 ^ 30"

lemma sealed_flags_bits [simp]:
  "has_flag (sealed_flags opts req) INCLUDE_META \<longleftrightarrow> req_meta opts req \<noteq> []"
  "has_flag (sealed_flags opts req) MARK_DOWN \<longleftrightarrow> rq_excluded_from_the_quorum (fst req)"
  "has_flag (sealed_flags opts req) CRC_ON_PAYLOAD \<longleftrightarrow> ro_crc_on_payload opts"
  "has_flag (sealed_flags opts req) INCLUDE_LOG_TIMESTAMP \<longleftrightarrow> ro_replicate_log_timestamp opts"
  "has_flag (sealed_flags opts req) CRC_ON_ENTIRE_MESSAGE \<longleftrightarrow> ro_crc_on_entire_message opts"
  by (simp_all add: sealed_flags_def add_flag_def)

text \<open>The session after the header of a request.\<close>

definition headed :: "rpc_options \<Rightarrow> wire_req \<Rightarrow> rpc_session \<Rightarrow> rpc_session" where
  "headed opts req se = se\<lparr>se_crc_header := crc32_8 (enc_head (fst req) (int (data_len opts req))) 0,
     se_crc_from_msg := sealed_crc opts req, se_flags := sealed_flags opts req\<rparr>"

definition enc_header :: "rpc_options \<Rightarrow> wire_req \<Rightarrow> u8 list" where
  "enc_header opts req = enc_head (fst req) (int (data_len opts req))
     @ bytes_le 8 (int (flags_and_crc (sealed_flags opts req) (sealed_crc opts req)))"

lemma enc_req_header: "enc_req opts req = enc_header opts req @ enc_data opts req" "length (enc_header opts req) = 54"
  by (simp_all add: enc_req_def enc_header_def data_len_enc)

lemma on_header_enc:
  assumes "wire_ok opts req"
  shows "on_header (blk 0 (enc_header opts req)) se =
    (if data_len opts req = 0 then Read_Complete else Read_Data (data_len opts req), headed opts req se)"
proof -
  let ?n = "int (data_len opts req)"
  have "i32 ?n" using assms by (simp add: wire_ok_def i32_def)
  from header_fields_enc [OF this flags_and_crc_parts(3)]
  have "header_fields (blk 0 (enc_header opts req)) =
      Inr (flags_and_crc (sealed_flags opts req) (sealed_crc opts req), 0, msg_byte (rq_type (fst req)), ?n)"
    by (simp add: enc_header_def)
  moreover have "take 46 (payload (blk 0 (enc_header opts req))) = enc_head (fst req) ?n"
    by (simp add: enc_header_def)
  moreover have "ro_crc_on_entire_message opts \<or> crc32_8 (enc_head (fst req) ?n) 0 = sealed_crc opts req"
    by (simp add: sealed_crc_def data_len_enc Let_def)
  ultimately show ?thesis
    using assms by (auto simp: on_header_def headed_def RPC_REQ_HEADER_SIZE_def CRC_FLAGS_LEN_def wire_ok_def Let_def)
qed

lemma read_complete_enc:
  assumes "wire_ok opts (req, les)"
    and "\<not> meta_refused opts' (req, map (sent_entry opts) les) (req_meta opts (req, les))"
  shows "\<exists>cbs se'. read_complete u opts' known (blk 0 (enc_header opts (req, les)))
     (if data_len opts (req, les) = 0 then None else Some (blk 0 (enc_data opts (req, les)))) (headed opts (req, les) se) =
     (Deliver (req, map (sent_entry opts) les), cbs, se')"
proof -
  let ?q = "(req, les)" and ?se = "headed opts (req, les) se"
  let ?n = "data_len opts ?q" and ?D = "enc_data opts ?q"
  let ?ctx = "if ?n = 0 then None else Some (blk 0 ?D)"
  have ok: "req_ok req" "rq_log_entries req = []" "\<And>e. e \<in> set les \<Longrightarrow> entry_ok e" "length ?D < 2 ^ 30"
    using assms(1) by (auto simp: wire_ok_def list_all_iff data_len_enc)
  have "i32 (int ?n)" using assms(1) by (simp add: wire_ok_def i32_def)
  from header_request_enc [OF ok(1) this]
  have hr: "header_request (blk 0 (enc_header opts ?q)) = Inr (msg_byte (rq_type req), new_req_msg (rq_term req) (rq_type req)
      (rq_src req) (rq_dst req) (rq_last_log_term req) (rq_last_log_idx req) (rq_commit_idx req), int ?n)"
    by (simp add: enc_header_def)
  have empty: "?D = []" if "?n = 0" using that data_len_enc [of opts ?q] by simp
  have crc: "(case ?ctx of Some b \<Rightarrow> crc32_8 (payload b) (se_crc_header ?se) | None \<Rightarrow> se_crc_header ?se) = se_crc_from_msg ?se"
    if "ro_crc_on_entire_message opts"
    using that ok(4) empty by (simp add: headed_def sealed_crc_def data_len_enc Let_def crc32_8_eq crc_bitwise_def)
  obtain cbs se' where ns: "note_source known (new_req_msg (rq_term req) (rq_type req) (rq_src req) (rq_dst req)
      (rq_last_log_term req) (rq_last_log_idx req) (rq_commit_idx req)) ?se = (cbs, se')" by force
  then have fl: "se_flags se' = sealed_flags opts ?q"
    by (auto simp: note_source_def headed_def Let_def split: if_splits)
  have rd: "(case ?ctx of Some b \<Rightarrow> if int ?n > 0 then read_data u (se_flags se') b else ([], Entries []) | None \<Rightarrow> ([], Entries [])) =
      (req_meta opts ?q, Entries (map (sent_entry opts) les))"
  proof (cases "?n = 0")
    case True
    then have "req_meta opts ?q = []" "les = []"
      by (auto simp: data_len_def meta_size_def LOG_ENTRY_SIZE_def split: if_splits)
    then show ?thesis using True by simp
  next
    case False
    then show ?thesis using read_data_enc [OF _ _ _ ok(3,4), of "se_flags se'" u] fl by simp
  qed
  have "req = (new_req_msg (rq_term req) (rq_type req) (rq_src req) (rq_dst req) (rq_last_log_term req)
      (rq_last_log_idx req) (rq_commit_idx req))\<lparr>rq_excluded_from_the_quorum := has_flag (se_flags se') MARK_DOWN\<rparr>"
    using ok(2) fl by (cases req) (simp add: new_req_msg_def)
  note eq = this [symmetric]
  have nocrc: "\<not> (has_flag (se_flags ?se) CRC_ON_ENTIRE_MESSAGE \<and>
      (case ?ctx of Some b \<Rightarrow> crc32_8 (payload b) (se_crc_header ?se) | None \<Rightarrow> se_crc_header ?se) \<noteq> se_crc_from_msg ?se)"
    using crc by (simp add: headed_def)
  show ?thesis
    unfolding read_complete_def hr sum.case prod.case if_not_P [OF nocrc] ns Let_def eq rd
    using assms(2) by simp
qed

text \<open>Options with every check on, and a request with one log entry.\<close>

definition sample_opts :: rpc_options where
  "sample_opts =
     \<lparr>ro_write_req_meta = Some (\<lambda>_. [7]), ro_read_req_meta = None, ro_invoke_req_cb_on_empty_meta = True,
      ro_write_resp_meta = None, ro_read_resp_meta = None, ro_invoke_resp_cb_on_empty_meta = True,
      ro_replicate_log_timestamp = True, ro_crc_on_entire_message = True, ro_crc_on_payload = True,
      ro_streaming_mode = False\<rparr>"

definition sample_log_entry :: log_entry where
  "sample_log_entry = new_log_entry 3 (Some (blk 0 [1, 2, 3])) app_log 5 False 0 True"

definition sample_req :: req_msg where
  "sample_req = new_req_msg 3 append_entries_request 1 2 2 10 9"

lemma sample_wire_ok: "wire_ok sample_opts (sample_req, [sample_log_entry])"
proof -
  have d: "entry_data sample_log_entry = [1, 2, 3]"
    by (simp add: entry_data_def sample_log_entry_def new_log_entry_def Let_def)
  have "entry_ok sample_log_entry"
    unfolding entry_ok_def d by (auto simp: sample_log_entry_def new_log_entry_def Let_def)
  then show ?thesis
    by (simp add: wire_ok_def d data_len_def req_ok_def sample_req_def new_req_msg_def i32_def req_meta_def sample_opts_def
        meta_size_def LOG_ENTRY_SIZE_def)
qed

text \<open>
  C13. A request that a client writes arrives as it was sent. The receiving session takes exactly the
  bytes of the message and hands over the same request, with the data of all its log entries; their
  timestamps and checksums arrive where the options of the sender include them. The data fits into
  1 GB, checksums that entries carry are right and the receiver does not refuse the meta string.
\<close>

theorem wire_request_roundtrip:
  assumes "wire_ok opts (req, les)"
    and "\<not> meta_refused opts' (req, map (sent_entry opts) les) (req_meta opts (req, les))"
  shows "\<exists>m cbs se'. request_buf u opts (req, les) = Inr m \<and>
    receive u' opts' known (payload m @ rest) se = (Deliver (req, map (sent_entry opts) les), cbs, se', rest)"
proof -
  let ?q = "(req, les)"
  let ?n = "data_len opts ?q" and ?D = "enc_data opts ?q"
  have ok: "\<And>e. e \<in> set les \<Longrightarrow> entry_ok e" "length ?D < 2 ^ 30" "length ?D = ?n"
    using assms(1) by (auto simp: wire_ok_def list_all_iff data_len_enc)
  have m: "request_buf u opts ?q = Inr (blk 0 (enc_req opts ?q))" by (rule request_buf_blk [OF ok(1,2)])
  have pl: "payload (blk 0 (enc_req opts ?q)) = enc_header opts ?q @ ?D"
    using ok(2) enc_req_header [of opts ?q] by simp
  obtain cbs se' where rc: "read_complete u' opts' known (blk 0 (enc_header opts ?q))
     (if ?n = 0 then None else Some (blk 0 ?D)) (headed opts ?q se) = (Deliver (req, map (sent_entry opts) les), cbs, se')"
    using read_complete_enc [OF assms] by blast
  have "receive u' opts' known ((enc_header opts ?q @ ?D) @ rest) se = (Deliver (req, map (sent_entry opts) les), cbs, se', rest)"
    using rc ok(3) enc_req_header(2) [of opts ?q] on_header_enc [OF assms(1), of se]
    by (cases "?n = 0") (simp_all add: receive_def RPC_REQ_HEADER_SIZE_def Let_def)
  then show ?thesis using m pl by auto
qed

theorem wire_request_roundtrip_witness:
  "\<exists>m cbs se'. request_buf (\<lambda>_. 0) sample_opts (sample_req, [sample_log_entry]) = Inr m \<and>
    receive (\<lambda>_. 0) sample_opts 1 (payload m @ [42]) new_rpc_session =
      (Deliver (sample_req, [sent_entry sample_opts sample_log_entry]), cbs, se', [42])"
proof -
  have "\<not> meta_refused sample_opts (sample_req, map (sent_entry sample_opts) [sample_log_entry])
      (req_meta sample_opts (sample_req, [sample_log_entry]))"
    by (simp add: meta_refused_def sample_opts_def)
  from wire_request_roundtrip [OF sample_wire_ok this] show ?thesis by simp
qed

subsection \<open>Any bytes\<close>

lemma get_any:
  assumes "length d < 2 ^ 31"
  shows "p + 1 \<le> length d \<Longrightarrow> \<exists>x. get_u8 (srl LITTLE q p d) = (Inr x, srl LITTLE q (p + 1) d)"
    and "p + 4 \<le> length d \<Longrightarrow> \<exists>x. get_u32 (srl LITTLE q p d) = (Inr x, srl LITTLE q (p + 4) d)"
    and "p + 4 \<le> length d \<Longrightarrow> \<exists>x. get_i32 (srl LITTLE q p d) = (Inr x, srl LITTLE q (p + 4) d)"
    and "p + 8 \<le> length d \<Longrightarrow> \<exists>x. get_u64 (srl LITTLE q p d) = (Inr x, srl LITTLE q (p + 8) d)"
  using assms by (simp_all add: get_u8_def get_u32_def get_i32_def get_u64_def get_fixed_srl)

text \<open>A computation that reads a fixed number of bytes, whatever they are.\<close>

definition reads :: "(serializer, 'a) cmd \<Rightarrow> nat \<Rightarrow> bool" where
  "reads c n \<longleftrightarrow> (\<forall>q p d. length d < 2 ^ 31 \<longrightarrow> p + n \<le> length d \<longrightarrow>
     (\<exists>x. c (srl LITTLE q p d) = (Inr x, srl LITTLE q (p + n) d)))"

lemma reads_gets: "reads get_u8 1" "reads get_u32 4" "reads get_i32 4" "reads get_u64 8"
  unfolding reads_def using get_any by blast+

lemma reads_get_if: "reads c n \<Longrightarrow> reads (get_if b c x) (if b then n else 0)"
  by (auto simp: reads_def get_if_def)

lemma reads_bnd_ret: "reads c n \<Longrightarrow> reads (bnd c (\<lambda>x. ret (f x))) n"
  unfolding reads_def by (metis bnd_Inr ret_def)

lemma readsE:
  assumes "reads c n" and "length d < 2 ^ 31" and "p + n \<le> length d"
  obtains x where "c (srl LITTLE q p d) = (Inr x, srl LITTLE q (p + n) d)"
  using assms unfolding reads_def by blast

definition pos_next :: "(serializer, 'a option) cmd \<Rightarrow> nat \<Rightarrow> nat \<Rightarrow> nat \<Rightarrow> u8 list \<Rightarrow> bool" where
  "pos_next c k q p d \<longleftrightarrow> (\<exists>s. c (srl LITTLE q p d) = (Inr None, s)) \<or>
     (\<exists>x p'. c (srl LITTLE q p d) = (Inr (Some x), srl LITTLE q p' d) \<and> k \<le> p' \<and> p' \<le> length d)"

lemma pos_next_bnd:
  assumes "reads c n" and "length d < 2 ^ 31" and "p + n \<le> length d" and "\<And>x. pos_next (f x) k q (p + n) d"
  shows "pos_next (bnd c f) k q p d"
proof -
  obtain x where "c (srl LITTLE q p d) = (Inr x, srl LITTLE q (p + n) d)" by (rule readsE [OF assms(1-3)])
  then have "bnd c f (srl LITTLE q p d) = f x (srl LITTLE q (p + n) d)" by (rule bnd_Inr)
  with assms(4) [of x] show ?thesis by (simp add: pos_next_def)
qed

lemma entry_value_any:
  assumes "length d < 2 ^ 31" and "p \<le> length d"
  shows "pos_next (\<lambda>s. let val_size = nat (n mod 2 ^ 64)
       in if bs_size s - bs_pos s < val_size then ret None s
          else bnd (bnd (lift (buf_alloc u val_size)) get_buffer) (\<lambda>buf. if bad buf then ret None else ret (Some (f buf))) s) p q p d"
proof -
  define m where "m = nat (n mod 2 ^ 64)"
  have sz: "bs_size (srl LITTLE q p d) - bs_pos (srl LITTLE q p d) = length d - p"
    using assms by (simp add: bs_size_def buf_simps)
  show ?thesis
  proof (cases "length d - p < m")
    case True
    then show ?thesis using sz by (simp add: pos_next_def m_def Let_def)
  next
    case False
    then have m: "p + m \<le> length d" using assms(2) by simp
    obtain r where r: "length r = m" "buf_alloc u m = Inr (blk 0 r)"
      by (rule alloc_blk [of m]) (use m assms(1) in simp_all)
    let ?b = "take m (drop p d)"
    have d: "d = take p d @ ?b @ drop (p + m) d"
      by (metis append_take_drop_id drop_drop add.commute)
    have "bnd (lift (buf_alloc u m)) get_buffer = get_buffer (blk 0 r)"
      unfolding r(2) by (rule ext) (simp add: bnd_def lift_def)
    moreover have "get_buffer (blk 0 r) (srl LITTLE q (length (take p d)) (take p d @ ?b @ drop (p + m) d)) =
        (Inr (blk 0 ?b), srl LITTLE q (length (take p d @ ?b)) (take p d @ ?b @ drop (p + m) d))"
      by (rule parsesD [OF parses_get_buffer]) (use r(1) m assms in simp_all)
    moreover have "length (take p d @ ?b) = p + m" "length (take p d) = p" using m assms by simp_all
    ultimately have "bnd (lift (buf_alloc u m)) get_buffer (srl LITTLE q p d) = (Inr (blk 0 ?b), srl LITTLE q (p + m) d)"
      unfolding d [symmetric] by simp
    then have "bnd (bnd (lift (buf_alloc u m)) get_buffer) (\<lambda>buf. if bad buf then ret None else ret (Some (f buf))) (srl LITTLE q p d) =
        (if bad (blk 0 ?b) then ret None else ret (Some (f (blk 0 ?b)))) (srl LITTLE q (p + m) d)" by (rule bnd_Inr)
    then show ?thesis
      unfolding pos_next_def Let_def m_def [symmetric] sz if_not_P [OF False] using m by auto
  qed
qed

lemma pos_next_mono: "pos_next c k q p d \<Longrightarrow> j \<le> k \<Longrightarrow> pos_next c j q p d"
  unfolding pos_next_def by (meson le_trans)

lemma read_entry_any:
  assumes "length d < 2 ^ 31"
    and "p + LOG_ENTRY_SIZE (has_flag flags INCLUDE_LOG_TIMESTAMP) (has_flag flags CRC_ON_PAYLOAD) \<le> length d"
  shows "pos_next (read_entry u flags) (Suc p) q p d"
  using assms unfolding read_entry_def LOG_ENTRY_SIZE_def
  by (intro pos_next_bnd [OF reads_gets(4)] pos_next_bnd [OF reads_gets(1)] pos_next_bnd [OF reads_get_if [OF reads_gets(4)]]
      pos_next_bnd [OF reads_get_if [OF reads_bnd_ret [OF reads_gets(1)]]] pos_next_bnd [OF reads_get_if [OF reads_gets(2)]]
      pos_next_bnd [OF reads_gets(3)] pos_next_mono [OF entry_value_any]) (simp_all split: if_splits)

lemma read_entries_any:
  assumes "length d < 2 ^ 31" and "p \<le> length d" and "length d - p \<le> fuel"
  shows "(\<exists>les. read_entries fuel u flags acc (srl LITTLE q p d) = Entries les) \<or>
    read_entries fuel u flags acc (srl LITTLE q p d) = Bad_Entries"
  using assms(2,3)
proof (induction fuel arbitrary: p acc)
  case 0
  then show ?case using assms(1) by (subst (1 2) read_entries.simps) (simp add: bs_size_def buf_simps)
next
  case (Suc n)
  let ?s = "srl LITTLE q p d"
  let ?k = "LOG_ENTRY_SIZE (has_flag flags INCLUDE_LOG_TIMESTAMP) (has_flag flags CRC_ON_PAYLOAD)"
  have sz: "bs_size ?s = length d" "bs_pos ?s = p" using assms(1) by (simp_all add: bs_size_def buf_simps)
  show ?case
  proof (cases "p < length d \<and> ?k \<le> length d - p")
    case True
    then have "pos_next (read_entry u flags) (Suc p) q p d" by (intro read_entry_any assms(1)) linarith
    then consider s where "read_entry u flags ?s = (Inr None, s)"
      | e p' where "read_entry u flags ?s = (Inr (Some e), srl LITTLE q p' d)" "Suc p \<le> p'" "p' \<le> length d"
      unfolding pos_next_def by blast
    then show ?thesis
    proof cases
      case 1
      then show ?thesis using True sz by (subst (1 2) read_entries.simps) simp
    next
      case 2
      then have "read_entries (Suc n) u flags acc ?s = read_entries n u flags (acc @ [e]) (srl LITTLE q p' d)"
        using True sz by (subst read_entries.simps) simp
      then show ?thesis using Suc.IH [of p' "acc @ [e]"] 2 Suc.prems by simp
    qed
  next
    case False
    then show ?thesis using sz by (subst (1 2) read_entries.simps) auto
  qed
qed

lemma read_data_any:
  assumes "length d < 2 ^ 31"
  shows "(\<exists>les. snd (read_data u flags (blk 0 d)) = Entries les) \<or> snd (read_data u flags (blk 0 d)) = Bad_Entries \<or>
    (\<exists>e. snd (read_data u flags (blk 0 d)) = Entries_Thrown e \<and> e \<noteq> Bad_Access)"
proof -
  let ?s = "srl LITTLE 0 0 d"
  have s: "new_serializer LITTLE (blk 0 d) = ?s" "buf_size (blk 0 d) = length d"
    using assms by (simp_all add: new_serializer_srl buf_simps)
  have "(\<exists>e s. get_if b bs_get_bytes [] ?s = (Inl e, s) \<and> e \<noteq> Bad_Access) \<or>
      (\<exists>m p. get_if b bs_get_bytes [] ?s = (Inr m, srl LITTLE 0 p d) \<and> p \<le> length d)" for b
  proof (cases b)
    case True
    show ?thesis
    proof (cases "4 \<le> length d")
      case False
      then have "bs_get_bytes ?s = (Inl not_enough, ?s)"
        using assms by (simp add: bs_get_bytes_def get_u32_def get_fixed_def bnd_def throw_def)
      then show ?thesis using True by (simp add: get_if_def not_enough_def)
    next
      case four: True
      obtain x where x: "get_u32 ?s = (Inr x, srl LITTLE 0 4 d)"
        using get_any(2) [OF assms, of 0] four by auto
      have "unat x < 2 ^ LENGTH(32)" by (rule unsigned_less)
      then have ux: "unat x < 2 ^ 63" by simp
      show ?thesis
      proof (cases "4 + unat x \<le> length d")
        case True
        let ?b = "take (unat x) (drop 4 d)"
        have d: "d = take 4 d @ ?b @ drop (4 + unat x) d"
          by (metis append_take_drop_id drop_drop add.commute)
        have lb: "length ?b = unat x" using True by simp
        have "bs_get_raw (length ?b) (srl LITTLE 0 (length (take 4 d)) (take 4 d @ ?b @ drop (4 + unat x) d)) =
            (Inr ?b, srl LITTLE 0 (length (take 4 d @ ?b)) (take 4 d @ ?b @ drop (4 + unat x) d))"
          by (rule parsesD [OF parses_bs_get_raw]) (use assms True in simp)
        then have "bs_get_raw (unat x) (srl LITTLE 0 4 d) = (Inr ?b, srl LITTLE 0 (4 + unat x) d)"
          unfolding d [symmetric] lb using four True by simp
        then have "bs_get_bytes ?s = (Inr ?b, srl LITTLE 0 (4 + unat x) d)"
          using x ux True assms four by (simp add: bs_get_bytes_def bnd_Inr)
        then show ?thesis using \<open>b\<close> True by (auto simp: get_if_def)
      next
        case False
        then have "bs_get_bytes ?s = (Inl not_enough, srl LITTLE 0 4 d)"
          using x ux assms four by (simp add: bs_get_bytes_def bnd_Inr throw_def)
        then show ?thesis using \<open>b\<close> by (simp add: get_if_def not_enough_def)
      qed
    qed
  qed (auto simp: get_if_def)
  from this [of "has_flag flags INCLUDE_META"] show ?thesis
  proof (elim disjE exE conjE)
    fix m p
    assume *: "get_if (has_flag flags INCLUDE_META) bs_get_bytes [] ?s = (Inr m, srl LITTLE 0 p d)" "p \<le> length d"
    then show ?thesis
      using read_entries_any [OF assms *(2), of "length d" u flags "[]" 0] s by (auto simp: read_data_def)
  qed (use s in \<open>simp add: read_data_def\<close>)
qed

definition succeeds :: "(serializer, 'a) cmd \<Rightarrow> nat \<Rightarrow> u8 list \<Rightarrow> bool" where
  "succeeds c p d \<longleftrightarrow> (\<exists>x. fst (c (srl LITTLE 0 p d)) = Inr x)"

lemma succeeds_ret: "succeeds (ret x) p d"
  by (simp add: succeeds_def)

lemma succeeds_bnd:
  assumes "reads c n" and "length d < 2 ^ 31" and "p + n \<le> length d" and "\<And>x. succeeds (f x) (p + n) d"
  shows "succeeds (bnd c f) p d"
proof -
  obtain x where "c (srl LITTLE 0 p d) = (Inr x, srl LITTLE 0 (p + n) d)" by (rule readsE [OF assms(1-3)])
  then show ?thesis using assms(4) [of x] by (simp add: succeeds_def bnd_Inr)
qed

lemma succeeds_pos:
  "k \<le> length d \<Longrightarrow> length d < 2 ^ 31 \<Longrightarrow> succeeds c k d \<Longrightarrow> succeeds (thn (bs_set_pos k) c) p d"
  by (simp add: succeeds_def thn_Inr)

lemma reads_header:
  assumes "length d = 54"
  shows "\<exists>x. header_fields (blk 0 d) = Inr x" and "\<exists>x. header_request (blk 0 d) = Inr x"
proof -
  have s: "new_serializer LITTLE (blk 0 d) = srl LITTLE 0 0 d" using assms by (simp add: new_serializer_srl)
  show "\<exists>x. header_fields (blk 0 d) = Inr x"
    unfolding header_fields_def s thn_bnd succeeds_def [symmetric] RPC_REQ_HEADER_SIZE_def CRC_FLAGS_LEN_def DATA_SIZE_LEN_def
    using assms
    by (intro succeeds_pos succeeds_bnd [OF reads_gets(1)] succeeds_bnd [OF reads_gets(3)] succeeds_bnd [OF reads_gets(4)]
        succeeds_ret) simp_all
  show "\<exists>x. header_request (blk 0 d) = Inr x"
    unfolding header_request_def s thn_bnd succeeds_def [symmetric] using assms
    by (intro succeeds_pos succeeds_bnd [OF reads_gets(1)] succeeds_bnd [OF reads_gets(3)] succeeds_bnd [OF reads_gets(4)]
        succeeds_ret) simp_all
qed

definition settled :: "session_next \<Rightarrow> bool" where
  "settled next \<longleftrightarrow> (\<exists>b. next = Stopped b) \<or> (\<exists>req. next = Deliver req)"

lemma settled_simps [simp]:
  "settled (Stopped b)" "settled (Deliver req)" "\<not> settled (Thrown e)" "\<not> settled Read_Complete" "\<not> settled (Read_Data n)"
  by (simp_all add: settled_def)

lemma on_header_any:
  assumes "length d = 54"
  obtains b se' where "on_header (blk 0 d) se = (Stopped b, se')"
  | se' where "on_header (blk 0 d) se = (Read_Complete, se')"
  | n se' where "on_header (blk 0 d) se = (Read_Data n, se')" and "n \<le> 2 ^ 30"
proof -
  obtain fc marker ty n where "header_fields (blk 0 d) = Inr (fc, marker, ty, n)"
    using reads_header(1) [OF assms] by (metis prod.exhaust)
  then have "(\<exists>b se'. on_header (blk 0 d) se = (Stopped b, se')) \<or> (\<exists>se'. on_header (blk 0 d) se = (Read_Complete, se')) \<or>
      (\<exists>n se'. on_header (blk 0 d) se = (Read_Data n, se') \<and> n \<le> 2 ^ 30)"
    by (auto simp: on_header_def Let_def nat_le_iff)
  then show ?thesis using that by blast
qed

lemma read_complete_any:
  assumes "length h = 54" and "\<And>b. ctx = Some b \<Longrightarrow> \<exists>d. b = blk 0 d \<and> length d < 2 ^ 31"
  shows "settled (fst (read_complete u opts known (blk 0 h) ctx se))"
proof -
  obtain t req n where hr: "header_request (blk 0 h) = Inr (t, req, n)"
    using reads_header(2) [OF assms(1)] by (metis prod.exhaust)
  obtain cbs se' where ns: "note_source known req se = (cbs, se')" by force
  let ?rd = "case ctx of Some b \<Rightarrow> if n > 0 then read_data u (se_flags se') b else ([], Entries []) | None \<Rightarrow> ([], Entries [])"
  obtain meta es where rd: "?rd = (meta, es)" by force
  have "(\<exists>les. es = Entries les) \<or> es = Bad_Entries \<or> (\<exists>e. es = Entries_Thrown e \<and> e \<noteq> Bad_Access)"
    using read_data_any [of _ u "se_flags se'"] assms(2) rd by (cases ctx) (force split: if_splits)+
  then show ?thesis
    unfolding read_complete_def hr sum.case prod.case ns Let_def rd by (auto simp: caught_def)
qed

text \<open>
  C14. A session reads safely whatever arrives. For any bytes it either stops or hands over a
  request: no access leaves a buffer, no exception leaves a handler and the loop over the log entries
  ends. What it leaves unread is the end of what arrived.
\<close>

theorem session_reads_any_bytes:
  "\<exists>next cbs se' rest. receive u opts known bytes se = (next, cbs, se', rest) \<and> suffix rest bytes \<and>
     ((\<exists>b. next = Stopped b) \<or> (\<exists>req. next = Deliver req))"
proof (cases "length bytes < 54")
  case True
  then show ?thesis by (auto simp: receive_def RPC_REQ_HEADER_SIZE_def)
next
  case False
  let ?h = "take 54 bytes" and ?r = "drop 54 bytes"
  have h: "length ?h = 54" using False by simp
  have c: "\<exists>next cbs se'. read_complete u opts known (blk 0 ?h) ctx se = (next, cbs, se') \<and> settled next"
    if "\<And>b. ctx = Some b \<Longrightarrow> \<exists>d. b = blk 0 d \<and> length d < 2 ^ 31" for ctx se
    using read_complete_any [OF h that, of ctx u opts known se] by (metis fst_conv prod.exhaust)
  note rcv = receive_def [unfolded RPC_REQ_HEADER_SIZE_def, simplified]
  have "\<exists>next cbs se' rest. receive u opts known bytes se = (next, cbs, se', rest) \<and> suffix rest bytes \<and> settled next"
  proof (rule on_header_any [OF h, of se])
    fix b se'
    assume "on_header (blk 0 ?h) se = (Stopped b, se')"
    then show ?thesis using False by (simp add: rcv Let_def suffix_drop)
  next
    fix se'
    assume "on_header (blk 0 ?h) se = (Read_Complete, se')"
    then show ?thesis using False c [of None se'] by (auto simp: rcv Let_def suffix_drop)
  next
    fix n se'
    assume *: "on_header (blk 0 ?h) se = (Read_Data n, se')" "n \<le> 2 ^ 30"
    have "length (take n ?r) < 2 ^ 31" using *(2) by simp
    then obtain nx cbs se2 where "read_complete u opts known (blk 0 ?h) (Some (blk 0 (take n ?r))) se' = (nx, cbs, se2)" "settled nx"
      using c [of "Some (blk 0 (take n ?r))" se'] by blast
    then show ?thesis using False *(1) by (auto simp: rcv Let_def suffix_drop)
  qed
  then show ?thesis unfolding settled_def by blast
qed

subsection \<open>Corrupted requests\<close>

lemma crc32_8_nil: "crc32_8 [] prev = prev"
  by (simp add: crc32_8_eq crc_bitwise_def)

lemma crc32_8_update:
  assumes "i < length bs" and "b \<noteq> bs ! i"
  shows "crc32_8 (bs[i := b]) prev \<noteq> crc32_8 bs prev"
proof -
  have "bs = take i bs @ bs ! i # drop (Suc i) bs" using assms(1) by (rule id_take_nth_drop)
  moreover have "bs[i := b] = take i bs @ b # drop (Suc i) bs" using assms(1) by (rule upd_conv_take_nth_drop)
  ultimately show ?thesis using crc32_8_one_byte [OF assms(2)] by metis
qed

text \<open>
  The bytes the checksum of a message vouches for: without the option the header, with it everything
  but the length of the data, which is used before the checksum is known.
\<close>

definition covered :: "rpc_options \<Rightarrow> nat \<Rightarrow> bool" where
  "covered opts i \<longleftrightarrow> (if ro_crc_on_entire_message opts then i < 42 \<or> 54 \<le> i else i < 46)"

lemma header_fields_at:
  assumes "length d = 54"
  shows "header_fields (blk 0 d) = Inr (unat (get64l (take 8 (drop 46 d))), d ! 0, d ! 1, sint (get32l (take 4 (drop 42 d))))"
proof -
  have pos: "bs_set_pos k (srl LITTLE 0 p d) = (Inr (), srl LITTLE 0 k d)" if "k \<le> 54" for k p
    using that assms by (intro bs_set_pos_srl) simp_all
  have s: "new_serializer LITTLE (blk 0 d) = srl LITTLE 0 0 d" using assms by (simp add: new_serializer_srl)
  have "get_u64 (srl LITTLE 0 46 d) = (Inr (unat (get64l (take 8 (drop 46 d)))), srl LITTLE 0 54 d)"
      "get_u8 (srl LITTLE 0 0 d) = (Inr (d ! 0), srl LITTLE 0 1 d)" "get_u8 (srl LITTLE 0 1 d) = (Inr (d ! 1), srl LITTLE 0 (Suc 1) d)"
      "get_i32 (srl LITTLE 0 42 d) = (Inr (sint (get32l (take 4 (drop 42 d)))), srl LITTLE 0 46 d)"
    using assms by (simp_all add: get_u64_def get_u8_def get_i32_def get_fixed_srl peek_def)
  then show ?thesis
    by (simp add: header_fields_def s pos thn_Inr bnd_Inr RPC_REQ_HEADER_SIZE_def CRC_FLAGS_LEN_def DATA_SIZE_LEN_def)
qed

lemma enc_header_fields:
  assumes "wire_ok opts req"
  shows "unat (get64l (take 8 (drop 46 (enc_header opts req)))) = flags_and_crc (sealed_flags opts req) (sealed_crc opts req)"
    and "sint (get32l (take 4 (drop 42 (enc_header opts req)))) = int (data_len opts req)"
proof -
  have "i32 (int (data_len opts req))" using assms by (simp add: wire_ok_def i32_def)
  from header_fields_enc [OF this flags_and_crc_parts(3), of "fst req" "sealed_flags opts req" "sealed_crc opts req"]
  show "unat (get64l (take 8 (drop 46 (enc_header opts req)))) = flags_and_crc (sealed_flags opts req) (sealed_crc opts req)"
      "sint (get32l (take 4 (drop 42 (enc_header opts req)))) = int (data_len opts req)"
    using header_fields_at [OF enc_req_header(2) [of opts req]] by (simp_all add: enc_header_def)
qed

text \<open>A header that is changed outside its last field and, with the option, outside the length.\<close>

lemma on_header_changed:
  assumes "wire_ok opts req" and "length h = 54" and "drop 46 h = drop 46 (enc_header opts req)"
    and "ro_crc_on_entire_message opts \<longrightarrow> drop 42 h = drop 42 (enc_header opts req)"
    and "ro_crc_on_entire_message opts \<or> crc32_8 (take 46 h) 0 \<noteq> crc32_8 (take 46 (enc_header opts req)) 0"
  shows "(\<exists>se'. on_header (blk 0 h) se = (Stopped True, se')) \<or>
    ro_crc_on_entire_message opts \<and>
    (\<exists>se'. on_header (blk 0 h) se = (if data_len opts req = 0 then Read_Complete else Read_Data (data_len opts req), se') \<and>
       se_crc_header se' = crc32_8 (take 46 h) 0 \<and> se_crc_from_msg se' = sealed_crc opts req \<and> se_flags se' = sealed_flags opts req)"
proof -
  note f = header_fields_at [OF assms(2)]
  have fc: "unat (get64l (take 8 (drop 46 h))) = flags_and_crc (sealed_flags opts req) (sealed_crc opts req)"
    using enc_header_fields(1) [OF assms(1)] assms(3) by simp
  have crc: "sealed_crc opts req = crc32_8 (take 46 (enc_header opts req)) 0" if "\<not> ro_crc_on_entire_message opts"
    using that by (simp add: sealed_crc_def data_len_enc enc_header_def Let_def)
  have p: "payload (blk 0 h) = h" using assms(2) by simp
  show ?thesis
  proof (cases "ro_crc_on_entire_message opts")
    case True
    then have "sint (get32l (take 4 (drop 42 h))) = int (data_len opts req)"
      using enc_header_fields(2) [OF assms(1)] assms(4) by simp
    then show ?thesis
      using True f fc p assms(1)
      by (auto simp: on_header_def RPC_REQ_HEADER_SIZE_def CRC_FLAGS_LEN_def wire_ok_def Let_def)
  next
    case False
    then show ?thesis
      using f fc p crc assms(5) by (simp add: on_header_def RPC_REQ_HEADER_SIZE_def CRC_FLAGS_LEN_def Let_def)
  qed
qed

lemma read_complete_bad_crc:
  assumes "length h = 54" and "has_flag (se_flags se) CRC_ON_ENTIRE_MESSAGE"
    and "(case ctx of Some b \<Rightarrow> crc32_8 (payload b) (se_crc_header se) | None \<Rightarrow> se_crc_header se) \<noteq> se_crc_from_msg se"
  shows "read_complete u opts known (blk 0 h) ctx se = (Stopped True, [], se)"
proof -
  obtain t req n where "header_request (blk 0 h) = Inr (t, req, n)"
    using reads_header(2) [OF assms(1)] by (metis prod.exhaust)
  then show ?thesis using assms(2,3) by (simp add: read_complete_def)
qed

text \<open>A changed message with the data length of the original.\<close>

lemma receive_changed:
  assumes "wire_ok opts req" and "length h = 54" and "drop 46 h = drop 46 (enc_header opts req)"
    and "ro_crc_on_entire_message opts \<longrightarrow> drop 42 h = drop 42 (enc_header opts req)"
    and "length D = data_len opts req"
    and "if ro_crc_on_entire_message opts then crc32_8 (take 46 h @ D) 0 \<noteq> sealed_crc opts req
         else crc32_8 (take 46 h) 0 \<noteq> crc32_8 (take 46 (enc_header opts req)) 0"
  shows "fst (receive u opts' known ((h @ D) @ rest) se) = Stopped True"
proof -
  have "ro_crc_on_entire_message opts \<or> crc32_8 (take 46 h) 0 \<noteq> crc32_8 (take 46 (enc_header opts req)) 0"
    using assms(6) by (simp split: if_splits)
  from on_header_changed [OF assms(1-4) this, of se] show ?thesis
  proof (elim disjE exE conjE)
    fix se'
    assume "on_header (blk 0 h) se = (Stopped True, se')"
    then show ?thesis using assms(2) by (simp add: receive_def RPC_REQ_HEADER_SIZE_def)
  next
    fix se'
    assume e: "ro_crc_on_entire_message opts"
      and oh: "on_header (blk 0 h) se = (if data_len opts req = 0 then Read_Complete else Read_Data (data_len opts req), se')"
      and se': "se_crc_header se' = crc32_8 (take 46 h) 0" "se_crc_from_msg se' = sealed_crc opts req" "se_flags se' = sealed_flags opts req"
    let ?ctx = "if data_len opts req = 0 then None else Some (blk 0 D)"
    have "length D < 2 ^ 31" using assms(1,5) by (simp add: wire_ok_def)
    then have "(case ?ctx of Some b \<Rightarrow> crc32_8 (payload b) (se_crc_header se') | None \<Rightarrow> se_crc_header se') = crc32_8 (take 46 h @ D) 0"
      using se'(1) assms(5) by (cases D) (auto simp: crc32_8_append crc32_8_nil)
    then have "read_complete u opts' known (blk 0 h) ?ctx se' = (Stopped True, [], se')"
      using e se' assms(6) by (intro read_complete_bad_crc [OF assms(2)]) simp_all
    then show ?thesis
      using oh assms(2,5) by (cases "data_len opts req = 0") (simp_all add: receive_def RPC_REQ_HEADER_SIZE_def)
  qed
qed

text \<open>
  When the length of the data was changed, a session that checks the entire message takes some other
  number of bytes for the data. It delivers only if the checksum of what it takes is the one that was sent.
\<close>

lemma receive_other_length:
  assumes "wire_ok opts req" and "length h = 54" and "drop 46 h = drop 46 (enc_header opts req)"
    and e: "ro_crc_on_entire_message opts" and del: "fst (receive u opts' known (h @ D) se) = Deliver q"
  shows "\<exists>n \<le> length D. crc32_8 (take 46 h @ take n D) 0 = sealed_crc opts req"
proof -
  define s1 where "s1 = se\<lparr>se_crc_header := crc32_8 (take 46 h) 0, se_crc_from_msg := sealed_crc opts req, se_flags := sealed_flags opts req\<rparr>"
  have flag: "has_flag (se_flags s1) CRC_ON_ENTIRE_MESSAGE" using e by (simp add: s1_def)
  have "unat (get64l (take 8 (drop 46 h))) = flags_and_crc (sealed_flags opts req) (sealed_crc opts req)"
    using enc_header_fields(1) [OF assms(1)] assms(3) by simp
  then have oh: "(\<exists>b. on_header (blk 0 h) se = (Stopped b, s1)) \<or> on_header (blk 0 h) se = (Read_Complete, s1) \<or>
      (\<exists>n. on_header (blk 0 h) se = (Read_Data n, s1) \<and> n \<le> 2 ^ 30)"
    using header_fields_at [OF assms(2)] assms(2) e
    by (auto simp: on_header_def RPC_REQ_HEADER_SIZE_def CRC_FLAGS_LEN_def s1_def Let_def nat_le_iff)
  have bad: "(case ctx of Some b \<Rightarrow> crc32_8 (payload b) (crc32_8 (take 46 h) 0) | None \<Rightarrow> crc32_8 (take 46 h) 0) = sealed_crc opts req"
    if del: "fst (read_complete u opts' known (blk 0 h) ctx s1) = Deliver q" for ctx
  proof (rule ccontr)
    assume "\<not> ?thesis"
    then have "read_complete u opts' known (blk 0 h) ctx s1 = (Stopped True, [], s1)"
      by (intro read_complete_bad_crc [OF assms(2) flag]) (simp add: s1_def split: option.splits)
    with del show False by simp
  qed
  note rcv = receive_def [unfolded RPC_REQ_HEADER_SIZE_def, simplified]
  show ?thesis
    using oh
  proof (elim disjE exE conjE)
    fix c
    assume "on_header (blk 0 h) se = (Stopped c, s1)"
    then show ?thesis using del assms(2) by (simp add: rcv)
  next
    assume "on_header (blk 0 h) se = (Read_Complete, s1)"
    then have "crc32_8 (take 46 h) 0 = sealed_crc opts req"
      using del assms(2) bad [of None] by (simp add: rcv Let_def case_prod_beta)
    then show ?thesis by (intro exI [of _ 0]) simp
  next
    fix n
    assume n: "on_header (blk 0 h) se = (Read_Data n, s1)" "n \<le> 2 ^ 30"
    then have "n \<le> length D" "fst (read_complete u opts' known (blk 0 h) (Some (blk 0 (take n D))) s1) = Deliver q"
      using del assms(2) by (auto simp: rcv Let_def case_prod_beta split: if_splits)
    moreover have "length (take n D) < 2 ^ 31" using n(2) by simp
    ultimately show ?thesis
      using bad [of "Some (blk 0 (take n D))"] by (intro exI [of _ n]) (simp add: crc32_8_append)
  qed
qed

text \<open>
  C22. A request in which one byte was changed on its way is refused and reported as corrupted: any
  byte of the header before its checksum and, when the sender puts its checksum on the entire
  message, any byte of the data and of the header before the length of the data. The four bytes of the
  length are used before a checksum on the entire message can be computed. If one of those was changed,
  the session may wait for data that does not come, but it delivers a request only if the bytes it took
  for the message have, against all odds, the checksum of the original.
\<close>

theorem corrupted_request_stopped:
  assumes "wire_ok opts req" and "request_buf u opts req = Inr m"
    and "i < length (payload m)" and "b \<noteq> payload m ! i"
  shows "(covered opts i \<longrightarrow> fst (receive u' opts' known ((payload m)[i := b] @ rest) se) = Stopped True) \<and>
    (ro_crc_on_entire_message opts \<and> 42 \<le> i \<and> i < 46 \<and>
       fst (receive u' opts' known ((payload m)[i := b] @ rest) se) = Deliver q \<longrightarrow>
       (\<exists>n \<le> length (drop 54 (payload m) @ rest).
          crc32_8 (take 46 ((payload m)[i := b]) @ take n (drop 54 (payload m) @ rest)) 0 =
          crc32_8 (take 46 (payload m) @ drop 54 (payload m)) 0))"
proof -
  obtain r les where req: "req = (r, les)" by force
  have ok: "\<And>e. e \<in> set les \<Longrightarrow> entry_ok e" "length (enc_data opts req) < 2 ^ 30" "length (enc_data opts req) = data_len opts req"
    using assms(1) by (auto simp: wire_ok_def list_all_iff data_len_enc req)
  let ?h = "enc_header opts req" and ?D = "enc_data opts req"
  have "m = blk 0 (enc_req opts req)"
    using request_buf_blk [OF ok(1) ok(2) [unfolded req]] assms(2) by (simp add: req)
  then have p: "payload m = ?h @ ?D" using ok(2) enc_req_header [of opts req] by simp
  have h: "length ?h = 54" "take 46 ?h = enc_head (fst req) (int (data_len opts req))"
    by (simp_all add: enc_req_header(2)) (simp add: enc_header_def)
  have sealed: "sealed_crc opts req = crc32_8 (take 46 ?h @ ?D) 0" if "ro_crc_on_entire_message opts"
    using that by (simp add: sealed_crc_def data_len_enc crc32_8_append h(2) Let_def)
  have "fst (receive u' opts' known ((payload m)[i := b] @ rest) se) = Stopped True" if cov: "covered opts i"
  proof (cases "i < 54")
    case True
    then have i: "i < 46" "ro_crc_on_entire_message opts \<longrightarrow> i < 42" using cov by (auto simp: covered_def split: if_splits)
    have up: "(payload m)[i := b] = ?h[i := b] @ ?D" using True h(1) by (simp add: p list_update_append)
    have b: "b \<noteq> take 46 ?h ! i" using assms(4) i(1) h(1) by (simp add: p nth_append)
    have "take 46 (?h[i := b]) = (take 46 ?h)[i := b]" "(take 46 ?h)[i := b] @ ?D = (take 46 ?h @ ?D)[i := b]"
      using i(1) h(1) by (simp_all add: take_update_swap list_update_append)
    moreover have "crc32_8 ((take 46 ?h)[i := b]) 0 \<noteq> crc32_8 (take 46 ?h) 0"
      using i(1) h(1) b by (intro crc32_8_update) simp_all
    moreover have "crc32_8 ((take 46 ?h @ ?D)[i := b]) 0 \<noteq> crc32_8 (take 46 ?h @ ?D) 0"
      using i(1) h(1) b by (intro crc32_8_update) (simp_all add: nth_append)
    ultimately show ?thesis
      unfolding up using i h(1) ok(3) sealed
      by (intro receive_changed [OF assms(1)]) (simp_all add: drop_update_cancel)
  next
    case False
    then have e: "ro_crc_on_entire_message opts" using cov by (simp add: covered_def split: if_splits)
    have up: "(payload m)[i := b] = ?h @ ?D[i - 54 := b]" using False h(1) by (simp add: p list_update_append)
    have i: "i - 54 < length ?D" "b \<noteq> ?D ! (i - 54)" using assms(3,4) False h(1) by (simp_all add: p nth_append)
    have "crc32_8 (?D[i - 54 := b]) (crc32_8 (take 46 ?h) 0) \<noteq> crc32_8 ?D (crc32_8 (take 46 ?h) 0)"
      using i by (rule crc32_8_update)
    then show ?thesis
      unfolding up using e h(1) ok(3) sealed by (intro receive_changed [OF assms(1)]) (simp_all add: crc32_8_append)
  qed
  moreover have "\<exists>n \<le> length (?D @ rest). crc32_8 (take 46 (?h[i := b]) @ take n (?D @ rest)) 0 = crc32_8 (take 46 ?h @ ?D) 0"
    if e: "ro_crc_on_entire_message opts" and i: "i < 46"
      and del: "fst (receive u' opts' known ((payload m)[i := b] @ rest) se) = Deliver q"
  proof -
    have up: "(payload m)[i := b] @ rest = ?h[i := b] @ (?D @ rest)" using i h(1) by (simp add: p list_update_append)
    show ?thesis
      using receive_other_length [OF assms(1) _ _ e del [unfolded up]] i h(1) sealed [OF e] by (simp add: drop_update_cancel)
  qed
  moreover have "take 46 ((payload m)[i := b]) = take 46 (?h[i := b])" if "i < 46"
    using that h(1) by (simp add: p list_update_append)
  moreover have "take 46 (payload m) = take 46 ?h" "drop 54 (payload m) = ?D"
    using h(1) by (simp_all add: p)
  ultimately show ?thesis by auto
qed

theorem corrupted_request_stopped_witness:
  "\<exists>m. request_buf (\<lambda>_. 0) sample_opts (sample_req, [sample_log_entry]) = Inr m \<and>
    fst (receive (\<lambda>_. 0) sample_opts 1 ((payload m)[20 := payload m ! 20 + 1] @ []) new_rpc_session) = Stopped True"
proof -
  let ?q = "(sample_req, [sample_log_entry])" and ?m = "blk 0 (enc_req sample_opts (sample_req, [sample_log_entry]))"
  have ok: "entry_ok e" if "e \<in> set [sample_log_entry]" for e
    using sample_wire_ok that by (simp add: wire_ok_def)
  have len: "length (enc_data sample_opts ?q) < 2 ^ 30" using sample_wire_ok by (simp add: wire_ok_def data_len_enc)
  have m: "request_buf (\<lambda>_. 0) sample_opts ?q = Inr ?m" by (rule request_buf_blk [OF ok len])
  moreover have "20 < length (payload ?m)" using len by (simp add: enc_req_def)
  moreover have "covered sample_opts 20" by (simp add: covered_def)
  moreover have "payload ?m ! 20 + 1 \<noteq> payload ?m ! 20" by simp
  ultimately show ?thesis
    using corrupted_request_stopped [OF sample_wire_ok m] by blast
qed

end
