(* ===== verification/Raft_Rpc.thy ===== *)
theory Raft_Rpc
  imports Raft_Wire
begin

text \<open>
  Responses on the wire (\<^verbatim>\<open>rpc_session::on_resp_ready\<close>, \<^verbatim>\<open>xio_rpc_client::response_read\<close> and
  \<^verbatim>\<open>ctx_read\<close> of \<^verbatim>\<open>xio_service.cc\<close>) with their round trip.
\<close>

subsection \<open>Writing a response\<close>

definition resp_meta :: "rpc_options \<Rightarrow> wire_req \<Rightarrow> wire_resp \<Rightarrow> u8 list" where
  "resp_meta opts req resp = (case ro_write_resp_meta opts of None \<Rightarrow> [] | Some f \<Rightarrow> f req resp)"

definition wants_result_code :: "req_msg \<Rightarrow> bool" where
  "wants_result_code req \<longleftrightarrow>
     rq_type req = client_request \<or> rq_type req = add_server_request \<or> rq_type req = remove_server_request"

definition resp_flags :: "u8 list \<Rightarrow> req_msg \<Rightarrow> resp_msg \<Rightarrow> u32" where
  "resp_flags meta req resp =
     add_flag (wants_result_code req) INCLUDE_RESULT_CODE
     (add_flag (rs_self_mark_down resp) MARK_DOWN
     (add_flag (rs_next_batch_size_hint resp \<noteq> 0) INCLUDE_HINT
     (add_flag (meta \<noteq> []) INCLUDE_META 0)))"

definition resp_ctx_size :: "block option \<Rightarrow> int" where
  "resp_ctx_size ctx = (case ctx of Some b \<Rightarrow> to_i32 (int (buf_size b)) | None \<Rightarrow> 0)"

definition carried_data_size :: "u8 list \<Rightarrow> req_msg \<Rightarrow> wire_resp \<Rightarrow> int" where
  "carried_data_size meta req resp =
     (int (meta_size meta) + (if rs_next_batch_size_hint (fst resp) \<noteq> 0 then 2 * 2 + 8 else 0)
        + resp_ctx_size (snd resp) + (if wants_result_code req then 4 else 0)) mod 2 ^ 64"

definition resp_header_puts :: "resp_msg \<Rightarrow> int \<Rightarrow> (serializer, unit) cmd" where
  "resp_header_puts resp data_size =
     thn (put_u8 0x1) (thn (put_u8 (msg_byte (rs_type resp)))
     (thn (put_i32 (rs_src resp)) (thn (put_i32 (rs_dst resp))
     (thn (put_u64 (rs_term resp)) (thn (put_u64 (rs_next_idx resp))
     (thn (put_u8 (if rs_accepted resp then 1 else 0)) (put_i32 data_size)))))))"

definition put_ctx :: "block option \<Rightarrow> (serializer, unit) cmd" where
  "put_ctx ctx =
     (case ctx of
        Some b \<Rightarrow>
          if resp_ctx_size ctx \<noteq> 0
          then (case buf_set_pos 0 b of (Inl e, _) \<Rightarrow> throw e | (Inr _, b) \<Rightarrow> put_buffer b)
          else ret ()
      | None \<Rightarrow> ret ())"

definition resp_data_puts :: "u32 \<Rightarrow> u8 list \<Rightarrow> wire_resp \<Rightarrow> (serializer, unit) cmd" where
  "resp_data_puts flags meta resp =
     thn (put_if (has_flag flags INCLUDE_META) (bs_put_str meta))
     (thn (put_if (has_flag flags INCLUDE_HINT)
             (thn (put_u16 0) (thn (put_u16 8) (put_i64 (rs_next_batch_size_hint (fst resp))))))
     (thn (put_ctx (snd resp))
          (put_if (has_flag flags INCLUDE_RESULT_CODE) (put_i32 (result_int (rs_result_code (fst resp)))))))"

definition resp_puts :: "u8 list \<Rightarrow> req_msg \<Rightarrow> wire_resp \<Rightarrow> (serializer, unit) cmd" where
  "resp_puts meta req resp =
     (let flags = resp_flags meta req (fst resp)
      in thn (resp_header_puts (fst resp) (to_i32 (carried_data_size meta req resp))) (\<lambda>s.
        let crc_val = crc32_8 (take (RPC_RESP_HEADER_SIZE - CRC_FLAGS_LEN) (payload (bs_buf s))) 0
        in thn (put_u64 (flags_and_crc flags crc_val)) (resp_data_puts flags meta resp) s))"

definition response_buf :: "(nat \<Rightarrow> u8) \<Rightarrow> rpc_options \<Rightarrow> wire_req \<Rightarrow> wire_resp \<Rightarrow> cpp_error + block" where
  "response_buf uninit opts req resp =
     (let meta = resp_meta opts req resp;
          len = to_i32 (int RPC_RESP_HEADER_SIZE + carried_data_size meta (fst req) resp)
      in alloc_puts uninit (nat (len mod 2 ^ 64)) (resp_puts meta (fst req) resp))"

subsection \<open>Reading a response\<close>

text \<open>
  What the client does next: it fails the request; it waits for the carried data; it completes the
  request with the response, its context and its result code. A type byte outside the enumeration is
  not refused; such a response is delivered, but to no handler (\<open>Odd_Type\<close>).
\<close>

datatype client_next =
    Fail_Request
  | Read_Ctx nat resp_msg u32
  | Done_Request resp_msg "block option" "int option"
  | Odd_Type u8
  | Escapes cpp_error

definition resp_header :: "block \<Rightarrow> cpp_error + (nat \<times> u8 \<times> resp_msg \<times> int)" where
  "resp_header hdr =
     fst (bnd (thn (bs_set_pos (RPC_RESP_HEADER_SIZE - CRC_FLAGS_LEN)) get_u64) (\<lambda>fc.
          bnd (thn (bs_set_pos 1) get_u8) (\<lambda>t. bnd get_i32 (\<lambda>src. bnd get_i32 (\<lambda>dst.
          bnd get_u64 (\<lambda>term. bnd get_u64 (\<lambda>nxt_idx. bnd get_u8 (\<lambda>accepted_val. bnd get_i32 (\<lambda>data_size.
            ret (fc, t, (new_resp_msg term (case msg_of_byte t of Some ty \<Rightarrow> ty | None \<Rightarrow> ping_response) src dst nxt_idx)
                          \<lparr>rs_accepted := (accepted_val = 1)\<rparr>, data_size)))))))))
       (new_serializer LITTLE hdr))"

definition resp_meta_refused :: "rpc_options \<Rightarrow> wire_req \<Rightarrow> resp_msg \<Rightarrow> u8 list \<Rightarrow> bool" where
  "resp_meta_refused opts req resp meta \<longleftrightarrow>
     (case ro_read_resp_meta opts of
        None \<Rightarrow> False
      | Some f \<Rightarrow> (meta \<noteq> [] \<or> ro_invoke_resp_cb_on_empty_meta opts) \<and> \<not> f req resp meta)"

definition response_read :: "(nat \<Rightarrow> u8) \<Rightarrow> rpc_options \<Rightarrow> wire_req \<Rightarrow> block \<Rightarrow> client_next" where
  "response_read uninit opts req hdr =
     (case resp_header hdr of
        Inl e \<Rightarrow> Escapes e
      | Inr (fc, t, rsp, data_size) \<Rightarrow>
          let flags = flags_part fc
          in if crc32_8 (take (RPC_RESP_HEADER_SIZE - CRC_FLAGS_LEN) (payload hdr)) 0 \<noteq> crc_part fc then Fail_Request
             else if msg_of_byte t = None then Odd_Type t
             else if \<not> has_flag flags INCLUDE_META \<and> resp_meta_refused opts req rsp [] then Fail_Request
             else
               let rsp = rsp\<lparr>rs_self_mark_down := has_flag flags MARK_DOWN\<rparr>
               in if data_size \<noteq> 0
                  then (case buf_alloc uninit (nat (data_size mod 2 ^ 64)) of
                          Inl e \<Rightarrow> Escapes e
                        | Inr _ \<Rightarrow> Read_Ctx (nat (data_size mod 2 ^ 64)) rsp flags)
                  else Done_Request rsp None None)"

text \<open>
  The carried data: the length that remains is a signed number, the length of the context an unsigned
  one. The position of the serializer and both lengths go along.
\<close>

definition read_hint :: "u32 \<Rightarrow> (serializer, int option \<times> nat) cmd" where
  "read_hint flags =
     (if has_flag flags INCLUDE_HINT
      then bnd get_u16 (\<lambda>_. bnd get_u16 (\<lambda>hint_len. bnd get_i64 (\<lambda>h. ret (Some h, 2 * 2 + unat hint_len))))
      else ret (None, 0))"

definition read_ctx :: "(nat \<Rightarrow> u8) \<Rightarrow> nat \<Rightarrow> (serializer, block option) cmd" where
  "read_ctx uninit ctx_len =
     (if ctx_len \<noteq> 0
      then bnd (bnd (lift (buf_alloc uninit ctx_len)) get_buffer) (\<lambda>b. ret (Some b))
      else ret None)"

definition ctx_tail :: "(nat \<Rightarrow> u8) \<Rightarrow> u32 \<Rightarrow> int \<Rightarrow> (serializer, block option \<times> int option) cmd" where
  "ctx_tail uninit flags remaining_len =
     (if remaining_len < 0 then throw Assert_Failure
      else
        let ctx_len = (if has_flag flags INCLUDE_RESULT_CODE then sub64 (nat remaining_len) 4 else nat remaining_len)
        in bnd (read_ctx uninit ctx_len) (\<lambda>ctx.
             if has_flag flags INCLUDE_RESULT_CODE
             then if remaining_len - int ctx_len < 4 then throw Assert_Failure
                  else bnd get_i32 (\<lambda>code. ret (ctx, Some code))
             else ret (ctx, None)))"

definition ctx_read ::
    "(nat \<Rightarrow> u8) \<Rightarrow> rpc_options \<Rightarrow> wire_req \<Rightarrow> resp_msg \<Rightarrow> u32 \<Rightarrow> block \<Rightarrow> client_next" where
  "ctx_read uninit opts req rsp flags ctx_buf =
     (if \<not> has_flag flags INCLUDE_META \<and> \<not> has_flag flags INCLUDE_HINT \<and> \<not> has_flag flags INCLUDE_RESULT_CODE
      then (case buf_set_pos 0 ctx_buf of (Inl e, _) \<Rightarrow> Escapes e | (Inr _, b) \<Rightarrow> Done_Request rsp (Some b) None)
      else
        case get_if (has_flag flags INCLUDE_META) (bnd bs_get_bytes (\<lambda>m. ret (Some m))) None (new_serializer LITTLE ctx_buf) of
          (Inl e, _) \<Rightarrow> Escapes e
        | (Inr meta, s) \<Rightarrow>
            if (case meta of Some m \<Rightarrow> resp_meta_refused opts req rsp m | None \<Rightarrow> False) then Fail_Request
            else
              let used = (case meta of Some m \<Rightarrow> 4 + length m | None \<Rightarrow> 0)
              in case bnd (read_hint flags) (\<lambda>(hint, n).
                        bnd (ctx_tail uninit flags (int (buf_size ctx_buf) - int used - int n)) (\<lambda>(ctx, code).
                          ret (hint, ctx, code))) s of
                   (Inl e, _) \<Rightarrow> Escapes e
                 | (Inr (hint, ctx, code), _) \<Rightarrow>
                     Done_Request (case hint of Some h \<Rightarrow> rsp\<lparr>rs_next_batch_size_hint := h\<rparr> | None \<Rightarrow> rsp) ctx code)"

text \<open>
  A response from the bytes that arrive. A failed read of the header fails the request; the handler
  of the carried data does not look at its error: with fewer bytes than announced it goes on with what
  the rest of the buffer holds.
\<close>

definition receive_resp :: "(nat \<Rightarrow> u8) \<Rightarrow> rpc_options \<Rightarrow> wire_req \<Rightarrow> u8 list \<Rightarrow> client_next \<times> u8 list" where
  "receive_resp uninit opts req bytes =
     (if length bytes < RPC_RESP_HEADER_SIZE then (Fail_Request, [])
      else
        let rest = drop RPC_RESP_HEADER_SIZE bytes
        in case response_read uninit opts req (blk 0 (take RPC_RESP_HEADER_SIZE bytes)) of
             Read_Ctx n rsp flags \<Rightarrow>
               (ctx_read uninit opts req rsp flags (blk 0 (take n rest @ map uninit [length rest ..< n])), drop n rest)
           | next \<Rightarrow> (next, rest))"

subsection \<open>The bytes of a response\<close>

definition ctx_data :: "block option \<Rightarrow> u8 list" where
  "ctx_data ctx = (case ctx of Some b \<Rightarrow> payload b | None \<Rightarrow> [])"

definition enc_resp_head :: "resp_msg \<Rightarrow> int \<Rightarrow> u8 list" where
  "enc_resp_head resp n =
     [1] @ [msg_byte (rs_type resp)] @ bytes_le 4 (rs_src resp) @ bytes_le 4 (rs_dst resp) @ bytes_le 8 (int (rs_term resp))
     @ bytes_le 8 (int (rs_next_idx resp)) @ [if rs_accepted resp then 1 else 0] @ bytes_le 4 n"

definition enc_hint :: "int \<Rightarrow> u8 list" where
  "enc_hint h = (if h \<noteq> 0 then bytes_le 2 0 @ bytes_le 2 8 @ bytes_le 8 h else [])"

definition enc_code :: "req_msg \<Rightarrow> resp_msg \<Rightarrow> u8 list" where
  "enc_code req resp = (if wants_result_code req then bytes_le 4 (result_int (rs_result_code resp)) else [])"

definition enc_carried :: "u8 list \<Rightarrow> req_msg \<Rightarrow> wire_resp \<Rightarrow> u8 list" where
  "enc_carried meta req resp =
     enc_meta meta @ enc_hint (rs_next_batch_size_hint (fst resp)) @ ctx_data (snd resp) @ enc_code req (fst resp)"

definition resp_ok :: "resp_msg \<Rightarrow> bool" where
  "resp_ok resp \<longleftrightarrow> i32 (rs_src resp) \<and> i32 (rs_dst resp) \<and> rs_term resp < 2 ^ 64 \<and> rs_next_idx resp < 2 ^ 64 \<and>
     - (2 ^ 63) \<le> rs_next_batch_size_hint resp \<and> rs_next_batch_size_hint resp < 2 ^ 63 \<and>
     rs_ctx resp = None \<and> \<not> rs_done_ctx resp"

definition ctx_ok :: "block option \<Rightarrow> bool" where
  "ctx_ok ctx \<longleftrightarrow> (case ctx of Some b \<Rightarrow> \<exists>q. b = blk q (payload b) \<and> q \<le> length (payload b) | None \<Rightarrow> True)"

definition wire_resp_ok :: "rpc_options \<Rightarrow> wire_req \<Rightarrow> wire_resp \<Rightarrow> bool" where
  "wire_resp_ok opts req resp \<longleftrightarrow> resp_ok (fst resp) \<and> ctx_ok (snd resp) \<and>
     meta_size (resp_meta opts req resp) + 16 + length (ctx_data (snd resp)) < 2 ^ 30"

lemma length_enc_resp_head [simp]: "length (enc_resp_head resp n) = 31"
  by (simp add: enc_resp_head_def)

lemma resp_flags_bits [simp]:
  "has_flag (resp_flags meta req resp) INCLUDE_META \<longleftrightarrow> meta \<noteq> []"
  "has_flag (resp_flags meta req resp) INCLUDE_HINT \<longleftrightarrow> rs_next_batch_size_hint resp \<noteq> 0"
  "has_flag (resp_flags meta req resp) MARK_DOWN \<longleftrightarrow> rs_self_mark_down resp"
  "has_flag (resp_flags meta req resp) INCLUDE_RESULT_CODE \<longleftrightarrow> wants_result_code req"
  by (simp_all add: resp_flags_def add_flag_def has_flag_def flag_defs)

lemma carried_enc:
  assumes "ctx_ok (snd resp)" and "length (enc_carried meta req resp) < 2 ^ 30"
  shows "carried_data_size meta req resp = int (length (enc_carried meta req resp))"
proof -
  have "resp_ctx_size (snd resp) = int (length (ctx_data (snd resp)))"
  proof (cases "snd resp")
    case (Some b)
    then obtain q where q: "b = blk q (payload b)" "q \<le> length (payload b)" using assms(1) by (auto simp: ctx_ok_def)
    have len: "length (payload b) < 2 ^ 30" using assms(2) Some by (simp add: enc_carried_def ctx_data_def)
    have "buf_size (blk q (payload b)) = length (payload b)" using q(2) len by (simp add: buf_simps)
    then show ?thesis using Some len q(1) by (simp add: resp_ctx_size_def ctx_data_def to_i32_def)
  qed (simp add: resp_ctx_size_def ctx_data_def)
  then show ?thesis
    using assms(2) by (simp add: carried_data_size_def enc_carried_def meta_size_enc enc_hint_def enc_code_def)
qed

lemma emits_u16_le: "emits (srl LITTLE q) (put_u16 w) (bytes_le 2 (uint w))"
  using emits_put_ints(2) [of LITTLE q w] by simp

lemma emits_i64_le: "emits (srl LITTLE q) (put_i64 i) (bytes_le 8 i)"
  using emits_put_ints(8) [of LITTLE q i] by simp

lemma emits_put_ctx:
  assumes "ctx_ok ctx" and "length (ctx_data ctx) < 2 ^ 30"
  shows "emits (srl LITTLE 0) (put_ctx ctx) (ctx_data ctx)"
proof (cases ctx)
  case None
  then show ?thesis using emits_ret [of "srl LITTLE 0"] by (simp add: put_ctx_def ctx_data_def del: ret_simp)
next
  case (Some b)
  let ?d = "payload b"
  obtain q where q: "b = blk q ?d" "q \<le> length ?d" using assms(1) Some by (auto simp: ctx_ok_def)
  have len: "length ?d < 2 ^ 30" using assms(2) Some by (simp add: ctx_data_def)
  have "buf_size (blk q ?d) = length ?d" "buf_set_pos 0 (blk q ?d) = (Inr (), blk 0 ?d)"
    using q(2) len by (simp_all add: buf_simps)
  then have "buf_size b = length ?d" "buf_set_pos 0 b = (Inr (), blk 0 ?d)" using q(1) by simp_all
  then have "put_ctx ctx = (if ?d \<noteq> [] then put_buffer (blk 0 ?d) else ret ())"
    using Some len by (simp add: put_ctx_def resp_ctx_size_def to_i32_def)
  moreover have "emits (srl LITTLE 0) (put_buffer (blk 0 ?d)) ?d" using len by (intro emits_put_buffer) simp
  ultimately show ?thesis
    using Some emits_ret [of "srl LITTLE 0"] by (cases "?d = []") (simp_all add: ctx_data_def del: ret_simp)
qed

lemma emits_resp_data:
  assumes "ctx_ok (snd resp)" and "length (enc_carried meta req resp) < 2 ^ 30"
  shows "emits (srl LITTLE 0) (resp_data_puts (resp_flags meta req (fst resp)) meta resp) (enc_carried meta req resp)"
proof -
  have len: "length (enc_meta meta) < 2 ^ 30" "length (ctx_data (snd resp)) < 2 ^ 30"
    using assms(2) by (simp_all add: enc_carried_def)
  have "emits (srl LITTLE 0) (put_if (meta \<noteq> []) (bs_put_str meta)) (enc_meta meta)"
    using emits_put_if [of "meta \<noteq> []" "srl LITTLE 0" "bs_put_str meta", OF emits_bs_bytes_le [of meta 0, folded bs_put_str_def]] len(1)
    by (cases "meta = []") (auto simp: enc_meta_def)
  moreover have "emits (srl LITTLE 0) (thn (put_u16 0) (thn (put_u16 8) (put_i64 h))) (bytes_le 2 0 @ bytes_le 2 8 @ bytes_le 8 h)" for h
    using emits_thn [OF emits_u16_le [of 0 0] emits_thn [OF emits_u16_le [of 0 8] emits_i64_le [of 0 h]]] by simp
  then have "emits (srl LITTLE 0) (put_if (h \<noteq> 0) (thn (put_u16 0) (thn (put_u16 8) (put_i64 h)))) (enc_hint h)" for h
    unfolding enc_hint_def by (rule emits_put_if)
  moreover have "emits (srl LITTLE 0) (put_if (wants_result_code req) (put_i32 c))
      (if wants_result_code req then bytes_le 4 c else [])" for c
    by (rule emits_put_if) (rule emits_i32_le)
  ultimately show ?thesis
    unfolding resp_data_puts_def enc_carried_def enc_code_def resp_flags_bits
    by (intro emits_thn emits_put_ctx assms(1) len(2))
qed

definition enc_resp_header :: "u8 list \<Rightarrow> req_msg \<Rightarrow> wire_resp \<Rightarrow> u8 list" where
  "enc_resp_header meta req resp =
     (let H = enc_resp_head (fst resp) (int (length (enc_carried meta req resp)))
      in H @ bytes_le 8 (int (flags_and_crc (resp_flags meta req (fst resp)) (crc32_8 H 0))))"

lemma length_enc_resp_header [simp]: "length (enc_resp_header meta req resp) = 39"
  by (simp add: enc_resp_header_def Let_def)

lemma response_buf_blk:
  assumes "ctx_ok (snd resp)" and "length (enc_carried meta (fst req) resp) < 2 ^ 30" and "meta = resp_meta opts req resp"
  shows "response_buf u opts req resp = Inr (blk 0 (enc_resp_header meta (fst req) resp @ enc_carried meta (fst req) resp))"
proof -
  let ?D = "enc_carried meta (fst req) resp"
  let ?H = "enc_resp_head (fst resp) (int (length ?D))" and ?flags = "resp_flags meta (fst req) (fst resp)"
  let ?fc = "bytes_le 8 (int (flags_and_crc ?flags (crc32_8 ?H 0)))"
  have n: "carried_data_size meta (fst req) resp = int (length ?D)" by (rule carried_enc [OF assms(1,2)])
  have i: "to_i32 (int (length ?D)) = int (length ?D)" "to_i32 (int RPC_RESP_HEADER_SIZE + int (length ?D)) = int (39 + length ?D)"
    using assms(2) by (simp_all add: to_i32_def RPC_RESP_HEADER_SIZE_def)
  have nn: "nat (int (39 + length ?D) mod 2 ^ 64) = 39 + length ?D" using assms(2) by (simp add: nat_int_add)
  obtain r where r: "length r = 39 + length ?D" "buf_alloc u (39 + length ?D) = Inr (blk 0 r)"
    by (rule alloc_blk [of "39 + length ?D"]) (use assms(2) in simp_all)
  define r1 r2 r3 where "r1 = take 31 r" and "r2 = take 8 (drop 31 r)" and "r3 = drop 39 r"
  have rs: "r = r1 @ r2 @ r3" "length r1 = 31" "length r2 = 8" "length r3 = length ?D"
    using r(1) append_take_drop_id [of 31 r] append_take_drop_id [of 8 "drop 31 r"] by (simp_all add: r1_def r2_def r3_def)
  have "emits (srl LITTLE 0) (resp_header_puts (fst resp) (int (length ?D))) ?H"
    unfolding resp_header_puts_def enc_resp_head_def by (intro emits_thn emits_put_ints(1) emits_i32_le emits_u64_le)
  from emits_over [OF this, where w = "[]" and old = r1 and r = "r2 @ r3"]
  have head: "resp_header_puts (fst resp) (int (length ?D)) (srl LITTLE 0 0 r) = (Inr (), srl LITTLE 0 31 (?H @ r2 @ r3))"
    using rs assms(2) by simp
  have flags: "put_u64 (flags_and_crc ?flags (crc32_8 ?H 0)) (srl LITTLE 0 31 (?H @ r2 @ r3)) = (Inr (), srl LITTLE 0 39 (?H @ ?fc @ r3))"
    using emits_over [OF emits_u64_le, where w = ?H and old = r2 and r = r3] rs assms(2) by simp
  have body: "resp_data_puts ?flags meta resp (srl LITTLE 0 39 (?H @ ?fc @ r3)) = (Inr (), srl LITTLE 0 (39 + length ?D) (?H @ ?fc @ ?D))"
    using emits_over [OF emits_resp_data [OF assms(1,2)], where w = "?H @ ?fc" and old = r3 and r = "[]"] rs assms(2) by simp
  have "length (?H @ r2 @ r3) < 2 ^ 31" using rs assms(2) by simp
  then have "resp_puts meta (fst req) resp (srl LITTLE 0 0 r) = (Inr (), srl LITTLE 0 (39 + length ?D) (?H @ ?fc @ ?D))"
    unfolding resp_puts_def Let_def n i
    by (simp add: thn_Inr head flags body RPC_RESP_HEADER_SIZE_def CRC_FLAGS_LEN_def)
  then show ?thesis
    unfolding response_buf_def Let_def assms(3) [symmetric] n i nn alloc_puts_def r(2)
    by (simp add: new_serializer_srl enc_resp_header_def Let_def)
qed

subsection \<open>Reading the bytes back\<close>

lemma resp_header_enc:
  assumes "resp_ok resp" and "i32 n" and "fc < 2 ^ 64"
  shows "resp_header (blk 0 (enc_resp_head resp n @ bytes_le 8 (int fc))) =
    Inr (fc, msg_byte (rs_type resp), (new_resp_msg (rs_term resp) (rs_type resp) (rs_src resp) (rs_dst resp) (rs_next_idx resp))
       \<lparr>rs_accepted := rs_accepted resp\<rparr>, n)"
    (is "_ = Inr (fc, ?x)")
proof -
  let ?H = "[msg_byte (rs_type resp)] @ bytes_le 4 (rs_src resp) @ bytes_le 4 (rs_dst resp) @ bytes_le 8 (int (rs_term resp))
     @ bytes_le 8 (int (rs_next_idx resp)) @ [if rs_accepted resp then 1 else 0] @ bytes_le 4 n"
  let ?c = "bnd get_u8 (\<lambda>t. bnd get_i32 (\<lambda>src. bnd get_i32 (\<lambda>dst.
          bnd get_u64 (\<lambda>term. bnd get_u64 (\<lambda>nxt_idx. bnd get_u8 (\<lambda>accepted_val. bnd get_i32 (\<lambda>data_size.
            ret (fc, t, (new_resp_msg term (case msg_of_byte t of Some ty \<Rightarrow> ty | None \<Rightarrow> ping_response) src dst nxt_idx)
                          \<lparr>rs_accepted := (accepted_val = 1)\<rparr>, data_size))))))))"
  let ?d = "enc_resp_head resp n @ bytes_le 8 (int fc)"
  note ok = assms(1) [unfolded resp_ok_def]
  have "parses (srl LITTLE 0) ?c (?H @ []) (fc, ?x)"
    unfolding append_assoc
    by (rule parses_bnd, rule parses_u8, rule parses_bnd, rule parses_i32_le [OF ok [THEN conjunct1]],
        rule parses_bnd, rule parses_i32_le, use ok in blast, rule parses_bnd, rule parses_u64_le, use ok in blast,
        rule parses_bnd, rule parses_u64_le, use ok in blast, rule parses_bnd, rule parses_u8,
        rule parses_bnd, rule parses_i32_le [OF assms(2)])
      (simp add: parses_ret del: ret_simp)
  from parsesD [OF this, of "[1]" "bytes_le 8 (int fc)"]
  have c: "?c (srl LITTLE 0 1 ?d) = (Inr (fc, ?x), srl LITTLE 0 31 ?d)"
    by (simp add: enc_resp_head_def)
  have pos: "bs_set_pos k (srl LITTLE 0 p ?d) = (Inr (), srl LITTLE 0 k ?d)" if "k \<le> 39" for k p
    using that by (intro bs_set_pos_srl) simp_all
  have "get_u64 (srl LITTLE 0 31 ?d) = (Inr fc, srl LITTLE 0 39 ?d)"
    using parsesD [OF parses_u64_le [OF assms(3), of 0], of "enc_resp_head resp n" "[]"] by simp
  then have "bnd (thn (bs_set_pos 31) get_u64) f (srl LITTLE 0 0 ?d) = f fc (srl LITTLE 0 39 ?d)" for f :: "nat \<Rightarrow> (serializer, nat \<times> u8 \<times> resp_msg \<times> int) cmd"
    by (simp add: bnd_Inr thn_Inr pos)
  moreover have "thn (bs_set_pos 1) ?c (srl LITTLE 0 39 ?d) = (Inr (fc, ?x), srl LITTLE 0 31 ?d)"
    using c pos [of 1 39] by (simp only: thn_Inr)
  moreover have "new_serializer LITTLE (blk 0 ?d) = srl LITTLE 0 0 ?d" by (simp add: new_serializer_srl)
  ultimately show ?thesis
    unfolding resp_header_def RPC_RESP_HEADER_SIZE_def CRC_FLAGS_LEN_def by (simp add: thn_bnd)
qed

lemma parses_read_hint:
  assumes "has_flag flags INCLUDE_HINT \<longleftrightarrow> h \<noteq> 0" and "- (2 ^ 63) \<le> h" and "h < 2 ^ 63"
  shows "parses (srl LITTLE 0) (read_hint flags) (enc_hint h) (if h \<noteq> 0 then Some h else None, length (enc_hint h))"
proof (cases "h = 0")
  case True
  then show ?thesis using assms(1) parses_ret [of "srl LITTLE 0"] by (simp add: read_hint_def enc_hint_def del: ret_simp)
next
  case False
  have u16: "parses (srl LITTLE 0) get_u16 (bytes_le 2 (uint w)) w" for w
    using parses_get_ints(2) [of LITTLE 0 w] by simp
  have i64: "parses (srl LITTLE 0) get_i64 (bytes_le 8 h) h"
    using parses_get_ints(8) [OF assms(2,3), of LITTLE 0] by simp
  have "parses (srl LITTLE 0) (bnd get_u16 (\<lambda>_. bnd get_u16 (\<lambda>hint_len. bnd get_i64 (\<lambda>h. ret (Some h, 2 * 2 + unat hint_len)))))
      (bytes_le 2 (uint (0 :: u16)) @ bytes_le 2 (uint (8 :: u16)) @ bytes_le 8 h @ []) (Some h, 2 * 2 + unat (8 :: u16))"
    by (rule parses_bnd, rule u16, rule parses_bnd, rule u16, rule parses_bnd, rule i64) (rule parses_ret)
  then show ?thesis using False assms(1) by (simp add: read_hint_def enc_hint_def)
qed

lemma parses_read_ctx:
  assumes "length d < 2 ^ 30"
  shows "parses (srl LITTLE 0) (read_ctx u (length d)) d (if d = [] then None else Some (blk 0 d))"
proof (cases "d = []")
  case True
  then show ?thesis using parses_ret [of "srl LITTLE 0"] by (simp add: read_ctx_def del: ret_simp)
next
  case False
  obtain r where r: "length r = length d" "buf_alloc u (length d) = Inr (blk 0 r)"
    by (rule alloc_blk [of "length d"]) (use assms in simp_all)
  have "bnd (lift (buf_alloc u (length d))) get_buffer = get_buffer (blk 0 r)"
    unfolding r(2) by (rule ext) (simp add: bnd_def lift_def)
  then show ?thesis
    using False parses_bnd_ret [OF parses_get_buffer [OF r(1)], of 0 Some] assms by (simp add: read_ctx_def)
qed

lemma parses_ctx_tail:
  assumes "length d < 2 ^ 30" and "has_flag flags INCLUDE_RESULT_CODE = wants_result_code req"
  shows "parses (srl LITTLE 0) (ctx_tail u flags (int (length d) + (if wants_result_code req then 4 else 0)))
    (d @ enc_code req resp) (if d = [] then None else Some (blk 0 d),
       if wants_result_code req then Some (result_int (rs_result_code resp)) else None)"
proof (cases "wants_result_code req")
  case True
  let ?ctx = "if d = [] then None else Some (blk 0 d)"
  have sub: "sub64 (nat (int (length d) + 4)) 4 = length d"
    using assms(1) by (simp add: sub64_def nat_add_distrib)
  have "i32 (result_int (rs_result_code resp))" by (cases "rs_result_code resp") (simp_all add: i32_def)
  then have "parses (srl LITTLE 0) (bnd get_i32 (\<lambda>code. ret (?ctx, Some code))) (enc_code req resp)
      (?ctx, Some (result_int (rs_result_code resp)))"
    using parses_bnd_ret [OF parses_i32_le, of _ 0 "\<lambda>code. (?ctx, Some code)"] True by (simp add: enc_code_def)
  then have "parses (srl LITTLE 0) (bnd (read_ctx u (length d)) (\<lambda>ctx. bnd get_i32 (\<lambda>code. ret (ctx, Some code))))
      (d @ enc_code req resp) (?ctx, Some (result_int (rs_result_code resp)))"
    by (rule parses_bnd [OF parses_read_ctx [OF assms(1)]])
  then show ?thesis using True assms(2) sub by (simp add: ctx_tail_def)
next
  case False
  then show ?thesis
    using assms(2) parses_bnd_ret [OF parses_read_ctx [OF assms(1)], of u "\<lambda>ctx. (ctx, None)"]
    by (simp add: ctx_tail_def enc_code_def)
qed

definition delivered_resp :: "req_msg \<Rightarrow> wire_resp \<Rightarrow> client_next" where
  "delivered_resp req resp =
     Done_Request ((fst resp)\<lparr>rs_result_code := Result_OK\<rparr>)
       (if ctx_data (snd resp) = [] then None else Some (blk 0 (ctx_data (snd resp))))
       (if wants_result_code req then Some (result_int (rs_result_code (fst resp))) else None)"

lemma ctx_read_enc:
  assumes "resp_ok (fst resp)" and "length (enc_carried meta req resp) < 2 ^ 30" and "enc_carried meta req resp \<noteq> []"
    and "\<And>r m. \<not> resp_meta_refused opts wreq r m"
    and rsp: "rsp = (fst resp)\<lparr>rs_result_code := Result_OK, rs_next_batch_size_hint := 0\<rparr>"
    and flags: "flags = resp_flags meta req (fst resp)"
  shows "ctx_read u opts wreq rsp flags (blk 0 (enc_carried meta req resp)) = delivered_resp req resp"
proof -
  let ?D = "enc_carried meta req resp" and ?h = "rs_next_batch_size_hint (fst resp)" and ?d = "ctx_data (snd resp)"
  have D: "?D = enc_meta meta @ enc_hint ?h @ ?d @ enc_code req (fst resp)" by (simp add: enc_carried_def)
  have hinted: "(case if ?h \<noteq> 0 then Some ?h else None of Some h \<Rightarrow> rsp\<lparr>rs_next_batch_size_hint := h\<rparr> | None \<Rightarrow> rsp) =
      (fst resp)\<lparr>rs_result_code := Result_OK\<rparr>"
    by (simp add: rsp)
  show ?thesis
  proof (cases "meta = [] \<and> ?h = 0 \<and> \<not> wants_result_code req")
    case True
    then have "?D = ?d" by (simp add: enc_carried_def enc_meta_def enc_hint_def enc_code_def)
    moreover have "buf_set_pos 0 (blk 0 ?D) = (Inr (), blk 0 ?D)" using assms(2) by (simp add: buf_simps)
    ultimately show ?thesis
      using True assms(3) hinted by (simp add: ctx_read_def flags delivered_resp_def)
  next
    case False
    let ?m = "if meta \<noteq> [] then Some meta else None"
    have "parses (srl LITTLE 0) (get_if (meta \<noteq> []) (bnd bs_get_bytes (\<lambda>m. ret (Some m))) None)
        (if meta \<noteq> [] then bytes_le 4 (int (length meta)) @ meta else []) ?m"
    proof (rule parses_get_if)
      assume "meta \<noteq> []"
      then have "length meta < 2 ^ 31" using assms(2) by (simp add: D enc_meta_def)
      then show "parses (srl LITTLE 0) (bnd bs_get_bytes (\<lambda>m. ret (Some m))) (bytes_le 4 (int (length meta)) @ meta) ?m"
        using parses_bnd_ret [OF parses_bs_get_bytes [of meta LITTLE 0], of Some] \<open>meta \<noteq> []\<close> by simp
    qed simp
    moreover have em: "enc_meta meta = (if meta \<noteq> [] then bytes_le 4 (int (length meta)) @ meta else [])"
      by (simp add: enc_meta_def)
    ultimately have "parses (srl LITTLE 0) (get_if (meta \<noteq> []) (bnd bs_get_bytes (\<lambda>m. ret (Some m))) None) (enc_meta meta) ?m"
      by (simp only: em)
    from parsesD [OF this, of "[]" "enc_hint ?h @ ?d @ enc_code req (fst resp)"]
    have meta: "get_if (meta \<noteq> []) (bnd bs_get_bytes (\<lambda>m. ret (Some m))) None (srl LITTLE 0 0 ?D) =
        (Inr ?m, srl LITTLE 0 (length (enc_meta meta)) ?D)"
      using assms(2) by (simp add: D)
    have used: "(case ?m of Some m \<Rightarrow> 4 + length m | None \<Rightarrow> 0) = length (enc_meta meta)" by (simp add: enc_meta_def)
    have rem: "int (length ?D) - int (length (enc_meta meta)) - int (length (enc_hint ?h)) =
        int (length ?d) + (if wants_result_code req then 4 else 0)"
      by (simp add: D enc_code_def)
    have h: "parses (srl LITTLE 0) (read_hint flags) (enc_hint ?h) (if ?h \<noteq> 0 then Some ?h else None, length (enc_hint ?h))"
      using assms(1) by (intro parses_read_hint) (simp_all add: flags resp_ok_def)
    have "length ?d < 2 ^ 30" using assms(2) by (simp add: D)
    then have t: "parses (srl LITTLE 0) (ctx_tail u flags (int (length ?d) + (if wants_result_code req then 4 else 0)))
        (?d @ enc_code req (fst resp)) (if ?d = [] then None else Some (blk 0 ?d),
         if wants_result_code req then Some (result_int (rs_result_code (fst resp))) else None)"
      by (rule parses_ctx_tail) (simp add: flags)
    let ?r = "(if ?h \<noteq> 0 then Some ?h else None, if ?d = [] then None else Some (blk 0 ?d),
         if wants_result_code req then Some (result_int (rs_result_code (fst resp))) else None)"
    let ?f = "\<lambda>(hint, n). bnd (ctx_tail u flags (int (length ?D) - int (length (enc_meta meta)) - int n)) (\<lambda>(ctx, code).
                          ret (hint, ctx, code))"
    have "parses (srl LITTLE 0) (?f (if ?h \<noteq> 0 then Some ?h else None, length (enc_hint ?h))) (?d @ enc_code req (fst resp)) ?r"
      unfolding prod.case rem using parses_bnd_ret [OF t, of "\<lambda>(ctx, code). (if ?h \<noteq> 0 then Some ?h else None, ctx, code)"]
      by (simp only: prod.case_distrib [of ret, symmetric] prod.case) (simp add: case_prod_unfold)
    then have "parses (srl LITTLE 0) (bnd (read_hint flags) ?f) (enc_hint ?h @ ?d @ enc_code req (fst resp)) ?r"
      by (rule parses_bnd [OF h])
    from parsesD [OF this, of "enc_meta meta" "[]"]
    have rest: "bnd (read_hint flags) ?f (srl LITTLE 0 (length (enc_meta meta)) ?D) =
        (Inr ?r, srl LITTLE 0 (length ?D) ?D)"
      using assms(2) by (simp add: D)
    have ns: "new_serializer LITTLE (blk 0 ?D) = srl LITTLE 0 0 ?D" "buf_size (blk 0 ?D) = length ?D"
      using assms(2) by (simp_all add: new_serializer_srl buf_simps)
    have go: "\<not> (\<not> meta \<noteq> [] \<and> \<not> has_flag flags INCLUDE_HINT \<and> \<not> has_flag flags INCLUDE_RESULT_CODE)"
      using False by (simp add: flags)
    have fm: "has_flag flags INCLUDE_META \<longleftrightarrow> meta \<noteq> []" by (simp add: flags)
    have nm: "\<not> (case ?m of Some m \<Rightarrow> resp_meta_refused opts wreq rsp m | None \<Rightarrow> False)"
      using assms(4) by simp
    show ?thesis
      unfolding ctx_read_def fm if_not_P [OF go] ns meta prod.case sum.case if_not_P [OF nm] Let_def used rest hinted
      by (simp add: delivered_resp_def)
  qed
qed

text \<open>
  C23. A response that a session writes arrives as it was sent: the client takes exactly its bytes and
  completes its request with the same response, the context, the size hint and, for the requests that
  ask for it, the result code. The receiver does not refuse meta strings and the message fits into
  1 GB.
\<close>

theorem wire_response_roundtrip:
  assumes "wire_resp_ok opts req resp" and "\<And>r m. \<not> resp_meta_refused opts' req r m"
  shows "\<exists>m. response_buf u opts req resp = Inr m \<and>
    receive_resp u' opts' req (payload m @ rest) = (delivered_resp (fst req) resp, rest)"
proof -
  define meta where "meta = resp_meta opts req resp"
  let ?D = "enc_carried meta (fst req) resp" and ?h = "enc_resp_header meta (fst req) resp"
  let ?rsp = "(fst resp)\<lparr>rs_result_code := Result_OK, rs_next_batch_size_hint := 0\<rparr>"
  let ?flags = "resp_flags meta (fst req) (fst resp)"
  have ok: "resp_ok (fst resp)" "ctx_ok (snd resp)" and len: "length ?D < 2 ^ 30"
    using assms(1) by (auto simp: wire_resp_ok_def enc_carried_def meta_def meta_size_enc enc_hint_def enc_code_def)
  have m: "response_buf u opts req resp = Inr (blk 0 (?h @ ?D))" by (rule response_buf_blk [OF ok(2) len meta_def])
  have p: "payload (blk 0 (?h @ ?D)) = ?h @ ?D" using len by simp
  let ?H = "enc_resp_head (fst resp) (int (length ?D))"
  have "i32 (int (length ?D))" using len by (simp add: i32_def)
  from resp_header_enc [OF ok(1) this flags_and_crc_parts(3)]
  have hd: "resp_header (blk 0 ?h) = Inr (flags_and_crc ?flags (crc32_8 ?H 0), msg_byte (rs_type (fst resp)),
      (new_resp_msg (rs_term (fst resp)) (rs_type (fst resp)) (rs_src (fst resp)) (rs_dst (fst resp)) (rs_next_idx (fst resp)))
       \<lparr>rs_accepted := rs_accepted (fst resp)\<rparr>, int (length ?D))"
    by (simp add: enc_resp_header_def Let_def)
  have rsp: "(new_resp_msg (rs_term (fst resp)) (rs_type (fst resp)) (rs_src (fst resp)) (rs_dst (fst resp)) (rs_next_idx (fst resp)))
       \<lparr>rs_accepted := rs_accepted (fst resp), rs_self_mark_down := rs_self_mark_down (fst resp)\<rparr> = ?rsp"
    using ok(1) by (cases "fst resp") (simp add: new_resp_msg_def resp_ok_def)
  have t: "take 31 ?h = ?H" by (simp add: enc_resp_header_def Let_def)
  obtain b where b: "buf_alloc u' (length ?D) = Inr b" by (rule alloc_blk [of "length ?D"]) (use len in simp_all)
  have rr: "response_read u' opts' req (blk 0 ?h) = (if ?D = [] then Done_Request ?rsp None None else Read_Ctx (length ?D) ?rsp ?flags)"
    using hd t assms(2) b rsp len
    by (simp add: response_read_def RPC_RESP_HEADER_SIZE_def CRC_FLAGS_LEN_def Let_def)
  have "receive_resp u' opts' req ((?h @ ?D) @ rest) = (delivered_resp (fst req) resp, rest)"
  proof (cases "?D = []")
    case True
    then have "ctx_data (snd resp) = []" "\<not> wants_result_code (fst req)" "rs_next_batch_size_hint (fst resp) = 0"
      by (auto simp: enc_carried_def enc_code_def enc_hint_def split: if_splits dest: arg_cong [where f = length])
    then show ?thesis
      using True rr by (simp add: receive_resp_def RPC_RESP_HEADER_SIZE_def delivered_resp_def)
  next
    case False
    then show ?thesis
      using rr ctx_read_enc [OF ok(1) len False assms(2) refl refl, of u']
      by (simp add: receive_resp_def RPC_RESP_HEADER_SIZE_def)
  qed
  then show ?thesis using m p by auto
qed

definition sample_resp :: resp_msg where
  "sample_resp = (new_resp_msg 3 append_entries_response 2 1 12)
     \<lparr>rs_accepted := True, rs_next_batch_size_hint := 4096, rs_self_mark_down := True\<rparr>"

theorem wire_response_roundtrip_witness:
  "\<exists>m. response_buf (\<lambda>_. 0) sample_opts (sample_req, []) (sample_resp, Some (blk 0 [1, 2])) = Inr m \<and>
    receive_resp (\<lambda>_. 0) sample_opts (sample_req, []) (payload m @ [9]) =
      (Done_Request sample_resp (Some (blk 0 [1, 2])) None, [9])"
proof -
  have "wire_resp_ok sample_opts (sample_req, []) (sample_resp, Some (blk 0 [1, 2]))"
    by (auto simp: wire_resp_ok_def resp_ok_def sample_resp_def new_resp_msg_def i32_def ctx_ok_def ctx_data_def
        resp_meta_def sample_opts_def meta_size_def)
  from wire_response_roundtrip [OF this, of sample_opts] show ?thesis
    by (simp add: delivered_resp_def ctx_data_def wants_result_code_def sample_req_def sample_resp_def new_req_msg_def
        new_resp_msg_def resp_meta_refused_def sample_opts_def)
qed

text \<open>
  A connection that breaks in the data of a response: the client still completes the request, with a
  context of the announced length whose end is what the fresh buffer held.
\<close>

lemma truncated_response_completes:
  assumes "response_read u opts req (blk 0 h) = Read_Ctx n rsp 0" and "length h = RPC_RESP_HEADER_SIZE"
    and "length part < n" and "n < 2 ^ 31"
  shows "receive_resp u opts req (h @ part) = (Done_Request rsp (Some (blk 0 (part @ map u [length part ..< n]))) None, [])"
proof -
  let ?d = "part @ map u [length part ..< n]"
  have "length ?d < 2 ^ 31" using assms(3,4) by simp
  then have "buf_set_pos 0 (blk 0 ?d) = (Inr (), blk 0 ?d)" by (simp add: buf_simps)
  then show ?thesis
    using assms by (simp add: receive_resp_def ctx_read_def has_flag_def)
qed

end
