(* ===== verification/Raft_Client.thy ===== *)
theory Raft_Client
  imports Raft_Rpc "HOL-Library.Multiset"
begin

text \<open>
  The client of a connection (\<^verbatim>\<open>xio_rpc_client\<close> of \<^verbatim>\<open>xio_service.cc\<close>): connecting, retrying, sending one
  request at a time or streaming them, and completing each request by a call of its \<^verbatim>\<open>when_done\<close>.
  The requests are of any type; what is written and read for them is the subject of \<^verbatim>\<open>Raft_Wire\<close> and
  \<^verbatim>\<open>Raft_Rpc\<close>.
\<close>

subsection \<open>State\<close>

text \<open>The operations the client waits for, and what completes a request.\<close>

datatype 'r client_op =
    Op_Resolve 'r | Op_Connect 'r | Op_Handshake 'r | Op_Retry 'r | Op_Write 'r | Op_Read 'r

datatype completion = With_Response | With_Error

record 'r rpc_client =
  rc_streaming_mode :: bool
  rc_ssl_enabled :: bool
  rc_socket_open :: bool
  rc_attempting_conn :: bool
  rc_ssl_ready :: bool
  rc_num_send_fails :: nat
  rc_abandoned :: bool
  rc_socket_busy :: bool
  rc_pending_read_reqs :: "'r list"
  rc_pending_write_reqs :: "'r list"
  rc_ops :: "'r client_op list"
  rc_done :: "('r \<times> completion) list"
  rc_assert_failed :: bool

definition new_rpc_client :: "bool \<Rightarrow> bool \<Rightarrow> 'r rpc_client" where
  "new_rpc_client streaming_mode ssl_enabled =
     \<lparr>rc_streaming_mode = streaming_mode, rc_ssl_enabled = ssl_enabled, rc_socket_open = False,
      rc_attempting_conn = False, rc_ssl_ready = False, rc_num_send_fails = 0, rc_abandoned = False,
      rc_socket_busy = False, rc_pending_read_reqs = [], rc_pending_write_reqs = [], rc_ops = [], rc_done = [],
      rc_assert_failed = False\<rparr>"

definition SEND_RETRY_MAX :: nat where "SEND_RETRY_MAX = 6"

definition start_op :: "'r client_op \<Rightarrow> 'r rpc_client \<Rightarrow> 'r rpc_client" where
  "start_op op c = c\<lparr>rc_ops := rc_ops c @ [op]\<rparr>"

definition when_done :: "'r \<Rightarrow> completion \<Rightarrow> 'r rpc_client \<Rightarrow> 'r rpc_client" where
  "when_done req res c = c\<lparr>rc_done := rc_done c @ [(req, res)]\<rparr>"

subsection \<open>Failing\<close>

definition cancel_pending_requests :: "'r list \<Rightarrow> 'r rpc_client \<Rightarrow> 'r rpc_client" where
  "cancel_pending_requests reqs_to_cancel c = fold (\<lambda>req. when_done req With_Error) reqs_to_cancel c"

text \<open>The socket itself stays open; in streaming mode all requests are completed, the oldest first.\<close>

definition close_socket :: "'r rpc_client \<Rightarrow> 'r rpc_client" where
  "close_socket c =
     (if \<not> rc_streaming_mode c then c
      else
        let c = cancel_pending_requests (rc_pending_read_reqs c) (c\<lparr>rc_pending_read_reqs := []\<rparr>)
        in cancel_pending_requests (rc_pending_write_reqs c) (c\<lparr>rc_pending_write_reqs := []\<rparr>))"

definition handle_error :: "'r \<Rightarrow> 'r rpc_client \<Rightarrow> 'r rpc_client" where
  "handle_error req c =
     (let c = close_socket c in if \<not> rc_streaming_mode c then when_done req With_Error c else c)"

definition abandon :: "'r \<Rightarrow> 'r rpc_client \<Rightarrow> 'r rpc_client" where
  "abandon req c = handle_error req (c\<lparr>rc_abandoned := True\<rparr>)"

definition set_busy_flag :: "bool \<Rightarrow> 'r rpc_client \<Rightarrow> 'r rpc_client" where
  "set_busy_flag to c =
     (if rc_streaming_mode c then c
      else if rc_socket_busy c = to then c\<lparr>rc_assert_failed := True\<rparr>
      else c\<lparr>rc_socket_busy := to\<rparr>)"

subsection \<open>Sending\<close>

text \<open>
  The steps of \<^verbatim>\<open>register_req_send\<close> up to the write. The socket opens when the connection is attempted,
  so a second thread that finds it open after it has won the race does not exist here.
\<close>

definition register_req_send :: "'r \<Rightarrow> 'r rpc_client \<Rightarrow> 'r rpc_client" where
  "register_req_send req c =
     (if rc_abandoned c then handle_error req c
      else if \<not> rc_socket_open c
      then if rc_attempting_conn c
           then start_op (Op_Retry req) (c\<lparr>rc_num_send_fails := rc_num_send_fails c + 1\<rparr>)
           else start_op (Op_Resolve req) (c\<lparr>rc_attempting_conn := True\<rparr>)
      else if rc_ssl_enabled c \<and> \<not> rc_ssl_ready c
      then start_op (Op_Retry req) (c\<lparr>rc_num_send_fails := rc_num_send_fails c + 1\<rparr>)
      else start_op (Op_Write req) ((set_busy_flag True c)\<lparr>rc_num_send_fails := 0\<rparr>))"

definition pre_send :: "'r \<Rightarrow> 'r rpc_client \<Rightarrow> 'r rpc_client" where
  "pre_send req c =
     (let c = c\<lparr>rc_pending_write_reqs := rc_pending_write_reqs c @ [req]\<rparr>
      in if length (rc_pending_write_reqs c) = 1 then register_req_send req c else c)"

definition client_send :: "'r \<Rightarrow> 'r rpc_client \<Rightarrow> 'r rpc_client" where
  "client_send req c = (if rc_streaming_mode c then pre_send req c else register_req_send req c)"

definition send_retry :: "'r \<Rightarrow> bool \<Rightarrow> 'r rpc_client \<Rightarrow> 'r rpc_client" where
  "send_retry req err c =
     (if err \<or> rc_num_send_fails c \<ge> SEND_RETRY_MAX then abandon req c else register_req_send req c)"

text \<open>The answer of the resolver; with endpoints, the socket opens and connects.\<close>

definition resolved :: "'r \<Rightarrow> bool \<Rightarrow> 'r rpc_client \<Rightarrow> 'r rpc_client" where
  "resolved req err c =
     (if \<not> err then start_op (Op_Connect req) (c\<lparr>rc_socket_open := True\<rparr>) else handle_error req c)"

definition client_connected :: "'r \<Rightarrow> bool \<Rightarrow> 'r rpc_client \<Rightarrow> 'r rpc_client" where
  "client_connected req err c =
     (if \<not> err
      then if rc_ssl_enabled c then start_op (Op_Handshake req) c else register_req_send req c
      else abandon req c)"

definition handle_handshake :: "'r \<Rightarrow> bool \<Rightarrow> 'r rpc_client \<Rightarrow> 'r rpc_client" where
  "handle_handshake req err c =
     (if \<not> err then register_req_send req (c\<lparr>rc_ssl_ready := True\<rparr>) else abandon req c)"

text \<open>A timeout of an operation cancels what the socket waits for.\<close>

definition cancel_socket :: "bool \<Rightarrow> 'r rpc_client \<Rightarrow> 'r rpc_client" where
  "cancel_socket err c = (if \<not> err \<and> rc_socket_open c then c\<lparr>rc_abandoned := True\<rparr> else c)"

subsection \<open>Queues of the streaming mode\<close>

definition post_send :: "'r \<Rightarrow> 'r rpc_client \<Rightarrow> 'r rpc_client" where
  "post_send req c =
     (let c = c\<lparr>rc_pending_read_reqs := rc_pending_read_reqs c @ [req]\<rparr>;
          c = (if length (rc_pending_read_reqs c) = 1 then start_op (Op_Read req) c else c);
          c = c\<lparr>rc_pending_write_reqs := tl (rc_pending_write_reqs c)\<rparr>
      in case rc_pending_write_reqs c of
           [] \<Rightarrow> c
         | next_req # _ \<Rightarrow> register_req_send next_req c)"

definition post_read :: "'r rpc_client \<Rightarrow> 'r rpc_client" where
  "post_read c =
     (if \<not> rc_streaming_mode c then c
      else
        let c = c\<lparr>rc_pending_read_reqs := tl (rc_pending_read_reqs c)\<rparr>
        in case rc_pending_read_reqs c of
             [] \<Rightarrow> c
           | next_req # _ \<Rightarrow> start_op (Op_Read next_req) c)"

definition sent :: "'r \<Rightarrow> bool \<Rightarrow> 'r rpc_client \<Rightarrow> 'r rpc_client" where
  "sent req err c =
     (if \<not> err
      then if rc_streaming_mode c then post_send req c else start_op (Op_Read req) c
      else abandon req c)"

text \<open>
  What reading a response leads to: an error of the socket abandons the client; a response that fails
  its checks fails the request only; otherwise the request is completed.
\<close>

datatype read_result = Read_Failed | Read_Refused | Read_Ok

definition response_done :: "'r \<Rightarrow> read_result \<Rightarrow> 'r rpc_client \<Rightarrow> 'r rpc_client" where
  "response_done req res c =
     (case res of
        Read_Failed \<Rightarrow> abandon req c
      | Read_Refused \<Rightarrow> handle_error req c
      | Read_Ok \<Rightarrow> post_read (when_done req With_Response (set_busy_flag False c)))"

subsection \<open>Runs\<close>

text \<open>
  One step of a client: a request is sent, or an operation it waits for ends. The list of the
  requests sent so far is the history.
\<close>

inductive client_step :: "'r rpc_client \<times> 'r list \<Rightarrow> 'r rpc_client \<times> 'r list \<Rightarrow> bool" where
  cs_send: "client_step (c, h) (client_send req c, h @ [req])"
| cs_resolve: "rc_ops c = xs @ Op_Resolve req # ys \<Longrightarrow> client_step (c, h) (resolved req err (c\<lparr>rc_ops := xs @ ys\<rparr>), h)"
| cs_connect: "rc_ops c = xs @ Op_Connect req # ys \<Longrightarrow> client_step (c, h) (client_connected req err (c\<lparr>rc_ops := xs @ ys\<rparr>), h)"
| cs_handshake: "rc_ops c = xs @ Op_Handshake req # ys \<Longrightarrow> client_step (c, h) (handle_handshake req err (c\<lparr>rc_ops := xs @ ys\<rparr>), h)"
| cs_retry: "rc_ops c = xs @ Op_Retry req # ys \<Longrightarrow> client_step (c, h) (send_retry req err (c\<lparr>rc_ops := xs @ ys\<rparr>), h)"
| cs_write: "rc_ops c = xs @ Op_Write req # ys \<Longrightarrow> client_step (c, h) (sent req err (c\<lparr>rc_ops := xs @ ys\<rparr>), h)"
| cs_read: "rc_ops c = xs @ Op_Read req # ys \<Longrightarrow> client_step (c, h) (response_done req res (c\<lparr>rc_ops := xs @ ys\<rparr>), h)"
| cs_timeout: "client_step (c, h) (cancel_socket err c, h)"

text \<open>No request has been completed with an error.\<close>

definition healthy :: "'r rpc_client \<Rightarrow> bool" where
  "healthy c \<longleftrightarrow> (\<forall>(req, res) \<in> set (rc_done c). res = With_Response)"

subsection \<open>Streaming in order\<close>

definition unanswered :: "'r rpc_client \<Rightarrow> 'r list" where
  "unanswered c = rc_pending_read_reqs c @ rc_pending_write_reqs c"

fun send_op :: "'r client_op \<Rightarrow> 'r option" where
  "send_op (Op_Resolve req) = Some req"
| "send_op (Op_Connect req) = Some req"
| "send_op (Op_Handshake req) = Some req"
| "send_op (Op_Retry req) = Some req"
| "send_op (Op_Write req) = Some req"
| "send_op (Op_Read req) = None"

definition read_ops :: "'r rpc_client \<Rightarrow> 'r client_op multiset" where
  "read_ops c = (case rc_pending_read_reqs c of [] \<Rightarrow> {#} | req # _ \<Rightarrow> {#Op_Read req#})"

text \<open>
  The client waits for the response to the oldest request that was written and is busy sending the
  oldest of the others (\<open>sending\<close>), or about to (\<open>ready\<close>).
\<close>

definition in_order :: "'r rpc_client \<Rightarrow> 'r list \<Rightarrow> bool" where
  "in_order c h \<longleftrightarrow> rc_streaming_mode c \<and> healthy c \<and> map fst (rc_done c) @ unanswered c = h"

definition ready :: "'r rpc_client \<Rightarrow> 'r list \<Rightarrow> bool" where
  "ready c h \<longleftrightarrow> in_order c h \<and> mset (rc_ops c) = read_ops c"

definition sending :: "'r rpc_client \<Rightarrow> 'r list \<Rightarrow> bool" where
  "sending c h \<longleftrightarrow> in_order c h \<and>
     (case rc_pending_write_reqs c of
        [] \<Rightarrow> mset (rc_ops c) = read_ops c
      | req # _ \<Rightarrow> \<exists>op. send_op op = Some req \<and> mset (rc_ops c) = add_mset op (read_ops c))"

text \<open>A client that has failed has completed everything.\<close>

definition failed :: "'r rpc_client \<Rightarrow> 'r list \<Rightarrow> bool" where
  "failed c h \<longleftrightarrow> \<not> healthy c \<and> map fst (rc_done c) = h \<and> unanswered c = []"

lemma cancel_pending_requests_eq:
  "cancel_pending_requests rs c = c\<lparr>rc_done := rc_done c @ map (\<lambda>r. (r, With_Error)) rs\<rparr>"
  unfolding cancel_pending_requests_def
  by (induction rs arbitrary: c) (simp_all add: when_done_def)

lemma handle_error_failed:
  assumes "rc_streaming_mode c" and "map fst (rc_done c) @ unanswered c = h" and "unanswered c \<noteq> []"
  shows "failed (handle_error req c) h"
  using assms
  by (cases "rc_pending_read_reqs c"; cases "rc_pending_write_reqs c")
    (auto simp: handle_error_def close_socket_def cancel_pending_requests_eq failed_def unanswered_def healthy_def Let_def comp_def)

lemma abandon_failed:
  assumes "rc_streaming_mode c" and "map fst (rc_done c) @ unanswered c = h" and "unanswered c \<noteq> []"
  shows "failed (abandon req c) h"
  unfolding abandon_def by (rule handle_error_failed) (use assms in \<open>simp_all add: unanswered_def\<close>)

lemma register_req_send_sending:
  assumes "ready c h" and "rc_pending_write_reqs c = req # rs"
  shows "sending (register_req_send req c) h \<or> failed (register_req_send req c) h"
proof (cases "rc_abandoned c")
  case True
  then show ?thesis
    using assms handle_error_failed [of c h req] by (simp add: register_req_send_def ready_def in_order_def unanswered_def)
next
  case False
  then show ?thesis
    using assms
    by (auto simp: register_req_send_def start_op_def set_busy_flag_def ready_def sending_def in_order_def unanswered_def
        read_ops_def healthy_def)
qed

lemma take_op:
  assumes "sending c h" and "rc_ops c = xs @ op # ys"
  shows "send_op op = Some req \<Longrightarrow> ready (c\<lparr>rc_ops := xs @ ys\<rparr>) h \<and> (\<exists>rs. rc_pending_write_reqs c = req # rs)"
    and "op = Op_Read req \<Longrightarrow> \<exists>rs. rc_pending_read_reqs c = req # rs \<and> in_order c h \<and>
      (case rc_pending_write_reqs c of
        [] \<Rightarrow> xs @ ys = []
      | w # _ \<Rightarrow> \<exists>op. send_op op = Some w \<and> xs @ ys = [op])"
proof -
  have ops: "mset (rc_ops c) = add_mset op (mset (xs @ ys))" using assms(2) by simp
  have r: "send_op x = None" if "x \<in># read_ops c" for x
    using that by (auto simp: read_ops_def split: list.splits)
  show "send_op op = Some req \<Longrightarrow> ready (c\<lparr>rc_ops := xs @ ys\<rparr>) h \<and> (\<exists>rs. rc_pending_write_reqs c = req # rs)"
  proof (cases "rc_pending_write_reqs c")
    case Nil
    assume "send_op op = Some req"
    moreover have "mset (rc_ops c) = read_ops c" using assms(1) Nil by (simp add: sending_def)
    then have "op \<in># read_ops c" using ops by (simp flip: \<open>mset (rc_ops c) = read_ops c\<close>)
    ultimately show ?thesis using r [of op] by simp
  next
    case (Cons w ws)
    assume op: "send_op op = Some req"
    obtain op' where op': "send_op op' = Some w" "mset (rc_ops c) = add_mset op' (read_ops c)"
      using assms(1) Cons by (auto simp: sending_def)
    have "op = op' \<and> mset (xs @ ys) = read_ops c"
      using op r [of op] ops op'(2) by (auto simp: add_eq_conv_ex)
    then show ?thesis
      using assms(1) op op'(1) Cons by (auto simp: ready_def sending_def in_order_def unanswered_def healthy_def read_ops_def)
  qed
  show "op = Op_Read req \<Longrightarrow> \<exists>rs. rc_pending_read_reqs c = req # rs \<and> in_order c h \<and>
      (case rc_pending_write_reqs c of
        [] \<Rightarrow> xs @ ys = []
      | w # _ \<Rightarrow> \<exists>op. send_op op = Some w \<and> xs @ ys = [op])"
  proof -
    assume op: "op = Op_Read req"
    show ?thesis
    proof (cases "rc_pending_write_reqs c")
      case Nil
      then have "mset (rc_ops c) = read_ops c" using assms(1) by (simp add: sending_def)
      then show ?thesis
        using assms(1) ops op Nil by (auto simp: sending_def read_ops_def split: list.splits)
    next
      case (Cons w ws)
      obtain op' where op': "send_op op' = Some w" "mset (rc_ops c) = add_mset op' (read_ops c)"
        using assms(1) Cons by (auto simp: sending_def)
      have "op \<noteq> op'" using op op'(1) by auto
      then have "op \<in># read_ops c" using ops op'(2) by (auto simp: add_eq_conv_ex)
      then obtain rs where rs: "rc_pending_read_reqs c = req # rs" "read_ops c = {#op#}"
        using op by (auto simp: read_ops_def split: list.splits)
      then have "mset (xs @ ys) = {#op'#}" using ops op'(2) by (simp add: add_mset_commute)
      then have "xs @ ys = [op']" unfolding mset_single_iff .
      then show ?thesis using assms(1) rs(1) op'(1) Cons by (simp add: sending_def)
    qed
  qed
qed

lemma ready_unanswered:
  assumes "ready c h" and "rc_pending_write_reqs c = req # rs"
  shows "rc_streaming_mode c" "map fst (rc_done c) @ unanswered c = h" "unanswered c \<noteq> []"
  using assms by (simp_all add: ready_def in_order_def unanswered_def)

lemma start_op_sending:
  assumes "ready c h" and "rc_pending_write_reqs c = req # rs" and "send_op op = Some req"
  shows "sending (start_op op c) h"
  using assms
  by (auto simp: ready_def sending_def start_op_def in_order_def unanswered_def read_ops_def healthy_def)

lemma ready_fields:
  "ready (c\<lparr>rc_socket_open := b\<rparr>) h = ready c h" "ready (c\<lparr>rc_ssl_ready := b\<rparr>) h = ready c h"
  by (simp_all add: ready_def in_order_def unanswered_def read_ops_def healthy_def)

lemma pre_send_keeps:
  assumes "sending c h"
  shows "sending (pre_send req c) (h @ [req]) \<or> failed (pre_send req c) (h @ [req])"
proof -
  let ?c = "c\<lparr>rc_pending_write_reqs := rc_pending_write_reqs c @ [req]\<rparr>"
  show ?thesis
  proof (cases "rc_pending_write_reqs c")
    case Nil
    then have "ready ?c (h @ [req])"
      using assms by (auto simp: sending_def ready_def in_order_def unanswered_def read_ops_def healthy_def)
    then show ?thesis
      using register_req_send_sending [of ?c "h @ [req]" req] Nil by (simp add: pre_send_def Let_def)
  next
    case (Cons w ws)
    then have "sending ?c (h @ [req])"
      using assms by (auto simp: sending_def in_order_def unanswered_def read_ops_def healthy_def)
    then show ?thesis using Cons by (simp add: pre_send_def Let_def)
  qed
qed

lemma post_send_keeps:
  assumes "ready c h" and "rc_pending_write_reqs c = req # rs"
  shows "sending (post_send req c) h \<or> failed (post_send req c) h"
proof -
  define d where "d = c\<lparr>rc_pending_read_reqs := rc_pending_read_reqs c @ [req]\<rparr>"
  define e where "e = (if length (rc_pending_read_reqs d) = 1 then start_op (Op_Read req) d else d)\<lparr>rc_pending_write_reqs := rs\<rparr>"
  have "ready e h"
    using assms by (cases "rc_pending_read_reqs c")
      (auto simp: e_def d_def ready_def start_op_def in_order_def unanswered_def read_ops_def healthy_def)
  moreover have pw: "rc_pending_write_reqs e = rs" by (simp add: e_def)
  moreover have "post_send req c = (case rs of [] \<Rightarrow> e | w # _ \<Rightarrow> register_req_send w e)"
    using assms(2) by (cases rs; cases "rc_pending_read_reqs c") (simp_all add: post_send_def Let_def e_def d_def start_op_def)
  ultimately show ?thesis
    using register_req_send_sending [of e h] by (cases rs) (simp_all add: ready_def sending_def)
qed

lemma response_done_keeps:
  assumes "sending c h" and "rc_ops c = xs @ Op_Read req # ys"
  shows "sending (response_done req res (c\<lparr>rc_ops := xs @ ys\<rparr>)) h \<or> failed (response_done req res (c\<lparr>rc_ops := xs @ ys\<rparr>)) h"
proof -
  define zs where "zs = xs @ ys"
  let ?c = "c\<lparr>rc_ops := zs\<rparr>"
  obtain rs where rs: "rc_pending_read_reqs c = req # rs" "in_order c h"
      "case rc_pending_write_reqs c of [] \<Rightarrow> zs = [] | w # _ \<Rightarrow> \<exists>op. send_op op = Some w \<and> zs = [op]"
    using take_op(2) [OF assms refl] unfolding zs_def by blast
  then have q: "rc_streaming_mode ?c" "map fst (rc_done ?c) @ unanswered ?c = h" "unanswered ?c \<noteq> []"
    by (simp_all add: in_order_def unanswered_def)
  have "sending (response_done req res ?c) h \<or> failed (response_done req res ?c) h" (is ?goal)
  proof (cases res)
    case Read_Failed
    then show ?goal using abandon_failed [OF q] by (simp add: response_done_def)
  next
    case Read_Refused
    then show ?goal using handle_error_failed [OF q] by (simp add: response_done_def)
  next
    case Read_Ok
    have "sending (post_read (when_done req With_Response (set_busy_flag False ?c))) h"
      using rs
      by (cases rs; cases "rc_pending_write_reqs c")
        (auto simp: post_read_def when_done_def set_busy_flag_def start_op_def sending_def in_order_def unanswered_def
          read_ops_def healthy_def Let_def)
    then show ?goal using Read_Ok by (simp add: response_done_def)
  qed
  then show ?thesis by (simp add: zs_def)
qed

lemma client_step_keeps:
  assumes "client_step (c, h) (c', h')" and "sending c h"
  shows "sending c' h' \<or> failed c' h'"
  using assms(1)
proof cases
  case (cs_send req)
  then show ?thesis
    using pre_send_keeps [OF assms(2), of req] assms(2) by (simp add: client_send_def sending_def in_order_def)
next
  case (cs_resolve xs req ys err)
  have "ready (c\<lparr>rc_ops := xs @ ys\<rparr>) h" and w: "\<exists>rs. rc_pending_write_reqs (c\<lparr>rc_ops := xs @ ys\<rparr>) = req # rs"
    using take_op(1) [OF assms(2) cs_resolve(3), of req] by simp_all
  then show ?thesis
    using start_op_sending [of "(c\<lparr>rc_ops := xs @ ys\<rparr>)\<lparr>rc_socket_open := True\<rparr>" h req _ "Op_Connect req"]
      handle_error_failed [OF ready_unanswered, of "c\<lparr>rc_ops := xs @ ys\<rparr>" h req] cs_resolve(1,2)
    by (auto simp: resolved_def ready_fields)
next
  case (cs_connect xs req ys err)
  have "ready (c\<lparr>rc_ops := xs @ ys\<rparr>) h" and w: "\<exists>rs. rc_pending_write_reqs (c\<lparr>rc_ops := xs @ ys\<rparr>) = req # rs"
    using take_op(1) [OF assms(2) cs_connect(3), of req] by simp_all
  then show ?thesis
    using start_op_sending [of "c\<lparr>rc_ops := xs @ ys\<rparr>" h req _ "Op_Handshake req"]
      register_req_send_sending [of "c\<lparr>rc_ops := xs @ ys\<rparr>" h req]
      abandon_failed [OF ready_unanswered, of "c\<lparr>rc_ops := xs @ ys\<rparr>" h req] cs_connect(1,2)
    by (auto simp: client_connected_def)
next
  case (cs_handshake xs req ys err)
  have "ready (c\<lparr>rc_ops := xs @ ys\<rparr>) h" and w: "\<exists>rs. rc_pending_write_reqs (c\<lparr>rc_ops := xs @ ys\<rparr>) = req # rs"
    using take_op(1) [OF assms(2) cs_handshake(3), of req] by simp_all
  then show ?thesis
    using register_req_send_sending [of "(c\<lparr>rc_ops := xs @ ys\<rparr>)\<lparr>rc_ssl_ready := True\<rparr>" h req]
      abandon_failed [OF ready_unanswered, of "c\<lparr>rc_ops := xs @ ys\<rparr>" h req] cs_handshake(1,2)
    by (auto simp: handle_handshake_def ready_fields)
next
  case (cs_retry xs req ys err)
  have "ready (c\<lparr>rc_ops := xs @ ys\<rparr>) h" and w: "\<exists>rs. rc_pending_write_reqs (c\<lparr>rc_ops := xs @ ys\<rparr>) = req # rs"
    using take_op(1) [OF assms(2) cs_retry(3), of req] by simp_all
  then show ?thesis
    using register_req_send_sending [of "c\<lparr>rc_ops := xs @ ys\<rparr>" h req]
      abandon_failed [OF ready_unanswered, of "c\<lparr>rc_ops := xs @ ys\<rparr>" h req] cs_retry(1,2)
    by (auto simp: send_retry_def)
next
  case (cs_write xs req ys err)
  have r: "ready (c\<lparr>rc_ops := xs @ ys\<rparr>) h" and w: "\<exists>rs. rc_pending_write_reqs (c\<lparr>rc_ops := xs @ ys\<rparr>) = req # rs"
    using take_op(1) [OF assms(2) cs_write(3), of req] by simp_all
  then show ?thesis
    using post_send_keeps [of "c\<lparr>rc_ops := xs @ ys\<rparr>" h req]
      abandon_failed [OF ready_unanswered, of "c\<lparr>rc_ops := xs @ ys\<rparr>" h req] cs_write(1,2) ready_unanswered(1) [OF r]
    by (auto simp: sent_def)
next
  case (cs_read xs req ys res)
  then show ?thesis using response_done_keeps [OF assms(2) cs_read(3), of res] by simp
next
  case (cs_timeout err)
  then show ?thesis
    using assms(2) by (auto simp: cancel_socket_def sending_def in_order_def unanswered_def read_ops_def healthy_def split: list.splits)
qed

subsection \<open>Completions\<close>

text \<open>Nothing takes a completion back.\<close>

definition done_grows :: "'r rpc_client \<Rightarrow> 'r rpc_client \<Rightarrow> bool" where
  "done_grows c d \<longleftrightarrow> prefix (rc_done c) (rc_done d)"

lemma done_handle_error: "done_grows c (handle_error req c)" "done_grows c (abandon req c)"
  by (auto simp: done_grows_def abandon_def handle_error_def close_socket_def cancel_pending_requests_eq when_done_def Let_def)

lemma done_register: "done_grows c (register_req_send req c)"
  using done_handle_error(1) [of c req]
  by (auto simp: register_req_send_def done_grows_def start_op_def set_busy_flag_def)

lemma done_grows_trans: "done_grows c d \<Longrightarrow> done_grows d e \<Longrightarrow> done_grows c e"
  unfolding done_grows_def by (rule prefix_order.trans)

lemma done_grows_same: "done_grows c d \<Longrightarrow> rc_done b = rc_done c \<Longrightarrow> done_grows b d"
  by (simp add: done_grows_def)

lemma client_step_done:
  assumes "client_step (c, h) (c', h')"
  shows "done_grows c c'"
  using assms
proof cases
  case (cs_send req)
  then show ?thesis
    using done_register [of c req] done_grows_same [OF done_register [of "c\<lparr>rc_pending_write_reqs := rc_pending_write_reqs c @ [req]\<rparr>" req], of c]
    by (auto simp: client_send_def pre_send_def done_grows_def Let_def)
next
  case (cs_resolve xs req ys err)
  then show ?thesis
    using done_grows_same [OF done_handle_error(1), of c "c\<lparr>rc_ops := xs @ ys\<rparr>" req]
    by (auto simp: resolved_def start_op_def done_grows_def)
next
  case (cs_connect xs req ys err)
  then show ?thesis
    using done_grows_same [OF done_handle_error(2), of c "c\<lparr>rc_ops := xs @ ys\<rparr>" req]
      done_grows_same [OF done_register, of c "c\<lparr>rc_ops := xs @ ys\<rparr>" req]
    by (auto simp: client_connected_def start_op_def done_grows_def)
next
  case (cs_handshake xs req ys err)
  then show ?thesis
    using done_grows_same [OF done_handle_error(2), of c "c\<lparr>rc_ops := xs @ ys\<rparr>" req]
      done_grows_same [OF done_register, of c "c\<lparr>rc_ops := xs @ ys, rc_ssl_ready := True\<rparr>" req]
    by (auto simp: handle_handshake_def done_grows_def)
next
  case (cs_retry xs req ys err)
  then show ?thesis
    using done_grows_same [OF done_handle_error(2), of c "c\<lparr>rc_ops := xs @ ys\<rparr>" req]
      done_grows_same [OF done_register, of c "c\<lparr>rc_ops := xs @ ys\<rparr>" req]
    by (auto simp: send_retry_def done_grows_def)
next
  case (cs_write xs req ys err)
  have "done_grows d (post_send req d)" for d :: "'a rpc_client"
    unfolding post_send_def Let_def
    by (auto simp: start_op_def done_grows_def split: list.split intro!: done_register [THEN done_grows_same, unfolded done_grows_def])
  from done_grows_same [OF this, of c "c\<lparr>rc_ops := xs @ ys\<rparr>"] show ?thesis
    using done_grows_same [OF done_handle_error(2), of c "c\<lparr>rc_ops := xs @ ys\<rparr>" req] cs_write
    by (auto simp: sent_def start_op_def done_grows_def)
next
  case (cs_read xs req ys res)
  then show ?thesis
    using done_grows_same [OF done_handle_error(2), of c "c\<lparr>rc_ops := xs @ ys\<rparr>" req]
      done_grows_same [OF done_handle_error(1), of c "c\<lparr>rc_ops := xs @ ys\<rparr>" req]
    by (cases res) (auto simp: response_done_def post_read_def when_done_def set_busy_flag_def start_op_def done_grows_def Let_def
        split: list.split)
next
  case (cs_timeout err)
  then show ?thesis by (simp add: cancel_socket_def done_grows_def)
qed

lemma done_grows_healthy: "done_grows c d \<Longrightarrow> healthy d \<Longrightarrow> healthy c"
  by (auto simp: done_grows_def healthy_def prefix_def)

lemma client_runs_in_order:
  assumes "client_step\<^sup>*\<^sup>* (new_rpc_client True ssl, []) (c, h)" and "healthy c"
  shows "sending c h"
  using assms
proof (induction "(c, h)" arbitrary: c h rule: rtranclp_induct)
  case base
  then show ?case
    by (simp add: sending_def in_order_def new_rpc_client_def unanswered_def read_ops_def healthy_def)
next
  case (step x)
  obtain d k where x: "x = (d, k)" by force
  have "healthy d" using step(2,4) client_step_done done_grows_healthy unfolding x by blast
  then have "sending d k" using step(3) x by blast
  then show ?case using client_step_keeps step(2,4) unfolding x failed_def by blast
qed

text \<open>
  C17. Streaming keeps the order. As long as no request has failed, the requests completed so far,
  those that wait for their responses and those that wait to be written are together the requests
  sent, in the order in which they were sent. The first failure completes all the others with an
  error, each once and in the same order.
\<close>

theorem streaming_completes_in_order:
  assumes "client_step\<^sup>*\<^sup>* (new_rpc_client True ssl, []) (c, h)" and "healthy c" and "client_step (c, h) (c', h')"
  shows "map fst (rc_done c') @ rc_pending_read_reqs c' @ rc_pending_write_reqs c' = h' \<and>
    (healthy c' \<or> rc_pending_read_reqs c' @ rc_pending_write_reqs c' = [])"
proof -
  have "sending c' h' \<or> failed c' h'"
    by (rule client_step_keeps [OF assms(3) client_runs_in_order [OF assms(1,2)]])
  then show ?thesis
    by (auto simp: sending_def in_order_def failed_def unanswered_def)
qed

text \<open>A client without SSL that has connected and written its first request.\<close>

definition sample_client :: "nat rpc_client" where
  "sample_client = (new_rpc_client True False)\<lparr>rc_socket_open := True, rc_attempting_conn := True,
     rc_pending_read_reqs := [1], rc_ops := [Op_Read 1]\<rparr>"

lemmas client_defs = client_send_def pre_send_def register_req_send_def start_op_def resolved_def client_connected_def
  sent_def post_send_def set_busy_flag_def new_rpc_client_def

lemma client_step_to:
  assumes "client_step\<^sup>*\<^sup>* x y" and "client_step y z" and "z = z'"
  shows "client_step\<^sup>*\<^sup>* x z'"
  using assms by simp

lemma sample_client_reached: "client_step\<^sup>*\<^sup>* (new_rpc_client True False, []) (sample_client, [1])"
proof -
  let ?c = "new_rpc_client True False :: nat rpc_client"
  have "client_step\<^sup>*\<^sup>* (?c, []) (?c\<lparr>rc_attempting_conn := True, rc_pending_write_reqs := [1], rc_ops := [Op_Resolve 1]\<rparr>, [1])"
    by (rule client_step_to [OF rtranclp.rtrancl_refl cs_send [of _ _ 1]]) (simp add: client_defs)
  then have "client_step\<^sup>*\<^sup>* (?c, []) (?c\<lparr>rc_attempting_conn := True, rc_pending_write_reqs := [1], rc_ops := [Op_Connect 1],
      rc_socket_open := True\<rparr>, [1])"
    by (rule client_step_to [OF _ cs_resolve [of _ "[]" 1 "[]" _ False]]) (simp_all add: client_defs)
  then have "client_step\<^sup>*\<^sup>* (?c, []) (?c\<lparr>rc_attempting_conn := True, rc_pending_write_reqs := [1], rc_ops := [Op_Write 1],
      rc_socket_open := True\<rparr>, [1])"
    by (rule client_step_to [OF _ cs_connect [of _ "[]" 1 "[]" _ False]]) (simp_all add: client_defs)
  then show ?thesis
    by (rule client_step_to [OF _ cs_write [of _ "[]" 1 "[]" _ False]]) (simp_all add: client_defs sample_client_def)
qed

theorem streaming_completes_in_order_witness:
  "map fst (rc_done (response_done 1 Read_Ok (sample_client\<lparr>rc_ops := []\<rparr>))) @
     rc_pending_read_reqs (response_done 1 Read_Ok (sample_client\<lparr>rc_ops := []\<rparr>)) @
     rc_pending_write_reqs (response_done 1 Read_Ok (sample_client\<lparr>rc_ops := []\<rparr>)) = [1]"
proof -
  have "healthy sample_client" by (simp add: healthy_def sample_client_def new_rpc_client_def)
  moreover have "client_step (sample_client, [1]) (response_done 1 Read_Ok (sample_client\<lparr>rc_ops := [] @ []\<rparr>), [1])"
    by (rule cs_read) (simp add: sample_client_def)
  ultimately show ?thesis
    using streaming_completes_in_order [OF sample_client_reached] by simp
qed

text \<open>
  C34. After a failure a request can be completed twice. A second request is being written when the
  response to the first cannot be read: both are completed with an error. When the write ends well
  after all, its request is put back among those that wait for their responses, and is completed
  again.
\<close>

theorem streaming_failure_completes_twice:
  "\<exists>c. client_step\<^sup>*\<^sup>* (new_rpc_client True False, []) (c, [1 :: nat, 2]) \<and>
     rc_done c = [(1, With_Error), (2, With_Error), (2, With_Error)]"
proof -
  let ?c = "sample_client\<lparr>rc_pending_write_reqs := [2], rc_ops := [Op_Read 1, Op_Write 2]\<rparr>"
  have "client_step\<^sup>*\<^sup>* (new_rpc_client True False, []) (?c, [1, 2])"
    by (rule client_step_to [OF sample_client_reached cs_send [of _ _ 2]]) (simp add: client_defs sample_client_def)
  then have "client_step\<^sup>*\<^sup>* (new_rpc_client True False, []) (?c\<lparr>rc_pending_read_reqs := [], rc_pending_write_reqs := [],
      rc_ops := [Op_Write 2], rc_abandoned := True, rc_done := [(1, With_Error), (2, With_Error)]\<rparr>, [1, 2])"
    by (rule client_step_to [OF _ cs_read [of _ "[]" 1 "[Op_Write 2]" _ Read_Failed]])
      (simp_all add: response_done_def abandon_def handle_error_def close_socket_def cancel_pending_requests_eq sample_client_def
        new_rpc_client_def)
  then have "client_step\<^sup>*\<^sup>* (new_rpc_client True False, []) (?c\<lparr>rc_pending_read_reqs := [2], rc_pending_write_reqs := [],
      rc_ops := [Op_Read 2], rc_abandoned := True, rc_done := [(1, With_Error), (2, With_Error)]\<rparr>, [1, 2])"
    by (rule client_step_to [OF _ cs_write [of _ "[]" 2 "[]" _ False]]) (simp_all add: client_defs sample_client_def)
  then have "client_step\<^sup>*\<^sup>* (new_rpc_client True False, []) (?c\<lparr>rc_pending_read_reqs := [], rc_pending_write_reqs := [],
      rc_ops := [], rc_abandoned := True, rc_done := [(1, With_Error), (2, With_Error), (2, With_Error)]\<rparr>, [1, 2])"
    by (rule client_step_to [OF _ cs_read [of _ "[]" 2 "[]" _ Read_Failed]])
      (simp_all add: response_done_def abandon_def handle_error_def close_socket_def cancel_pending_requests_eq sample_client_def
        new_rpc_client_def)
  then show ?thesis by (intro exI conjI) (assumption, simp)
qed

end
