(* ===== verification/Op_Queue.thy ===== *)
theory Op_Queue
  imports Prelude
begin

text \<open>
  The intrusive queue of operations of \<^verbatim>\<open>detail/op_queue.h\<close>. An operation is an address, null is
  0, and the memory holds the \<^verbatim>\<open>next_\<close> pointer of every operation. The operations of the class are
  translated pointer by pointer and shown to be those of a list; all other queues in the memory are
  left as they are. The components that use such queues are then stated over lists.
\<close>

subsection \<open>The class\<close>

type_synonym addr = nat

type_synonym nexts = "addr \<Rightarrow> addr"

record op_queue =
  oq_front :: addr
  oq_back :: addr

definition oq_new :: op_queue where
  "oq_new = \<lparr>oq_front = 0, oq_back = 0\<rparr>"

definition oq_pop :: "nexts \<Rightarrow> op_queue \<Rightarrow> nexts \<times> op_queue" where
  "oq_pop n q =
     (if oq_front q \<noteq> 0
      then let tmp = oq_front q;
               q = q\<lparr>oq_front := n (oq_front q)\<rparr>;
               q = (if oq_front q = 0 then q\<lparr>oq_back := 0\<rparr> else q)
           in (n(tmp := 0), q)
      else (n, q))"

definition oq_push :: "addr \<Rightarrow> nexts \<Rightarrow> op_queue \<Rightarrow> nexts \<times> op_queue" where
  "oq_push h n q =
     (let n = n(h := 0)
      in if oq_back q \<noteq> 0 then (n(oq_back q := h), q\<lparr>oq_back := h\<rparr>)
         else (n, q\<lparr>oq_front := h, oq_back := h\<rparr>))"

text \<open>Moving all operations of another queue to the end; the other queue is left empty.\<close>

definition oq_push_queue :: "op_queue \<Rightarrow> nexts \<Rightarrow> op_queue \<Rightarrow> nexts \<times> op_queue \<times> op_queue" where
  "oq_push_queue other n q =
     (if oq_front other \<noteq> 0
      then let (n, q) = (if oq_back q \<noteq> 0 then (n(oq_back q := oq_front other), q)
                         else (n, q\<lparr>oq_front := oq_front other\<rparr>))
           in (n, q\<lparr>oq_back := oq_back other\<rparr>, other\<lparr>oq_front := 0, oq_back := 0\<rparr>)
      else (n, q, other))"

definition oq_empty :: "op_queue \<Rightarrow> bool" where
  "oq_empty q \<longleftrightarrow> oq_front q = 0"

definition oq_is_enqueued :: "addr \<Rightarrow> nexts \<Rightarrow> op_queue \<Rightarrow> bool" where
  "oq_is_enqueued op n q \<longleftrightarrow> n op \<noteq> 0 \<or> oq_back q = op"

text \<open>The destructor pops and destroys all operations; the result is what it destroyed, in order.\<close>

partial_function (option) oq_destroy :: "addr list \<Rightarrow> nexts \<Rightarrow> op_queue \<Rightarrow> (addr list \<times> nexts) option" where
  "oq_destroy gone n q =
     (if oq_front q = 0 then Some (gone, n)
      else case oq_pop n q of (n', q') \<Rightarrow> oq_destroy (gone @ [oq_front q]) n' q')"

subsection \<open>Queues in memory\<close>

text \<open>The addresses met on the way from \<open>f\<close> along the pointers.\<close>

primrec linked :: "nexts \<Rightarrow> addr \<Rightarrow> addr list \<Rightarrow> bool" where
  "linked n f [] \<longleftrightarrow> f = 0"
| "linked n f (x # xs) \<longleftrightarrow> f = x \<and> x \<noteq> 0 \<and> linked n (n x) xs"

definition oq_holds :: "nexts \<Rightarrow> op_queue \<Rightarrow> addr list \<Rightarrow> bool" where
  "oq_holds n q xs \<longleftrightarrow> linked n (oq_front q) xs \<and> oq_back q = (if xs = [] then 0 else last xs)"

lemma linked_nonzero: "linked n f xs \<Longrightarrow> 0 \<notin> set xs"
  by (induction xs arbitrary: f) auto

lemma linked_other: "x \<notin> set xs \<Longrightarrow> linked (n(x := y)) f xs \<longleftrightarrow> linked n f xs"
  by (induction xs arbitrary: f) auto

lemma linked_cong: "(\<And>x. x \<in> set xs \<Longrightarrow> n' x = n x) \<Longrightarrow> linked n f xs \<Longrightarrow> linked n' f xs"
  by (induction xs arbitrary: f) auto

lemma linked_unique: "linked n f xs \<Longrightarrow> linked n f ys \<Longrightarrow> xs = ys"
proof (induction xs arbitrary: f ys)
  case Nil
  then show ?case by (cases ys) auto
next
  case (Cons x xs)
  then show ?case by (cases ys) auto
qed

lemma linked_append: "linked n f (xs @ ys) \<Longrightarrow> ys \<noteq> [] \<Longrightarrow> linked n (hd ys) ys"
  by (induction xs arbitrary: f) (auto simp: neq_Nil_conv)

text \<open>A chain that ends has no repetition.\<close>

lemma linked_distinct: "linked n f xs \<Longrightarrow> distinct xs"
proof (induction xs arbitrary: f)
  case (Cons x xs)
  have "x \<notin> set xs"
  proof
    assume "x \<in> set xs"
    then obtain us vs where xs: "xs = us @ x # vs" by (auto dest: split_list)
    have "linked n x (x # xs)" using Cons.prems by simp
    moreover have "linked n x (x # vs)"
      using linked_append [of n f "x # us" "x # vs"] Cons.prems xs by simp
    ultimately have "x # xs = x # vs" by (rule linked_unique)
    then have "length xs = length vs" by simp
    then show False using xs by simp
  qed
  then show ?case using Cons.IH [of "n x"] Cons.prems by simp
qed simp

lemma linked_last_next: "linked n f xs \<Longrightarrow> xs \<noteq> [] \<Longrightarrow> n (last xs) = 0"
  by (induction xs arbitrary: f) auto

lemma linked_inner_next: "linked n f xs \<Longrightarrow> x \<in> set xs \<Longrightarrow> x \<noteq> last xs \<Longrightarrow> n x \<noteq> 0"
  by (induction xs arbitrary: f) (auto simp: neq_Nil_conv split: if_splits)

lemma linked_snoc:
  assumes "linked n f xs" and "xs \<noteq> []" and "linked n g ys" and "set xs \<inter> set ys = {}"
  shows "linked (n(last xs := g)) f (xs @ ys)"
  using assms
proof (induction xs arbitrary: f)
  case (Cons x xs)
  show ?case
  proof (cases "xs = []")
    case True
    have "linked (n(x := g)) g ys" using Cons.prems by (subst linked_other) auto
    then show ?thesis using Cons.prems True by (simp del: fun_upd_apply) simp
  next
    case False
    then have "x \<noteq> last xs" using linked_distinct [OF Cons.prems(1)] by (auto simp: last_in_set)
    then show ?thesis using Cons False by simp
  qed
qed simp

lemma oq_holds_distinct: "oq_holds n q xs \<Longrightarrow> distinct xs"
  by (auto simp: oq_holds_def linked_distinct)

lemma oq_holds_nonzero: "oq_holds n q xs \<Longrightarrow> 0 \<notin> set xs"
  by (auto simp: oq_holds_def linked_nonzero)

lemma oq_holds_front: "oq_holds n q xs \<Longrightarrow> oq_front q = (case xs of [] \<Rightarrow> 0 | x # _ \<Rightarrow> x)"
  by (cases xs) (auto simp: oq_holds_def)

lemma oq_holds_empty: "oq_holds n q xs \<Longrightarrow> oq_empty q \<longleftrightarrow> xs = []"
  using oq_holds_nonzero [of n q xs] oq_holds_front [of n q xs] by (cases xs) (auto simp: oq_empty_def)

lemma oq_holds_back: "oq_holds n q xs \<Longrightarrow> oq_back q = 0 \<longleftrightarrow> xs = []"
  using oq_holds_nonzero [of n q xs] last_in_set [of xs] unfolding oq_holds_def by (metis (full_types))

lemma oq_back_in: "oq_holds n q xs \<Longrightarrow> oq_back q \<noteq> 0 \<Longrightarrow> oq_back q \<in> set xs"
  by (auto simp: oq_holds_def split: if_splits)

lemma oq_holds_new: "oq_holds n oq_new []"
  by (simp add: oq_holds_def oq_new_def)

lemma oq_holds_other: "oq_holds n q xs \<Longrightarrow> x \<notin> set xs \<Longrightarrow> oq_holds (n(x := y)) q xs"
  by (simp add: oq_holds_def linked_other del: fun_upd_apply)

lemma oq_pop_Nil: "oq_holds n q [] \<Longrightarrow> oq_pop n q = (n, q)"
  by (simp add: oq_pop_def oq_holds_def)

lemma oq_pop_Cons:
  assumes "oq_holds n q (x # xs)"
  shows "\<exists>q'. oq_pop n q = (n(x := 0), q') \<and> oq_holds (n(x := 0)) q' xs"
proof -
  have l: "linked n (n x) xs" "oq_front q = x" "x \<noteq> 0" "oq_back q = last (x # xs)"
    using assms by (auto simp: oq_holds_def)
  have "x \<notin> set xs" using oq_holds_distinct [OF assms] by simp
  then have "linked (n(x := 0)) (n x) xs" using l(1) by (simp add: linked_other del: fun_upd_apply)
  moreover have "n x = 0 \<longleftrightarrow> xs = []" using l(1) linked_nonzero [OF l(1)] by (cases xs) auto
  ultimately show ?thesis using l by (simp add: oq_pop_def oq_holds_def Let_def del: fun_upd_apply)
qed

lemma oq_push_holds:
  assumes "oq_holds n q xs" and "h \<noteq> 0" and "h \<notin> set xs"
  shows "\<exists>n' q'. oq_push h n q = (n', q') \<and> oq_holds n' q' (xs @ [h]) \<and> (\<forall>x. x \<notin> set xs \<longrightarrow> x \<noteq> h \<longrightarrow> n' x = n x)"
proof (cases "xs = []")
  case True
  then show ?thesis using assms oq_holds_back [OF assms(1)] by (simp add: oq_push_def oq_holds_def)
next
  case False
  have "linked (n(h := 0)) (oq_front q) xs" using assms by (simp add: oq_holds_def linked_other del: fun_upd_apply)
  then have "linked ((n(h := 0))(last xs := h)) (oq_front q) (xs @ [h])"
    using False assms by (intro linked_snoc) auto
  then show ?thesis
    using assms False oq_holds_back [OF assms(1)] last_in_set [of xs]
    by (auto simp: oq_push_def oq_holds_def Let_def)
qed

lemma oq_push_queue_holds:
  assumes "oq_holds n q xs" and "oq_holds n r ys" and "set xs \<inter> set ys = {}"
  shows "\<exists>n' q' r'. oq_push_queue r n q = (n', q', r') \<and> oq_holds n' q' (xs @ ys) \<and> oq_holds n' r' [] \<and>
    (\<forall>x. x \<notin> set xs \<longrightarrow> n' x = n x)"
proof (cases "ys = []")
  case True
  then show ?thesis
    using assms oq_holds_front [OF assms(2)] by (auto simp: oq_push_queue_def)
next
  case ys: False
  then have front: "oq_front r \<noteq> 0" using oq_holds_empty [OF assms(2)] by (simp add: oq_empty_def)
  show ?thesis
  proof (cases "xs = []")
    case True
    then show ?thesis
      using assms ys front oq_holds_back [OF assms(1)] by (simp add: oq_push_queue_def oq_holds_def)
  next
    case False
    have "linked (n(last xs := oq_front r)) (oq_front q) (xs @ ys)"
      using assms False by (intro linked_snoc) (auto simp: oq_holds_def)
    then show ?thesis
      using assms False ys front oq_holds_back [OF assms(1)] last_in_set [of xs]
      by (auto simp: oq_push_queue_def oq_holds_def Let_def)
  qed
qed

text \<open>An operation that is in no queue has a null pointer; then the test for membership is exact.\<close>

lemma oq_is_enqueued_iff:
  assumes "oq_holds n q xs" and "op \<noteq> 0" and "op \<notin> set xs \<Longrightarrow> n op = 0"
  shows "oq_is_enqueued op n q \<longleftrightarrow> op \<in> set xs"
  using assms linked_inner_next [of n "oq_front q" xs op] last_in_set [of xs]
  unfolding oq_is_enqueued_def oq_holds_def by (metis empty_iff list.set(1))

subsection \<open>What a client may rely on\<close>

text \<open>
  The contract of a queue in a memory, with the operations of other queues out of reach. Clients move
  operations one by one from one queue to another; the lemma on that is proved from the contract.
\<close>

locale op_fifo =
  fixes holds :: "'m \<Rightarrow> 'q \<Rightarrow> 'a list \<Rightarrow> bool"
    and front :: "'q \<Rightarrow> 'a"
    and pop :: "'m \<Rightarrow> 'q \<Rightarrow> 'm \<times> 'q"
    and push :: "'a \<Rightarrow> 'm \<Rightarrow> 'q \<Rightarrow> 'm \<times> 'q"
  assumes front_Cons: "holds m q (x # xs) \<Longrightarrow> front q = x"
    and pop_Cons: "\<lbrakk>holds m q (x # xs); pop m q = (m', q')\<rbrakk> \<Longrightarrow> holds m' q' xs"
    and pop_frame: "\<lbrakk>holds m q (x # xs); holds m r ys; x \<notin> set ys; pop m q = (m', q')\<rbrakk> \<Longrightarrow> holds m' r ys"
    and push_snoc: "\<lbrakk>holds m q xs; x \<notin> set xs; holds m p (x # ps); pop m p = (m', p'); push x m' q = (m'', q')\<rbrakk>
      \<Longrightarrow> holds m'' q' (xs @ [x])"
    and push_frame: "\<lbrakk>holds m q xs; holds m r ys; set xs \<inter> set ys = {}; x \<notin> set ys; push x m q = (m', q')\<rbrakk>
      \<Longrightarrow> holds m' r ys"
    and holds_distinct: "holds m q xs \<Longrightarrow> distinct xs"
begin

lemma move_one:
  assumes "holds m q (x # xs)" and "holds m r ys" and "set (x # xs) \<inter> set ys = {}"
    and "pop m q = (m', q')" and "push (front q) m' r = (m'', r')"
  shows "holds m'' q' xs \<and> holds m'' r' (ys @ [x])"
proof -
  have q: "holds m' q' xs" by (rule pop_Cons [OF assms(1,4)])
  have r: "holds m' r ys" using pop_frame [OF assms(1,2) _ assms(4)] assms(3) by auto
  have x: "front q = x" by (rule front_Cons [OF assms(1)])
  have "x \<notin> set xs" using holds_distinct [OF assms(1)] by simp
  then have "holds m'' q' xs"
    using push_frame [OF r q _ _ assms(5)] assms(3) x by auto
  moreover have "holds m'' r' (ys @ [x])"
    using push_snoc [OF assms(2) _ assms(1,4)] assms(3,5) x by auto
  ultimately show ?thesis by simp
qed

lemma move_frame:
  assumes "holds m q (x # xs)" and "holds m r ys" and "set (x # xs) \<inter> set ys = {}"
    and "pop m q = (m', q')" and "push (front q) m' r = (m'', r')"
    and "holds m o' zs" and "set zs \<inter> (set (x # xs) \<union> set ys) = {}"
  shows "holds m'' o' zs"
proof -
  have "holds m' r ys" using pop_frame [OF assms(1,2) _ assms(4)] assms(3) by auto
  moreover have "holds m' o' zs" using pop_frame [OF assms(1,6) _ assms(4)] assms(7) by auto
  ultimately show ?thesis
    using push_frame [OF _ _ _ _ assms(5)] assms(7) front_Cons [OF assms(1)] by auto
qed

end

interpretation oq: op_fifo oq_holds oq_front oq_pop oq_push
proof
  fix m q x xs m' q' r ys
  show "oq_holds m q (x # xs) \<Longrightarrow> oq_front q = x" by (simp add: oq_holds_def)
  show "\<lbrakk>oq_holds m q (x # xs); oq_pop m q = (m', q')\<rbrakk> \<Longrightarrow> oq_holds m' q' xs"
    using oq_pop_Cons [of m q x xs] by auto
  show "\<lbrakk>oq_holds m q (x # xs); oq_holds m r ys; x \<notin> set ys; oq_pop m q = (m', q')\<rbrakk> \<Longrightarrow> oq_holds m' r ys"
    using oq_pop_Cons [of m q x xs] oq_holds_other [of m r ys x 0] by auto
  show "oq_holds m q xs \<Longrightarrow> distinct xs" by (rule oq_holds_distinct)
  show "\<lbrakk>oq_holds m q xs; oq_holds m r ys; set xs \<inter> set ys = {}; x \<notin> set ys; oq_push x m q = (m', q')\<rbrakk>
      \<Longrightarrow> oq_holds m' r ys"
    using oq_holds_other [of m r ys x 0] oq_holds_other [of "m(x := 0)" r ys "oq_back q" x] oq_back_in [of m q xs]
    by (auto simp: oq_push_def Let_def split: if_splits)
next
  fix m q x xs p ps m' p' m'' q'
  show "\<lbrakk>oq_holds m q xs; x \<notin> set xs; oq_holds m p (x # ps); oq_pop m p = (m', p'); oq_push x m' q = (m'', q')\<rbrakk>
      \<Longrightarrow> oq_holds m'' q' (xs @ [x])"
    using oq_pop_Cons [of m p x ps] oq_holds_nonzero [of m p "x # ps"] oq_push_holds [of "m(x := 0)" q xs x]
      oq_holds_other [of m q xs x 0] by auto
qed

text \<open>
  The loop with which a timer gives its operations away: from the front of one queue to the end of
  another, at most \<open>k\<close> of them. The number moved is returned.
\<close>

partial_function (option) oq_move :: "nat \<Rightarrow> nat \<Rightarrow> nexts \<Rightarrow> op_queue \<Rightarrow> op_queue \<Rightarrow>
    (nat \<times> nexts \<times> op_queue \<times> op_queue) option" where
  "oq_move k i n q r =
     (if i \<noteq> k \<and> oq_front q \<noteq> 0
      then case oq_pop n q of (n', q') \<Rightarrow> (case oq_push (oq_front q) n' r of (n'', r') \<Rightarrow> oq_move k (Suc i) n'' q' r')
      else Some (i, n, q, r))"

declare oq_move.simps [simp del]
declare oq_destroy.simps [simp del]

lemma oq_move_holds:
  assumes "oq_holds n q xs" and "oq_holds n r ys" and "set xs \<inter> set ys = {}" and "i \<le> k"
  shows "\<exists>n' q' r'. oq_move k i n q r = Some (min k (i + length xs), n', q', r') \<and>
    oq_holds n' q' (drop (k - i) xs) \<and> oq_holds n' r' (ys @ take (k - i) xs)"
  using assms
proof (induction xs arbitrary: i n q r ys)
  case Nil
  then show ?case using oq_holds_front [OF Nil(1)] by (auto simp: oq_move.simps min_def)
next
  case (Cons x xs)
  show ?case
  proof (cases "i = k")
    case True
    then show ?thesis using Cons.prems by (auto simp: oq_move.simps)
  next
    case False
    obtain n' q' where pop: "oq_pop n q = (n', q')" by force
    obtain n'' r' where push: "oq_push (oq_front q) n' r = (n'', r')" by force
    have step: "oq_holds n'' q' xs" "oq_holds n'' r' (ys @ [x])"
      using oq.move_one [OF Cons.prems(1,2,3) pop push] by auto
    have "set xs \<inter> set (ys @ [x]) = {}" using Cons.prems(3) oq_holds_distinct [OF Cons.prems(1)] by auto
    from Cons.IH [OF step this, of "Suc i"] False Cons.prems(4) show ?thesis
      using oq_holds_front [OF Cons.prems(1)] oq_holds_nonzero [OF Cons.prems(1)] pop push
      by (auto simp: oq_move.simps [of k i] take_Cons' drop_Cons' Suc_diff_le)
  qed
qed

lemma oq_destroy_all:
  assumes "oq_holds n q xs"
  shows "\<exists>n'. oq_destroy gone n q = Some (gone @ xs, n') \<and> (\<forall>x. x \<in> set xs \<longrightarrow> n' x = 0) \<and> (\<forall>x. x \<notin> set xs \<longrightarrow> n' x = n x)"
  using assms
proof (induction xs arbitrary: gone n q)
  case Nil
  then show ?case using oq_holds_front [OF Nil] by (simp add: oq_destroy.simps)
next
  case (Cons x xs)
  obtain q' where pop: "oq_pop n q = (n(x := 0), q')" and q': "oq_holds (n(x := 0)) q' xs"
    using oq_pop_Cons [OF Cons.prems] by blast
  have "x \<notin> set xs" using oq_holds_distinct [OF Cons.prems] by simp
  obtain n' where n': "oq_destroy (gone @ [x]) (n(x := 0)) q' = Some ((gone @ [x]) @ xs, n')"
      "\<forall>y. y \<in> set xs \<longrightarrow> n' y = 0" "\<forall>y. y \<notin> set xs \<longrightarrow> n' y = (n(x := 0)) y"
    using Cons.IH [OF q', of "gone @ [x]"] by blast
  have "oq_destroy gone n q = oq_destroy (gone @ [x]) (n(x := 0)) q'"
    using pop oq_holds_front [OF Cons.prems] oq_holds_nonzero [OF Cons.prems]
    by (subst oq_destroy.simps) simp
  then show ?case using n' \<open>x \<notin> set xs\<close> by (intro exI [of _ n']) auto
qed

text \<open>
  C29. A queue of operations behaves as a list, and leaves the other queues alone. The operations are
  linked through a pointer inside each of them, so a queue must never reach an operation of another
  one: the front is the head, popping drops it and clears its pointer, pushing appends, and moving a
  whole queue concatenates. Moving operations one by one, at most \<open>k\<close> of them, ends and splits the
  list, and the destructor destroys each operation once, in order.
\<close>

theorem op_queue_refines_list:
  assumes "oq_holds n q xs" and "oq_holds n r ys" and "set xs \<inter> set ys = {}"
  shows "oq_front q = (case xs of [] \<Rightarrow> 0 | x # _ \<Rightarrow> x) \<and> (oq_empty q \<longleftrightarrow> xs = []) \<and>
    (case oq_pop n q of (n', q') \<Rightarrow> oq_holds n' q' (tl xs) \<and> oq_holds n' r ys \<and> (\<forall>x \<in> set (take 1 xs). n' x = 0)) \<and>
    (\<forall>h. h \<noteq> 0 \<and> h \<notin> set xs \<union> set ys \<longrightarrow>
      (case oq_push h n q of (n', q') \<Rightarrow> oq_holds n' q' (xs @ [h]) \<and> oq_holds n' r ys)) \<and>
    (case oq_push_queue r n q of (n', q', r') \<Rightarrow> oq_holds n' q' (xs @ ys) \<and> oq_holds n' r' []) \<and>
    (\<exists>n' q' r'. oq_move k 0 n q r = Some (min k (length xs), n', q', r') \<and> oq_holds n' q' (drop k xs) \<and>
      oq_holds n' r' (ys @ take k xs)) \<and>
    (\<exists>n'. oq_destroy [] n q = Some (xs, n') \<and> oq_holds n' r ys)"
proof -
  have front: "oq_front q = (case xs of [] \<Rightarrow> 0 | x # _ \<Rightarrow> x)" "oq_empty q \<longleftrightarrow> xs = []"
    using oq_holds_front oq_holds_empty assms(1) by auto
  have pop: "case oq_pop n q of (n', q') \<Rightarrow> oq_holds n' q' (tl xs) \<and> oq_holds n' r ys \<and> (\<forall>x \<in> set (take 1 xs). n' x = 0)"
  proof (cases xs)
    case Nil
    then show ?thesis using oq_pop_Nil assms by auto
  next
    case (Cons x zs)
    then show ?thesis using oq_pop_Cons [of n q x zs] oq_holds_other [OF assms(2), of x 0] assms by auto
  qed
  have push: "case oq_push h n q of (n', q') \<Rightarrow> oq_holds n' q' (xs @ [h]) \<and> oq_holds n' r ys"
    if "h \<noteq> 0 \<and> h \<notin> set xs \<union> set ys" for h
  proof -
    obtain n' q' where p: "oq_push h n q = (n', q')" by force
    then have "oq_holds n' r ys" using oq.push_frame [OF assms(1,2,3) _ p] that by simp
    then show ?thesis using oq_push_holds [OF assms(1), of h] that p by auto
  qed
  obtain n' where d: "oq_destroy [] n q = Some (xs, n')" "\<And>x. x \<notin> set xs \<Longrightarrow> n' x = n x"
    using oq_destroy_all [OF assms(1), of "[]"] by auto
  have "linked n' (oq_front r) ys"
    by (rule linked_cong [of ys n' n]) (use d(2) assms(2,3) in \<open>auto simp: oq_holds_def\<close>)
  then have "oq_holds n' r ys" using assms(2) by (simp add: oq_holds_def)
  then show ?thesis
    using front pop push d(1) oq_push_queue_holds [OF assms] oq_move_holds [OF assms, of 0 k] by auto
qed

theorem op_queue_refines_list_witness:
  "case oq_push_queue \<lparr>oq_front = 3, oq_back = 3\<rparr> ((\<lambda>_. 0)(1 := 2)) \<lparr>oq_front = 1, oq_back = 2\<rparr> of (n, q, r) \<Rightarrow>
     oq_holds n q [1, 2, 3] \<and> oq_holds n r []"
  using op_queue_refines_list [of "(\<lambda>_. 0)(1 := 2)" "\<lparr>oq_front = 1, oq_back = 2\<rparr>" "[1, 2]" "\<lparr>oq_front = 3, oq_back = 3\<rparr>" "[3]"]
  by (simp add: oq_holds_def split: prod.splits)

end
