(* ===== verification/Timer_Queue.thy ===== *)
theory Timer_Queue
  imports Op_Queue "HOL-Library.Multiset"
begin

text \<open>
  The queue of timers of \<^verbatim>\<open>detail/timer_queue.h\<close>: a binary heap of expiry times in a vector, whose
  entries point to timers that know their place in the heap, and a doubly linked list of all active
  timers. Timers are addresses in a memory; the operations that wait for a timer are a list, as
  \<^verbatim>\<open>Op_Queue\<close> justifies. The type of times is any linear order, and which times never come is an
  argument (\<^verbatim>\<open>is_positive_infinity\<close>).
\<close>

subsection \<open>The class\<close>

datatype wait_result = Ready | Aborted

record wait_op =
  wo_addr :: addr
  wo_key :: addr

definition NO_INDEX :: nat where
  "NO_INDEX = 2 ^ 64 - 1"

record timer =
  tm_ops :: "wait_op list"
  tm_heap_index :: nat
  tm_next :: addr
  tm_prev :: addr

definition new_timer_data :: timer where
  "new_timer_data = \<lparr>tm_ops = [], tm_heap_index = NO_INDEX, tm_next = 0, tm_prev = 0\<rparr>"

record 't timer_queue =
  tq_timers :: addr
  tq_heap :: "('t \<times> addr) list"
  tq_mem :: "addr \<Rightarrow> timer"

definition new_timer_queue :: "'t timer_queue" where
  "new_timer_queue = \<lparr>tq_timers = 0, tq_heap = [], tq_mem = (\<lambda>_. new_timer_data)\<rparr>"

definition upd_timer :: "addr \<Rightarrow> (timer \<Rightarrow> timer) \<Rightarrow> 't timer_queue \<Rightarrow> 't timer_queue" where
  "upd_timer a f q = q\<lparr>tq_mem := (tq_mem q)(a := f (tq_mem q a))\<rparr>"

definition set_index :: "nat \<Rightarrow> timer \<Rightarrow> timer" where
  "set_index i t = t\<lparr>tm_heap_index := i\<rparr>"

definition heap_time :: "'t timer_queue \<Rightarrow> nat \<Rightarrow> 't" where
  "heap_time q i = fst (tq_heap q ! i)"

definition swap_heap :: "nat \<Rightarrow> nat \<Rightarrow> 't timer_queue \<Rightarrow> 't timer_queue" where
  "swap_heap i j q =
     (let tmp = tq_heap q ! i;
          q = q\<lparr>tq_heap := (tq_heap q)[i := tq_heap q ! j]\<rparr>;
          q = q\<lparr>tq_heap := (tq_heap q)[j := tmp]\<rparr>;
          q = upd_timer (snd (tq_heap q ! i)) (set_index i) q
      in upd_timer (snd (tq_heap q ! j)) (set_index j) q)"

lemma length_swap_heap [simp]: "length (tq_heap (swap_heap i j q)) = length (tq_heap q)"
  by (simp add: swap_heap_def upd_timer_def Let_def)

fun up_heap :: "nat \<Rightarrow> 't::linorder timer_queue \<Rightarrow> 't timer_queue" where
  "up_heap index q =
     (if index > 0
      then let parent = (index - 1) div 2
           in if \<not> heap_time q index < heap_time q parent then q
              else up_heap parent (swap_heap index parent q)
      else q)"

function down_heap :: "nat \<Rightarrow> 't::linorder timer_queue \<Rightarrow> 't timer_queue" where
  "down_heap index q =
     (let child = index * 2 + 1
      in if child < length (tq_heap q)
         then let min_child = (if child + 1 = length (tq_heap q) \<or> heap_time q child < heap_time q (child + 1)
                               then child else child + 1)
              in if heap_time q index < heap_time q min_child then q
                 else down_heap min_child (swap_heap index min_child q)
         else q)"
  by pat_completeness auto

termination
  by (relation "measure (\<lambda>(index, q). length (tq_heap q) - index)") (auto split: if_splits)

declare up_heap.simps [simp del]
declare down_heap.simps [simp del]

text \<open>Taking a timer out of the heap, in which the last entry takes its place, and out of the list.\<close>

definition remove_from_heap :: "addr \<Rightarrow> 't::linorder timer_queue \<Rightarrow> 't timer_queue" where
  "remove_from_heap a q =
     (let index = tm_heap_index (tq_mem q a)
      in if tq_heap q \<noteq> [] \<and> index < length (tq_heap q)
         then if index = length (tq_heap q) - 1
              then let q = upd_timer a (set_index NO_INDEX) q in q\<lparr>tq_heap := butlast (tq_heap q)\<rparr>
              else let q = swap_heap index (length (tq_heap q) - 1) q;
                       q = upd_timer a (set_index NO_INDEX) q;
                       q = q\<lparr>tq_heap := butlast (tq_heap q)\<rparr>
                   in if index > 0 \<and> heap_time q index < heap_time q ((index - 1) div 2)
                      then up_heap index q else down_heap index q
         else q)"

definition unlink_timer :: "addr \<Rightarrow> 't timer_queue \<Rightarrow> 't timer_queue" where
  "unlink_timer a q =
     (let q = (if tq_timers q = a then q\<lparr>tq_timers := tm_next (tq_mem q a)\<rparr> else q);
          p = tm_prev (tq_mem q a);
          q = (if p \<noteq> 0 then upd_timer p (\<lambda>t. t\<lparr>tm_next := tm_next (tq_mem q a)\<rparr>) q else q);
          n = tm_next (tq_mem q a);
          q = (if n \<noteq> 0 then upd_timer n (\<lambda>t. t\<lparr>tm_prev := tm_prev (tq_mem q a)\<rparr>) q else q)
      in upd_timer a (\<lambda>t. t\<lparr>tm_next := 0, tm_prev := 0\<rparr>) q)"

definition remove_timer :: "addr \<Rightarrow> 't::linorder timer_queue \<Rightarrow> 't timer_queue" where
  "remove_timer a q = unlink_timer a (remove_from_heap a q)"

definition in_list :: "addr \<Rightarrow> 't timer_queue \<Rightarrow> bool" where
  "in_list a q \<longleftrightarrow> tm_prev (tq_mem q a) \<noteq> 0 \<or> a = tq_timers q"

definition link_timer :: "addr \<Rightarrow> 't timer_queue \<Rightarrow> 't timer_queue" where
  "link_timer a q =
     (let q = upd_timer a (\<lambda>t. t\<lparr>tm_next := tq_timers q, tm_prev := 0\<rparr>) q;
          q = (if tq_timers q \<noteq> 0 then upd_timer (tq_timers q) (\<lambda>t. t\<lparr>tm_prev := a\<rparr>) q else q)
      in q\<lparr>tq_timers := a\<rparr>)"

definition enqueue_timer ::
    "('t \<Rightarrow> bool) \<Rightarrow> 't::linorder \<Rightarrow> addr \<Rightarrow> wait_op \<Rightarrow> 't timer_queue \<Rightarrow> bool \<times> 't timer_queue" where
  "enqueue_timer never time a op q =
     (let q = (if \<not> in_list a q
               then let q = (if never time then upd_timer a (set_index NO_INDEX) q
                             else let q = upd_timer a (set_index (length (tq_heap q))) q;
                                      q = q\<lparr>tq_heap := tq_heap q @ [(time, a)]\<rparr>
                                  in up_heap (length (tq_heap q) - 1) q)
                    in link_timer a q
               else q);
          q = upd_timer a (\<lambda>t. t\<lparr>tm_ops := tm_ops t @ [op]\<rparr>) q
      in (tm_heap_index (tq_mem q a) = 0 \<and> hd (tm_ops (tq_mem q a)) = op, q))"

definition tq_empty :: "'t timer_queue \<Rightarrow> bool" where
  "tq_empty q \<longleftrightarrow> tq_timers q = 0"

text \<open>The operations taken out of the queue, each with the result its handler will see.\<close>

type_synonym finished = "(wait_op \<times> wait_result) list"

partial_function (option) ready_loop ::
    "'t::linorder \<Rightarrow> finished \<Rightarrow> 't timer_queue \<Rightarrow> (finished \<times> 't timer_queue) option" where
  "ready_loop now ops q =
     (if tq_heap q \<noteq> [] \<and> \<not> now < heap_time q 0
      then let a = snd (tq_heap q ! 0);
               ops = ops @ map (\<lambda>op. (op, Ready)) (tm_ops (tq_mem q a));
               q = upd_timer a (\<lambda>t. t\<lparr>tm_ops := []\<rparr>) q
           in ready_loop now ops (remove_timer a q)
      else Some (ops, q))"

definition get_ready_timers ::
    "'t::linorder \<Rightarrow> finished \<Rightarrow> 't timer_queue \<Rightarrow> (finished \<times> 't timer_queue) option" where
  "get_ready_timers now ops q = (if tq_heap q \<noteq> [] then ready_loop now ops q else Some (ops, q))"

partial_function (option) all_loop ::
    "wait_op list \<Rightarrow> 't timer_queue \<Rightarrow> (wait_op list \<times> 't timer_queue) option" where
  "all_loop ops q =
     (if tq_timers q \<noteq> 0
      then let a = tq_timers q;
               q = q\<lparr>tq_timers := tm_next (tq_mem q a)\<rparr>;
               ops = ops @ tm_ops (tq_mem q a)
           in all_loop ops (upd_timer a (\<lambda>t. t\<lparr>tm_ops := [], tm_next := 0, tm_prev := 0\<rparr>) q)
      else Some (ops, q))"

definition get_all_timers :: "wait_op list \<Rightarrow> 't timer_queue \<Rightarrow> (wait_op list \<times> 't timer_queue) option" where
  "get_all_timers ops q = map_option (\<lambda>(ops, q). (ops, q\<lparr>tq_heap := []\<rparr>)) (all_loop ops q)"

definition cancel_timer :: "addr \<Rightarrow> nat \<Rightarrow> finished \<Rightarrow> 't::linorder timer_queue \<Rightarrow> nat \<times> finished \<times> 't timer_queue" where
  "cancel_timer a max_cancelled ops q =
     (if in_list a q
      then let mine = tm_ops (tq_mem q a);
               ops = ops @ map (\<lambda>op. (op, Aborted)) (take max_cancelled mine);
               q = upd_timer a (\<lambda>t. t\<lparr>tm_ops := drop max_cancelled mine\<rparr>) q
           in (min max_cancelled (length mine), ops, if tm_ops (tq_mem q a) = [] then remove_timer a q else q)
      else (0, ops, q))"

definition cancel_timer_by_key :: "addr \<Rightarrow> finished \<Rightarrow> addr \<Rightarrow> 't::linorder timer_queue \<Rightarrow> finished \<times> 't timer_queue" where
  "cancel_timer_by_key a ops key q =
     (if in_list a q
      then let mine = tm_ops (tq_mem q a);
               ops = ops @ map (\<lambda>op. (op, Aborted)) (filter (\<lambda>op. wo_key op = key) mine);
               q = upd_timer a (\<lambda>t. t\<lparr>tm_ops := filter (\<lambda>op. wo_key op \<noteq> key) mine\<rparr>) q
           in (ops, if tm_ops (tq_mem q a) = [] then remove_timer a q else q)
      else (ops, q))"

text \<open>A timer moves: its operations and its place in the heap, then its place in the list.\<close>

definition move_ops :: "addr \<Rightarrow> addr \<Rightarrow> 't timer_queue \<Rightarrow> 't timer_queue" where
  "move_ops target source q =
     (let q = upd_timer target (\<lambda>t. t\<lparr>tm_ops := tm_ops t @ tm_ops (tq_mem q source)\<rparr>) q;
          q = upd_timer source (\<lambda>t. t\<lparr>tm_ops := []\<rparr>) q;
          q = upd_timer target (set_index (tm_heap_index (tq_mem q source))) q;
          q = upd_timer source (set_index NO_INDEX) q;
          i = tm_heap_index (tq_mem q target)
      in if i < length (tq_heap q) then q\<lparr>tq_heap := (tq_heap q)[i := (heap_time q i, target)]\<rparr> else q)"

definition move_links :: "addr \<Rightarrow> addr \<Rightarrow> 't timer_queue \<Rightarrow> 't timer_queue" where
  "move_links target source q =
     (let q = (if tq_timers q = source then q\<lparr>tq_timers := target\<rparr> else q);
          p = tm_prev (tq_mem q source);
          q = (if p \<noteq> 0 then upd_timer p (\<lambda>t. t\<lparr>tm_next := target\<rparr>) q else q);
          n = tm_next (tq_mem q source);
          q = (if n \<noteq> 0 then upd_timer n (\<lambda>t. t\<lparr>tm_prev := target\<rparr>) q else q);
          q = upd_timer target (\<lambda>t. t\<lparr>tm_next := tm_next (tq_mem q source), tm_prev := tm_prev (tq_mem q source)\<rparr>) q
      in upd_timer source (\<lambda>t. t\<lparr>tm_next := 0, tm_prev := 0\<rparr>) q)"

definition move_timer :: "addr \<Rightarrow> addr \<Rightarrow> 't timer_queue \<Rightarrow> 't timer_queue" where
  "move_timer target source q = move_links target source (move_ops target source q)"

subsection \<open>The heap\<close>

text \<open>Every entry but possibly one is not earlier than its parent; the exceptions on the way up and down.\<close>

definition heap_on :: "(nat \<Rightarrow> 't::linorder) \<Rightarrow> nat \<Rightarrow> bool" where
  "heap_on k n \<longleftrightarrow> (\<forall>j. 0 < j \<and> j < n \<longrightarrow> k ((j - 1) div 2) \<le> k j)"

definition over_children :: "(nat \<Rightarrow> 't::linorder) \<Rightarrow> nat \<Rightarrow> nat \<Rightarrow> bool" where
  "over_children k n i \<longleftrightarrow> (0 < i \<longrightarrow> (\<forall>j. 0 < j \<and> j < n \<and> (j - 1) div 2 = i \<longrightarrow> k ((i - 1) div 2) \<le> k j))"

definition heap_above :: "(nat \<Rightarrow> 't::linorder) \<Rightarrow> nat \<Rightarrow> nat \<Rightarrow> bool" where
  "heap_above k n i \<longleftrightarrow> (\<forall>j. 0 < j \<and> j < n \<and> j \<noteq> i \<longrightarrow> k ((j - 1) div 2) \<le> k j) \<and> over_children k n i"

definition heap_below :: "(nat \<Rightarrow> 't::linorder) \<Rightarrow> nat \<Rightarrow> nat \<Rightarrow> bool" where
  "heap_below k n i \<longleftrightarrow> (\<forall>j. 0 < j \<and> j < n \<and> (j - 1) div 2 \<noteq> i \<longrightarrow> k ((j - 1) div 2) \<le> k j) \<and> over_children k n i"

lemma heap_above_swap:
  assumes "heap_above k n i" and "0 < i" and "i < n" and "p = (i - 1) div 2" and "k i < k p"
  shows "heap_above (k(i := k p, p := k i)) n p"
proof -
  have p: "p < i" using assms(2,4) by auto
  have up: "\<And>j. \<lbrakk>0 < j; j < n; j \<noteq> i\<rbrakk> \<Longrightarrow> k ((j - 1) div 2) \<le> k j"
    and over: "\<And>j. \<lbrakk>0 < j; j < n; (j - 1) div 2 = i\<rbrakk> \<Longrightarrow> k p \<le> k j"
    using assms by (auto simp: heap_above_def over_children_def)
  let ?k = "k(i := k p, p := k i)"
  have "?k ((j - 1) div 2) \<le> ?k j" if j: "0 < j" "j < n" "j \<noteq> p" for j
  proof (cases "j = i")
    case True
    then show ?thesis using p assms(4,5) by simp
  next
    case False
    with j have "?k j = k j" by simp
    then show ?thesis
      using up [OF j(1,2) False] over [OF j(1,2)] assms(5) by auto
  qed
  moreover have "?k ((p - 1) div 2) \<le> ?k j" if j: "0 < p" "0 < j" "j < n" "(j - 1) div 2 = p" for j
  proof -
    have pp: "(p - 1) div 2 < p" using j(1) by simp
    then have "k ((p - 1) div 2) \<le> k p" using up [of p] j(1) p assms(3) by simp
    moreover have "k p \<le> ?k j" using up [of j] j p by (cases "j = i") auto
    moreover have "?k ((p - 1) div 2) = k ((p - 1) div 2)" using pp p by simp
    ultimately show ?thesis by simp
  qed
  ultimately show ?thesis by (simp add: heap_above_def over_children_def)
qed

lemma heap_above_done: "heap_above k n i \<Longrightarrow> i = 0 \<or> \<not> k i < k ((i - 1) div 2) \<Longrightarrow> heap_on k n"
  by (auto simp: heap_above_def heap_on_def not_less)

definition min_child :: "(nat \<Rightarrow> 't::linorder) \<Rightarrow> nat \<Rightarrow> nat \<Rightarrow> nat" where
  "min_child k n i = (if i * 2 + 2 = n \<or> k (i * 2 + 1) < k (i * 2 + 2) then i * 2 + 1 else i * 2 + 2)"

lemma children: "0 < j \<Longrightarrow> (j - 1) div 2 = i \<longleftrightarrow> j = i * 2 + 1 \<or> j = i * 2 + (2 :: nat)"
  by auto

lemma min_child_least:
  assumes "i * 2 + 1 < n"
  shows "min_child k n i < n" and "(min_child k n i - 1) div 2 = i" and "0 < min_child k n i"
    and "\<lbrakk>0 < j; j < n; (j - 1) div 2 = i\<rbrakk> \<Longrightarrow> k (min_child k n i) \<le> k j"
proof -
  show "min_child k n i < n" "(min_child k n i - 1) div 2 = i" "0 < min_child k n i"
    using assms by (simp_all add: min_child_def)
  assume "0 < j" "j < n" "(j - 1) div 2 = i"
  then have "j = i * 2 + 1 \<or> j = i * 2 + 2" using children by blast
  then show "k (min_child k n i) \<le> k j"
    using \<open>j < n\<close> by (auto simp: min_child_def not_less less_imp_le)
qed

lemma heap_below_swap:
  assumes "heap_below k n i" and "i * 2 + 1 < n" and "c = min_child k n i" and "\<not> k i < k c"
  shows "heap_below (k(i := k c, c := k i)) n c"
proof -
  note least = min_child_least [OF assms(2), where k = k, folded assms(3)]
  have c: "i < c" using assms(3) by (simp add: min_child_def)
  have up: "\<And>j. \<lbrakk>0 < j; j < n; (j - 1) div 2 \<noteq> i\<rbrakk> \<Longrightarrow> k ((j - 1) div 2) \<le> k j"
    using assms(1) by (simp add: heap_below_def)
  have over: "0 < i \<Longrightarrow> k ((i - 1) div 2) \<le> k c"
    using assms(1) least(1-3) by (simp add: heap_below_def over_children_def)
  let ?k = "k(i := k c, c := k i)"
  have "?k ((j - 1) div 2) \<le> ?k j" if j: "0 < j" "j < n" "(j - 1) div 2 \<noteq> c" for j
  proof (cases "(j - 1) div 2 = i")
    case True
    then show ?thesis using least(4) [OF j(1,2)] c j assms(4) by auto
  next
    case False
    then have "j \<noteq> c" using least(2) by auto
    moreover have "(i - 1) div 2 < i" if "0 < i" using that by simp
    ultimately show ?thesis using up [OF j(1,2) False] over j False by auto
  qed
  moreover have "?k ((c - 1) div 2) \<le> ?k j" if j: "0 < j" "j < n" "(j - 1) div 2 = c" for j
  proof -
    have "c < j" using j by auto
    then show ?thesis using up [OF j(1,2)] j c least(2) by simp
  qed
  ultimately show ?thesis by (simp add: heap_below_def over_children_def)
qed

lemma heap_below_done:
  assumes "heap_below k n i" and "i * 2 + 1 < n \<Longrightarrow> k i < k (min_child k n i)"
  shows "heap_on k n"
  unfolding heap_on_def
proof (intro allI impI)
  fix j assume j: "0 < j \<and> j < n"
  show "k ((j - 1) div 2) \<le> k j"
  proof (cases "(j - 1) div 2 = i")
    case True
    then have "i * 2 + 1 < n" using j children [of j i] by auto
    then show ?thesis using assms(2) min_child_least(4) [of i n j k] j True by (auto intro: order.trans less_imp_le)
  next
    case False
    then show ?thesis using assms(1) j by (simp add: heap_below_def)
  qed
qed

text \<open>Putting the entry \<open>x\<close> in the place of one that is taken out.\<close>

lemma heap_on_replace:
  assumes "heap_on k n" and "i < n"
  shows "0 < i \<and> x < k ((i - 1) div 2) \<Longrightarrow> heap_above (k(i := x)) n i"
    and "\<not> (0 < i \<and> x < k ((i - 1) div 2)) \<Longrightarrow> heap_below (k(i := x)) n i"
proof -
  have up: "\<And>j. \<lbrakk>0 < j; j < n\<rbrakk> \<Longrightarrow> k ((j - 1) div 2) \<le> k j" using assms(1) by (simp add: heap_on_def)
  have over: "over_children (k(i := x)) n i"
    unfolding over_children_def
  proof (intro impI allI)
    fix j assume i: "0 < i" and j: "0 < j \<and> j < n \<and> (j - 1) div 2 = i"
    have "k ((i - 1) div 2) \<le> k i" "k i \<le> k j" using up [of i] up [of j] i j assms(2) by auto
    moreover have "(i - 1) div 2 \<noteq> i" "j \<noteq> i" using i j by auto
    ultimately show "(k(i := x)) ((i - 1) div 2) \<le> (k(i := x)) j" by simp
  qed
  {
    assume x: "0 < i \<and> x < k ((i - 1) div 2)"
    have "(k(i := x)) ((j - 1) div 2) \<le> (k(i := x)) j" if j: "0 < j" "j < n" "j \<noteq> i" for j
    proof (cases "(j - 1) div 2 = i")
      case True
      then have "k i \<le> k j" "k ((i - 1) div 2) \<le> k i" using up [of j] up [of i] j x assms(2) by auto
      then have "x \<le> k j" using x by (meson less_imp_le order.strict_trans2 order.trans)
      then show ?thesis using True j(3) by simp
    next
      case False
      then show ?thesis using up j by simp
    qed
    with over show "heap_above (k(i := x)) n i" by (simp add: heap_above_def)
  next
    assume x: "\<not> (0 < i \<and> x < k ((i - 1) div 2))"
    have "(k(i := x)) ((j - 1) div 2) \<le> (k(i := x)) j" if j: "0 < j" "j < n" "(j - 1) div 2 \<noteq> i" for j
      using x up [OF j(1,2)] j by (cases "j = i") auto
    with over show "heap_below (k(i := x)) n i" by (simp add: heap_below_def)
  }
qed

subsection \<open>Timers know their place\<close>

definition indexed :: "'t timer_queue \<Rightarrow> bool" where
  "indexed q \<longleftrightarrow> distinct (map snd (tq_heap q)) \<and>
     (\<forall>i < length (tq_heap q). tm_heap_index (tq_mem q (snd (tq_heap q ! i))) = i)"

text \<open>The heap is rearranged and nothing else changes.\<close>

definition reheap :: "'t timer_queue \<Rightarrow> 't timer_queue \<Rightarrow> bool" where
  "reheap q r \<longleftrightarrow> tq_timers r = tq_timers q \<and> mset (tq_heap r) = mset (tq_heap q) \<and>
     (\<forall>x. tm_ops (tq_mem r x) = tm_ops (tq_mem q x) \<and> tm_next (tq_mem r x) = tm_next (tq_mem q x) \<and>
          tm_prev (tq_mem r x) = tm_prev (tq_mem q x)) \<and>
     (\<forall>x. x \<notin> snd ` set (tq_heap q) \<longrightarrow> tq_mem r x = tq_mem q x) \<and>
     (indexed q \<longrightarrow> indexed r)"

lemma reheap_refl [simp]: "reheap q q"
  by (simp add: reheap_def)

lemma reheap_set: "reheap q r \<Longrightarrow> set (tq_heap r) = set (tq_heap q) \<and> length (tq_heap r) = length (tq_heap q)"
  by (metis reheap_def mset_eq_length mset_eq_setD)

lemma reheap_trans: "reheap q r \<Longrightarrow> reheap r s \<Longrightarrow> reheap q s"
  using reheap_set [of q r] by (simp add: reheap_def)

lemma swap_heap_heap:
  "tq_heap (swap_heap i j q) = (tq_heap q)[i := tq_heap q ! j, j := tq_heap q ! i]"
  by (simp add: swap_heap_def upd_timer_def Let_def)

lemma swap_heap_mem:
  assumes "i < length (tq_heap q)" and "j < length (tq_heap q)" and "i \<noteq> j"
  shows "tq_mem (swap_heap i j q) = ((tq_mem q)(snd (tq_heap q ! j) := set_index i (tq_mem q (snd (tq_heap q ! j)))))
     (snd (tq_heap q ! i) := set_index j (((tq_mem q)(snd (tq_heap q ! j) := set_index i (tq_mem q (snd (tq_heap q ! j)))))
        (snd (tq_heap q ! i))))"
  using assms by (simp add: swap_heap_def upd_timer_def Let_def)

lemma heap_time_swap:
  assumes "i < length (tq_heap q)" and "j < length (tq_heap q)"
  shows "heap_time (swap_heap i j q) = (heap_time q)(i := heap_time q j, j := heap_time q i)"
  using assms by (auto simp: fun_eq_iff heap_time_def swap_heap_heap nth_list_update)

lemma indexed_inj:
  assumes "indexed q" and "i < length (tq_heap q)" and "j < length (tq_heap q)"
  shows "snd (tq_heap q ! i) = snd (tq_heap q ! j) \<longleftrightarrow> i = j"
  using assms unfolding indexed_def by (metis length_map nth_eq_iff_index_eq nth_map)

lemma indexed_swap:
  assumes "indexed q" and "i < length (tq_heap q)" and "j < length (tq_heap q)" and "i \<noteq> j"
  shows "indexed (swap_heap i j q)"
proof -
  let ?h = "tq_heap q"
  let ?a = "\<lambda>x. snd (?h ! x)"
  have "mset (tq_heap (swap_heap i j q)) = mset ?h"
    using assms by (simp add: swap_heap_heap mset_swap)
  then have "distinct (map snd (tq_heap (swap_heap i j q)))"
    using assms(1) by (metis indexed_def mset_eq_imp_distinct_iff mset_map)
  moreover have "tm_heap_index (tq_mem (swap_heap i j q) (snd (tq_heap (swap_heap i j q) ! x))) = x"
    if x: "x < length ?h" for x
  proof -
    have at: "tm_heap_index (tq_mem q (?a x)) = x" using assms(1) x by (simp add: indexed_def)
    consider (i) "x = i" | (j) "x = j" | (other) "x \<noteq> i" "x \<noteq> j" by blast
    then show ?thesis
    proof cases
      case other
      then have "?a x \<noteq> ?a i" "?a x \<noteq> ?a j" using indexed_inj [OF assms(1) x] assms(2,3) by auto
      then show ?thesis using other at assms by (simp add: swap_heap_mem swap_heap_heap)
    qed (use assms indexed_inj [OF assms(1,2,3)] in \<open>auto simp: swap_heap_mem swap_heap_heap set_index_def\<close>)
  qed
  ultimately show ?thesis by (simp add: indexed_def)
qed

lemma swap_reheap:
  assumes "i < length (tq_heap q)" and "j < length (tq_heap q)" and "i \<noteq> j"
  shows "reheap q (swap_heap i j q)"
proof -
  have "snd (tq_heap q ! i) \<in> snd ` set (tq_heap q)" "snd (tq_heap q ! j) \<in> snd ` set (tq_heap q)"
    using assms by auto
  then have "x \<notin> snd ` set (tq_heap q) \<Longrightarrow> tq_mem (swap_heap i j q) x = tq_mem q x" for x
    using assms by (auto simp: swap_heap_mem)
  then show ?thesis
    using assms indexed_swap [OF _ assms] 
    by (simp add: reheap_def swap_heap_heap mset_swap) (simp add: swap_heap_mem set_index_def swap_heap_def upd_timer_def Let_def)
qed

lemma up_heap_reheap: "i < length (tq_heap q) \<Longrightarrow> reheap q (up_heap i q)"
proof (induction i q rule: up_heap.induct)
  case (1 i q)
  show ?case
  proof (cases "0 < i \<and> heap_time q i < heap_time q ((i - 1) div 2)")
    case True
    have lt: "(i - 1) div 2 < length (tq_heap q)" "(i - 1) div 2 \<noteq> i" using True 1(2) by auto
    then have "reheap q (swap_heap i ((i - 1) div 2) q)" using 1(2) by (intro swap_reheap) auto
    moreover have "reheap (swap_heap i ((i - 1) div 2) q) (up_heap ((i - 1) div 2) (swap_heap i ((i - 1) div 2) q))"
      using 1(1) [OF _ refl] True lt by simp
    ultimately have "reheap q (up_heap ((i - 1) div 2) (swap_heap i ((i - 1) div 2) q))" by (rule reheap_trans)
    then show ?thesis using True by (simp add: up_heap.simps [of i] Let_def)
  qed (auto simp: up_heap.simps [of i] Let_def)
qed

lemma up_heap_heap:
  assumes "i < length (tq_heap q)" and "heap_above (heap_time q) (length (tq_heap q)) i"
  shows "heap_on (heap_time (up_heap i q)) (length (tq_heap q))"
  using assms
proof (induction i q rule: up_heap.induct)
  case (1 i q)
  let ?p = "(i - 1) div 2"
  show ?case
  proof (cases "0 < i \<and> heap_time q i < heap_time q ?p")
    case True
    have lt: "?p < length (tq_heap q)" using True 1(2) by auto
    have "heap_above (heap_time (swap_heap i ?p q)) (length (tq_heap q)) ?p"
      using heap_above_swap [OF 1(3) _ 1(2) refl] True unfolding heap_time_swap [OF 1(2) lt] by blast
    then show ?thesis
      using 1(1) [OF _ refl] True lt by (simp add: up_heap.simps [of i] Let_def)
  next
    case False
    then show ?thesis
      using heap_above_done [OF 1(3)] by (auto simp: up_heap.simps [of i] Let_def)
  qed
qed

lemma down_heap_unfold:
  "down_heap i q =
     (let c = min_child (heap_time q) (length (tq_heap q)) i
      in if i * 2 + 1 < length (tq_heap q) \<and> \<not> heap_time q i < heap_time q c
         then down_heap c (swap_heap i c q) else q)"
  by (subst down_heap.simps) (simp add: min_child_def Let_def)

lemma down_heap_both:
  assumes "i < length (tq_heap q)"
  shows "reheap q (down_heap i q) \<and>
    (heap_below (heap_time q) (length (tq_heap q)) i \<longrightarrow> heap_on (heap_time (down_heap i q)) (length (tq_heap q)))"
  using assms
proof (induction "length (tq_heap q) - i" arbitrary: i q rule: less_induct)
  case less
  let ?n = "length (tq_heap q)"
  let ?c = "min_child (heap_time q) ?n i"
  show ?case
  proof (cases "i * 2 + 1 < ?n \<and> \<not> heap_time q i < heap_time q ?c")
    case True
    have c: "?c < ?n" "i < ?c" using min_child_least(1) [of i ?n] True by (auto simp: min_child_def)
    let ?s = "swap_heap i ?c q"
    have IH: "reheap ?s (down_heap ?c ?s) \<and> (heap_below (heap_time ?s) ?n ?c \<longrightarrow> heap_on (heap_time (down_heap ?c ?s)) ?n)"
      using less(1) [of ?s ?c] c less(2) by simp
    have "reheap q ?s" using c less(2) by (intro swap_reheap) auto
    moreover have "heap_below (heap_time q) ?n i \<Longrightarrow> heap_below (heap_time ?s) ?n ?c"
      using heap_below_swap [OF _ _ refl, of "heap_time q" ?n i] True unfolding heap_time_swap [OF less(2) c(1)] by blast
    ultimately show ?thesis
      using IH reheap_trans [of q ?s] True by (subst (1 2) down_heap_unfold) (auto simp: Let_def)
  next
    case False
    then show ?thesis
      using heap_below_done [of "heap_time q" ?n i] by (subst (1 2) down_heap_unfold) (auto simp: Let_def)
  qed
qed

subsection \<open>The list of timers\<close>

primrec dlinked :: "nexts \<Rightarrow> nexts \<Rightarrow> addr \<Rightarrow> addr \<Rightarrow> addr list \<Rightarrow> bool" where
  "dlinked nx pv p f [] \<longleftrightarrow> f = 0"
| "dlinked nx pv p f (x # xs) \<longleftrightarrow> f = x \<and> x \<noteq> 0 \<and> pv x = p \<and> dlinked nx pv x (nx x) xs"

lemma dlinked_linked: "dlinked nx pv p f xs \<Longrightarrow> linked nx f xs"
  by (induction xs arbitrary: p f) auto

lemma dlinked_cong:
  "\<lbrakk>\<And>x. x \<in> set xs \<Longrightarrow> nx' x = nx x \<and> pv' x = pv x; dlinked nx pv p f xs\<rbrakk> \<Longrightarrow> dlinked nx' pv' p f xs"
  by (induction xs arbitrary: p f) auto

lemma dlinked_inner:
  assumes "dlinked nx pv p f (us @ a # vs)"
  shows "pv a = (if us = [] then p else last us)" and "nx a = (case vs of [] \<Rightarrow> 0 | b # _ \<Rightarrow> b)"
    and "f = (case us of [] \<Rightarrow> a | u # _ \<Rightarrow> u)"
proof -
  show "f = (case us of [] \<Rightarrow> a | u # _ \<Rightarrow> u)" using assms by (cases us) simp_all
  show "pv a = (if us = [] then p else last us)" using assms
  proof (induction us arbitrary: p f)
    case (Cons u us)
    then show ?case using Cons.IH [of u "nx u"] by simp
  qed simp
  show "nx a = (case vs of [] \<Rightarrow> 0 | b # _ \<Rightarrow> b)" using assms
  proof (induction us arbitrary: p f)
    case Nil
    then show ?case by (cases vs) simp_all
  next
    case (Cons u us)
    then show ?case using Cons.IH [of u "nx u"] by simp
  qed
qed

lemma dlinked_unlink:
  assumes "dlinked nx pv p f (us @ a # vs)" and "p \<notin> set (us @ a # vs)"
    and "\<And>x. x \<in> set (us @ vs) \<Longrightarrow> nx' x = (if x = pv a then nx a else nx x)"
    and "\<And>x. x \<in> set (us @ vs) \<Longrightarrow> pv' x = (if x = nx a then pv a else pv x)"
  shows "dlinked nx' pv' p (if f = a then nx a else f) (us @ vs)"
  using assms
proof (induction us arbitrary: p f)
  case Nil
  have d: "distinct (a # vs)" using linked_distinct [OF dlinked_linked [OF Nil(1)]] by simp
  show ?case
  proof (cases vs)
    case (Cons b ws)
    have b: "nx a = b" "pv a = p" "dlinked nx pv b (nx b) ws" "b \<noteq> 0" "f = a" using Nil(1) Cons by auto
    have "dlinked nx' pv' b (nx b) ws"
      by (rule dlinked_cong [OF _ b(3)]) (use Nil(2-4) Cons b d in auto)
    then show ?thesis using b Cons Nil(2-4) by auto
  qed (use Nil in auto)
next
  case (Cons u us)
  have d: "distinct (u # us @ a # vs)" using linked_distinct [OF dlinked_linked [OF Cons.prems(1)]] by simp
  have u: "f = u" "u \<noteq> 0" "pv u = p" "dlinked nx pv u (nx u) (us @ a # vs)" using Cons.prems(1) by auto
  have IH: "dlinked nx' pv' u (if nx u = a then nx a else nx u) (us @ vs)"
    using Cons.IH [OF u(4)] d Cons.prems(3,4) by simp
  have inner: "pv a = (if us = [] then u else last us)" "nx a = (case vs of [] \<Rightarrow> 0 | b # _ \<Rightarrow> b)"
      "nx u = (case us of [] \<Rightarrow> a | w # _ \<Rightarrow> w)"
    using dlinked_inner [OF u(4)] by auto
  have "nx' u = (if nx u = a then nx a else nx u)"
    using Cons.prems(3) [of u] inner(1,3) d last_in_set [of us] by (cases us) auto
  moreover have "u \<noteq> nx a" using inner(2) d u(2) by (cases vs) auto
  then have "pv' u = p" using Cons.prems(4) [of u] u(3) by simp
  ultimately show ?case using IH u d by auto
qed

lemma dlinked_link:
  assumes "dlinked nx pv 0 f xs" and "a \<noteq> 0" and "a \<notin> set xs"
    and "nx' a = f" and "pv' a = 0" and "\<And>x. x \<in> set xs \<Longrightarrow> nx' x = nx x \<and> pv' x = (if x = f then a else pv x)"
  shows "dlinked nx' pv' 0 a (a # xs)"
proof -
  have "dlinked nx' pv' a f xs"
  proof (cases xs)
    case (Cons b ws)
    have "distinct (b # ws)" using linked_distinct [OF dlinked_linked [OF assms(1)]] Cons by simp
    then have "dlinked nx' pv' b (nx b) ws"
      using assms(1,6) Cons by (intro dlinked_cong [of ws nx' nx pv' pv]) auto
    then show ?thesis using assms(1,6) Cons by auto
  qed (use assms(1) in simp)
  then show ?thesis using assms by simp
qed

text \<open>Another timer takes a place in the list.\<close>

lemma dlinked_replace:
  assumes "dlinked nx pv p f (us @ a # vs)" and "p \<notin> set (us @ a # vs)" and "b \<noteq> 0" and "b \<notin> set (us @ a # vs)"
    and "nx' b = nx a" and "pv' b = pv a"
    and "\<And>x. x \<in> set (us @ vs) \<Longrightarrow> nx' x = (if x = pv a then b else nx x)"
    and "\<And>x. x \<in> set (us @ vs) \<Longrightarrow> pv' x = (if x = nx a then b else pv x)"
  shows "dlinked nx' pv' p (if f = a then b else f) (us @ b # vs)"
  using assms
proof (induction us arbitrary: p f)
  case Nil
  have d: "distinct (a # vs)" using linked_distinct [OF dlinked_linked [OF Nil(1)]] by simp
  have a: "pv a = p" "f = a" "dlinked nx pv a (nx a) vs" using Nil(1) by auto
  have "dlinked nx' pv' b (nx a) vs"
  proof (cases vs)
    case (Cons c ws)
    have c: "nx a = c" "dlinked nx pv c (nx c) ws" "c \<noteq> 0" using a(3) Cons by auto
    have "dlinked nx' pv' c (nx c) ws"
      by (rule dlinked_cong [OF _ c(2)]) (use Nil(2,7,8) Cons c d a in auto)
    then show ?thesis using c Cons Nil(2,7,8) a by auto
  qed (use a in simp)
  then show ?case using Nil a by simp
next
  case (Cons u us)
  have d: "distinct (u # us @ a # vs)" using linked_distinct [OF dlinked_linked [OF Cons.prems(1)]] by simp
  have u: "f = u" "u \<noteq> 0" "pv u = p" "dlinked nx pv u (nx u) (us @ a # vs)" using Cons.prems(1) by auto
  have IH: "dlinked nx' pv' u (if nx u = a then b else nx u) (us @ b # vs)"
    using Cons.IH [OF u(4)] d Cons.prems(3-8) by simp
  have inner: "pv a = (if us = [] then u else last us)" "nx a = (case vs of [] \<Rightarrow> 0 | b # _ \<Rightarrow> b)"
      "nx u = (case us of [] \<Rightarrow> a | w # _ \<Rightarrow> w)"
    using dlinked_inner [OF u(4)] by auto
  have "nx' u = (if nx u = a then b else nx u)"
    using Cons.prems(7) [of u] inner(1,3) d last_in_set [of us] by (cases us) auto
  moreover have "u \<noteq> nx a" using inner(2) d u(2) by (cases vs) auto
  then have "pv' u = p" using Cons.prems(8) [of u] u(3) by simp
  ultimately show ?case using IH u d by auto
qed

subsection \<open>The invariant\<close>

definition heap_ok :: "'t::linorder timer_queue \<Rightarrow> bool" where
  "heap_ok q \<longleftrightarrow> heap_on (heap_time q) (length (tq_heap q)) \<and> indexed q \<and> length (tq_heap q) \<le> NO_INDEX \<and>
     (\<forall>x. x \<notin> snd ` set (tq_heap q) \<longrightarrow> tm_heap_index (tq_mem q x) = NO_INDEX)"

definition list_ok :: "'t timer_queue \<Rightarrow> addr list \<Rightarrow> bool" where
  "list_ok q xs \<longleftrightarrow> dlinked (\<lambda>x. tm_next (tq_mem q x)) (\<lambda>x. tm_prev (tq_mem q x)) 0 (tq_timers q) xs \<and>
     (\<forall>x. x \<notin> set xs \<longrightarrow> tm_next (tq_mem q x) = 0 \<and> tm_prev (tq_mem q x) = 0)"

text \<open>The timers in the list are those with operations; those in the heap are among them.\<close>

definition tq_ok :: "'t::linorder timer_queue \<Rightarrow> addr list \<Rightarrow> bool" where
  "tq_ok q xs \<longleftrightarrow> heap_ok q \<and> list_ok q xs \<and> snd ` set (tq_heap q) \<subseteq> set xs \<and>
     (\<forall>x. tm_ops (tq_mem q x) \<noteq> [] \<longleftrightarrow> x \<in> set xs)"

text \<open>Nothing but the heap and the indexes changes.\<close>

definition same_list :: "'t timer_queue \<Rightarrow> 't timer_queue \<Rightarrow> bool" where
  "same_list q r \<longleftrightarrow> tq_timers r = tq_timers q \<and>
     (\<forall>x. tm_ops (tq_mem r x) = tm_ops (tq_mem q x) \<and> tm_next (tq_mem r x) = tm_next (tq_mem q x) \<and>
          tm_prev (tq_mem r x) = tm_prev (tq_mem q x))"

definition same_heap :: "'t timer_queue \<Rightarrow> 't timer_queue \<Rightarrow> bool" where
  "same_heap q r \<longleftrightarrow> tq_heap r = tq_heap q \<and> (\<forall>x. tm_heap_index (tq_mem r x) = tm_heap_index (tq_mem q x))"

lemma list_ok_links:
  "\<lbrakk>tq_timers r = tq_timers q; \<And>x. tm_next (tq_mem r x) = tm_next (tq_mem q x) \<and> tm_prev (tq_mem r x) = tm_prev (tq_mem q x)\<rbrakk>
    \<Longrightarrow> list_ok r xs \<longleftrightarrow> list_ok q xs"
  by (simp add: list_ok_def)

lemma list_ok_same: "same_list q r \<Longrightarrow> list_ok r xs \<longleftrightarrow> list_ok q xs"
  by (rule list_ok_links) (simp_all add: same_list_def)

lemma heap_ok_same: "same_heap q r \<Longrightarrow> heap_ok r \<longleftrightarrow> heap_ok q"
  unfolding heap_ok_def same_heap_def heap_time_def indexed_def by simp

lemma same_list_trans: "same_list q r \<Longrightarrow> same_list r s \<Longrightarrow> same_list q s"
  by (simp add: same_list_def)

lemma reheap_same_list: "reheap q r \<Longrightarrow> same_list q r"
  by (simp add: reheap_def same_list_def)

lemma reheap_heap_ok:
  assumes "reheap q r" and "heap_on (heap_time r) (length (tq_heap r))" and "indexed q" and "length (tq_heap q) \<le> NO_INDEX"
    and "\<And>x. x \<notin> snd ` set (tq_heap q) \<Longrightarrow> tm_heap_index (tq_mem q x) = NO_INDEX"
  shows "heap_ok r"
  using assms reheap_set [OF assms(1)] by (simp add: heap_ok_def reheap_def)

lemma list_ok_in_list:
  assumes "list_ok q xs" and "x \<noteq> 0"
  shows "in_list x q \<longleftrightarrow> x \<in> set xs"
proof
  assume "in_list x q"
  then show "x \<in> set xs" using assms by (cases xs) (auto simp: in_list_def list_ok_def)
next
  assume "x \<in> set xs"
  then obtain us vs where xs: "xs = us @ x # vs" by (auto dest: split_list)
  have d: "dlinked (\<lambda>x. tm_next (tq_mem q x)) (\<lambda>x. tm_prev (tq_mem q x)) 0 (tq_timers q) (us @ x # vs)"
    using assms(1) xs by (simp add: list_ok_def)
  have "0 \<notin> set xs" using linked_nonzero [OF dlinked_linked [OF d]] xs by simp
  then have "us \<noteq> [] \<Longrightarrow> last us \<noteq> 0" using xs last_in_set [of us] by (metis Un_iff set_append)
  then show "in_list x q"
    using dlinked_inner(1,3) [OF d] unfolding in_list_def by (cases "us = []") simp_all
qed

lemma heap_ok_index:
  assumes "heap_ok q"
  shows "tm_heap_index (tq_mem q a) < length (tq_heap q) \<longleftrightarrow> a \<in> snd ` set (tq_heap q)"
    and "tm_heap_index (tq_mem q a) < length (tq_heap q) \<Longrightarrow> snd (tq_heap q ! tm_heap_index (tq_mem q a)) = a"
proof -
  have "a \<in> snd ` set (tq_heap q) \<Longrightarrow> tm_heap_index (tq_mem q a) < length (tq_heap q) \<and>
      snd (tq_heap q ! tm_heap_index (tq_mem q a)) = a"
    using assms by (auto simp: heap_ok_def indexed_def in_set_conv_nth) (metis snd_conv)+
  moreover have "a \<notin> snd ` set (tq_heap q) \<Longrightarrow> \<not> tm_heap_index (tq_mem q a) < length (tq_heap q)"
    using assms by (auto simp: heap_ok_def)
  ultimately show "tm_heap_index (tq_mem q a) < length (tq_heap q) \<longleftrightarrow> a \<in> snd ` set (tq_heap q)"
    "tm_heap_index (tq_mem q a) < length (tq_heap q) \<Longrightarrow> snd (tq_heap q ! tm_heap_index (tq_mem q a)) = a"
    by blast+
qed

lemma heap_above_cong:
  assumes "\<And>x. x < n \<Longrightarrow> k' x = k x" and "i < n" and "heap_above k n i"
  shows "heap_above k' n i"
proof -
  have p: "j < n \<Longrightarrow> (j - 1) div 2 < n" for j by auto
  show ?thesis
    using assms p unfolding heap_above_def over_children_def by (metis (no_types, lifting))
qed

lemma heap_below_cong:
  assumes "\<And>x. x < n \<Longrightarrow> k' x = k x" and "i < n" and "heap_below k n i"
  shows "heap_below k' n i"
proof -
  have p: "j < n \<Longrightarrow> (j - 1) div 2 < n" for j by auto
  show ?thesis
    using assms p unfolding heap_below_def over_children_def by (metis (no_types, lifting))
qed

lemma heap_on_cong:
  assumes "\<And>x. x < n \<Longrightarrow> k' x = k x" and "heap_on k n"
  shows "heap_on k' n"
proof -
  have p: "j < n \<Longrightarrow> (j - 1) div 2 < n" for j by auto
  show ?thesis using assms p unfolding heap_on_def by metis
qed

lemma heap_on_less: "heap_on k n \<Longrightarrow> m \<le> n \<Longrightarrow> heap_on k m"
  by (simp add: heap_on_def)

text \<open>An entry at the end of the heap is dropped.\<close>

lemma drop_last_entry:
  assumes "indexed q" and "i < length (tq_heap q)" and "i = length (tq_heap q) - 1" and "a = snd (tq_heap q ! i)"
    and "\<And>x. x \<notin> snd ` set (tq_heap q) \<Longrightarrow> tm_heap_index (tq_mem q x) = NO_INDEX" and "length (tq_heap q) \<le> NO_INDEX"
    and "r = (upd_timer a (set_index NO_INDEX) q)\<lparr>tq_heap := butlast (tq_heap (upd_timer a (set_index NO_INDEX) q))\<rparr>"
  shows "indexed r" and "set (tq_heap r) = {e \<in> set (tq_heap q). snd e \<noteq> a}" and "length (tq_heap r) = length (tq_heap q) - 1"
    and "\<And>x. x \<notin> snd ` set (tq_heap r) \<Longrightarrow> tm_heap_index (tq_mem r x) = NO_INDEX" and "same_list q r"
    and "\<And>x. x < length (tq_heap q) - 1 \<Longrightarrow> tq_heap r ! x = tq_heap q ! x"
proof -
  let ?h = "tq_heap q"
  have ne: "?h \<noteq> []" using assms(2) by auto
  then have last: "last ?h = ?h ! i" using assms(3) by (simp add: last_conv_nth)
  have heap: "tq_heap r = butlast ?h" using assms(7) by (simp add: upd_timer_def)
  have mem: "tq_mem r x = (if x = a then set_index NO_INDEX (tq_mem q a) else tq_mem q x)" for x
    using assms(7) by (simp add: upd_timer_def)
  have split: "?h = butlast ?h @ [?h ! i]" using ne last by (metis append_butlast_last_id)
  have d: "distinct (map snd (butlast ?h @ [?h ! i]))" using assms(1) split by (simp add: indexed_def)
  then have a: "a \<notin> snd ` set (butlast ?h)" using assms(4) by simp
  have "set ?h = insert (?h ! i) (set (butlast ?h))" by (metis split set_append list.simps(15) empty_set Un_insert_right sup_bot_right)
  then show set: "set (tq_heap r) = {e \<in> set ?h. snd e \<noteq> a}" using heap a assms(4) by (force simp: image_iff)
  show "length (tq_heap r) = length ?h - 1" using heap by simp
  show nth: "tq_heap r ! x = ?h ! x" if "x < length ?h - 1" for x using heap that by (simp add: nth_butlast)
  show "tm_heap_index (tq_mem r x) = NO_INDEX" if "x \<notin> snd ` set (tq_heap r)" for x
    using that assms(5) [of x] set mem by (auto simp: set_index_def)
  show "same_list q r" using mem assms(7) by (auto simp: same_list_def set_index_def upd_timer_def)
  have "tm_heap_index (tq_mem r (snd (tq_heap r ! x))) = x" if x: "x < length ?h - 1" for x
  proof -
    have "snd (?h ! x) \<noteq> a" using a x by (metis heap image_eqI length_butlast nth nth_mem)
    then show ?thesis using assms(1) x nth [OF x] mem by (auto simp: indexed_def)
  qed
  then show "indexed r" using d heap by (simp add: indexed_def)
qed

text \<open>After an entry has been replaced, moving it up or down restores the heap.\<close>

lemma restore_heap:
  assumes "heap_on k (length (tq_heap r))" and "i < length (tq_heap r)"
    and "\<And>x. x < length (tq_heap r) \<Longrightarrow> heap_time r x = (k(i := y)) x"
    and "u = (if 0 < i \<and> heap_time r i < heap_time r ((i - 1) div 2) then up_heap i r else down_heap i r)"
  shows "reheap r u" and "heap_on (heap_time u) (length (tq_heap r))"
proof -
  let ?n = "length (tq_heap r)"
  have p: "0 < i \<Longrightarrow> (i - 1) div 2 < ?n \<and> (i - 1) div 2 \<noteq> i" using assms(2) by auto
  then have less: "0 < i \<and> heap_time r i < heap_time r ((i - 1) div 2) \<longleftrightarrow> 0 < i \<and> y < k ((i - 1) div 2)"
    using assms(3) [OF assms(2)] assms(3) [of "(i - 1) div 2"] by auto
  note rep = heap_on_replace [OF assms(1,2), of y]
  have "reheap r u \<and> heap_on (heap_time u) ?n"
  proof (cases "0 < i \<and> heap_time r i < heap_time r ((i - 1) div 2)")
    case True
    then have "heap_above (k(i := y)) ?n i" unfolding less by (rule rep(1))
    then have "heap_above (heap_time r) ?n i"
      using heap_above_cong [of ?n "heap_time r" "k(i := y)" i, OF assms(3,2)] by blast
    moreover have "u = up_heap i r" unfolding assms(4) using True by (rule if_P)
    ultimately show ?thesis using up_heap_reheap [OF assms(2)] up_heap_heap [OF assms(2)] by simp
  next
    case False
    then have "heap_below (k(i := y)) ?n i" unfolding less by (rule rep(2))
    then have "heap_below (heap_time r) ?n i"
      using heap_below_cong [of ?n "heap_time r" "k(i := y)" i, OF assms(3,2)] by blast
    moreover have "u = down_heap i r" unfolding assms(4) using False by (rule if_not_P)
    ultimately show ?thesis using down_heap_both [OF assms(2)] by simp
  qed
  then show "reheap r u" and "heap_on (heap_time u) ?n" by blast+
qed

lemma remove_from_heap_ok:
  assumes "heap_ok q"
  shows "heap_ok (remove_from_heap a q)" and "set (tq_heap (remove_from_heap a q)) = {e \<in> set (tq_heap q). snd e \<noteq> a}"
    and "same_list q (remove_from_heap a q)"
proof -
  let ?i = "tm_heap_index (tq_mem q a)" and ?n = "length (tq_heap q)"
  have h: "heap_on (heap_time q) ?n" "indexed q" "?n \<le> NO_INDEX"
      "\<And>x. x \<notin> snd ` set (tq_heap q) \<Longrightarrow> tm_heap_index (tq_mem q x) = NO_INDEX"
    using assms by (simp_all add: heap_ok_def)
  have "heap_ok (remove_from_heap a q) \<and> set (tq_heap (remove_from_heap a q)) = {e \<in> set (tq_heap q). snd e \<noteq> a} \<and>
    same_list q (remove_from_heap a q)"
  proof (cases "?i < ?n")
    case False
    then have "a \<notin> snd ` set (tq_heap q)" using heap_ok_index(1) [OF assms] by simp
    then have "{e \<in> set (tq_heap q). snd e \<noteq> a} = set (tq_heap q)" by force
    then show ?thesis using False assms by (simp add: remove_from_heap_def same_list_def)
  next
    case i: True
    have a: "a = snd (tq_heap q ! ?i)" using heap_ok_index(2) [OF assms i] by simp
    show ?thesis
    proof (cases "?i = ?n - 1")
      case True
      define r where "r = (upd_timer a (set_index NO_INDEX) q)\<lparr>tq_heap := butlast (tq_heap (upd_timer a (set_index NO_INDEX) q))\<rparr>"
      note r = drop_last_entry [OF h(2) i True a h(4,3) r_def]
      have "remove_from_heap a q = r" using i True by (auto simp: remove_from_heap_def r_def Let_def)
      moreover have "heap_on (heap_time r) (?n - 1)"
        by (rule heap_on_cong [OF _ heap_on_less [OF h(1)]]) (simp_all add: heap_time_def r(6))
      ultimately show ?thesis using r h(3) by (simp add: heap_ok_def)
    next
      case False
      let ?s = "swap_heap ?i (?n - 1) q"
      have n: "?n - 1 < ?n" using i by simp
      have sw: "reheap q ?s" by (rule swap_reheap) (use i n False in auto)
      define r where "r = (upd_timer a (set_index NO_INDEX) ?s)\<lparr>tq_heap := butlast (tq_heap (upd_timer a (set_index NO_INDEX) ?s))\<rparr>"
      have s: "indexed ?s" "set (tq_heap ?s) = set (tq_heap q)" "length (tq_heap ?s) = ?n" "same_list q ?s"
        using sw h(2) reheap_set [OF sw] reheap_same_list [OF sw] by (simp_all add: reheap_def)
      have s_idx: "tm_heap_index (tq_mem ?s x) = NO_INDEX" if "x \<notin> snd ` set (tq_heap ?s)" for x
        using that sw h(4) [of x] reheap_set [OF sw] by (simp add: reheap_def)
      have "a = snd (tq_heap ?s ! (?n - 1))" using a i n by (simp add: swap_heap_heap)
      from drop_last_entry [OF s(1) _ _ this s_idx _ r_def] h(3) n s(3)
      have r: "indexed r" "set (tq_heap r) = {e \<in> set (tq_heap q). snd e \<noteq> a}" "length (tq_heap r) = ?n - 1"
        "\<And>x. x \<notin> snd ` set (tq_heap r) \<Longrightarrow> tm_heap_index (tq_mem r x) = NO_INDEX" "same_list ?s r"
        "\<And>x. x < ?n - 1 \<Longrightarrow> tq_heap r ! x = tq_heap ?s ! x"
        using s(2) by simp_all
      have i': "?i < ?n - 1" using i False by simp
      have k: "heap_time r x = ((heap_time q)(?i := heap_time q (?n - 1))) x" if "x < ?n - 1" for x
        using r(6) [OF that] that i i' by (simp add: heap_time_def swap_heap_heap nth_list_update)
      define u where "u = (if 0 < ?i \<and> heap_time r ?i < heap_time r ((?i - 1) div 2) then up_heap ?i r else down_heap ?i r)"
      have eq: "remove_from_heap a q = u"
        using i False by (auto simp: remove_from_heap_def r_def u_def Let_def)
      have u: "reheap r u" "heap_on (heap_time u) (?n - 1)"
        using restore_heap [of "heap_time q" r ?i "heap_time q (?n - 1)" u] heap_on_less [OF h(1), of "?n - 1"] i' k u_def r(3)
        by simp_all
      have "heap_ok u"
        using reheap_heap_ok [OF u(1) _ r(1) _ r(4)] u(2) reheap_set [OF u(1)] r(3) h(3) by simp
      moreover have "same_list q u"
        using same_list_trans [OF same_list_trans [OF s(4) r(5)] reheap_same_list [OF u(1)]] .
      ultimately show ?thesis using eq r(2) reheap_set [OF u(1)] by simp
    qed
  qed
  then show "heap_ok (remove_from_heap a q)" "set (tq_heap (remove_from_heap a q)) = {e \<in> set (tq_heap q). snd e \<noteq> a}"
    "same_list q (remove_from_heap a q)" by blast+
qed

lemma unlink_fields:
  assumes "tm_prev (tq_mem q a) \<noteq> a \<or> a = 0" and "tm_next (tq_mem q a) \<noteq> a \<or> a = 0"
  shows "tm_next (tq_mem (unlink_timer a q) x) = (if x = a then 0 else if x = tm_prev (tq_mem q a) \<and> x \<noteq> 0
      then tm_next (tq_mem q a) else tm_next (tq_mem q x))"
    and "tm_prev (tq_mem (unlink_timer a q) x) = (if x = a then 0 else if x = tm_next (tq_mem q a) \<and> x \<noteq> 0
      then tm_prev (tq_mem q a) else tm_prev (tq_mem q x))"
    and "tq_timers (unlink_timer a q) = (if tq_timers q = a then tm_next (tq_mem q a) else tq_timers q)"
    and "tm_ops (tq_mem (unlink_timer a q) x) = tm_ops (tq_mem q x)" and "same_heap q (unlink_timer a q)"
  using assms by (auto simp: unlink_timer_def upd_timer_def Let_def same_heap_def)

lemma unlink_ok:
  assumes "list_ok q (us @ a # vs)"
  shows "list_ok (unlink_timer a q) (us @ vs)" and "same_heap q (unlink_timer a q)"
    and "\<And>x. tm_ops (tq_mem (unlink_timer a q) x) = tm_ops (tq_mem q x)"
proof -
  have d: "dlinked (\<lambda>x. tm_next (tq_mem q x)) (\<lambda>x. tm_prev (tq_mem q x)) 0 (tq_timers q) (us @ a # vs)"
    using assms by (simp add: list_ok_def)
  have ds: "distinct (us @ a # vs)" "0 \<notin> set (us @ a # vs)"
    using linked_distinct linked_nonzero dlinked_linked [OF d] by blast+
  note inner = dlinked_inner [OF d]
  have "tm_prev (tq_mem q a) \<noteq> a" using inner(1) ds last_in_set [of us] by (cases "us = []") auto
  moreover have "tm_next (tq_mem q a) \<noteq> a" using inner(2) ds by (cases vs) auto
  ultimately have f: "tm_prev (tq_mem q a) \<noteq> a \<or> a = 0" "tm_next (tq_mem q a) \<noteq> a \<or> a = 0" by simp_all
  note u = unlink_fields [OF f]
  show "same_heap q (unlink_timer a q)" "tm_ops (tq_mem (unlink_timer a q) x) = tm_ops (tq_mem q x)" for x
    by (rule u)+
  have "dlinked (\<lambda>x. tm_next (tq_mem (unlink_timer a q) x)) (\<lambda>x. tm_prev (tq_mem (unlink_timer a q) x)) 0
      (if tq_timers q = a then tm_next (tq_mem q a) else tq_timers q) (us @ vs)"
    by (rule dlinked_unlink [OF d ds(2)]) (use u(1,2) ds in auto)
  moreover have "tm_next (tq_mem (unlink_timer a q) x) = 0 \<and> tm_prev (tq_mem (unlink_timer a q) x) = 0"
    if "x \<notin> set (us @ vs)" for x
  proof (cases "x = a")
    case False
    then have x: "x \<notin> set (us @ a # vs)" using that by simp
    then have "x = tm_prev (tq_mem q a) \<Longrightarrow> x = 0" "x = tm_next (tq_mem q a) \<Longrightarrow> x = 0"
      using inner(1,2) last_in_set [of us] by (auto split: if_splits list.splits)
    then show ?thesis using assms x False u(1,2) by (auto simp: list_ok_def)
  qed (use u(1,2) in simp)
  ultimately show "list_ok (unlink_timer a q) (us @ vs)" using u(3) by (simp add: list_ok_def)
qed

lemma remove1_split: "distinct (us @ a # vs) \<Longrightarrow> remove1 a (us @ a # vs) = us @ vs"
  by (simp add: remove1_append)

lemma list_ok_distinct: "list_ok q xs \<Longrightarrow> distinct xs \<and> 0 \<notin> set xs"
  using linked_distinct linked_nonzero dlinked_linked unfolding list_ok_def by blast

lemma remove_timer_ok:
  assumes "heap_ok q" and "list_ok q xs" and "a \<in> set xs"
  shows "heap_ok (remove_timer a q)" and "list_ok (remove_timer a q) (remove1 a xs)"
    and "set (tq_heap (remove_timer a q)) = {e \<in> set (tq_heap q). snd e \<noteq> a}"
    and "\<And>x. tm_ops (tq_mem (remove_timer a q) x) = tm_ops (tq_mem q x)"
proof -
  obtain us vs where xs: "xs = us @ a # vs" using assms(3) by (auto dest: split_list)
  then have r1: "remove1 a xs = us @ vs" using list_ok_distinct [OF assms(2)] by (simp add: remove1_split)
  note r = remove_from_heap_ok [OF assms(1), of a]
  have l: "list_ok (remove_from_heap a q) (us @ a # vs)" using list_ok_same [OF r(3)] assms(2) xs by simp
  note u = unlink_ok [OF l]
  show "heap_ok (remove_timer a q)" using heap_ok_same [OF u(2)] r(1) by (simp add: remove_timer_def)
  show "list_ok (remove_timer a q) (remove1 a xs)" using u(1) r1 by (simp add: remove_timer_def)
  show "set (tq_heap (remove_timer a q)) = {e \<in> set (tq_heap q). snd e \<noteq> a}"
    using u(2) r(2) by (simp add: remove_timer_def same_heap_def)
  show "tm_ops (tq_mem (remove_timer a q) x) = tm_ops (tq_mem q x)" for x
    using u(3) r(3) by (simp add: remove_timer_def same_list_def)
qed

text \<open>A timer without operations leaves the queue.\<close>

lemma drop_timer_ok:
  assumes "tq_ok q xs" and "a \<in> set xs" and "r = remove_timer a (upd_timer a (\<lambda>t. t\<lparr>tm_ops := []\<rparr>) q)"
  shows "tq_ok r (remove1 a xs)" and "set (tq_heap r) = {e \<in> set (tq_heap q). snd e \<noteq> a}"
    and "\<And>x. tm_ops (tq_mem r x) = (if x = a then [] else tm_ops (tq_mem q x))"
proof -
  let ?u = "upd_timer a (\<lambda>t. t\<lparr>tm_ops := []\<rparr>) q"
  have ok: "heap_ok q" "list_ok q xs" using assms(1) by (simp_all add: tq_ok_def)
  have "same_heap q ?u" by (simp add: same_heap_def upd_timer_def)
  then have h: "heap_ok ?u" "tq_heap ?u = tq_heap q" using ok heap_ok_same by (auto simp: same_heap_def)
  have l: "list_ok ?u xs" using ok(2) list_ok_links [of ?u q] by (simp add: upd_timer_def)
  note rm = remove_timer_ok [OF h(1) l assms(2), folded assms(3)]
  show set: "set (tq_heap r) = {e \<in> set (tq_heap q). snd e \<noteq> a}" using rm(3) h(2) by simp
  show ops: "tm_ops (tq_mem r x) = (if x = a then [] else tm_ops (tq_mem q x))" for x
    using rm(4) by (simp add: upd_timer_def)
  have "distinct xs" using list_ok_distinct [OF ok(2)] by simp
  then have "set (remove1 a xs) = set xs - {a}" by simp
  then show "tq_ok r (remove1 a xs)"
    using rm(1,2) set ops assms(1) by (auto simp: tq_ok_def)
qed

text \<open>A new timer enters the heap and the list.\<close>

lemma add_entry_ok:
  assumes "heap_ok q" and "a \<notin> snd ` set (tq_heap q)" and "length (tq_heap q) < NO_INDEX"
    and "p = upd_timer a (set_index (length (tq_heap q))) q" and "p' = p\<lparr>tq_heap := tq_heap p @ [(t, a)]\<rparr>"
    and "r = up_heap (length (tq_heap p') - 1) p'"
  shows "heap_ok r" and "set (tq_heap r) = insert (t, a) (set (tq_heap q))" and "same_list q r"
proof -
  let ?n = "length (tq_heap q)"
  have h: "heap_on (heap_time q) ?n" "indexed q" "\<And>x. x \<notin> snd ` set (tq_heap q) \<Longrightarrow> tm_heap_index (tq_mem q x) = NO_INDEX"
    using assms(1) by (simp_all add: heap_ok_def)
  have p': "tq_heap p' = tq_heap q @ [(t, a)]" "same_list q p'"
      "\<And>x. tm_heap_index (tq_mem p' x) = (if x = a then ?n else tm_heap_index (tq_mem q x))"
    using assms(4,5) by (auto simp: upd_timer_def same_list_def set_index_def)
  have k: "heap_time p' x = heap_time q x" if "x < ?n" for x
    using that p'(1) by (simp add: heap_time_def nth_append)
  have "indexed p'"
  proof -
    have "tm_heap_index (tq_mem p' (snd (tq_heap p' ! i))) = i" if "i < Suc ?n" for i
    proof (cases "i = ?n")
      case False
      then have i: "i < ?n" using that by simp
      then have "snd (tq_heap q ! i) \<noteq> a" using assms(2) by (metis image_eqI nth_mem)
      then show ?thesis using h(2) i p' by (simp add: indexed_def nth_append)
    qed (use p' in simp)
    then show ?thesis using h(2) assms(2) p'(1) by (simp add: indexed_def)
  qed
  moreover have "heap_above (heap_time p') (Suc ?n) ?n"
    unfolding heap_above_def over_children_def
  proof (intro conjI allI impI)
    fix j assume j: "0 < j \<and> j < Suc ?n \<and> j \<noteq> ?n"
    then have "j < ?n" "(j - 1) div 2 < ?n" by auto
    then show "heap_time p' ((j - 1) div 2) \<le> heap_time p' j" using h(1) j k by (simp add: heap_on_def)
  next
    fix j assume "0 < ?n" "0 < j \<and> j < Suc ?n \<and> (j - 1) div 2 = ?n"
    then show "heap_time p' ((?n - 1) div 2) \<le> heap_time p' j" by auto
  qed
  ultimately have r: "reheap p' r" "heap_on (heap_time r) (Suc ?n)" "indexed p'"
    using up_heap_reheap [of ?n p'] up_heap_heap [of ?n p'] assms(6) p'(1) by simp_all
  have idx: "x \<notin> snd ` set (tq_heap p') \<Longrightarrow> tm_heap_index (tq_mem p' x) = NO_INDEX" for x
    using h(3) [of x] p' by auto
  show "heap_ok r"
    using reheap_heap_ok [OF r(1) _ r(3) _ idx] reheap_set [OF r(1)] r(2) p'(1) assms(3) by simp
  show "set (tq_heap r) = insert (t, a) (set (tq_heap q))" using reheap_set [OF r(1)] p'(1) by simp
  show "same_list q r" using same_list_trans [OF p'(2) reheap_same_list [OF r(1)]] .
qed

lemma link_ok:
  assumes "list_ok q xs" and "a \<noteq> 0" and "a \<notin> set xs"
  shows "list_ok (link_timer a q) (a # xs)" and "same_heap q (link_timer a q)"
    and "\<And>x. tm_ops (tq_mem (link_timer a q) x) = tm_ops (tq_mem q x)"
proof -
  have d: "dlinked (\<lambda>x. tm_next (tq_mem q x)) (\<lambda>x. tm_prev (tq_mem q x)) 0 (tq_timers q) xs"
    using assms(1) by (simp add: list_ok_def)
  have "tq_timers q \<noteq> 0 \<Longrightarrow> tq_timers q \<in> set xs" using d by (cases xs) auto
  then have ne: "tq_timers q \<noteq> a" using assms(2,3) by auto
  have f: "tm_next (tq_mem (link_timer a q) x) = (if x = a then tq_timers q else tm_next (tq_mem q x))"
      "tm_prev (tq_mem (link_timer a q) x) = (if x = a then 0 else if x = tq_timers q \<and> x \<noteq> 0 then a else tm_prev (tq_mem q x))"
      "tq_timers (link_timer a q) = a" for x
    using ne by (auto simp: link_timer_def upd_timer_def Let_def)
  show "tm_ops (tq_mem (link_timer a q) x) = tm_ops (tq_mem q x)" for x
    by (simp add: link_timer_def upd_timer_def Let_def)
  show "same_heap q (link_timer a q)"
    by (simp add: link_timer_def upd_timer_def Let_def same_heap_def)
  have nz: "0 \<notin> set xs" using list_ok_distinct [OF assms(1)] by simp
  have "dlinked (\<lambda>x. tm_next (tq_mem (link_timer a q) x)) (\<lambda>x. tm_prev (tq_mem (link_timer a q) x)) 0 a (a # xs)"
    by (rule dlinked_link [OF d assms(2,3)]) (use f assms(3) nz in auto)
  moreover have "tm_next (tq_mem (link_timer a q) x) = 0 \<and> tm_prev (tq_mem (link_timer a q) x) = 0" if "x \<notin> set (a # xs)" for x
    using that assms(1) f \<open>tq_timers q \<noteq> 0 \<Longrightarrow> tq_timers q \<in> set xs\<close> by (auto simp: list_ok_def)
  ultimately show "list_ok (link_timer a q) (a # xs)" using f(3) by (simp add: list_ok_def)
qed

subsection \<open>What the queue stands for\<close>

text \<open>
  A schedule: for each active timer its expiry, if it has one, and the operations waiting for it.
\<close>

type_synonym 't schedule = "addr \<Rightarrow> ('t option \<times> wait_op list) option"

definition expiry :: "'t timer_queue \<Rightarrow> addr \<Rightarrow> 't option" where
  "expiry q x = (let i = tm_heap_index (tq_mem q x) in if i < length (tq_heap q) then Some (heap_time q i) else None)"

definition schedule :: "'t timer_queue \<Rightarrow> 't schedule" where
  "schedule q x = (if x \<noteq> 0 \<and> in_list x q then Some (expiry q x, tm_ops (tq_mem q x)) else None)"

definition sched_add :: "('t \<Rightarrow> bool) \<Rightarrow> 't \<Rightarrow> addr \<Rightarrow> wait_op \<Rightarrow> 't schedule \<Rightarrow> 't schedule" where
  "sched_add never t x op m =
     m(x \<mapsto> (case m x of None \<Rightarrow> (if never t then None else Some t, [op]) | Some (e, ops) \<Rightarrow> (e, ops @ [op])))"

definition sched_keep :: "addr \<Rightarrow> (wait_op list \<Rightarrow> wait_op list) \<Rightarrow> 't schedule \<Rightarrow> 't schedule" where
  "sched_keep x f m =
     m(x := (case m x of None \<Rightarrow> None | Some (e, ops) \<Rightarrow> if f ops = [] then None else Some (e, f ops)))"

definition due :: "'t::linorder \<Rightarrow> 't schedule \<Rightarrow> addr \<Rightarrow> bool" where
  "due now m x \<longleftrightarrow> (\<exists>t ops. m x = Some (Some t, ops) \<and> t \<le> now)"

lemma expiry_iff: "heap_ok q \<Longrightarrow> expiry q x = Some t \<longleftrightarrow> (t, x) \<in> set (tq_heap q)"
proof -
  assume ok: "heap_ok q"
  show ?thesis
  proof
    assume "expiry q x = Some t"
    then show "(t, x) \<in> set (tq_heap q)"
      using heap_ok_index(2) [OF ok, of x]
      by (auto simp: expiry_def heap_time_def Let_def split: if_splits) (metis nth_mem prod.collapse)
  next
    assume "(t, x) \<in> set (tq_heap q)"
    then obtain i where i: "i < length (tq_heap q)" "tq_heap q ! i = (t, x)" by (auto simp: in_set_conv_nth)
    then have "tm_heap_index (tq_mem q x) = i" using ok by (auto simp: heap_ok_def indexed_def)
    then show "expiry q x = Some t" using i by (simp add: expiry_def heap_time_def)
  qed
qed

lemma expiry_cong:
  assumes "heap_ok q" and "heap_ok r" and "\<And>t. (t, y) \<in> set (tq_heap r) \<longleftrightarrow> (t, x) \<in> set (tq_heap q)"
  shows "expiry r y = expiry q x"
  using assms expiry_iff [of q x] expiry_iff [of r y] by (cases "expiry r y"; cases "expiry q x") auto

lemma schedule_ok:
  assumes "tq_ok q xs"
  shows "schedule q x = (if x \<in> set xs then Some (expiry q x, tm_ops (tq_mem q x)) else None)"
proof -
  have l: "list_ok q xs" using assms by (simp add: tq_ok_def)
  then show ?thesis
    using list_ok_in_list [OF l, of x] list_ok_distinct [OF l] by (auto simp: schedule_def)
qed

text \<open>Changing the operations of a timer.\<close>

lemma set_ops_ok:
  assumes "tq_ok q xs" and "a \<in> set xs" and "ops \<noteq> []" and "r = upd_timer a (\<lambda>t. t\<lparr>tm_ops := ops\<rparr>) q"
  shows "tq_ok r xs" and "schedule r = (schedule q)(a \<mapsto> (expiry q a, ops))"
proof -
  have same: "same_heap q r" "tq_heap r = tq_heap q" using assms(4) by (auto simp: same_heap_def upd_timer_def)
  have "list_ok r xs \<longleftrightarrow> list_ok q xs" by (rule list_ok_links) (use assms(4) in \<open>auto simp: upd_timer_def\<close>)
  then show ok: "tq_ok r xs"
    using assms heap_ok_same [OF same(1)] by (auto simp: tq_ok_def upd_timer_def)
  have "expiry r x = expiry q x" for x
    using same by (simp add: expiry_def same_heap_def heap_time_def Let_def)
  moreover have "tm_ops (tq_mem r x) = (if x = a then ops else tm_ops (tq_mem q x))" for x
    using assms(4) by (simp add: upd_timer_def)
  ultimately show "schedule r = (schedule q)(a \<mapsto> (expiry q a, ops))"
    using assms(2) by (simp add: fun_eq_iff schedule_ok [OF ok] schedule_ok [OF assms(1)])
qed

lemma drop_timer_schedule:
  assumes "tq_ok q xs" and "a \<in> set xs" and "r = remove_timer a (upd_timer a (\<lambda>t. t\<lparr>tm_ops := []\<rparr>) q)"
  shows "schedule r = (schedule q)(a := None)"
proof
  fix x
  note d = drop_timer_ok [OF assms]
  have h: "heap_ok q" "heap_ok r" "list_ok q xs" using assms(1) d(1) by (simp_all add: tq_ok_def)
  have "x \<noteq> a \<Longrightarrow> expiry r x = expiry q x" by (rule expiry_cong [OF h(1,2)]) (simp add: d(2))
  moreover have "set (remove1 a xs) = set xs - {a}" using list_ok_distinct [OF h(3)] by simp
  ultimately show "schedule r x = ((schedule q)(a := None)) x"
    by (simp add: schedule_ok [OF d(1)] schedule_ok [OF assms(1)] d(3))
qed

lemma keep_ops_ok:
  assumes "tq_ok q xs" and "a \<noteq> 0" and "in_list a q" and "u = upd_timer a (\<lambda>t. t\<lparr>tm_ops := f (tm_ops (tq_mem q a))\<rparr>) q"
    and "r = (if tm_ops (tq_mem u a) = [] then remove_timer a u else u)"
  shows "\<exists>ys. tq_ok r ys" and "schedule r = sched_keep a f (schedule q)"
proof -
  have a: "a \<in> set xs" using assms list_ok_in_list by (auto simp: tq_ok_def)
  have s: "schedule q a = Some (expiry q a, tm_ops (tq_mem q a))" using a by (simp add: schedule_ok [OF assms(1)])
  have "(\<exists>ys. tq_ok r ys) \<and> schedule r = sched_keep a f (schedule q)"
  proof (cases "f (tm_ops (tq_mem q a)) = []")
    case True
    then have r: "r = remove_timer a (upd_timer a (\<lambda>t. t\<lparr>tm_ops := []\<rparr>) q)"
      using assms(4,5) by (simp add: upd_timer_def)
    show ?thesis
      using drop_timer_ok(1) [OF assms(1) a r] drop_timer_schedule [OF assms(1) a r] s True
      by (auto simp: sched_keep_def)
  next
    case False
    then have r: "r = upd_timer a (\<lambda>t. t\<lparr>tm_ops := f (tm_ops (tq_mem q a))\<rparr>) q"
      using assms(4,5) by (simp add: upd_timer_def)
    show ?thesis
      using set_ops_ok [OF assms(1) a False r] s False by (auto simp: sched_keep_def)
  qed
  then show "\<exists>ys. tq_ok r ys" and "schedule r = sched_keep a f (schedule q)" by blast+
qed

lemma sched_keep_same: "m x = None \<Longrightarrow> sched_keep x f m = m"
  by (auto simp: sched_keep_def)

lemma cancel_timer_refines:
  assumes "tq_ok q xs" and "a \<noteq> 0" and "cancel_timer a k ops q = (n, ops', r)"
  shows "(\<exists>ys. tq_ok r ys) \<and> schedule r = sched_keep a (drop k) (schedule q) \<and>
    n = min k (case schedule q a of None \<Rightarrow> 0 | Some (e, mine) \<Rightarrow> length mine) \<and>
    ops' = ops @ (case schedule q a of None \<Rightarrow> [] | Some (e, mine) \<Rightarrow> map (\<lambda>op. (op, Aborted)) (take k mine))"
proof (cases "in_list a q")
  case True
  note kp = keep_ops_ok [OF assms(1,2) True refl refl, of "drop k"]
  have "schedule q a = Some (expiry q a, tm_ops (tq_mem q a))" using True assms(2) by (simp add: schedule_def)
  then show ?thesis using assms(3) True kp by (simp add: cancel_timer_def Let_def split: prod.splits)
next
  case False
  then have "schedule q a = None" by (simp add: schedule_def)
  then show ?thesis using assms False by (auto simp: cancel_timer_def sched_keep_same)
qed

lemma cancel_timer_by_key_refines:
  assumes "tq_ok q xs" and "a \<noteq> 0" and "cancel_timer_by_key a ops key q = (ops', r)"
  shows "(\<exists>ys. tq_ok r ys) \<and> schedule r = sched_keep a (filter (\<lambda>op. wo_key op \<noteq> key)) (schedule q) \<and>
    ops' = ops @ (case schedule q a of None \<Rightarrow> [] | Some (e, mine) \<Rightarrow> map (\<lambda>op. (op, Aborted)) (filter (\<lambda>op. wo_key op = key) mine))"
proof (cases "in_list a q")
  case True
  note kp = keep_ops_ok [OF assms(1,2) True refl refl, of "filter (\<lambda>op. wo_key op \<noteq> key)"]
  have "schedule q a = Some (expiry q a, tm_ops (tq_mem q a))" using True assms(2) by (simp add: schedule_def)
  then show ?thesis using assms(3) True kp by (simp add: cancel_timer_by_key_def Let_def split: prod.splits)
next
  case False
  then have "schedule q a = None" by (simp add: schedule_def)
  then show ?thesis using assms False by (auto simp: cancel_timer_by_key_def sched_keep_same)
qed

lemma heap_on_min: "heap_on k n \<Longrightarrow> j < n \<Longrightarrow> k 0 \<le> k j"
proof (induction j rule: less_induct)
  case (less j)
  show ?case
  proof (cases "j = 0")
    case False
    then have "(j - 1) div 2 < j" by auto
    then have "k 0 \<le> k ((j - 1) div 2)" using less by simp
    also have "\<dots> \<le> k j" using less.prems False by (simp add: heap_on_def)
    finally show ?thesis .
  qed simp
qed

lemma heap_ok_min:
  assumes "heap_ok q" and "(t, x) \<in> set (tq_heap q)"
  shows "heap_time q 0 \<le> t" and "tq_heap q \<noteq> []"
proof -
  obtain i where i: "i < length (tq_heap q)" "tq_heap q ! i = (t, x)" using assms(2) by (auto simp: in_set_conv_nth)
  then show "heap_time q 0 \<le> t"
    using heap_on_min [of "heap_time q" "length (tq_heap q)" i] assms(1) by (simp add: heap_ok_def heap_time_def)
  show "tq_heap q \<noteq> []" using i by auto
qed

text \<open>The entry at the top of the heap.\<close>

lemma heap_ok_top:
  assumes "heap_ok q" and "tq_heap q \<noteq> []"
  shows "expiry q (snd (tq_heap q ! 0)) = Some (heap_time q 0)" and "tm_heap_index (tq_mem q (snd (tq_heap q ! 0))) = 0"
    and "(heap_time q 0, snd (tq_heap q ! 0)) \<in> set (tq_heap q)"
  using assms by (auto simp: expiry_iff heap_time_def heap_ok_def indexed_def)

lemma heap_ok_index_0:
  assumes "heap_ok q" and "tm_heap_index (tq_mem q a) = 0"
  shows "tq_heap q \<noteq> []" and "expiry q a = Some (heap_time q 0)"
proof -
  have "a \<in> snd ` set (tq_heap q)" using assms by (auto simp: heap_ok_def NO_INDEX_def)
  then show "tq_heap q \<noteq> []" by auto
  then show "expiry q a = Some (heap_time q 0)" using assms(2) by (simp add: expiry_def)
qed

definition enqueue_new :: "('t \<Rightarrow> bool) \<Rightarrow> 't::linorder \<Rightarrow> addr \<Rightarrow> 't timer_queue \<Rightarrow> 't timer_queue" where
  "enqueue_new never time a q =
     (if never time then upd_timer a (set_index NO_INDEX) q
      else let q = upd_timer a (set_index (length (tq_heap q))) q;
               q = q\<lparr>tq_heap := tq_heap q @ [(time, a)]\<rparr>
           in up_heap (length (tq_heap q) - 1) q)"

lemma enqueue_new_ok:
  assumes "heap_ok q" and "a \<notin> snd ` set (tq_heap q)" and "length (tq_heap q) < NO_INDEX"
  shows "heap_ok (enqueue_new never t a q)" and "same_list q (enqueue_new never t a q)"
    and "set (tq_heap (enqueue_new never t a q)) = (if never t then {} else {(t, a)}) \<union> set (tq_heap q)"
proof -
  have n: "upd_timer a (set_index NO_INDEX) q = q"
  proof -
    have "set_index NO_INDEX (tq_mem q a) = tq_mem q a" using assms(1,2) by (simp add: heap_ok_def set_index_def)
    then show ?thesis by (simp add: upd_timer_def)
  qed
  note e = add_entry_ok [OF assms refl refl refl, of t]
  show "heap_ok (enqueue_new never t a q)" "same_list q (enqueue_new never t a q)"
      "set (tq_heap (enqueue_new never t a q)) = (if never t then {} else {(t, a)}) \<union> set (tq_heap q)"
    using assms(1) e n by (auto simp: enqueue_new_def Let_def same_list_def)
qed

lemma enqueue_new_schedule:
  assumes "tq_ok q xs" and "a \<noteq> 0" and "a \<notin> set xs" and "length (tq_heap q) < NO_INDEX"
    and "r = upd_timer a (\<lambda>t. t\<lparr>tm_ops := tm_ops t @ [op]\<rparr>) (link_timer a (enqueue_new never t a q))"
  shows "tq_ok r (a # xs)" and "schedule r = (schedule q)(a \<mapsto> (if never t then None else Some t, [op]))"
    and "set (tq_heap r) = (if never t then {} else {(t, a)}) \<union> set (tq_heap q)"
proof -
  have q: "heap_ok q" "list_ok q xs" "a \<notin> snd ` set (tq_heap q)" "tm_ops (tq_mem q a) = []"
    using assms(1,3) by (auto simp: tq_ok_def)
  note e = enqueue_new_ok [OF q(1,3) assms(4), of never t]
  note l = link_ok [OF list_ok_same [OF e(2), THEN iffD2, OF q(2)] assms(2,3)]
  let ?l = "link_timer a (enqueue_new never t a q)"
  have ops: "tm_ops (tq_mem r x) = (if x = a then [op] else tm_ops (tq_mem q x))" for x
    using assms(5) l(3) e(2) q(4) by (simp add: upd_timer_def same_list_def)
  have "same_heap ?l r" using assms(5) by (simp add: upd_timer_def same_heap_def)
  then have h: "heap_ok r" "tq_heap r = tq_heap (enqueue_new never t a q)"
    using heap_ok_same l(2) e(1) by (auto simp: same_heap_def)
  then show set: "set (tq_heap r) = (if never t then {} else {(t, a)}) \<union> set (tq_heap q)" using e(3) by simp
  have "list_ok r (a # xs)" using l(1) list_ok_links [of r ?l "a # xs"] assms(5) by (simp add: upd_timer_def)
  then show ok: "tq_ok r (a # xs)" using h set assms(1) ops by (auto simp: tq_ok_def)
  have "x \<noteq> a \<Longrightarrow> expiry r x = expiry q x" for x
    by (rule expiry_cong [OF q(1) h(1)]) (simp add: set)
  moreover have "expiry r a = (if never t then None else Some t)"
    using expiry_iff [OF h(1), of a] set q(3) by (cases "expiry r a") (force split: if_splits)+
  ultimately show "schedule r = (schedule q)(a \<mapsto> (if never t then None else Some t, [op]))"
    by (auto simp: fun_eq_iff schedule_ok [OF ok] schedule_ok [OF assms(1)] ops)
qed

lemma enqueue_timer_refines:
  assumes "tq_ok q xs" and "a \<noteq> 0" and "length (tq_heap q) < NO_INDEX" and "enqueue_timer never t a op q = (b, r)"
  shows "(\<exists>ys. tq_ok r ys) \<and> schedule r = sched_add never t a op (schedule q) \<and>
    b = (tm_heap_index (tq_mem r a) = 0 \<and> hd (tm_ops (tq_mem r a)) = op)"
proof (cases "in_list a q")
  case True
  then have a: "a \<in> set xs" using assms(1,2) list_ok_in_list by (auto simp: tq_ok_def)
  have r: "r = upd_timer a (\<lambda>t. t\<lparr>tm_ops := tm_ops (tq_mem q a) @ [op]\<rparr>) q"
    using assms(4) True by (auto simp: enqueue_timer_def Let_def upd_timer_def)
  have "schedule q a = Some (expiry q a, tm_ops (tq_mem q a))" using True assms(2) by (simp add: schedule_def)
  then show ?thesis
    using set_ops_ok [OF assms(1) a _ r] assms(4) True by (auto simp: sched_add_def enqueue_timer_def Let_def)
next
  case False
  then have a: "a \<notin> set xs" using assms(1,2) list_ok_in_list by (auto simp: tq_ok_def)
  have r: "r = upd_timer a (\<lambda>t. t\<lparr>tm_ops := tm_ops t @ [op]\<rparr>) (link_timer a (enqueue_new never t a q))"
    using assms(4) False by (auto simp: enqueue_timer_def enqueue_new_def Let_def)
  have "schedule q a = None" using False by (simp add: schedule_def)
  then show ?thesis
    using enqueue_new_schedule [OF assms(1,2) a assms(3) r] assms(4) False
    by (auto simp: sched_add_def enqueue_timer_def enqueue_new_def Let_def)
qed

text \<open>The answer of \<^verbatim>\<open>enqueue_timer\<close>: the timer is the first to expire, and this is its first operation.\<close>

lemma enqueue_timer_earliest:
  assumes "tq_ok q xs" and "a \<noteq> 0" and "length (tq_heap q) < NO_INDEX" and "enqueue_timer never t a op q = (b, r)"
  shows "b \<Longrightarrow> \<exists>e mine. schedule r a = Some (Some e, mine) \<and> hd mine = op \<and>
      (\<forall>x e' ops. schedule r x = Some (Some e', ops) \<longrightarrow> e \<le> e')"
    and "\<lbrakk>schedule q a = None; \<not> never t; \<And>x e' ops. schedule q x = Some (Some e', ops) \<Longrightarrow> t < e'\<rbrakk> \<Longrightarrow> b"
proof -
  obtain ys where r: "tq_ok r ys" "schedule r = sched_add never t a op (schedule q)"
      "b = (tm_heap_index (tq_mem r a) = 0 \<and> hd (tm_ops (tq_mem r a)) = op)"
    using enqueue_timer_refines [OF assms] by blast
  have h: "heap_ok r" using r(1) by (simp add: tq_ok_def)
  {
    assume b
    then have i: "tm_heap_index (tq_mem r a) = 0" "hd (tm_ops (tq_mem r a)) = op" using r(3) by auto
    have e: "expiry r a = Some (heap_time r 0)" by (rule heap_ok_index_0 [OF h i(1)])
    have "schedule r a \<noteq> None" using r(2) by (simp add: sched_add_def)
    then have "a \<in> set ys" using schedule_ok [OF r(1), of a] by (auto split: if_splits)
    then have "schedule r a = Some (Some (heap_time r 0), tm_ops (tq_mem r a))" using e schedule_ok [OF r(1), of a] by simp
    moreover have "heap_time r 0 \<le> e'" if "schedule r x = Some (Some e', ops)" for x e' ops
      using that expiry_iff [OF h, of x e'] by (auto simp: schedule_ok [OF r(1)] split: if_splits intro: heap_ok_min(1) [OF h])
    ultimately show "\<exists>e mine. schedule r a = Some (Some e, mine) \<and> hd mine = op \<and>
        (\<forall>x e' ops. schedule r x = Some (Some e', ops) \<longrightarrow> e \<le> e')"
      using i(2) by blast
  next
    assume new: "schedule q a = None" "\<not> never t" and early: "\<And>x e' ops. schedule q x = Some (Some e', ops) \<Longrightarrow> t < e'"
    then have s: "schedule r = (schedule q)(a \<mapsto> (Some t, [op]))" using r(2) by (simp add: sched_add_def)
    then have "schedule r a = Some (Some t, [op])" by simp
    then have a: "expiry r a = Some t" "tm_ops (tq_mem r a) = [op]"
      using schedule_ok [OF r(1), of a] by (auto split: if_splits)
    then have t: "(t, a) \<in> set (tq_heap r)" using expiry_iff [OF h] by simp
    let ?x = "snd (tq_heap r ! 0)"
    note top = heap_ok_top [OF h heap_ok_min(2) [OF h t]]
    have "?x = a"
    proof (rule ccontr)
      assume ne: "?x \<noteq> a"
      have "?x \<in> set ys" using top(3) r(1) by (force simp: tq_ok_def)
      then have "schedule r ?x = Some (Some (heap_time r 0), tm_ops (tq_mem r ?x))"
        using top(1) schedule_ok [OF r(1), of ?x] by simp
      then have "t < heap_time r 0" using early ne s by simp
      then show False using heap_ok_min(1) [OF h t] by simp
    qed
    then show b using top(2) a(2) r(3) by simp
  }
qed

text \<open>All timers that are due leave the queue, the earlier ones first.\<close>

declare ready_loop.simps [simp del]
declare all_loop.simps [simp del]

definition ready_of :: "'t timer_queue \<Rightarrow> addr \<Rightarrow> finished" where
  "ready_of q x = map (\<lambda>op. (op, Ready)) (tm_ops (tq_mem q x))"

lemma ready_loop_refines:
  assumes "tq_ok q xs"
  shows "\<exists>ts r ys. ready_loop now ops q = Some (ops @ concat (map (ready_of q) ts), r) \<and> tq_ok r ys \<and> distinct ts \<and>
    (\<forall>x. x \<in> set ts \<longleftrightarrow> due now (schedule q) x) \<and> sorted (map (\<lambda>x. the (expiry q x)) ts) \<and>
    schedule r = (\<lambda>x. if due now (schedule q) x then None else schedule q x)"
  using assms
proof (induction "card (set (tq_heap q))" arbitrary: q xs ops rule: less_induct)
  case less
  have h: "heap_ok q" "list_ok q xs" using less(2) by (simp_all add: tq_ok_def)
  have due_iff: "due now (schedule q) x \<longleftrightarrow> (\<exists>t. (t, x) \<in> set (tq_heap q) \<and> t \<le> now)" for x
  proof -
    have "(t, x) \<in> set (tq_heap q) \<Longrightarrow> x \<in> set xs" for t using less(2) by (force simp: tq_ok_def)
    then show ?thesis using expiry_iff [OF h(1), of x] by (auto simp: due_def schedule_ok [OF less(2)] split: if_splits)
  qed
  show ?case
  proof (cases "tq_heap q \<noteq> [] \<and> \<not> now < heap_time q 0")
    case False
    have "\<not> due now (schedule q) x" for x
    proof
      assume "due now (schedule q) x"
      then obtain t where t: "(t, x) \<in> set (tq_heap q)" "t \<le> now" using due_iff by blast
      then show False using False heap_ok_min [OF h(1) t(1)] by auto
    qed
    then show ?thesis using False less(2) by (intro exI [of _ "[]"]) (auto simp: ready_loop.simps [of now ops])
  next
    case True
    let ?a = "snd (tq_heap q ! 0)"
    let ?r = "remove_timer ?a (upd_timer ?a (\<lambda>t. t\<lparr>tm_ops := []\<rparr>) q)"
    note top = heap_ok_top [OF h(1)]
    have a: "(heap_time q 0, ?a) \<in> set (tq_heap q)" "expiry q ?a = Some (heap_time q 0)" using top True by auto
    then have axs: "?a \<in> set xs" using less(2) by (force simp: tq_ok_def)
    note d = drop_timer_ok [OF less(2) axs refl]
    note ds = drop_timer_schedule [OF less(2) axs refl]
    have "set (tq_heap ?r) \<subset> set (tq_heap q)"
    proof (rule psubsetI)
      have "(heap_time q 0, ?a) \<notin> set (tq_heap ?r)" using d(2) by simp
      then show "set (tq_heap ?r) \<noteq> set (tq_heap q)" using a(1) by blast
    qed (use d(2) in blast)
    then have "card (set (tq_heap ?r)) < card (set (tq_heap q))" by (simp add: psubset_card_mono)
    from less(1) [OF this d(1), of "ops @ ready_of q ?a"] obtain ts r ys where
      IH: "ready_loop now (ops @ ready_of q ?a) ?r = Some ((ops @ ready_of q ?a) @ concat (map (ready_of ?r) ts), r)"
        "tq_ok r ys" "distinct ts" "\<And>x. x \<in> set ts \<longleftrightarrow> due now (schedule ?r) x" "sorted (map (\<lambda>x. the (expiry ?r x)) ts)"
        "schedule r = (\<lambda>x. if due now (schedule ?r) x then None else schedule ?r x)" by blast
    have due': "due now (schedule ?r) x \<longleftrightarrow> due now (schedule q) x \<and> x \<noteq> ?a" for x
      by (auto simp: due_def ds)
    have due_a: "due now (schedule q) ?a" using due_iff a(1) True by (auto simp: not_less)
    have nin: "?a \<notin> set ts" using IH(4) due' by blast
    have h': "heap_ok ?r" using d(1) by (simp add: tq_ok_def)
    have ex: "x \<noteq> ?a \<Longrightarrow> expiry ?r x = expiry q x" for x
      by (rule expiry_cong [OF h(1) h']) (simp add: d(2))
    have same: "map (ready_of ?r) ts = map (ready_of q) ts" using nin d(3) by (auto simp: ready_of_def)
    have step: "ready_loop now ops q = ready_loop now (ops @ ready_of q ?a) ?r"
      using True by (subst ready_loop.simps) (simp add: Let_def ready_of_def)
    have run: "ready_loop now ops q = Some (ops @ concat (map (ready_of q) (?a # ts)), r)"
      using IH(1) unfolding step same by simp
    have times: "map (\<lambda>x. the (expiry ?r x)) ts = map (\<lambda>x. the (expiry q x)) ts"
      by (rule map_cong [OF refl]) (metis ex nin)
    have "the (expiry q ?a) \<le> the (expiry q x)" if "x \<in> set ts" for x
    proof -
      have "due now (schedule q) x" using that IH(4) due' by blast
      then obtain t where "(t, x) \<in> set (tq_heap q)" using due_iff by blast
      then show ?thesis using heap_ok_min(1) [OF h(1)] expiry_iff [OF h(1)] a(2) by (metis option.sel)
    qed
    then have "sorted (map (\<lambda>x. the (expiry q x)) (?a # ts))" using IH(5) unfolding times by simp
    moreover have "\<forall>x. x \<in> set (?a # ts) \<longleftrightarrow> due now (schedule q) x" using IH(4) due' due_a by auto
    moreover have "schedule r = (\<lambda>x. if due now (schedule q) x then None else schedule q x)"
      using IH(6) due' due_a ds by (auto simp: fun_eq_iff)
    ultimately show ?thesis using run IH(2,3) nin by (intro exI [of _ "?a # ts"] exI [of _ r] exI [of _ ys]) simp
  qed
qed

lemma get_ready_timers_refines:
  assumes "tq_ok q xs"
  shows "\<exists>ts r ys. get_ready_timers now ops q = Some (ops @ concat (map (ready_of q) ts), r) \<and> tq_ok r ys \<and> distinct ts \<and>
    (\<forall>x. x \<in> set ts \<longleftrightarrow> due now (schedule q) x) \<and> sorted (map (\<lambda>x. the (expiry q x)) ts) \<and>
    schedule r = (\<lambda>x. if due now (schedule q) x then None else schedule q x)"
proof -
  have "get_ready_timers now ops q = ready_loop now ops q"
    by (simp add: get_ready_timers_def ready_loop.simps)
  then show ?thesis using ready_loop_refines [OF assms] by simp
qed

lemma all_loop_all:
  assumes "list_ok q xs"
  shows "\<exists>r. all_loop ops q = Some (ops @ concat (map (\<lambda>x. tm_ops (tq_mem q x)) xs), r) \<and> tq_timers r = 0 \<and>
    (\<forall>x. tq_mem r x = (if x \<in> set xs then (tq_mem q x)\<lparr>tm_ops := [], tm_next := 0, tm_prev := 0\<rparr> else tq_mem q x))"
proof -
  have "dlinked (\<lambda>x. tm_next (tq_mem q x)) (\<lambda>x. tm_prev (tq_mem q x)) p (tq_timers q) xs \<Longrightarrow>
    \<exists>r. all_loop ops q = Some (ops @ concat (map (\<lambda>x. tm_ops (tq_mem q x)) xs), r) \<and> tq_timers r = 0 \<and>
    (\<forall>x. tq_mem r x = (if x \<in> set xs then (tq_mem q x)\<lparr>tm_ops := [], tm_next := 0, tm_prev := 0\<rparr> else tq_mem q x))" for p
  proof (induction xs arbitrary: q ops p)
    case Nil
    then show ?case by (simp add: all_loop.simps)
  next
    case (Cons a xs)
    define r where "r = upd_timer a (\<lambda>t. t\<lparr>tm_ops := [], tm_next := 0, tm_prev := 0\<rparr>) (q\<lparr>tq_timers := tm_next (tq_mem q a)\<rparr>)"
    have a: "tq_timers q = a" "a \<noteq> 0" "a \<notin> set xs"
      using Cons.prems linked_distinct [OF dlinked_linked [OF Cons.prems]] by auto
    have mem: "tq_mem r x = (if x = a then (tq_mem q a)\<lparr>tm_ops := [], tm_next := 0, tm_prev := 0\<rparr> else tq_mem q x)" for x
      by (simp add: r_def upd_timer_def)
    have "dlinked (\<lambda>x. tm_next (tq_mem r x)) (\<lambda>x. tm_prev (tq_mem r x)) a (tq_timers r) xs"
      by (rule dlinked_cong [where nx = "\<lambda>x. tm_next (tq_mem q x)" and pv = "\<lambda>x. tm_prev (tq_mem q x)"])
        (use Cons.prems a mem in \<open>auto simp: r_def upd_timer_def\<close>)
    from Cons.IH [OF this, of "ops @ tm_ops (tq_mem q a)"] obtain s where
      s: "all_loop (ops @ tm_ops (tq_mem q a)) r = Some ((ops @ tm_ops (tq_mem q a)) @ concat (map (\<lambda>x. tm_ops (tq_mem r x)) xs), s)"
        "tq_timers s = 0"
        "\<And>x. tq_mem s x = (if x \<in> set xs then (tq_mem r x)\<lparr>tm_ops := [], tm_next := 0, tm_prev := 0\<rparr> else tq_mem r x)"
      by blast
    have same: "map (\<lambda>x. tm_ops (tq_mem r x)) xs = map (\<lambda>x. tm_ops (tq_mem q x)) xs" using a(3) mem by auto
    have step: "all_loop ops q = all_loop (ops @ tm_ops (tq_mem q a)) r"
      using a by (subst all_loop.simps) (simp add: r_def Let_def)
    show ?case
      using s a(3) mem unfolding step same by (intro exI [of _ s]) auto
  qed
  from this [of 0] show ?thesis using assms unfolding list_ok_def by blast
qed

lemma move_ops_fields:
  assumes "a \<noteq> b"
  shows "tm_next (tq_mem (move_ops b a q) x) = tm_next (tq_mem q x)" "tm_prev (tq_mem (move_ops b a q) x) = tm_prev (tq_mem q x)"
    "tq_timers (move_ops b a q) = tq_timers q"
    "tm_ops (tq_mem (move_ops b a q) x) = (if x = a then [] else if x = b then tm_ops (tq_mem q b) @ tm_ops (tq_mem q a)
      else tm_ops (tq_mem q x))"
    "tm_heap_index (tq_mem (move_ops b a q) x) = (if x = a then NO_INDEX else if x = b then tm_heap_index (tq_mem q a)
      else tm_heap_index (tq_mem q x))"
    "tq_heap (move_ops b a q) = (let i = tm_heap_index (tq_mem q a)
      in if i < length (tq_heap q) then (tq_heap q)[i := (heap_time q i, b)] else tq_heap q)"
  using assms by (simp_all add: move_ops_def upd_timer_def Let_def set_index_def heap_time_def)

lemma move_links_fields:
  assumes "a \<noteq> b" and "tm_prev (tq_mem q a) \<noteq> a" and "tm_next (tq_mem q a) \<noteq> a"
    and "tm_prev (tq_mem q a) \<noteq> b" and "tm_next (tq_mem q a) \<noteq> b"
  shows "tm_next (tq_mem (move_links b a q) x) = (if x = a then 0 else if x = b then tm_next (tq_mem q a)
      else if x = tm_prev (tq_mem q a) \<and> x \<noteq> 0 then b else tm_next (tq_mem q x))"
    and "tm_prev (tq_mem (move_links b a q) x) = (if x = a then 0 else if x = b then tm_prev (tq_mem q a)
      else if x = tm_next (tq_mem q a) \<and> x \<noteq> 0 then b else tm_prev (tq_mem q x))"
    and "tq_timers (move_links b a q) = (if tq_timers q = a then b else tq_timers q)"
    and "tm_ops (tq_mem (move_links b a q) x) = tm_ops (tq_mem q x)" and "same_heap q (move_links b a q)"
proof -
  define p n where "p = tm_prev (tq_mem q a)" and "n = tm_next (tq_mem q a)"
  define q1 where "q1 = (if tq_timers q = a then q\<lparr>tq_timers := b\<rparr> else q)"
  define q2 where "q2 = (if p \<noteq> 0 then upd_timer p (\<lambda>t. t\<lparr>tm_next := b\<rparr>) q1 else q1)"
  define q3 where "q3 = (if n \<noteq> 0 then upd_timer n (\<lambda>t. t\<lparr>tm_prev := b\<rparr>) q2 else q2)"
  have ne: "p \<noteq> a" "n \<noteq> a" "p \<noteq> b" "n \<noteq> b" using assms by (simp_all add: p_def n_def)
  have at: "tq_mem q1 = tq_mem q" "tq_mem q2 a = tq_mem q a" "tq_mem q3 a = tq_mem q a"
    using ne by (simp_all add: q1_def q2_def q3_def upd_timer_def)
  have eq: "move_links b a q = upd_timer a (\<lambda>t. t\<lparr>tm_next := 0, tm_prev := 0\<rparr>)
      (upd_timer b (\<lambda>t. t\<lparr>tm_next := n, tm_prev := p\<rparr>) q3)"
    unfolding move_links_def Let_def q1_def [symmetric]
    unfolding at p_def [symmetric] unfolding q2_def [symmetric] at n_def [symmetric] unfolding q3_def [symmetric] at
    by (simp add: p_def n_def)
  have q3: "tm_next (tq_mem q3 x) = (if x = p \<and> x \<noteq> 0 then b else tm_next (tq_mem q x))"
      "tm_prev (tq_mem q3 x) = (if x = n \<and> x \<noteq> 0 then b else tm_prev (tq_mem q x))"
      "tm_ops (tq_mem q3 x) = tm_ops (tq_mem q x)" "tm_heap_index (tq_mem q3 x) = tm_heap_index (tq_mem q x)"
      "tq_heap q3 = tq_heap q" "tq_timers q3 = (if tq_timers q = a then b else tq_timers q)" for x
    by (simp_all add: q1_def q2_def q3_def upd_timer_def)
  show "tm_next (tq_mem (move_links b a q) x) = (if x = a then 0 else if x = b then tm_next (tq_mem q a)
      else if x = tm_prev (tq_mem q a) \<and> x \<noteq> 0 then b else tm_next (tq_mem q x))"
    "tm_prev (tq_mem (move_links b a q) x) = (if x = a then 0 else if x = b then tm_prev (tq_mem q a)
      else if x = tm_next (tq_mem q a) \<and> x \<noteq> 0 then b else tm_prev (tq_mem q x))"
    "tm_ops (tq_mem (move_links b a q) x) = tm_ops (tq_mem q x)"
    "tq_timers (move_links b a q) = (if tq_timers q = a then b else tq_timers q)" "same_heap q (move_links b a q)"
    unfolding eq by (simp_all add: upd_timer_def q3 same_heap_def p_def n_def)
qed

lemma move_ops_heap:
  assumes "heap_ok q" and "a \<noteq> b" and "b \<notin> snd ` set (tq_heap q)"
  shows "heap_ok (move_ops b a q)"
    and "(t, x) \<in> set (tq_heap (move_ops b a q)) \<longleftrightarrow> x \<noteq> a \<and> (t, if x = b then a else x) \<in> set (tq_heap q)"
proof -
  let ?i = "tm_heap_index (tq_mem q a)" and ?r = "move_ops b a q"
  note f = move_ops_fields [OF assms(2), of q]
  have q: "heap_on (heap_time q) (length (tq_heap q))" "indexed q" "length (tq_heap q) \<le> NO_INDEX"
      "\<And>x. x \<notin> snd ` set (tq_heap q) \<Longrightarrow> tm_heap_index (tq_mem q x) = NO_INDEX"
    using assms(1) by (auto simp: heap_ok_def)
  have "heap_ok ?r \<and> (\<forall>t x. (t, x) \<in> set (tq_heap ?r) \<longleftrightarrow> x \<noteq> a \<and> (t, if x = b then a else x) \<in> set (tq_heap q))"
  proof (cases "?i < length (tq_heap q)")
    case False
    then have h: "tq_heap ?r = tq_heap q" "a \<notin> snd ` set (tq_heap q)"
      using f(6) heap_ok_index(1) [OF assms(1)] by simp_all
    have ne: "snd (tq_heap q ! i) \<noteq> a" "snd (tq_heap q ! i) \<noteq> b" if "i < length (tq_heap q)" for i
      using that h(2) assms(3) by (metis image_eqI nth_mem)+
    have "indexed ?r" using q(2) ne f(5) h(1) by (simp add: indexed_def)
    moreover have "heap_time ?r = heap_time q" using h(1) by (simp add: heap_time_def fun_eq_iff)
    ultimately have "heap_ok ?r" using q f(5) h by (auto simp: heap_ok_def)
    then show ?thesis using h assms(3) by (force simp: image_iff)
  next
    case True
    have a: "tq_heap q ! ?i = (heap_time q ?i, a)"
      using heap_ok_index(2) [OF assms(1) True] by (simp add: heap_time_def prod_eq_iff)
    have h: "tq_heap ?r = (tq_heap q)[?i := (heap_time q ?i, b)]" using f(6) True by (simp add: Let_def)
    have ne: "snd (tq_heap q ! j) \<noteq> a" "snd (tq_heap q ! j) \<noteq> b" if "j < length (tq_heap q)" "j \<noteq> ?i" for j
      using that indexed_inj [OF q(2) that(1) True] a assms(3) nth_mem [OF that(1)] by (auto simp: image_iff)
    have t: "heap_time ?r = heap_time q" using h True by (auto simp: heap_time_def fun_eq_iff nth_list_update)
    have d: "distinct (map snd (tq_heap q))" using q(2) by (simp add: indexed_def)
    have "distinct (map snd (tq_heap ?r))"
      unfolding h map_update by (rule distinct_list_update [OF d]) (use assms(3) in auto)
    moreover have "tm_heap_index (tq_mem ?r (snd (tq_heap ?r ! j))) = j" if "j < length (tq_heap q)" for j
      using that ne [OF that] q(2) True f(5) h assms(2) by (cases "j = ?i") (auto simp: indexed_def)
    ultimately have "indexed ?r" using h by (simp add: indexed_def)
    have mem: "(t, x) \<in> set (tq_heap ?r) \<longleftrightarrow> x \<noteq> a \<and> (t, if x = b then a else x) \<in> set (tq_heap q)" for t x
    proof -
      have "set (tq_heap ?r) = insert (heap_time q ?i, b) (set (tq_heap q) - {(heap_time q ?i, a)})"
        unfolding h using set_update_distinct [OF _ True] d a by (simp add: distinct_map)
      moreover have "(s, a) \<in> set (tq_heap q) \<longleftrightarrow> s = heap_time q ?i" for s
        using expiry_iff [OF assms(1), of a s] True by (auto simp: expiry_def)
      moreover have "(s, b) \<notin> set (tq_heap q)" for s using assms(3) by force
      ultimately show ?thesis using assms(2) by auto
    qed
    have "tm_heap_index (tq_mem ?r x) = NO_INDEX" if "x \<notin> snd ` set (tq_heap ?r)" for x
    proof -
      have "(heap_time q ?i, b) \<in> set (tq_heap ?r)" using h True by (simp add: set_update_memI)
      then have "x \<noteq> b" using that by force
      moreover have "x \<noteq> a \<Longrightarrow> x \<notin> snd ` set (tq_heap q)" using that mem [of _ x] \<open>x \<noteq> b\<close> by (force simp: image_iff)
      ultimately show ?thesis using f(5) q(4) [of x] by simp
    qed
    then have "heap_ok ?r" using q(1,3) t h \<open>indexed ?r\<close> by (simp add: heap_ok_def)
    then show ?thesis using mem by blast
  qed
  then show "heap_ok (move_ops b a q)"
    and "(t, x) \<in> set (tq_heap (move_ops b a q)) \<longleftrightarrow> x \<noteq> a \<and> (t, if x = b then a else x) \<in> set (tq_heap q)" by blast+
qed

lemma move_timer_refines:
  assumes "tq_ok q xs" and "schedule q a \<noteq> None" and "b \<noteq> 0" and "schedule q b = None"
  shows "(\<exists>ys. tq_ok (move_timer b a q) ys) \<and> schedule (move_timer b a q) = (schedule q)(b := schedule q a, a := None)"
proof -
  have ok: "heap_ok q" "list_ok q xs" "snd ` set (tq_heap q) \<subseteq> set xs" using assms(1) by (simp_all add: tq_ok_def)
  have ab: "a \<in> set xs" "b \<notin> set xs" "a \<noteq> b"
    using assms(2,4) schedule_ok [OF assms(1)] by (auto split: if_splits)
  obtain us vs where xs: "xs = us @ a # vs" using ab(1) by (auto dest: split_list)
  let ?o = "move_ops b a q" and ?r = "move_timer b a q"
  note o = move_ops_fields [OF ab(3), of q]
  have bh: "b \<notin> snd ` set (tq_heap q)" using ok(3) ab(2) by auto
  note h = move_ops_heap [OF ok(1) ab(3) bh]
  have lo: "list_ok ?o xs" using ok(2) list_ok_links [of ?o q xs] o(1-3) by simp
  have d: "dlinked (\<lambda>x. tm_next (tq_mem ?o x)) (\<lambda>x. tm_prev (tq_mem ?o x)) 0 (tq_timers ?o) (us @ a # vs)"
    using lo xs by (simp add: list_ok_def)
  note ds = list_ok_distinct [OF lo, unfolded xs]
  note inner = dlinked_inner [OF d]
  have p: "tm_prev (tq_mem ?o a) \<in> insert 0 (set us)" using inner(1) last_in_set [of us] by (auto split: if_splits)
  have n: "tm_next (tq_mem ?o a) \<in> insert 0 (set vs)" using inner(2) by (auto split: list.splits)
  have ne: "tm_prev (tq_mem ?o a) \<noteq> a" "tm_next (tq_mem ?o a) \<noteq> a" "tm_prev (tq_mem ?o a) \<noteq> b" "tm_next (tq_mem ?o a) \<noteq> b"
    using p n ds ab xs assms(3) by auto
  note l = move_links_fields [OF ab(3) ne]
  have "dlinked (\<lambda>x. tm_next (tq_mem ?r x)) (\<lambda>x. tm_prev (tq_mem ?r x)) 0 (if tq_timers ?o = a then b else tq_timers ?o) (us @ b # vs)"
    by (rule dlinked_replace [OF d _ assms(3)]) (use l(1,2) ds ab xs in \<open>auto simp: move_timer_def\<close>)
  moreover have "tm_next (tq_mem ?r x) = 0 \<and> tm_prev (tq_mem ?r x) = 0" if x: "x \<notin> set (us @ b # vs)" for x
  proof (cases "x = a")
    case False
    then have "x \<notin> set xs" using x xs by simp
    then show ?thesis
      using lo l(1,2) x False p n by (auto simp: list_ok_def move_timer_def)
  qed (use l(1,2) in \<open>simp add: move_timer_def\<close>)
  ultimately have lr: "list_ok ?r (us @ b # vs)" using l(3) by (simp add: list_ok_def move_timer_def)
  have hr: "heap_ok ?r" "tq_heap ?r = tq_heap ?o"
    using heap_ok_same [OF l(5)] h(1) l(5) by (simp_all add: move_timer_def same_heap_def)
  have b0: "tm_ops (tq_mem q b) = []" using assms(1) ab(2) by (auto simp: tq_ok_def)
  have ops: "tm_ops (tq_mem ?r x) = (if x = a then [] else if x = b then tm_ops (tq_mem q a) else tm_ops (tq_mem q x))" for x
    using l(4) o(4) b0 by (simp add: move_timer_def)
  have sub: "snd ` set (tq_heap ?r) \<subseteq> set (us @ b # vs)"
  proof
    fix x assume "x \<in> snd ` set (tq_heap ?r)"
    then obtain t where "(t, x) \<in> set (tq_heap ?o)" using hr(2) by force
    then have "x \<noteq> a" "(t, if x = b then a else x) \<in> set (tq_heap q)" using h(2) by auto
    then show "x \<in> set (us @ b # vs)" using ok(3) xs by (cases "x = b") force+
  qed
  have ok_r: "tq_ok ?r (us @ b # vs)"
    using lr hr(1) sub ops assms(1) ds ab xs by (auto simp: tq_ok_def)
  have "x \<noteq> a \<Longrightarrow> expiry ?r x = expiry q (if x = b then a else x)" for x
    by (rule expiry_cong [OF ok(1) hr(1)]) (simp add: hr(2) h(2))
  then have "schedule ?r = (schedule q)(b := schedule q a, a := None)"
    using ds ab xs by (auto simp: fun_eq_iff schedule_ok [OF ok_r] schedule_ok [OF assms(1)] ops)
  then show ?thesis using ok_r by blast
qed

text \<open>A timer that is not in the queue has nothing to move.\<close>

lemma move_idle_timer:
  assumes "tq_ok q xs" and "a \<noteq> 0" and "a \<noteq> b" and "schedule q a = None" and "b \<noteq> 0" and "schedule q b = None"
  shows "move_timer b a q = q"
proof -
  have ab: "a \<notin> set xs" "b \<notin> set xs" using assms(4,6) schedule_ok [OF assms(1)] by (auto split: if_splits)
  have new: "tq_mem q x = new_timer_data" if "x \<notin> set xs" for x
  proof -
    have "x \<notin> snd ` set (tq_heap q)" using that assms(1) by (auto simp: tq_ok_def)
    then have "tm_heap_index (tq_mem q x) = NO_INDEX" using assms(1) by (simp add: tq_ok_def heap_ok_def)
    moreover have "tm_ops (tq_mem q x) = []" "tm_next (tq_mem q x) = 0" "tm_prev (tq_mem q x) = 0"
      using that assms(1) by (auto simp: tq_ok_def list_ok_def)
    ultimately show ?thesis by (intro timer.equality) (simp_all add: new_timer_data_def)
  qed
  have t: "tq_timers q \<noteq> a" using assms(2,4) by (auto simp: schedule_def in_list_def split: if_splits)
  have n: "\<not> NO_INDEX < length (tq_heap q)" using assms(1) by (simp add: tq_ok_def heap_ok_def)
  note new_ab = new [OF ab(1)] new [OF ab(2)]
  have "move_ops b a q = q"
    using assms(3) n new_ab by (simp add: move_ops_def upd_timer_def Let_def set_index_def new_timer_data_def)
      (simp add: fun_upd_idem new_ab [symmetric, unfolded new_timer_data_def])
  moreover have "move_links b a q = q"
    using assms(3) t new_ab by (simp add: move_links_def upd_timer_def Let_def new_timer_data_def)
      (simp add: fun_upd_idem new_ab [symmetric, unfolded new_timer_data_def])
  ultimately show ?thesis by (simp add: move_timer_def)
qed

subsection \<open>The contract of the queue\<close>

text \<open>The operations that wait, over all timers of a schedule.\<close>

definition ops_at :: "'t schedule \<Rightarrow> addr \<Rightarrow> wait_op multiset" where
  "ops_at m x = (case m x of None \<Rightarrow> {#} | Some (e, ops) \<Rightarrow> mset ops)"

definition waiting_of :: "'t schedule \<Rightarrow> wait_op multiset" where
  "waiting_of m = (\<Sum>x \<in> dom m. ops_at m x)"

lemma waiting_of_at:
  assumes "finite (dom m)"
  shows "waiting_of m = ops_at m x + waiting_of (m(x := None))"
proof (cases "x \<in> dom m")
  case True
  have "waiting_of m = ops_at m x + (\<Sum>y \<in> dom m - {x}. ops_at m y)"
    unfolding waiting_of_def using assms True by (rule sum.remove)
  also have "(\<Sum>y \<in> dom m - {x}. ops_at m y) = waiting_of (m(x := None))"
    unfolding waiting_of_def by (rule sum.cong) (auto simp: ops_at_def)
  finally show ?thesis .
next
  case False
  then have "m(x := None) = m" by (auto simp: fun_eq_iff)
  then show ?thesis using False by (auto simp: ops_at_def split: option.splits)
qed

lemma waiting_of_upd:
  "finite (dom m) \<Longrightarrow> waiting_of (m(x \<mapsto> (e, ops))) = mset ops + waiting_of (m(x := None))"
  using waiting_of_at [of "m(x \<mapsto> (e, ops))" x] by (simp add: ops_at_def)

lemma sched_keep_waiting:
  assumes "finite (dom m)" and "\<And>ops. mset (f ops) + mset (g ops) = mset ops"
  shows "waiting_of (sched_keep x f m) + mset (case m x of None \<Rightarrow> [] | Some (e, ops) \<Rightarrow> g ops) = waiting_of m"
proof (cases "m x")
  case None
  then show ?thesis by (simp add: sched_keep_same)
next
  case (Some v)
  obtain e ops where v: "v = (e, ops)" by force
  have "waiting_of m = mset ops + waiting_of (m(x := None))"
    using waiting_of_at [OF assms(1), of x] Some v by (simp add: ops_at_def)
  moreover have "f ops = [] \<Longrightarrow> mset (g ops) = mset ops" using assms(2) [of ops] by simp
  ultimately show ?thesis
    using Some v waiting_of_upd [OF assms(1), of x e "f ops"] assms(2) [of ops, symmetric]
    by (auto simp: sched_keep_def ac_simps)
qed

lemma due_waiting:
  assumes "finite (dom m)" and "distinct ts" and "\<And>x. x \<in> set ts \<longleftrightarrow> due now m x"
  shows "waiting_of (\<lambda>x. if due now m x then None else m x) + (\<Sum>x \<leftarrow> ts. ops_at m x) = waiting_of m"
proof -
  have sub: "set ts \<subseteq> dom m" using assms(3) by (auto simp: due_def)
  have "waiting_of m = (\<Sum>x \<in> dom m - set ts. ops_at m x) + (\<Sum>x \<in> set ts. ops_at m x)"
    unfolding waiting_of_def by (rule sum.subset_diff [OF sub assms(1)])
  moreover have "(\<Sum>x \<in> dom m - set ts. ops_at m x) = waiting_of (\<lambda>x. if due now m x then None else m x)"
    unfolding waiting_of_def by (rule sum.cong) (auto simp: ops_at_def assms(3) split: if_splits)
  ultimately show ?thesis using sum.distinct_set_conv_list [OF assms(2), of "ops_at m"] by simp
qed

text \<open>
  What a queue of timers promises to its clients: every operation on it is an operation on the
  schedule it stands for. From the contract it follows that no waiting operation is lost and none is
  finished twice.
\<close>

locale timer_contract =
  fixes inv :: "'q \<Rightarrow> bool"
    and view :: "'q \<Rightarrow> 't::linorder schedule"
    and room :: "'q \<Rightarrow> bool"
    and enqueue :: "'t \<Rightarrow> addr \<Rightarrow> wait_op \<Rightarrow> 'q \<Rightarrow> bool \<times> 'q"
    and cancel :: "addr \<Rightarrow> nat \<Rightarrow> finished \<Rightarrow> 'q \<Rightarrow> nat \<times> finished \<times> 'q"
    and cancel_key :: "addr \<Rightarrow> finished \<Rightarrow> addr \<Rightarrow> 'q \<Rightarrow> finished \<times> 'q"
    and ready :: "'t \<Rightarrow> finished \<Rightarrow> 'q \<Rightarrow> (finished \<times> 'q) option"
    and move :: "addr \<Rightarrow> addr \<Rightarrow> 'q \<Rightarrow> 'q"
  assumes view_finite: "inv q \<Longrightarrow> finite (dom (view q))"
    and enqueue_law: "\<lbrakk>inv q; a \<noteq> 0; room q; enqueue t a op q = (first, r)\<rbrakk>
      \<Longrightarrow> inv r \<and> view r = sched_add (\<lambda>_. False) t a op (view q)"
    and cancel_law: "\<lbrakk>inv q; a \<noteq> 0; cancel a k ops q = (n, ops', r)\<rbrakk>
      \<Longrightarrow> inv r \<and> view r = sched_keep a (drop k) (view q) \<and>
        n = min k (case view q a of None \<Rightarrow> 0 | Some (e, mine) \<Rightarrow> length mine) \<and>
        ops' = ops @ (case view q a of None \<Rightarrow> [] | Some (e, mine) \<Rightarrow> map (\<lambda>op. (op, Aborted)) (take k mine))"
    and cancel_key_law: "\<lbrakk>inv q; a \<noteq> 0; cancel_key a ops key q = (ops', r)\<rbrakk>
      \<Longrightarrow> inv r \<and> view r = sched_keep a (filter (\<lambda>op. wo_key op \<noteq> key)) (view q) \<and>
        ops' = ops @ (case view q a of None \<Rightarrow> []
          | Some (e, mine) \<Rightarrow> map (\<lambda>op. (op, Aborted)) (filter (\<lambda>op. wo_key op = key) mine))"
    and ready_law: "inv q \<Longrightarrow> \<exists>ts r.
        ready now ops q = Some (ops @ concat (map (\<lambda>x. map (\<lambda>op. (op, Ready)) (snd (the (view q x)))) ts), r) \<and>
        inv r \<and> distinct ts \<and> (\<forall>x. x \<in> set ts \<longleftrightarrow> due now (view q) x) \<and>
        sorted (map (\<lambda>x. the (fst (the (view q x)))) ts) \<and>
        view r = (\<lambda>x. if due now (view q) x then None else view q x)"
    and move_law: "\<lbrakk>inv q; a \<noteq> 0; b \<noteq> 0; a \<noteq> b; view q b = None\<rbrakk>
      \<Longrightarrow> inv (move b a q) \<and> view (move b a q) = (view q)(b := view q a, a := None)"
begin

lemma enqueue_waiting:
  assumes "inv q" and "a \<noteq> 0" and "room q" and "enqueue t a op q = (b, r)"
  shows "waiting_of (view r) = add_mset op (waiting_of (view q))"
proof -
  note fin = view_finite [OF assms(1)]
  have "view r = sched_add (\<lambda>_. False) t a op (view q)" using enqueue_law [OF assms] by simp
  then show ?thesis
    using waiting_of_upd [OF fin, of a] waiting_of_at [OF fin, of a]
    by (auto simp: sched_add_def ops_at_def split: option.splits)
qed

lemma cancel_waiting:
  assumes "inv q" and "a \<noteq> 0" and "cancel a k ops q = (n, ops', r)"
  shows "waiting_of (view r) + mset (map fst ops') = waiting_of (view q) + mset (map fst ops)"
proof -
  have split: "mset (drop k xs) + mset (take k xs) = mset xs" for xs :: "wait_op list"
    by (metis append_take_drop_id mset_append union_commute)
  note c = cancel_law [OF assms]
  have "map fst ops' = map fst ops @ (case view q a of None \<Rightarrow> [] | Some (e, mine) \<Rightarrow> take k mine)"
    using c by (auto simp: comp_def split: option.splits)
  then show ?thesis
    using c sched_keep_waiting [OF view_finite [OF assms(1)], of "drop k" "take k" a] split by (simp add: ac_simps)
qed

lemma cancel_key_waiting:
  assumes "inv q" and "a \<noteq> 0" and "cancel_key a ops key q = (ops', r)"
  shows "waiting_of (view r) + mset (map fst ops') = waiting_of (view q) + mset (map fst ops)"
proof -
  let ?f = "filter (\<lambda>op. wo_key op \<noteq> key)" and ?g = "filter (\<lambda>op. wo_key op = key)"
  have split: "mset (?f xs) + mset (?g xs) = mset xs" for xs
    by (induction xs) auto
  note c = cancel_key_law [OF assms]
  have "map fst ops' = map fst ops @ (case view q a of None \<Rightarrow> [] | Some (e, mine) \<Rightarrow> ?g mine)"
    using c by (auto simp: comp_def split: option.splits)
  then show ?thesis
    using c sched_keep_waiting [OF view_finite [OF assms(1)], of ?f ?g a] split by (simp add: ac_simps)
qed

lemma ready_waiting:
  assumes "inv q" and "ready now ops q = Some (ops', r)"
  shows "waiting_of (view r) + mset (map fst ops') = waiting_of (view q) + mset (map fst ops)"
proof -
  obtain ts where ts: "ops' = ops @ concat (map (\<lambda>x. map (\<lambda>op. (op, Ready)) (snd (the (view q x)))) ts)" "distinct ts"
      "\<And>x. x \<in> set ts \<longleftrightarrow> due now (view q) x" "view r = (\<lambda>x. if due now (view q) x then None else view q x)"
    using ready_law [OF assms(1), of now ops] assms(2) by auto
  have "mset (map fst (concat (map (\<lambda>x. map (\<lambda>op. (op, Ready)) (snd (the (view q x)))) us))) = (\<Sum>x \<leftarrow> us. ops_at (view q) x)"
    if "set us \<subseteq> dom (view q)" for us
    using that by (induction us) (auto simp: ops_at_def comp_def)
  moreover have "set ts \<subseteq> dom (view q)" using ts(3) by (auto simp: due_def)
  ultimately show ?thesis
    using due_waiting [OF view_finite [OF assms(1)] ts(2,3)] ts(1,4) by (simp add: ac_simps)
qed

lemma move_waiting:
  assumes "inv q" and "a \<noteq> 0" and "b \<noteq> 0" and "a \<noteq> b" and "view q b = None"
  shows "waiting_of (view (move b a q)) = waiting_of (view q)"
proof -
  note fin = view_finite [OF assms(1)]
  have "view (move b a q) = (view q)(b := view q a, a := None)" using move_law [OF assms] by simp
  moreover have "waiting_of ((view q)(b := view q a, a := None)) = ops_at (view q) a + waiting_of ((view q)(b := None, a := None))"
    using waiting_of_at [of "(view q)(b := view q a, a := None)" b] fin assms(4)
    by (simp add: ops_at_def fun_upd_twist)
  moreover have "(view q)(b := None) = view q" using assms(5) by (auto simp: fun_eq_iff)
  ultimately show ?thesis using waiting_of_at [OF fin, of a] by simp
qed

end

definition tq_inv :: "'t::linorder timer_queue \<Rightarrow> bool" where
  "tq_inv q \<longleftrightarrow> (\<exists>xs. tq_ok q xs)"

lemma tq_inv_new: "tq_inv new_timer_queue"
proof -
  have "tq_ok new_timer_queue []"
    by (simp add: tq_ok_def heap_ok_def list_ok_def indexed_def heap_on_def new_timer_queue_def new_timer_data_def)
  then show ?thesis by (auto simp: tq_inv_def)
qed

definition tq_room :: "'t timer_queue \<Rightarrow> bool" where
  "tq_room q \<longleftrightarrow> length (tq_heap q) < NO_INDEX"

lemma schedule_finite: "tq_ok q xs \<Longrightarrow> finite (dom (schedule q))"
proof -
  assume "tq_ok q xs"
  then have "dom (schedule q) \<subseteq> set xs" using schedule_ok by (fastforce split: if_splits)
  then show ?thesis by (rule finite_subset) simp
qed

interpretation timers: timer_contract tq_inv schedule tq_room "enqueue_timer (\<lambda>_. False)" cancel_timer cancel_timer_by_key
    get_ready_timers move_timer
proof
  fix q :: "'t::linorder timer_queue" and a b :: addr and now :: 't and ops :: finished
  assume "tq_inv q"
  then obtain xs where ok: "tq_ok q xs" by (auto simp: tq_inv_def)
  show "finite (dom (schedule q))" by (rule schedule_finite [OF ok])
  show "\<lbrakk>a \<noteq> 0; b \<noteq> 0; a \<noteq> b; schedule q b = None\<rbrakk>
      \<Longrightarrow> tq_inv (move_timer b a q) \<and> schedule (move_timer b a q) = (schedule q)(b := schedule q a, a := None)"
    using move_timer_refines [OF ok, of a b] move_idle_timer [OF ok, of a b] ok
    by (cases "schedule q a") (auto simp: tq_inv_def fun_upd_idem)
  show "\<exists>ts r. get_ready_timers now ops q =
        Some (ops @ concat (map (\<lambda>x. map (\<lambda>op. (op, Ready)) (snd (the (schedule q x)))) ts), r) \<and>
      tq_inv r \<and> distinct ts \<and> (\<forall>x. x \<in> set ts \<longleftrightarrow> due now (schedule q) x) \<and>
      sorted (map (\<lambda>x. the (fst (the (schedule q x)))) ts) \<and>
      schedule r = (\<lambda>x. if due now (schedule q) x then None else schedule q x)"
  proof -
    obtain ts r ys where r: "get_ready_timers now ops q = Some (ops @ concat (map (ready_of q) ts), r)" "tq_ok r ys" "distinct ts"
        "\<forall>x. x \<in> set ts \<longleftrightarrow> due now (schedule q) x" "sorted (map (\<lambda>x. the (expiry q x)) ts)"
        "schedule r = (\<lambda>x. if due now (schedule q) x then None else schedule q x)"
      using get_ready_timers_refines [OF ok] by blast
    have s: "schedule q x = Some (expiry q x, tm_ops (tq_mem q x))" if "x \<in> set ts" for x
      using that r(4) schedule_ok [OF ok, of x] by (auto simp: due_def split: if_splits)
    have eq: "map (ready_of q) ts = map (\<lambda>x. map (\<lambda>op. (op, Ready)) (snd (the (schedule q x)))) ts"
      "map (\<lambda>x. the (expiry q x)) ts = map (\<lambda>x. the (fst (the (schedule q x)))) ts"
      using s by (auto simp: ready_of_def)
    have "tq_inv r" using r(2) by (auto simp: tq_inv_def)
    then show ?thesis using r(1,3-6) unfolding eq by blast
  qed
  {
    fix t :: 't and op first r
    assume "a \<noteq> 0" "tq_room q" "enqueue_timer (\<lambda>_. False) t a op q = (first, r)"
    then show "tq_inv r \<and> schedule r = sched_add (\<lambda>_. False) t a op (schedule q)"
      using enqueue_timer_refines [OF ok, of a "\<lambda>_. False" t op first r] unfolding tq_inv_def tq_room_def by blast
  next
    fix k n ops' r
    assume "a \<noteq> 0" "cancel_timer a k ops q = (n, ops', r)"
    from cancel_timer_refines [OF ok this]
    show "tq_inv r \<and> schedule r = sched_keep a (drop k) (schedule q) \<and>
        n = min k (case schedule q a of None \<Rightarrow> 0 | Some (e, mine) \<Rightarrow> length mine) \<and>
        ops' = ops @ (case schedule q a of None \<Rightarrow> [] | Some (e, mine) \<Rightarrow> map (\<lambda>op. (op, Aborted)) (take k mine))"
      unfolding tq_inv_def by blast
  next
    fix key ops' r
    assume "a \<noteq> 0" "cancel_timer_by_key a ops key q = (ops', r)"
    from cancel_timer_by_key_refines [OF ok this]
    show "tq_inv r \<and> schedule r = sched_keep a (filter (\<lambda>op. wo_key op \<noteq> key)) (schedule q) \<and>
        ops' = ops @ (case schedule q a of None \<Rightarrow> []
          | Some (e, mine) \<Rightarrow> map (\<lambda>op. (op, Aborted)) (filter (\<lambda>op. wo_key op = key) mine))"
      unfolding tq_inv_def by blast
  }
qed

text \<open>
  C15. The queue of timers implements a schedule. Adding an operation gives the timer an expiry when it
  is not active yet, and otherwise leaves its expiry alone; the answer is true only for the first
  operation of a timer that no other precedes, and is true whenever a new timer is earlier than all
  others, so that the reactor is woken. Cancelling hands out the oldest operations of the timer, or
  those with a key, each marked as aborted, and keeps the others in order; moving a timer changes its
  place in memory and nothing else. The heap stays ordered, every timer knows its index, and the list
  of timers stays linked in both directions.
\<close>

theorem timer_queue_refines_schedule:
  assumes "tq_inv q" and "tq_room q" and "a \<noteq> 0"
  shows "(case enqueue_timer never t a op q of (first, r) \<Rightarrow> tq_inv r \<and> schedule r = sched_add never t a op (schedule q) \<and>
      (first \<longrightarrow> (\<exists>e ops. schedule r a = Some (Some e, ops) \<and> hd ops = op \<and>
        (\<forall>x e' ops'. schedule r x = Some (Some e', ops') \<longrightarrow> e \<le> e'))) \<and>
      (schedule q a = None \<and> \<not> never t \<and> (\<forall>x e' ops'. schedule q x = Some (Some e', ops') \<longrightarrow> t < e') \<longrightarrow> first)) \<and>
    (case cancel_timer a k [] q of (n, ops, r) \<Rightarrow> tq_inv r \<and> schedule r = sched_keep a (drop k) (schedule q) \<and> n = length ops \<and>
      ops = (case schedule q a of None \<Rightarrow> [] | Some (e, mine) \<Rightarrow> map (\<lambda>op. (op, Aborted)) (take k mine))) \<and>
    (case cancel_timer_by_key a [] key q of (ops, r) \<Rightarrow>
      tq_inv r \<and> schedule r = sched_keep a (filter (\<lambda>op. wo_key op \<noteq> key)) (schedule q) \<and>
      ops = (case schedule q a of None \<Rightarrow> []
        | Some (e, mine) \<Rightarrow> map (\<lambda>op. (op, Aborted)) (filter (\<lambda>op. wo_key op = key) mine))) \<and>
    (\<forall>b. b \<noteq> 0 \<and> b \<noteq> a \<and> schedule q b = None \<longrightarrow> tq_inv (move_timer b a q) \<and>
      schedule (move_timer b a q) = (schedule q)(b := schedule q a, a := None))"
proof -
  obtain xs where ok: "tq_ok q xs" using assms(1) by (auto simp: tq_inv_def)
  have room: "length (tq_heap q) < NO_INDEX" using assms(2) by (simp add: tq_room_def)
  obtain first r where e: "enqueue_timer never t a op q = (first, r)" by force
  obtain n ops r2 where c: "cancel_timer a k [] q = (n, ops, r2)" by (metis prod_cases3)
  obtain ops3 r3 where y: "cancel_timer_by_key a [] key q = (ops3, r3)" by force
  note en = enqueue_timer_refines [OF ok assms(3) room e] enqueue_timer_earliest [OF ok assms(3) room e]
  have add: "tq_inv r \<and> schedule r = sched_add never t a op (schedule q)" using en(1) by (auto simp: tq_inv_def)
  have new: "schedule q a = None \<and> \<not> never t \<and> (\<forall>x e' ops'. schedule q x = Some (Some e', ops') \<longrightarrow> t < e') \<longrightarrow> first"
    using en(3) by blast
  note cl = timers.cancel_law [OF assms(1,3) c]
  then have "n = length ops" by (auto split: option.splits)
  then show ?thesis
    unfolding e c y prod.case
    using add new en(2) cl timers.cancel_key_law [OF assms(1,3) y] timers.move_law [OF assms(1,3)] by simp
qed

definition sample_op :: wait_op where
  "sample_op = \<lparr>wo_addr = 9, wo_key = 0\<rparr>"

definition sample_timers :: "int timer_queue" where
  "sample_timers = snd (enqueue_timer (\<lambda>_. False) 5 1 sample_op new_timer_queue)"

lemma sample_timers_schedule: "tq_inv sample_timers" "schedule sample_timers = [1 \<mapsto> (Some 5, [sample_op])]" "tq_room sample_timers"
proof -
  let ?q = "new_timer_queue :: int timer_queue"
  have room: "tq_room ?q" by (simp add: tq_room_def new_timer_queue_def NO_INDEX_def)
  have none: "schedule ?q = (\<lambda>_. None)"
    by (auto simp: fun_eq_iff schedule_def in_list_def new_timer_queue_def new_timer_data_def)
  have e: "enqueue_timer (\<lambda>_. False) 5 1 sample_op ?q = (fst (enqueue_timer (\<lambda>_. False) 5 1 sample_op ?q), sample_timers)"
    by (simp add: sample_timers_def)
  note l = timers.enqueue_law [OF tq_inv_new _ room e]
  show inv: "tq_inv sample_timers" and v: "schedule sample_timers = [1 \<mapsto> (Some 5, [sample_op])]"
    using l none by (simp_all add: sched_add_def)
  show "tq_room sample_timers"
    by (simp add: sample_timers_def tq_room_def enqueue_timer_def new_timer_queue_def new_timer_data_def in_list_def upd_timer_def
        link_timer_def up_heap.simps set_index_def NO_INDEX_def Let_def)
qed

theorem timer_queue_refines_schedule_witness:
  "case cancel_timer 1 1 [] sample_timers of (n, ops, r) \<Rightarrow> n = 1 \<and> ops = [(sample_op, Aborted)] \<and> schedule r = (\<lambda>_. None)"
  using timer_queue_refines_schedule [OF sample_timers_schedule(1,3), of 1 "\<lambda>_. False" 0 sample_op 1 0]
  by (auto simp: sample_timers_schedule(2) sched_keep_def split: prod.splits)

text \<open>
  C27. Timers that are due are handed out in the order of their expiry. The loop over the heap ends;
  the timers it takes are exactly those whose time has come, the earlier before the later, with all
  operations of a timer in the order in which they were added, and the others stay as they were.
\<close>

theorem ready_timers_in_order:
  assumes "tq_inv q"
  shows "\<exists>ts r. get_ready_timers now ops q =
      Some (ops @ concat (map (\<lambda>x. map (\<lambda>op. (op, Ready)) (snd (the (schedule q x)))) ts), r) \<and>
    tq_inv r \<and> distinct ts \<and> (\<forall>x. x \<in> set ts \<longleftrightarrow> due now (schedule q) x) \<and>
    sorted (map (\<lambda>x. the (fst (the (schedule q x)))) ts) \<and>
    schedule r = (\<lambda>x. if due now (schedule q) x then None else schedule q x)"
  by (rule timers.ready_law [OF assms])

theorem ready_timers_in_order_witness:
  "\<exists>r. get_ready_timers 5 [] sample_timers = Some ([(sample_op, Ready)], r) \<and> schedule r = (\<lambda>_. None)"
proof -
  have d: "due 5 (schedule sample_timers) x \<longleftrightarrow> x = 1" for x by (simp add: due_def sample_timers_schedule(2))
  obtain ts r where r: "get_ready_timers 5 [] sample_timers =
      Some ([] @ concat (map (\<lambda>x. map (\<lambda>op. (op, Ready)) (snd (the (schedule sample_timers x)))) ts), r)" "distinct ts"
      "\<forall>x. x \<in> set ts \<longleftrightarrow> due 5 (schedule sample_timers) x"
      "schedule r = (\<lambda>x. if due 5 (schedule sample_timers) x then None else schedule sample_timers x)"
    using ready_timers_in_order [OF sample_timers_schedule(1), of 5 "[]"] by blast
  have "set ts = {1}" using r(3) d by auto
  then have "ts = [1]" using r(2) by (cases ts) (auto simp: subset_singleton_iff)
  then show ?thesis using r(1,4) d by (auto simp: sample_timers_schedule(2) fun_eq_iff)
qed

end
