(* ===== verification/Deadline_Timer.thy ===== *)
theory Deadline_Timer
  imports Timer_Queue
begin

text \<open>
  Timers as a user sees them: \<^verbatim>\<open>detail/deadline_timer_service.h\<close> on top of the timer part of
  \<^verbatim>\<open>detail/impl/epoll_reactor.h\<close>. The reactor keeps the queue of timers and hands finished
  operations to the scheduler, which is here the sequence of what was posted with the number of
  outstanding operations. Every call holds the reactor's mutex, so calls are atomic steps. Timers are
  those of a clock without infinite times, as all \<^verbatim>\<open>std::chrono\<close> clocks are. What epoll reports is an
  argument of the reactor's rounds.
\<close>

subsection \<open>The reactor\<close>

record 't reactor =
  re_queue :: "'t timer_queue"
  re_shutdown :: bool
  re_work :: nat
  re_posted :: finished
  re_abandoned :: "wait_op list"
  re_timer_fd :: int
  re_timeout_updates :: nat

definition new_reactor :: "int \<Rightarrow> 't reactor" where
  "new_reactor timer_fd =
     \<lparr>re_queue = new_timer_queue, re_shutdown = False, re_work = 0, re_posted = [], re_abandoned = [],
      re_timer_fd = timer_fd, re_timeout_updates = 0\<rparr>"

text \<open>An operation that never waited is posted with the error code it was made with, which is success.\<close>

definition schedule_timer :: "'t::linorder \<Rightarrow> addr \<Rightarrow> wait_op \<Rightarrow> 't reactor \<Rightarrow> 't reactor" where
  "schedule_timer time a op r =
     (if re_shutdown r then r\<lparr>re_work := re_work r + 1, re_posted := re_posted r @ [(op, Ready)]\<rparr>
      else let (earliest, q) = enqueue_timer (\<lambda>_. False) time a op (re_queue r);
               r = r\<lparr>re_queue := q, re_work := re_work r + 1\<rparr>
           in if earliest then r\<lparr>re_timeout_updates := re_timeout_updates r + 1\<rparr> else r)"

definition re_cancel_timer :: "addr \<Rightarrow> nat \<Rightarrow> 't::linorder reactor \<Rightarrow> nat \<times> 't reactor" where
  "re_cancel_timer a max_cancelled r =
     (let (n, ops, q) = cancel_timer a max_cancelled [] (re_queue r)
      in (n, r\<lparr>re_queue := q, re_posted := re_posted r @ ops\<rparr>))"

definition re_cancel_timer_by_key :: "addr \<Rightarrow> addr \<Rightarrow> 't::linorder reactor \<Rightarrow> 't reactor" where
  "re_cancel_timer_by_key a key r =
     (let (ops, q) = cancel_timer_by_key a [] key (re_queue r)
      in r\<lparr>re_queue := q, re_posted := re_posted r @ ops\<rparr>)"

definition re_move_timer :: "addr \<Rightarrow> addr \<Rightarrow> 't::linorder reactor \<Rightarrow> 't reactor" where
  "re_move_timer target source r =
     (let (n, ops, q) = cancel_timer target NO_INDEX [] (re_queue r);
          q = move_timer target source q
      in r\<lparr>re_queue := q, re_posted := re_posted r @ ops\<rparr>)"

text \<open>
  The part of \<^verbatim>\<open>epoll_reactor::run\<close> that looks after the timers, given what \<^verbatim>\<open>epoll_wait\<close> reported. With a
  timer descriptor the timers are looked at only when the descriptor is among the events, without one
  in every round. The timeout of the descriptor is then set anew.
\<close>

datatype event_ptr = Interrupter | Timer_Fd | Descriptor addr

definition check_timers :: "int \<Rightarrow> event_ptr list \<Rightarrow> bool" where
  "check_timers timer_fd events =
     fold (\<lambda>ptr check. case ptr of
             Interrupter \<Rightarrow> if timer_fd = -1 then True else check
           | Timer_Fd \<Rightarrow> True
           | Descriptor _ \<Rightarrow> check) events (timer_fd = -1)"

definition run_timers :: "'t::linorder \<Rightarrow> event_ptr list \<Rightarrow> 't reactor \<Rightarrow> 't reactor option" where
  "run_timers now events r =
     (if check_timers (re_timer_fd r) events
      then map_option (\<lambda>(ops, q). r\<lparr>re_queue := q, re_posted := re_posted r @ ops,
               re_timeout_updates := re_timeout_updates r + (if re_timer_fd r \<noteq> -1 then 1 else 0)\<rparr>)
             (get_ready_timers now [] (re_queue r))
      else Some r)"

text \<open>
  The shutdown of the reactor, as far as timers go: the operations that wait are destroyed without
  being called. Descriptors are not modelled.
\<close>

definition reactor_shutdown :: "'t reactor \<Rightarrow> 't reactor option" where
  "reactor_shutdown r =
     (let r = r\<lparr>re_shutdown := True\<rparr>
      in map_option (\<lambda>(ops, q). r\<lparr>re_queue := q, re_abandoned := re_abandoned r @ ops\<rparr>) (get_all_timers [] (re_queue r)))"

subsection \<open>The service\<close>

record 't timer_impl =
  ti_expiry :: 't
  ti_pending :: bool
  ti_data :: addr

definition ts_construct :: "'t \<Rightarrow> addr \<Rightarrow> 't timer_impl" where
  "ts_construct epoch a = \<lparr>ti_expiry = epoch, ti_pending = False, ti_data = a\<rparr>"

type_synonym 't timer_call = "'t timer_impl \<Rightarrow> 't reactor \<Rightarrow> nat \<times> 't timer_impl \<times> 't reactor"

definition ts_cancel :: "'t::linorder timer_call" where
  "ts_cancel impl r =
     (if \<not> ti_pending impl then (0, impl, r)
      else let (count, r) = re_cancel_timer (ti_data impl) NO_INDEX r in (count, impl\<lparr>ti_pending := False\<rparr>, r))"

definition ts_cancel_one :: "'t::linorder timer_call" where
  "ts_cancel_one impl r =
     (if \<not> ti_pending impl then (0, impl, r)
      else let (count, r) = re_cancel_timer (ti_data impl) 1 r
           in (count, if count = 0 then impl\<lparr>ti_pending := False\<rparr> else impl, r))"

definition ts_expires_at :: "'t::linorder \<Rightarrow> 't timer_call" where
  "ts_expires_at t impl r = (let (count, impl, r) = ts_cancel impl r in (count, impl\<lparr>ti_expiry := t\<rparr>, r))"

definition ts_expires_after :: "('t \<Rightarrow> 'd \<Rightarrow> 't) \<Rightarrow> 't::linorder \<Rightarrow> 'd \<Rightarrow> 't timer_call" where
  "ts_expires_after add now d = ts_expires_at (add now d)"

definition ts_async_wait :: "wait_op \<Rightarrow> 't::linorder timer_impl \<Rightarrow> 't reactor \<Rightarrow> 't timer_impl \<times> 't reactor" where
  "ts_async_wait op impl r = (impl\<lparr>ti_pending := True\<rparr>, schedule_timer (ti_expiry impl) (ti_data impl) op r)"

text \<open>Moving a timer, from which the source is left as a new one.\<close>

definition take_over :: "'t \<Rightarrow> 't timer_impl \<Rightarrow> 't timer_impl \<Rightarrow> 't timer_impl \<times> 't timer_impl" where
  "take_over epoch impl other =
     (impl\<lparr>ti_expiry := ti_expiry other, ti_pending := ti_pending other\<rparr>, other\<lparr>ti_expiry := epoch, ti_pending := False\<rparr>)"

definition ts_move_construct ::
    "'t \<Rightarrow> 't timer_impl \<Rightarrow> 't timer_impl \<Rightarrow> 't::linorder reactor \<Rightarrow> ('t timer_impl \<times> 't timer_impl) \<times> 't reactor" where
  "ts_move_construct epoch impl other r =
     (let r = (if ti_pending other then re_move_timer (ti_data impl) (ti_data other) r else r)
      in (take_over epoch impl other, r))"

text \<open>Both timers belong to the same service.\<close>

definition ts_move_assign ::
    "'t \<Rightarrow> 't timer_impl \<Rightarrow> 't timer_impl \<Rightarrow> 't::linorder reactor \<Rightarrow> ('t timer_impl \<times> 't timer_impl) \<times> 't reactor" where
  "ts_move_assign epoch impl other r =
     (take_over epoch impl other, re_move_timer (ti_data impl) (ti_data other) r)"

definition ts_destroy :: "'t::linorder timer_impl \<Rightarrow> 't reactor \<Rightarrow> 't reactor" where
  "ts_destroy impl r = snd (snd (ts_cancel impl r))"

subsection \<open>A program with timers\<close>

text \<open>
  The timers of a program, by name, with the time and what was started so far: every operation with
  the expiry its timer had. All calls of the service can happen in any order, rounds of the reactor
  with any events in between, and the shutdown of the reactor at any point.
\<close>

record 't program =
  pr_reactor :: "'t reactor"
  pr_timers :: "nat \<Rightarrow> 't timer_impl option"
  pr_now :: 't
  pr_started :: "(wait_op \<times> 't) list"

definition set_timer :: "nat \<Rightarrow> 't timer_impl \<Rightarrow> 't reactor \<Rightarrow> 't program \<Rightarrow> 't program" where
  "set_timer i impl r s = s\<lparr>pr_reactor := r, pr_timers := (pr_timers s)(i \<mapsto> impl)\<rparr>"

inductive timer_step :: "'t::linorder \<Rightarrow> 't program \<Rightarrow> 't program \<Rightarrow> bool" for epoch where
  ts_clock: "pr_now s \<le> t \<Longrightarrow> timer_step epoch s (s\<lparr>pr_now := t\<rparr>)"
| ts_new: "\<lbrakk>pr_timers s i = None; a \<noteq> 0; \<forall>j impl. pr_timers s j = Some impl \<longrightarrow> ti_data impl \<noteq> a\<rbrakk>
    \<Longrightarrow> timer_step epoch s (set_timer i (ts_construct epoch a) (pr_reactor s) s)"
| ts_wait: "\<lbrakk>pr_timers s i = Some impl; ts_async_wait op impl (pr_reactor s) = (impl', r)\<rbrakk>
    \<Longrightarrow> timer_step epoch s ((set_timer i impl' r s)\<lparr>pr_started := pr_started s @ [(op, ti_expiry impl)]\<rparr>)"
| ts_set: "\<lbrakk>pr_timers s i = Some impl; ts_expires_at t impl (pr_reactor s) = (n, impl', r)\<rbrakk>
    \<Longrightarrow> timer_step epoch s (set_timer i impl' r s)"
| ts_stop: "\<lbrakk>pr_timers s i = Some impl; ts_cancel impl (pr_reactor s) = (n, impl', r)\<rbrakk>
    \<Longrightarrow> timer_step epoch s (set_timer i impl' r s)"
| ts_stop_one: "\<lbrakk>pr_timers s i = Some impl; ts_cancel_one impl (pr_reactor s) = (n, impl', r)\<rbrakk>
    \<Longrightarrow> timer_step epoch s (set_timer i impl' r s)"
| ts_stop_key: "pr_timers s i = Some impl
    \<Longrightarrow> timer_step epoch s (s\<lparr>pr_reactor := re_cancel_timer_by_key (ti_data impl) key (pr_reactor s)\<rparr>)"
| ts_move_new: "\<lbrakk>pr_timers s i = Some other; pr_timers s j = None; a \<noteq> 0;
      \<forall>k impl. pr_timers s k = Some impl \<longrightarrow> ti_data impl \<noteq> a;
      ts_move_construct epoch (ts_construct epoch a) other (pr_reactor s) = ((impl', other'), r)\<rbrakk>
    \<Longrightarrow> timer_step epoch s (set_timer j impl' r (set_timer i other' r s))"
| ts_move: "\<lbrakk>pr_timers s i = Some other; pr_timers s j = Some impl; i \<noteq> j;
      ts_move_assign epoch impl other (pr_reactor s) = ((impl', other'), r)\<rbrakk>
    \<Longrightarrow> timer_step epoch s (set_timer j impl' r (set_timer i other' r s))"
| ts_free: "pr_timers s i = Some impl
    \<Longrightarrow> timer_step epoch s (s\<lparr>pr_reactor := ts_destroy impl (pr_reactor s), pr_timers := (pr_timers s)(i := None)\<rparr>)"
| ts_run: "run_timers (pr_now s) events (pr_reactor s) = Some r \<Longrightarrow> timer_step epoch s (s\<lparr>pr_reactor := r\<rparr>)"
| ts_shutdown: "reactor_shutdown (pr_reactor s) = Some r \<Longrightarrow> timer_step epoch s (s\<lparr>pr_reactor := r\<rparr>)"

definition new_program :: "int \<Rightarrow> 't \<Rightarrow> 't program" where
  "new_program timer_fd now = \<lparr>pr_reactor = new_reactor timer_fd, pr_timers = (\<lambda>_. None), pr_now = now, pr_started = []\<rparr>"

subsection \<open>Every wait ends once, and not early\<close>

lemma schedule_nonempty:
  assumes "tq_inv q" and "schedule q a = Some (e, ops)"
  shows "ops \<noteq> []"
proof -
  obtain xs where ok: "tq_ok q xs" using assms(1) by (auto simp: tq_inv_def)
  then show ?thesis using assms(2) schedule_ok [OF ok, of a] by (auto simp: tq_ok_def split: if_splits)
qed

lemma waiting_length:
  assumes "tq_inv q" and "schedule q a = Some (e, ops)"
  shows "length ops \<le> size (waiting_of (schedule q))"
  using waiting_of_at [OF timers.view_finite [OF assms(1)], of a] assms(2) by (simp add: ops_at_def)

text \<open>There is room in the heap as long as fewer operations wait than an index can count.\<close>

lemma waiting_room:
  assumes "tq_inv q"
  shows "length (tq_heap q) \<le> size (waiting_of (schedule q))"
proof -
  obtain xs where ok: "tq_ok q xs" using assms by (auto simp: tq_inv_def)
  have "length (tq_heap q) = card (snd ` set (tq_heap q))"
    using ok by (metis tq_ok_def heap_ok_def indexed_def distinct_card length_map list.set_map)
  also have "\<dots> \<le> card (dom (schedule q))"
  proof (rule card_mono)
    show "finite (dom (schedule q))" by (rule schedule_finite [OF ok])
    show "snd ` set (tq_heap q) \<subseteq> dom (schedule q)" using ok schedule_ok [OF ok] by (auto simp: tq_ok_def dom_def)
  qed
  also have "\<dots> = (\<Sum>x \<in> dom (schedule q). 1)" by simp
  also have "\<dots> \<le> (\<Sum>x \<in> dom (schedule q). size (ops_at (schedule q) x))"
  proof (rule sum_mono)
    fix x assume "x \<in> dom (schedule q)"
    then obtain e ops where "schedule q x = Some (e, ops)" by auto
    then show "1 \<le> size (ops_at (schedule q) x)"
      using schedule_nonempty [OF assms] by (simp add: ops_at_def Suc_le_eq)
  qed
  also have "\<dots> = size (waiting_of (schedule q))" by (simp add: waiting_of_def size_multiset_sum)
  finally show ?thesis .
qed

text \<open>Operations are aborted and nothing else happens to the schedule.\<close>

definition aborts :: "'t::linorder reactor \<Rightarrow> 't reactor \<Rightarrow> bool" where
  "aborts r r' \<longleftrightarrow> (\<exists>q ab. r' = r\<lparr>re_queue := q, re_posted := re_posted r @ ab\<rparr> \<and> tq_inv q \<and> (\<forall>x \<in> set ab. snd x = Aborted) \<and>
     waiting_of (schedule q) + mset (map fst ab) = waiting_of (schedule (re_queue r)) \<and>
     (\<forall>a e ops. schedule q a = Some (e, ops) \<longrightarrow> (\<exists>ops'. schedule (re_queue r) a = Some (e, ops') \<and> set ops \<subseteq> set ops')))"

lemma aborts_refl: "tq_inv (re_queue r) \<Longrightarrow> aborts r r"
  unfolding aborts_def by (intro exI [of _ "re_queue r"] exI [of _ "[]"]) auto

lemma sched_keep_SomeD:
  "sched_keep a f m x = Some (e, ops) \<Longrightarrow> \<exists>ops'. m x = Some (e, ops') \<and> ops = (if x = a then f ops' else ops')"
  by (auto simp: sched_keep_def split: if_splits option.splits)

lemma re_cancel_timer_aborts:
  assumes "tq_inv (re_queue r)" and "a \<noteq> 0" and "re_cancel_timer a k r = (n, r')"
  shows "aborts r r'" and "schedule (re_queue r') = sched_keep a (drop k) (schedule (re_queue r))"
    and "n = min k (case schedule (re_queue r) a of None \<Rightarrow> 0 | Some (e, mine) \<Rightarrow> length mine)"
proof -
  obtain ab q where c: "cancel_timer a k [] (re_queue r) = (n, ab, q)" "r' = r\<lparr>re_queue := q, re_posted := re_posted r @ ab\<rparr>"
    using assms(3) by (auto simp: re_cancel_timer_def split: prod.splits)
  note l = timers.cancel_law [OF assms(1,2) c(1)]
  show "schedule (re_queue r') = sched_keep a (drop k) (schedule (re_queue r))"
    "n = min k (case schedule (re_queue r) a of None \<Rightarrow> 0 | Some (e, mine) \<Rightarrow> length mine)"
    using l c(2) by simp_all
  have "\<forall>x \<in> set ab. snd x = Aborted" using l by (auto split: option.splits)
  moreover have "\<exists>ops'. schedule (re_queue r) x = Some (e, ops') \<and> set ops \<subseteq> set ops'" if "schedule q x = Some (e, ops)" for x e ops
    using that l sched_keep_SomeD [of a "drop k" "schedule (re_queue r)" x e ops]
    by (auto split: if_splits dest: in_set_dropD)
  ultimately show "aborts r r'"
    unfolding aborts_def using l c(2) timers.cancel_waiting [OF assms(1,2) c(1)]
    by (intro exI [of _ q] exI [of _ ab]) simp
qed

lemma re_cancel_key_aborts:
  assumes "tq_inv (re_queue r)" and "a \<noteq> 0"
  shows "aborts r (re_cancel_timer_by_key a key r)"
proof -
  obtain ab q where c: "cancel_timer_by_key a [] key (re_queue r) = (ab, q)" by force
  note l = timers.cancel_key_law [OF assms c]
  have "\<forall>x \<in> set ab. snd x = Aborted" using l by (auto split: option.splits)
  moreover have "\<exists>ops'. schedule (re_queue r) x = Some (e, ops') \<and> set ops \<subseteq> set ops'" if "schedule q x = Some (e, ops)" for x e ops
    using that l sched_keep_SomeD [of a "filter (\<lambda>op. wo_key op \<noteq> key)" "schedule (re_queue r)" x e ops]
    by (auto split: if_splits)
  ultimately show ?thesis
    unfolding aborts_def using l c timers.cancel_key_waiting [OF assms c]
    by (intro exI [of _ q] exI [of _ ab]) (simp add: re_cancel_timer_by_key_def)
qed

text \<open>Cancelling everything leaves nothing of the timer.\<close>

lemma cancel_all_aborts:
  assumes "tq_inv (re_queue r)" and "a \<noteq> 0" and "re_cancel_timer a NO_INDEX r = (n, r')"
    and "size (waiting_of (schedule (re_queue r))) < NO_INDEX"
  shows "aborts r r'" and "schedule (re_queue r') = (schedule (re_queue r))(a := None)"
proof -
  show "aborts r r'" by (rule re_cancel_timer_aborts [OF assms(1-3)])
  have "drop NO_INDEX ops = []" if "schedule (re_queue r) a = Some (e, ops)" for e ops
    using waiting_length [OF assms(1) that] assms(4) by simp
  then show "schedule (re_queue r') = (schedule (re_queue r))(a := None)"
    using re_cancel_timer_aborts(2) [OF assms(1-3)] by (auto simp: sched_keep_def split: option.splits)
qed

text \<open>
  Timers have places of their own. Every active timer belongs to one of the program, which knows that
  operations may be pending, and its entry in the heap has the expiry the timer shows.
\<close>

definition separate :: "(nat \<Rightarrow> 't timer_impl option) \<Rightarrow> bool" where
  "separate T \<longleftrightarrow> (\<forall>i x. T i = Some x \<longrightarrow> ti_data x \<noteq> 0) \<and>
     (\<forall>i j x y. T i = Some x \<longrightarrow> T j = Some y \<longrightarrow> ti_data x = ti_data y \<longrightarrow> i = j)"

definition owned :: "(nat \<Rightarrow> 't timer_impl option) \<Rightarrow> (wait_op \<times> 't) list \<Rightarrow> 't schedule \<Rightarrow> bool" where
  "owned T started m \<longleftrightarrow> (\<forall>a e ops. m a = Some (e, ops) \<longrightarrow>
     (\<exists>i x. T i = Some x \<and> ti_data x = a \<and> ti_pending x \<and> e = Some (ti_expiry x) \<and>
        (\<forall>op \<in> set ops. (op, ti_expiry x) \<in> set started)))"

definition on_time :: "'t::linorder \<Rightarrow> finished \<Rightarrow> (wait_op \<times> 't) list \<Rightarrow> bool" where
  "on_time now posted started \<longleftrightarrow> (\<forall>op. (op, Ready) \<in> set posted \<longrightarrow> (\<exists>e \<le> now. (op, e) \<in> set started))"

definition timed :: "'t::linorder program \<Rightarrow> bool" where
  "timed s \<longleftrightarrow> (let r = pr_reactor s in \<not> re_shutdown r \<and> re_abandoned r = [] \<and> tq_inv (re_queue r) \<and> separate (pr_timers s) \<and>
     owned (pr_timers s) (pr_started s) (schedule (re_queue r)) \<and>
     waiting_of (schedule (re_queue r)) + mset (map fst (re_posted r)) = mset (map fst (pr_started s)) \<and>
     on_time (pr_now s) (re_posted r) (pr_started s))"

lemma ownedD:
  assumes "owned T st m" and "separate T" and "T i = Some x" and "m (ti_data x) = Some (e, ops)"
  shows "ti_pending x" and "e = Some (ti_expiry x)" and "\<And>op. op \<in> set ops \<Longrightarrow> (op, ti_expiry x) \<in> set st"
proof -
  obtain j y where y: "T j = Some y" "ti_data y = ti_data x" "ti_pending y" "e = Some (ti_expiry y)"
      "\<forall>op \<in> set ops. (op, ti_expiry y) \<in> set st"
    using assms(1,4) unfolding owned_def by blast
  then have "y = x" using assms(2,3) unfolding separate_def by (metis option.inject)
  then show "ti_pending x" "e = Some (ti_expiry x)" "\<And>op. op \<in> set ops \<Longrightarrow> (op, ti_expiry x) \<in> set st" using y by auto
qed

lemma separate_upd: "separate T \<Longrightarrow> T i = Some x \<Longrightarrow> ti_data y = ti_data x \<Longrightarrow> separate (T(i \<mapsto> y))"
  by (auto simp: separate_def split: if_splits)

lemma separate_new: "separate T \<Longrightarrow> a \<noteq> 0 \<Longrightarrow> \<forall>j x. T j = Some x \<longrightarrow> ti_data x \<noteq> a \<Longrightarrow> ti_data y = a \<Longrightarrow> separate (T(i \<mapsto> y))"
  unfolding separate_def by (metis (no_types, lifting) fun_upd_apply option.inject)

lemma owned_none: "owned T st m \<Longrightarrow> \<forall>j x. T j = Some x \<longrightarrow> ti_data x \<noteq> a \<Longrightarrow> m a = None"
  unfolding owned_def by (metis not_None_eq surj_pair)

lemma timed_aborts:
  assumes "timed s" and "aborts (pr_reactor s) r" and "separate T"
    and "\<And>i x. \<lbrakk>pr_timers s i = Some x; schedule (re_queue r) (ti_data x) \<noteq> None; ti_pending x\<rbrakk>
      \<Longrightarrow> \<exists>j y. T j = Some y \<and> ti_data y = ti_data x \<and> ti_expiry y = ti_expiry x \<and> ti_pending y"
  shows "timed (s\<lparr>pr_reactor := r, pr_timers := T\<rparr>)"
proof -
  let ?r = "pr_reactor s"
  obtain q ab where r: "r = ?r\<lparr>re_queue := q, re_posted := re_posted ?r @ ab\<rparr>" "tq_inv q" "\<forall>x \<in> set ab. snd x = Aborted"
      "waiting_of (schedule q) + mset (map fst ab) = waiting_of (schedule (re_queue ?r))"
      "\<And>a e ops. schedule q a = Some (e, ops) \<Longrightarrow> \<exists>ops'. schedule (re_queue ?r) a = Some (e, ops') \<and> set ops \<subseteq> set ops'"
    using assms(2) unfolding aborts_def by blast
  have s: "owned (pr_timers s) (pr_started s) (schedule (re_queue ?r))" "\<not> re_shutdown ?r \<and> re_abandoned ?r = []"
      "waiting_of (schedule (re_queue ?r)) + mset (map fst (re_posted ?r)) = mset (map fst (pr_started s))"
      "on_time (pr_now s) (re_posted ?r) (pr_started s)"
    using assms(1) by (simp_all add: timed_def Let_def)
  have "owned T (pr_started s) (schedule q)"
    unfolding owned_def
  proof (intro allI impI)
    fix a e ops assume a: "schedule q a = Some (e, ops)"
    then obtain ops' where o: "schedule (re_queue ?r) a = Some (e, ops')" "set ops \<subseteq> set ops'" using r(5) by blast
    then obtain i x where x: "pr_timers s i = Some x" "ti_data x = a" "ti_pending x" "e = Some (ti_expiry x)"
        "\<forall>op \<in> set ops'. (op, ti_expiry x) \<in> set (pr_started s)"
      using s(1) unfolding owned_def by blast
    have "schedule (re_queue r) (ti_data x) \<noteq> None" using a x(2) r(1) by simp
    from assms(4) [OF x(1) this x(3)] x o(2)
    show "\<exists>i x. T i = Some x \<and> ti_data x = a \<and> ti_pending x \<and> e = Some (ti_expiry x) \<and>
        (\<forall>op \<in> set ops. (op, ti_expiry x) \<in> set (pr_started s))"
      by (metis subsetD)
  qed
  moreover have "on_time (pr_now s) (re_posted ?r @ ab) (pr_started s)"
    using s(4) r(3) by (fastforce simp: on_time_def)
  ultimately show ?thesis
    using s(2,3) r(1,2,4) assms(3) by (simp add: timed_def Let_def union_assoc [symmetric] add.commute add.left_commute)
qed

lemma timed_waiting: "timed s \<Longrightarrow> size (waiting_of (schedule (re_queue (pr_reactor s)))) \<le> length (pr_started s)"
proof -
  assume "timed s"
  then have "waiting_of (schedule (re_queue (pr_reactor s))) + mset (map fst (re_posted (pr_reactor s))) = mset (map fst (pr_started s))"
    by (simp add: timed_def Let_def)
  then have "size (waiting_of (schedule (re_queue (pr_reactor s))) + mset (map fst (re_posted (pr_reactor s)))) =
      size (mset (map fst (pr_started s)))" by simp
  then show ?thesis by simp
qed

text \<open>Cancelling through the service.\<close>

lemma ts_cancel_timed:
  assumes "timed s" and "pr_timers s i = Some x" and "length (pr_started s) < NO_INDEX"
    and "ts_cancel x (pr_reactor s) = (n, x', r)"
  shows "aborts (pr_reactor s) r" and "schedule (re_queue r) (ti_data x) = None" and "ti_data x' = ti_data x"
    and "\<not> ti_pending x'"
proof -
  have s: "tq_inv (re_queue (pr_reactor s))" "ti_data x \<noteq> 0" "separate (pr_timers s)"
      "owned (pr_timers s) (pr_started s) (schedule (re_queue (pr_reactor s)))"
    using assms(1,2) by (auto simp: timed_def Let_def separate_def)
  have "aborts (pr_reactor s) r \<and> schedule (re_queue r) (ti_data x) = None \<and> ti_data x' = ti_data x \<and> \<not> ti_pending x'"
  proof (cases "ti_pending x")
    case True
    obtain c where c: "re_cancel_timer (ti_data x) NO_INDEX (pr_reactor s) = (c, r)" "x' = x\<lparr>ti_pending := False\<rparr>"
      using assms(4) True by (auto simp: ts_cancel_def split: prod.splits)
    have "size (waiting_of (schedule (re_queue (pr_reactor s)))) < NO_INDEX" using timed_waiting [OF assms(1)] assms(3) by simp
    from cancel_all_aborts [OF s(1,2) c(1) this] show ?thesis using c(2) by simp
  next
    case False
    then have "schedule (re_queue (pr_reactor s)) (ti_data x) = None"
      using ownedD(1) [OF s(4,3) assms(2)] by (cases "schedule (re_queue (pr_reactor s)) (ti_data x)") auto
    then show ?thesis using assms(4) False aborts_refl [OF s(1)] by (auto simp: ts_cancel_def)
  qed
  then show "aborts (pr_reactor s) r" and "schedule (re_queue r) (ti_data x) = None" and "ti_data x' = ti_data x"
    and "\<not> ti_pending x'" by blast+
qed

lemma timed_replace:
  assumes "timed s" and "pr_timers s i = Some x" and "aborts (pr_reactor s) r" and "ti_data y = ti_data x"
    and "schedule (re_queue r) (ti_data x) = None \<or> ti_expiry y = ti_expiry x \<and> (ti_pending x \<longrightarrow> ti_pending y)"
  shows "timed (set_timer i y r s)"
proof -
  have sep: "separate (pr_timers s)" using assms(1) by (simp add: timed_def Let_def)
  show ?thesis
    unfolding set_timer_def
  proof (rule timed_aborts [OF assms(1,3) separate_upd [OF sep assms(2,4)]])
    fix j z assume z: "pr_timers s j = Some z" "schedule (re_queue r) (ti_data z) \<noteq> None" "ti_pending z"
    show "\<exists>k w. ((pr_timers s)(i \<mapsto> y)) k = Some w \<and> ti_data w = ti_data z \<and> ti_expiry w = ti_expiry z \<and> ti_pending w"
    proof (cases "j = i")
      case True
      then have "z = x" using z(1) assms(2) by simp
      then show ?thesis using z assms(4,5) by (intro exI [of _ i] exI [of _ y]) auto
    next
      case False
      then show ?thesis using z by (intro exI [of _ j] exI [of _ z]) simp
    qed
  qed
qed

lemma on_time_mono: "on_time now posted st \<Longrightarrow> now \<le> t \<Longrightarrow> on_time t posted st"
  unfolding on_time_def by (meson order.trans)

lemma timed_clock: "timed s \<Longrightarrow> pr_now s \<le> t \<Longrightarrow> timed (s\<lparr>pr_now := t\<rparr>)"
  using on_time_mono by (auto simp: timed_def Let_def)

lemma timed_new:
  assumes "timed s" and "pr_timers s i = None" and "a \<noteq> 0" and "\<forall>j x. pr_timers s j = Some x \<longrightarrow> ti_data x \<noteq> a"
    and "ti_data y = a"
  shows "timed (set_timer i y (pr_reactor s) s)"
proof -
  have s: "tq_inv (re_queue (pr_reactor s))" "separate (pr_timers s)" using assms(1) by (simp_all add: timed_def Let_def)
  show ?thesis
    unfolding set_timer_def
  proof (rule timed_aborts [OF assms(1) aborts_refl [OF s(1)] separate_new [OF s(2) assms(3,4,5)]])
    fix j z assume z: "pr_timers s j = Some z" "ti_pending z"
    then have "j \<noteq> i" using assms(2) by auto
    then show "\<exists>k w. ((pr_timers s)(i \<mapsto> y)) k = Some w \<and> ti_data w = ti_data z \<and> ti_expiry w = ti_expiry z \<and> ti_pending w"
      using z by (intro exI [of _ j] exI [of _ z]) simp
  qed
qed

lemma timed_wait:
  assumes "timed s" and "pr_timers s i = Some x" and "length (pr_started s) < NO_INDEX"
    and "ts_async_wait op x (pr_reactor s) = (x', r)"
  shows "timed ((set_timer i x' r s)\<lparr>pr_started := pr_started s @ [(op, ti_expiry x)]\<rparr>)"
proof -
  let ?r = "pr_reactor s" and ?m = "schedule (re_queue (pr_reactor s))"
  have s: "tq_inv (re_queue ?r)" "ti_data x \<noteq> 0" "separate (pr_timers s)" "owned (pr_timers s) (pr_started s) ?m" "\<not> re_shutdown ?r \<and> re_abandoned ?r = []"
      "waiting_of ?m + mset (map fst (re_posted ?r)) = mset (map fst (pr_started s))" "on_time (pr_now s) (re_posted ?r) (pr_started s)"
    using assms(1,2) by (auto simp: timed_def Let_def separate_def)
  obtain b q where e: "enqueue_timer (\<lambda>_. False) (ti_expiry x) (ti_data x) op (re_queue ?r) = (b, q)" by force
  have room: "tq_room (re_queue ?r)"
    using waiting_room [OF s(1)] timed_waiting [OF assms(1)] assms(3) by (simp add: tq_room_def)
  note l = timers.enqueue_law [OF s(1,2) room e] and w = timers.enqueue_waiting [OF s(1,2) room e]
  have x': "x' = x\<lparr>ti_pending := True\<rparr>" and r: "re_queue r = q" "re_posted r = re_posted ?r" "\<not> re_shutdown r" "re_abandoned r = []"
    using assms(4) s(5) e by (auto simp: ts_async_wait_def schedule_timer_def Let_def split: if_splits)
  let ?T = "(pr_timers s)(i \<mapsto> x')" and ?st = "pr_started s @ [(op, ti_expiry x)]"
  have "owned ?T ?st (schedule q)"
    unfolding owned_def
  proof (intro allI impI)
    fix a e ops assume a: "schedule q a = Some (e, ops)"
    show "\<exists>j y. ?T j = Some y \<and> ti_data y = a \<and> ti_pending y \<and> e = Some (ti_expiry y) \<and> (\<forall>op' \<in> set ops. (op', ti_expiry y) \<in> set ?st)"
    proof (cases "a = ti_data x")
      case True
      have "e = Some (ti_expiry x) \<and> (\<forall>op' \<in> set ops. (op', ti_expiry x) \<in> set ?st)"
      proof (cases "?m a")
        case None
        then show ?thesis using a l True by (auto simp: sched_add_def)
      next
        case (Some v)
        obtain e' ops' where v: "v = (e', ops')" by force
        then have "?m (ti_data x) = Some (e', ops')" using Some True by simp
        from ownedD [OF s(4,3) assms(2) this] show ?thesis using a l True Some v by (auto simp: sched_add_def)
      qed
      then show ?thesis using x' True by (intro exI [of _ i] exI [of _ x']) auto
    next
      case False
      then have "?m a = Some (e, ops)" using a l by (simp add: sched_add_def)
      then obtain j y where y: "pr_timers s j = Some y" "ti_data y = a" "ti_pending y" "e = Some (ti_expiry y)"
          "\<forall>op' \<in> set ops. (op', ti_expiry y) \<in> set (pr_started s)"
        using s(4) unfolding owned_def by blast
      moreover have "j \<noteq> i" using y(1,2) assms(2) False by auto
      ultimately show ?thesis by (intro exI [of _ j] exI [of _ y]) auto
    qed
  qed
  moreover have "separate ?T" using separate_upd [OF s(3) assms(2)] x' by simp
  moreover have "on_time (pr_now s) (re_posted ?r) ?st" using s(7) by (fastforce simp: on_time_def)
  ultimately show ?thesis
    using l w r s(6) by (simp add: timed_def set_timer_def Let_def)
qed

lemma re_move_timer_eq:
  "re_cancel_timer b NO_INDEX r = (n, u) \<Longrightarrow> re_move_timer b a r = u\<lparr>re_queue := move_timer b a (re_queue u)\<rparr>"
  by (auto simp: re_move_timer_def re_cancel_timer_def Let_def split: prod.splits)

lemma timed_move:
  assumes "timed s" and "pr_timers s i = Some x" and "T j = Some y" and "i \<noteq> j" and "length (pr_started s) < NO_INDEX"
    and "separate T" and "\<And>k. k \<noteq> j \<Longrightarrow> T k = pr_timers s k" and "pr_timers s j = None \<or> pr_timers s j = Some y"
    and "x' = x\<lparr>ti_expiry := epoch, ti_pending := False\<rparr>" and "y' = y\<lparr>ti_expiry := ti_expiry x, ti_pending := ti_pending x\<rparr>"
    and "r = re_move_timer (ti_data y) (ti_data x) (pr_reactor s)"
  shows "timed (s\<lparr>pr_reactor := r, pr_timers := T(i \<mapsto> x', j \<mapsto> y')\<rparr>)"
proof -
  let ?r = "pr_reactor s" and ?m = "schedule (re_queue (pr_reactor s))" and ?a = "ti_data x" and ?b = "ti_data y"
  have s: "tq_inv (re_queue ?r)" "separate (pr_timers s)" "owned (pr_timers s) (pr_started s) ?m" "\<not> re_shutdown ?r \<and> re_abandoned ?r = []"
      "waiting_of ?m + mset (map fst (re_posted ?r)) = mset (map fst (pr_started s))" "on_time (pr_now s) (re_posted ?r) (pr_started s)"
    using assms(1) by (simp_all add: timed_def Let_def)
  have Ti: "T i = Some x" using assms(2,4,7) by simp
  have ne: "?a \<noteq> 0" "?b \<noteq> 0" "?a \<noteq> ?b" using assms(3,4,6) Ti unfolding separate_def by metis+
  obtain n u where c: "re_cancel_timer ?b NO_INDEX ?r = (n, u)" by force
  have "size (waiting_of ?m) < NO_INDEX" using timed_waiting [OF assms(1)] assms(5) by simp
  note all = cancel_all_aborts [OF s(1) ne(2) c this]
  obtain q ab where u: "u = ?r\<lparr>re_queue := q, re_posted := re_posted ?r @ ab\<rparr>" "tq_inv q" "\<forall>z \<in> set ab. snd z = Aborted"
      "waiting_of (schedule q) + mset (map fst ab) = waiting_of ?m"
    using all(1) unfolding aborts_def by blast
  have q: "schedule q = ?m(?b := None)" using all(2) u(1) by simp
  have r: "r = u\<lparr>re_queue := move_timer ?b ?a q\<rparr>" using assms(11) re_move_timer_eq [OF c] u(1) by simp
  note mv = timers.move_law [OF u(2) ne] and mw = timers.move_waiting [OF u(2) ne]
  have v: "schedule (re_queue r) = ?m(?b := ?m ?a, ?a := None)" using mv q r ne(3) by (simp add: fun_upd_twist)
  have "owned (T(i \<mapsto> x', j \<mapsto> y')) (pr_started s) (schedule (re_queue r))"
    unfolding owned_def
  proof (intro allI impI)
    fix a e ops assume a: "schedule (re_queue r) a = Some (e, ops)"
    then have "a \<noteq> ?a" using v by auto
    show "\<exists>k z. (T(i \<mapsto> x', j \<mapsto> y')) k = Some z \<and> ti_data z = a \<and> ti_pending z \<and> e = Some (ti_expiry z) \<and>
        (\<forall>op \<in> set ops. (op, ti_expiry z) \<in> set (pr_started s))"
    proof (cases "a = ?b")
      case True
      then have "?m ?a = Some (e, ops)" using a v ne(3) by simp
      from ownedD [OF s(3,2) assms(2) this] show ?thesis
        using True assms(10) by (intro exI [of _ j] exI [of _ y']) auto
    next
      case False
      then have "?m a = Some (e, ops)" using a v \<open>a \<noteq> ?a\<close> by simp
      then obtain k z where z: "pr_timers s k = Some z" "ti_data z = a" "ti_pending z" "e = Some (ti_expiry z)"
          "\<forall>op \<in> set ops. (op, ti_expiry z) \<in> set (pr_started s)"
        using s(3) unfolding owned_def by blast
      have "k \<noteq> i" "k \<noteq> j" using z(1,2) assms(2,8) False \<open>a \<noteq> ?a\<close> by auto
      then show ?thesis using z assms(7) by (intro exI [of _ k] exI [of _ z]) auto
    qed
  qed
  moreover have "separate (T(i \<mapsto> x', j \<mapsto> y'))"
    using separate_upd [OF separate_upd [OF assms(6) Ti, of x'], of j y y'] assms(3,4,9,10) by simp
  moreover have "on_time (pr_now s) (re_posted ?r @ ab) (pr_started s)" using s(6) u(3) by (fastforce simp: on_time_def)
  moreover have "waiting_of (schedule (re_queue r)) = waiting_of (schedule q)" using mw q r by simp
  ultimately show ?thesis
    using s(4,5) u(1,4) mv q r by (simp add: timed_def Let_def union_assoc [symmetric] add.commute add.left_commute)
qed

lemma timed_run:
  assumes "timed s" and "run_timers (pr_now s) events (pr_reactor s) = Some r"
    and c: "check_timers (re_timer_fd (pr_reactor s)) events"
  shows "timed (s\<lparr>pr_reactor := r\<rparr>)" and "\<not> due (pr_now s) (schedule (re_queue r)) a"
proof -
  let ?r = "pr_reactor s" and ?m = "schedule (re_queue (pr_reactor s))"
  have s: "tq_inv (re_queue ?r)" "separate (pr_timers s)" "owned (pr_timers s) (pr_started s) ?m" "\<not> re_shutdown ?r \<and> re_abandoned ?r = []"
      "waiting_of ?m + mset (map fst (re_posted ?r)) = mset (map fst (pr_started s))" "on_time (pr_now s) (re_posted ?r) (pr_started s)"
    using assms(1) by (simp_all add: timed_def Let_def)
  obtain ops q where g: "get_ready_timers (pr_now s) [] (re_queue ?r) = Some (ops, q)"
      and r: "re_queue r = q" "re_posted r = re_posted ?r @ ops" "re_shutdown r = re_shutdown ?r" "re_abandoned r = re_abandoned ?r"
    using assms(2) c by (auto simp: run_timers_def)
  obtain ts where ts: "ops = concat (map (\<lambda>x. map (\<lambda>op. (op, Ready)) (snd (the (?m x)))) ts)"
      "tq_inv q" "\<And>x. x \<in> set ts \<longleftrightarrow> due (pr_now s) ?m x" "schedule q = (\<lambda>x. if due (pr_now s) ?m x then None else ?m x)"
    using timers.ready_law [OF s(1), of "pr_now s" "[]"] g by auto
  show "\<not> due (pr_now s) (schedule (re_queue r)) a" using r ts(4) by (auto simp: due_def)
  have "\<exists>e \<le> pr_now s. (op, e) \<in> set (pr_started s)" if op: "(op, Ready) \<in> set ops" for op
  proof -
    obtain a where a: "a \<in> set ts" "op \<in> set (snd (the (?m a)))" using op ts(1) by auto
    obtain t mine where m: "?m a = Some (Some t, mine)" "t \<le> pr_now s" using a(1) ts(3) unfolding due_def by blast
    from s(3) [unfolded owned_def, rule_format, OF m(1)] obtain i x where
        "pr_timers s i = Some x" "Some t = Some (ti_expiry x)" "\<forall>op \<in> set mine. (op, ti_expiry x) \<in> set (pr_started s)"
      by blast
    then show ?thesis using m a(2) by auto
  qed
  then have "on_time (pr_now s) (re_posted ?r @ ops) (pr_started s)" using s(6) by (auto simp: on_time_def)
  moreover have "owned (pr_timers s) (pr_started s) (schedule q)" using s(3) ts(4) by (simp add: owned_def)
  ultimately show "timed (s\<lparr>pr_reactor := r\<rparr>)"
    using s(2,4,5) ts(2) r timers.ready_waiting [OF s(1) g]
    by (simp add: timed_def Let_def union_assoc [symmetric] add.commute add.left_commute)
qed

text \<open>
  A queue that has been emptied by the shutdown: no timer is linked or has operations. The indexes that
  the timers remember are those of a heap that is gone.
\<close>

definition dead :: "'t timer_queue \<Rightarrow> bool" where
  "dead q \<longleftrightarrow> tq_timers q = 0 \<and> tq_heap q = [] \<and>
     (\<forall>x. tm_next (tq_mem q x) = 0 \<and> tm_prev (tq_mem q x) = 0 \<and> tm_ops (tq_mem q x) = [])"

lemma dead_schedule: "dead q \<Longrightarrow> schedule q = (\<lambda>_. None)"
  by (auto simp: dead_def schedule_def in_list_def fun_eq_iff)

lemma dead_ops:
  assumes "dead q" and "a \<noteq> 0"
  shows "cancel_timer a k [] q = (0, [], q)" and "cancel_timer_by_key a [] key q = ([], q)"
    and "get_ready_timers now [] q = Some ([], q)" and "b \<noteq> 0 \<Longrightarrow> dead (move_timer a b q)"
    and "get_all_timers [] q = Some ([], q)"
  using assms
  by (auto simp: dead_def cancel_timer_def cancel_timer_by_key_def in_list_def get_ready_timers_def
      move_timer_def move_ops_def move_links_def upd_timer_def set_index_def get_all_timers_def all_loop.simps Let_def)

lemma shutdown_queue:
  assumes "tq_inv q"
  obtains ops q' where "get_all_timers [] q = Some (ops, q')" and "dead q'" and "mset ops = waiting_of (schedule q)"
proof -
  obtain xs where ok: "tq_ok q xs" using assms by (auto simp: tq_inv_def)
  then have l: "list_ok q xs" and none: "\<And>x. x \<notin> set xs \<Longrightarrow> tm_ops (tq_mem q x) = []"
    by (auto simp: tq_ok_def)
  let ?ops = "concat (map (\<lambda>x. tm_ops (tq_mem q x)) xs)"
  obtain r where r: "all_loop [] q = Some (?ops, r)" "tq_timers r = 0"
      "\<And>x. tq_mem r x = (if x \<in> set xs then (tq_mem q x)\<lparr>tm_ops := [], tm_next := 0, tm_prev := 0\<rparr> else tq_mem q x)"
    using all_loop_all [OF l, of "[]"] by auto
  have "dead (r\<lparr>tq_heap := []\<rparr>)"
    using r(2,3) none l by (auto simp: dead_def list_ok_def)
  moreover have "mset ?ops = waiting_of (schedule q)"
  proof -
    have dom: "dom (schedule q) = set xs"
      using schedule_ok [OF ok] by (auto simp: dom_def)
    have "waiting_of (schedule q) = (\<Sum>x \<in> set xs. mset (tm_ops (tq_mem q x)))"
      unfolding waiting_of_def dom by (rule sum.cong) (simp_all add: ops_at_def schedule_ok [OF ok])
    also have "\<dots> = sum_list (map (\<lambda>x. mset (tm_ops (tq_mem q x))) xs)"
      using list_ok_distinct [OF l] by (simp add: sum.distinct_set_conv_list)
    finally show ?thesis by (simp add: mset_concat comp_def)
  qed
  moreover have "get_all_timers [] q = Some (?ops, r\<lparr>tq_heap := []\<rparr>)"
    using r(1) by (simp add: get_all_timers_def)
  ultimately show ?thesis using that by blast
qed

text \<open>A program after the shutdown: nothing waits, and nothing will.\<close>

definition shut :: "'t::linorder program \<Rightarrow> bool" where
  "shut s \<longleftrightarrow> (let r = pr_reactor s in re_shutdown r \<and> dead (re_queue r) \<and>
     (\<forall>i x. pr_timers s i = Some x \<longrightarrow> ti_data x \<noteq> 0) \<and>
     mset (map fst (re_posted r)) + mset (re_abandoned r) = mset (map fst (pr_started s)))"

lemma timed_shutdown:
  assumes "timed s" and "reactor_shutdown (pr_reactor s) = Some r"
  shows "shut (s\<lparr>pr_reactor := r\<rparr>)"
proof -
  have s: "tq_inv (re_queue (pr_reactor s))" "separate (pr_timers s)" "re_abandoned (pr_reactor s) = []"
      "waiting_of (schedule (re_queue (pr_reactor s))) + mset (map fst (re_posted (pr_reactor s))) = mset (map fst (pr_started s))"
    using assms(1) by (simp_all add: timed_def Let_def)
  obtain ops q where q: "get_all_timers [] (re_queue (pr_reactor s)) = Some (ops, q)" "dead q"
      "mset ops = waiting_of (schedule (re_queue (pr_reactor s)))"
    using shutdown_queue [OF s(1)] by blast
  then have r: "r = (pr_reactor s)\<lparr>re_shutdown := True, re_queue := q, re_abandoned := ops\<rparr>"
    using assms(2) s(3) by (simp add: reactor_shutdown_def Let_def)
  show ?thesis
    using s(2,4) q(2,3) by (simp add: shut_def r separate_def Let_def add.commute)
qed

lemma shut_cancel:
  assumes "shut s" and "pr_timers s i = Some x" and "ts_cancel x (pr_reactor s) = (n, x', r)"
  shows "r = pr_reactor s" and "ti_data x' = ti_data x"
proof -
  have d: "dead (re_queue (pr_reactor s))" "ti_data x \<noteq> 0"
    using assms(1,2) by (auto simp: shut_def Let_def)
  show "r = pr_reactor s" and "ti_data x' = ti_data x"
    using assms(3) dead_ops(1) [OF d] by (auto simp: ts_cancel_def re_cancel_timer_def split: if_splits)
qed

lemma shut_set:
  "shut s \<Longrightarrow> ti_data y \<noteq> 0 \<Longrightarrow> shut (set_timer i y (pr_reactor s) s)"
  by (simp add: shut_def set_timer_def Let_def)

lemma shut_move:
  assumes "shut s" and "a \<noteq> 0" and "b \<noteq> 0"
  shows "shut (s\<lparr>pr_reactor := re_move_timer a b (pr_reactor s)\<rparr>)"
proof -
  have d: "dead (re_queue (pr_reactor s))" using assms(1) by (simp add: shut_def Let_def)
  show ?thesis
    using assms(1,3) dead_ops(1,4) [OF d assms(2)] by (simp add: shut_def re_move_timer_def Let_def)
qed

lemma timer_step_shut:
  assumes "timer_step epoch s t" and "shut s"
  shows "shut t"
  using assms(1)
proof cases
  case (ts_clock now)
  then show ?thesis using assms(2) by (simp add: shut_def Let_def)
next
  case (ts_new i a)
  then show ?thesis using shut_set [OF assms(2)] by (simp add: ts_construct_def)
next
  case (ts_wait i x op x' r)
  then have "x' = x\<lparr>ti_pending := True\<rparr>" "ti_data x \<noteq> 0"
      "r = (pr_reactor s)\<lparr>re_work := re_work (pr_reactor s) + 1, re_posted := re_posted (pr_reactor s) @ [(op, Ready)]\<rparr>"
    using assms(2) by (auto simp: ts_async_wait_def schedule_timer_def shut_def Let_def)
  then show ?thesis using assms(2) ts_wait(1) by (simp add: shut_def set_timer_def Let_def)
next
  case (ts_set i x at n x' r)
  then obtain y where y: "ts_cancel x (pr_reactor s) = (n, y, r)" "x' = y\<lparr>ti_expiry := at\<rparr>"
    by (auto simp: ts_expires_at_def split: prod.splits)
  have "ti_data x \<noteq> 0" using assms(2) ts_set(2) by (auto simp: shut_def Let_def)
  then show ?thesis
    using shut_set [OF assms(2), of x' i] shut_cancel [OF assms(2) ts_set(2) y(1)] y(2) ts_set(1) by simp
next
  case (ts_stop i x n x' r)
  have "ti_data x \<noteq> 0" using assms(2) ts_stop(2) by (auto simp: shut_def Let_def)
  then show ?thesis
    using shut_set [OF assms(2), of x' i] shut_cancel [OF assms(2) ts_stop(2,3)] ts_stop(1) by simp
next
  case (ts_stop_one i x n x' r)
  have d: "dead (re_queue (pr_reactor s))" "ti_data x \<noteq> 0"
    using assms(2) ts_stop_one(2) by (auto simp: shut_def Let_def)
  then have "r = pr_reactor s" "ti_data x' = ti_data x"
    using ts_stop_one(3) dead_ops(1) [OF d] by (auto simp: ts_cancel_one_def re_cancel_timer_def split: if_splits)
  then show ?thesis
    using shut_set [OF assms(2), of x' i] d(2) ts_stop_one(1) by simp
next
  case (ts_stop_key i x key)
  have d: "dead (re_queue (pr_reactor s))" "ti_data x \<noteq> 0"
    using assms(2) ts_stop_key(2) by (auto simp: shut_def Let_def)
  then have "re_cancel_timer_by_key (ti_data x) key (pr_reactor s) = pr_reactor s"
    using dead_ops(2) [OF d] by (simp add: re_cancel_timer_by_key_def)
  then show ?thesis using assms(2) ts_stop_key(1) by simp
next
  case (ts_move_new i x j a y' x' r)
  have "shut (s\<lparr>pr_reactor := r\<rparr>)" "ti_data x \<noteq> 0" "ti_data x' = ti_data x" "ti_data y' = a"
  proof -
    show "ti_data x \<noteq> 0" using ts_move_new(2) assms(2) by (auto simp: shut_def Let_def)
    then show "shut (s\<lparr>pr_reactor := r\<rparr>)"
      using ts_move_new(6) assms(2) shut_move [OF assms(2) ts_move_new(4), of "ti_data x"]
      by (cases "ti_pending x") (auto simp: ts_move_construct_def ts_construct_def Let_def)
    show "ti_data x' = ti_data x" "ti_data y' = a"
      using ts_move_new(6) by (auto simp: ts_move_construct_def take_over_def ts_construct_def Let_def)
  qed
  then show ?thesis using ts_move_new(1,4) by (simp add: shut_def set_timer_def Let_def)
next
  case (ts_move i x j y y' x' r)
  have "ti_data x \<noteq> 0" "ti_data y \<noteq> 0"
    using ts_move(2,3) assms(2) by (auto simp: shut_def Let_def)
  moreover have "shut (s\<lparr>pr_reactor := r\<rparr>)" "ti_data x' = ti_data x" "ti_data y' = ti_data y"
    using ts_move(5) shut_move [OF assms(2) calculation(2,1)] by (auto simp: ts_move_assign_def take_over_def)
  ultimately show ?thesis using ts_move(1) by (simp add: shut_def set_timer_def Let_def)
next
  case (ts_free i x)
  obtain n x' r where c: "ts_cancel x (pr_reactor s) = (n, x', r)" by (metis prod_cases3)
  then have "ts_destroy x (pr_reactor s) = pr_reactor s"
    using shut_cancel(1) [OF assms(2) ts_free(2)] by (simp add: ts_destroy_def)
  then show ?thesis using assms(2) ts_free(1) by (simp add: shut_def Let_def)
next
  case (ts_run events r)
  have d: "dead (re_queue (pr_reactor s))" using assms(2) by (simp add: shut_def Let_def)
  show ?thesis
    using assms(2) ts_run dead_ops(3) [OF d, of 1] by (auto simp: run_timers_def shut_def Let_def split: if_splits)
next
  case (ts_shutdown r)
  have d: "dead (re_queue (pr_reactor s))" using assms(2) by (simp add: shut_def Let_def)
  show ?thesis
    using assms(2) ts_shutdown dead_ops(5) [OF d, of 1] by (auto simp: reactor_shutdown_def shut_def Let_def)
qed

lemma timer_step_timed:
  assumes "timer_step epoch s t" and "timed s" and "length (pr_started s) < NO_INDEX" and "\<not> re_shutdown (pr_reactor t)"
  shows "timed t"
  using assms(1)
proof cases
  case (ts_clock now)
  then show ?thesis using timed_clock assms(2) by simp
next
  case (ts_new i a)
  then show ?thesis using timed_new [OF assms(2)] by (simp add: ts_construct_def)
next
  case (ts_wait i x op x' r)
  then show ?thesis using timed_wait [OF assms(2) _ assms(3)] by simp
next
  case (ts_set i x at n x' r)
  then obtain y where y: "ts_cancel x (pr_reactor s) = (n, y, r)" "x' = y\<lparr>ti_expiry := at\<rparr>"
    by (auto simp: ts_expires_at_def split: prod.splits)
  note c = ts_cancel_timed [OF assms(2) ts_set(2) assms(3) y(1)]
  show ?thesis using timed_replace [OF assms(2) ts_set(2) c(1)] c(2,3) y(2) ts_set(1) by simp
next
  case (ts_stop i x n x' r)
  note c = ts_cancel_timed [OF assms(2) ts_stop(2) assms(3) ts_stop(3)]
  show ?thesis using timed_replace [OF assms(2) ts_stop(2) c(1,3)] c(2) ts_stop(1) by simp
next
  case (ts_stop_one i x n x' r)
  have s: "tq_inv (re_queue (pr_reactor s))" "ti_data x \<noteq> 0"
    using assms(2) ts_stop_one(2) by (auto simp: timed_def separate_def Let_def)
  show ?thesis
  proof (cases "ti_pending x")
    case True
    then have c: "re_cancel_timer (ti_data x) 1 (pr_reactor s) = (n, r)" "x' = (if n = 0 then x\<lparr>ti_pending := False\<rparr> else x)"
      using ts_stop_one(3) by (auto simp: ts_cancel_one_def split: prod.splits)
    note a = re_cancel_timer_aborts [OF s c(1)]
    have "schedule (re_queue r) (ti_data x) = None" if "n = 0"
      using that a(2,3) schedule_nonempty [OF s(1), of "ti_data x"]
      by (cases "schedule (re_queue (pr_reactor s)) (ti_data x)") (auto simp: sched_keep_def)
    then show ?thesis using timed_replace [OF assms(2) ts_stop_one(2) a(1)] c(2) ts_stop_one(1) by auto
  next
    case False
    then show ?thesis
      using ts_stop_one timed_replace [OF assms(2) ts_stop_one(2) aborts_refl [OF s(1)]] by (simp add: ts_cancel_one_def)
  qed
next
  case (ts_stop_key i x key)
  have s: "tq_inv (re_queue (pr_reactor s))" "ti_data x \<noteq> 0" "separate (pr_timers s)"
    using assms(2) ts_stop_key(2) by (auto simp: timed_def separate_def Let_def)
  have "timed (s\<lparr>pr_reactor := re_cancel_timer_by_key (ti_data x) key (pr_reactor s), pr_timers := pr_timers s\<rparr>)"
    by (rule timed_aborts [OF assms(2) re_cancel_key_aborts [OF s(1,2)] s(3)]) blast
  then show ?thesis using ts_stop_key(1) by simp
next
  case (ts_move_new i x j a y' x' r)
  let ?y = "ts_construct epoch a" and ?T = "(pr_timers s)(j \<mapsto> ts_construct epoch a)"
  have ij: "i \<noteq> j" using ts_move_new(2,3) by auto
  have s: "separate (pr_timers s)" "tq_inv (re_queue (pr_reactor s))" using assms(2) by (simp_all add: timed_def Let_def)
  have sep: "separate ?T" by (rule separate_new [OF s(1) ts_move_new(4,5)]) (simp add: ts_construct_def)
  have e: "x' = x\<lparr>ti_expiry := epoch, ti_pending := False\<rparr>" "y' = ?y\<lparr>ti_expiry := ti_expiry x, ti_pending := ti_pending x\<rparr>"
    using ts_move_new(6) by (auto simp: ts_move_construct_def take_over_def Let_def)
  show ?thesis
  proof (cases "ti_pending x")
    case True
    then have "r = re_move_timer (ti_data ?y) (ti_data x) (pr_reactor s)"
      using ts_move_new(6) by (simp add: ts_move_construct_def Let_def)
    from timed_move [OF assms(2) ts_move_new(2) _ ij assms(3) sep _ _ e this] show ?thesis
      using ts_move_new(1,3) ij by (simp add: set_timer_def fun_upd_twist)
  next
    case False
    then have "r = pr_reactor s" using ts_move_new(6) by (simp add: ts_move_construct_def Let_def)
    moreover have "timed (set_timer i x' (pr_reactor s) s)"
      using timed_replace [OF assms(2) ts_move_new(2) aborts_refl [OF s(2)], of x'] e(1)
        ownedD(1) [OF _ s(1) ts_move_new(2)] assms(2) False
      by (cases "schedule (re_queue (pr_reactor s)) (ti_data x)") (auto simp: timed_def Let_def)
    moreover have "\<forall>k z. pr_timers (set_timer i x' (pr_reactor s) s) k = Some z \<longrightarrow> ti_data z \<noteq> a"
      using ts_move_new(2,5) e(1) by (auto simp: set_timer_def)
    ultimately show ?thesis
      using timed_new [of "set_timer i x' (pr_reactor s) s" j a y'] ts_move_new(1,3,4) e(2) ij
      by (simp add: set_timer_def ts_construct_def)
  qed
next
  case (ts_move i x j y y' x' r)
  have sep: "separate (pr_timers s)" using assms(2) by (simp add: timed_def Let_def)
  have e: "x' = x\<lparr>ti_expiry := epoch, ti_pending := False\<rparr>" "y' = y\<lparr>ti_expiry := ti_expiry x, ti_pending := ti_pending x\<rparr>"
      "r = re_move_timer (ti_data y) (ti_data x) (pr_reactor s)"
    using ts_move(5) by (auto simp: ts_move_assign_def take_over_def)
  from timed_move [OF assms(2) ts_move(2,3,4) assms(3) sep _ _ e] show ?thesis
    using ts_move(1,3) by (simp add: set_timer_def)
next
  case (ts_free i x)
  obtain n x' r where c: "ts_cancel x (pr_reactor s) = (n, x', r)" by (metis prod_cases3)
  note k = ts_cancel_timed [OF assms(2) ts_free(2) assms(3) c]
  have sep: "separate (pr_timers s)" using assms(2) by (simp add: timed_def Let_def)
  have "timed (s\<lparr>pr_reactor := r, pr_timers := (pr_timers s)(i := None)\<rparr>)"
  proof (rule timed_aborts [OF assms(2) k(1)])
    show "separate ((pr_timers s)(i := None))" using sep by (auto simp: separate_def split: if_splits)
    fix j z assume z: "pr_timers s j = Some z" "schedule (re_queue r) (ti_data z) \<noteq> None" "ti_pending z"
    then have "j \<noteq> i" using k(2) ts_free(2) by auto
    then show "\<exists>l w. ((pr_timers s)(i := None)) l = Some w \<and> ti_data w = ti_data z \<and> ti_expiry w = ti_expiry z \<and> ti_pending w"
      using z by (intro exI [of _ j] exI [of _ z]) simp
  qed
  then show ?thesis using ts_free(1) c by (simp add: ts_destroy_def)
next
  case (ts_run events r)
  show ?thesis
  proof (cases "check_timers (re_timer_fd (pr_reactor s)) events")
    case True
    then show ?thesis using timed_run(1) [OF assms(2) ts_run(2)] ts_run(1) by simp
  next
    case False
    then have "r = pr_reactor s" using ts_run(2) by (simp add: run_timers_def)
    then show ?thesis using ts_run(1) assms(2) by simp
  qed
next
  case (ts_shutdown r)
  then show ?thesis using assms(4) by (auto simp: reactor_shutdown_def Let_def)
qed

text \<open>Only the shutdown shuts down.\<close>

lemma timer_step_shutdown:
  assumes "timer_step epoch s t"
  shows "re_shutdown (pr_reactor t) = re_shutdown (pr_reactor s) \<or>
    (\<exists>r. reactor_shutdown (pr_reactor s) = Some r \<and> t = s\<lparr>pr_reactor := r\<rparr>)"
proof -
  have cancel: "re_shutdown (snd (re_cancel_timer a k r)) = re_shutdown r" for a k and r :: "'a reactor"
    by (simp add: re_cancel_timer_def case_prod_beta Let_def)
  then have ts: "re_shutdown (snd (snd (ts_cancel x r))) = re_shutdown r"
      "re_shutdown (snd (snd (ts_cancel_one x r))) = re_shutdown r" for x and r :: "'a reactor"
    by (simp_all add: ts_cancel_def ts_cancel_one_def case_prod_beta Let_def)
  have move: "re_shutdown (re_move_timer a b r) = re_shutdown r" for a b and r :: "'a reactor"
    by (simp add: re_move_timer_def case_prod_beta Let_def)
  from assms show ?thesis
  proof cases
    case (ts_set i x at n x' r)
    then show ?thesis using ts(1) [of x "pr_reactor s"] by (auto simp: ts_expires_at_def set_timer_def split: prod.splits)
  next
    case (ts_stop i x n x' r)
    then show ?thesis using ts(1) [of x "pr_reactor s"] by (simp add: set_timer_def)
  next
    case (ts_stop_one i x n x' r)
    then show ?thesis using ts(2) [of x "pr_reactor s"] by (simp add: set_timer_def)
  next
    case (ts_run events r)
    then show ?thesis by (auto simp: run_timers_def split: if_splits)
  qed (auto simp: set_timer_def ts_async_wait_def schedule_timer_def re_cancel_timer_by_key_def ts_move_construct_def
      ts_move_assign_def move ts_destroy_def ts case_prod_beta Let_def split: if_splits)
qed

lemma new_program_timed: "timed (new_program fd (now :: 't::linorder))"
proof -
  have "schedule (new_timer_queue :: 't timer_queue) = (\<lambda>_. None)"
    by (auto simp: fun_eq_iff schedule_def in_list_def new_timer_queue_def new_timer_data_def)
  moreover have "tq_inv (new_timer_queue :: 't timer_queue)" by (rule tq_inv_new)
  ultimately show ?thesis
    by (simp add: timed_def new_program_def new_reactor_def separate_def owned_def on_time_def waiting_of_def)
qed

lemma timer_step_started: "timer_step epoch s t \<Longrightarrow> length (pr_started s) \<le> length (pr_started t)"
  by (induction rule: timer_step.induct) (simp_all add: set_timer_def)

lemma timer_steps_timed:
  assumes "(timer_step epoch)\<^sup>*\<^sup>* (new_program fd now) s" and "length (pr_started s) < NO_INDEX"
  shows "timed s \<or> shut s"
  using assms
proof (induction rule: rtranclp_induct)
  case base
  then show ?case by (simp add: new_program_timed)
next
  case (step s t)
  have "length (pr_started s) < NO_INDEX" using timer_step_started [OF step(2)] step(4) by simp
  then show ?case
    using timer_step_timed [OF step(2)] timer_step_shut [OF step(2)] timer_step_shutdown [OF step(2)] timed_shutdown [of s] step(3)
    by (auto simp: timed_def Let_def)
qed

lemma run_timers_ends:
  assumes "timed s \<or> shut s"
  shows "\<exists>r. run_timers (pr_now s) events (pr_reactor s) = Some r \<and>
    (check_timers (re_timer_fd (pr_reactor s)) events \<longrightarrow> (\<forall>a. \<not> due (pr_now s) (schedule (re_queue r)) a))"
  using assms
proof
  assume t: "timed s"
  then have "tq_inv (re_queue (pr_reactor s))" by (simp add: timed_def Let_def)
  then obtain ops q where "get_ready_timers (pr_now s) [] (re_queue (pr_reactor s)) = Some (ops, q)"
    using timers.ready_law [of "re_queue (pr_reactor s)" "pr_now s" "[]"] by blast
  then obtain r where r: "run_timers (pr_now s) events (pr_reactor s) = Some r"
    by (cases "check_timers (re_timer_fd (pr_reactor s)) events") (simp_all add: run_timers_def)
  then show ?thesis using timed_run(2) [OF t r] by blast
next
  assume "shut s"
  then have d: "dead (re_queue (pr_reactor s))" by (simp add: shut_def Let_def)
  then show ?thesis
    using dead_ops(3) [OF d, of 1] by (auto simp: run_timers_def due_def dead_schedule)
qed

text \<open>
  C11. No asynchronous wait is lost, and none ends twice or early. A program may set its timers, wait,
  cancel all waits, one of them or those with a key, and move and destroy timers, in any order, with
  rounds of the reactor in between and its shutdown at any point. The operations that wait, those
  handed to the scheduler and those abandoned by a shutdown are then together the operations
  started. Before a shutdown none has been abandoned, and one that ended without an error had an expiry
  that has passed; after it none waits. A round of the reactor ends and, if it looks at the timers (if
  the timer descriptor is among its events, or there is none), leaves no timer overdue. A shutdown
  ends. Fewer than \<open>2 ^ 64 - 1\<close> operations are started.
\<close>

theorem timer_waits_complete_once:
  assumes "(timer_step epoch)\<^sup>*\<^sup>* (new_program fd now) s" and "length (pr_started s) < NO_INDEX"
  shows "let r = pr_reactor s
    in waiting_of (schedule (re_queue r)) + mset (map fst (re_posted r)) + mset (re_abandoned r) = mset (map fst (pr_started s)) \<and>
       (\<not> re_shutdown r \<longrightarrow> re_abandoned r = [] \<and>
          (\<forall>op. (op, Ready) \<in> set (re_posted r) \<longrightarrow> (\<exists>e \<le> pr_now s. (op, e) \<in> set (pr_started s)))) \<and>
       (re_shutdown r \<longrightarrow> waiting_of (schedule (re_queue r)) = {#}) \<and>
       (\<forall>events. \<exists>r'. run_timers (pr_now s) events r = Some r' \<and>
          (check_timers (re_timer_fd r) events \<longrightarrow> (\<forall>a. \<not> due (pr_now s) (schedule (re_queue r')) a))) \<and>
       (\<exists>r'. reactor_shutdown r = Some r')"
proof -
  have t: "timed s \<or> shut s" by (rule timer_steps_timed [OF assms])
  then have "\<exists>r'. reactor_shutdown (pr_reactor s) = Some r'"
  proof
    assume "timed s"
    then have "tq_inv (re_queue (pr_reactor s))" by (simp add: timed_def Let_def)
    then obtain ops q where "get_all_timers [] (re_queue (pr_reactor s)) = Some (ops, q)" using shutdown_queue by blast
    then show ?thesis by (simp add: reactor_shutdown_def Let_def)
  next
    assume "shut s"
    then have "dead (re_queue (pr_reactor s))" by (simp add: shut_def Let_def)
    from dead_ops(5) [OF this, of 1] show ?thesis by (simp add: reactor_shutdown_def Let_def)
  qed
  moreover have "(\<lambda>_. None) = (Map.empty :: 'a schedule)" by simp
  ultimately show ?thesis
    using t run_timers_ends [OF t] dead_schedule [of "re_queue (pr_reactor s)"]
    by (auto simp: timed_def shut_def on_time_def waiting_of_def Let_def)
qed

text \<open>A program that waits for one timer, which has expired.\<close>

definition sample_wait :: "int timer_impl \<times> int reactor" where
  "sample_wait = ts_async_wait sample_op (ts_construct 0 7) (new_reactor 3)"

definition sample_program :: "int program" where
  "sample_program = (set_timer 1 (fst sample_wait) (snd sample_wait)
     (set_timer 1 (ts_construct 0 7) (new_reactor 3) (new_program 3 0)))\<lparr>pr_started := [(sample_op, 0)]\<rparr>"

lemma sample_program_reached: "(timer_step 0)\<^sup>*\<^sup>* (new_program 3 0) sample_program"
proof -
  let ?s = "set_timer 1 (ts_construct 0 7) (new_reactor 3) (new_program 3 (0 :: int))"
  have "timer_step 0 (new_program 3 0) (set_timer 1 (ts_construct 0 7) (pr_reactor (new_program 3 (0 :: int))) (new_program 3 0))"
    by (rule ts_new) (simp_all add: new_program_def)
  then have "timer_step 0 (new_program 3 0) ?s" by (simp add: new_program_def)
  moreover have "timer_step 0 ?s ((set_timer 1 (fst sample_wait) (snd sample_wait) ?s)
      \<lparr>pr_started := pr_started ?s @ [(sample_op, ti_expiry (ts_construct 0 7))]\<rparr>)"
    by (rule ts_wait [of ?s 1 "ts_construct 0 7"]) (simp_all add: set_timer_def sample_wait_def)
  then have "timer_step 0 ?s sample_program"
    by (simp add: sample_program_def set_timer_def new_program_def ts_construct_def)
  ultimately show ?thesis by (rule converse_rtranclp_into_rtranclp [OF _ r_into_rtranclp])
qed

theorem timer_waits_complete_once_witness:
  "waiting_of (schedule (re_queue (pr_reactor sample_program))) + mset (map fst (re_posted (pr_reactor sample_program))) +
      mset (re_abandoned (pr_reactor sample_program)) = {#sample_op#} \<and>
    (\<exists>r. run_timers 0 [Timer_Fd] (pr_reactor sample_program) = Some r \<and> (\<forall>a. \<not> due 0 (schedule (re_queue r)) a))"
proof -
  have c: "check_timers fd [Timer_Fd]" for fd by (simp add: check_timers_def)
  have s: "pr_now sample_program = 0" "pr_started sample_program = [(sample_op, 0)]"
    by (simp_all add: sample_program_def set_timer_def new_program_def)
  then have "length (pr_started sample_program) < NO_INDEX" by (simp add: NO_INDEX_def)
  note w = timer_waits_complete_once [OF sample_program_reached this, unfolded Let_def s]
  show ?thesis
    using w c by (metis list.simps(8,9) fst_conv mset.simps add.commute)
qed

end
