(* ===== verification/Time_Traits.thy ===== *)
theory Time_Traits
  imports Deadline_Timer
begin

text \<open>
  Time arithmetic of \<^verbatim>\<open>detail/chrono_time_traits.h\<close> and how long a reactor may sleep
  (\<^verbatim>\<open>wait_duration_msec\<close> and \<^verbatim>\<open>wait_duration_usec\<close> of \<^verbatim>\<open>detail/timer_queue.h\<close> and of the set of all queues
  in \<^verbatim>\<open>detail/impl/timer_queue_set.cc\<close>). Times and durations are the counts of 64-bit clocks; a result
  outside their range is signed overflow and has no value.
\<close>

subsection \<open>Saturating arithmetic\<close>

definition I64_MAX :: int where
  "I64_MAX = 2 ^ 63 - 1"

definition I64_MIN :: int where
  "I64_MIN = - (2 ^ 63)"

definition chk64 :: "int \<Rightarrow> int option" where
  "chk64 x = (if I64_MIN \<le> x \<and> x \<le> I64_MAX then Some x else None)"

definition clamp64 :: "int \<Rightarrow> int" where
  "clamp64 x = max I64_MIN (min I64_MAX x)"

definition chrono_add :: "int \<Rightarrow> int \<Rightarrow> int option" where
  "chrono_add t d =
     (if t \<ge> 0
      then Option.bind (chk64 (I64_MAX - t)) (\<lambda>left. if left < d then Some I64_MAX else chk64 (t + d))
      else Option.bind (chk64 (t - I64_MIN)) (\<lambda>below. Option.bind (chk64 (- below)) (\<lambda>x.
             if x > d then Some I64_MIN else chk64 (t + d))))"

definition chrono_subtract :: "int \<Rightarrow> int \<Rightarrow> int option" where
  "chrono_subtract t1 t2 =
     (if t1 \<ge> 0
      then if t2 \<ge> 0 then chk64 (t1 - t2)
           else if t2 = I64_MIN then Some I64_MAX
           else Option.bind (chk64 (I64_MAX - t1)) (\<lambda>left. Option.bind (chk64 (0 - t2)) (\<lambda>x.
                  if left < x then Some I64_MAX else chk64 (t1 - t2)))
      else if t2 < 0 then chk64 (t1 - t2)
           else if t1 = I64_MIN then Some I64_MIN
           else Option.bind (chk64 (I64_MAX - t2)) (\<lambda>left. Option.bind (chk64 (0 - t1)) (\<lambda>x.
                  if left < x then Some I64_MIN else Option.bind (chk64 (t2 - t1)) (\<lambda>d. chk64 (- d)))))"

lemmas i64_defs = chk64_def clamp64_def I64_MAX_def I64_MIN_def

text \<open>No intermediate result overflows, and the result is the exact one or the nearest there is.\<close>

lemma chrono_add_saturates:
  assumes "chk64 t = Some t" and "chk64 d = Some d"
  shows "chrono_add t d = Some (clamp64 (t + d))"
  using assms by (auto simp: chrono_add_def i64_defs split: if_splits)

lemma chrono_subtract_saturates:
  assumes "chk64 t1 = Some t1" and "chk64 t2 = Some t2"
  shows "chrono_subtract t1 t2 = Some (clamp64 (t1 - t2))"
  using assms by (auto simp: chrono_subtract_def i64_defs split: if_splits)

text \<open>C++ division rounds toward zero.\<close>

definition cdiv :: "int \<Rightarrow> int \<Rightarrow> int" where
  "cdiv a b = (if a \<ge> 0 then a div b else - ((- a) div b))"

definition duration_cast :: "int \<Rightarrow> int \<Rightarrow> int \<Rightarrow> int \<Rightarrow> int \<Rightarrow> int" where
  "duration_cast period_num period_den tnum tden ticks =
     (let num1 = cdiv period_num (gcd period_num tnum);
          num2 = cdiv tnum (gcd period_num tnum);
          den1 = cdiv period_den (gcd period_den tden);
          den2 = cdiv tden (gcd period_den tden);
          num = num1 * den2;
          den = num2 * den1
      in if num = 1 \<and> den = 1 then ticks
         else if num \<noteq> 1 \<and> den = 1 then ticks * num
         else if num = 1 \<and> period_den \<noteq> 1 then cdiv ticks den
         else cdiv (ticks * num) den)"

subsection \<open>How long to sleep\<close>

text \<open>The clocks count nanoseconds.\<close>

definition total_milliseconds :: "int \<Rightarrow> int" where
  "total_milliseconds = duration_cast 1 1000000000 1 1000"

definition total_microseconds :: "int \<Rightarrow> int" where
  "total_microseconds = duration_cast 1 1000000000 1 1000000"

definition to_units :: "(int \<Rightarrow> int) \<Rightarrow> int \<Rightarrow> int \<Rightarrow> int" where
  "to_units unit_count d max_duration =
     (if d \<le> 0 then 0
      else let n = unit_count d in if n = 0 then 1 else if n > max_duration then max_duration else n)"

definition to_msec :: "int \<Rightarrow> int \<Rightarrow> int" where
  "to_msec = to_units total_milliseconds"

definition to_usec :: "int \<Rightarrow> int \<Rightarrow> int" where
  "to_usec = to_units total_microseconds"

definition wait_duration :: "(int \<Rightarrow> int \<Rightarrow> int) \<Rightarrow> int \<Rightarrow> int timer_queue \<Rightarrow> int \<Rightarrow> int option" where
  "wait_duration conv now q max_duration =
     (if tq_heap q = [] then Some max_duration
      else map_option (\<lambda>d. conv d max_duration) (chrono_subtract (heap_time q 0) now))"

definition wait_duration_msec :: "int \<Rightarrow> int timer_queue \<Rightarrow> int \<Rightarrow> int option" where
  "wait_duration_msec = wait_duration to_msec"

definition wait_duration_usec :: "int \<Rightarrow> int timer_queue \<Rightarrow> int \<Rightarrow> int option" where
  "wait_duration_usec = wait_duration to_usec"

text \<open>The set of all queues of a reactor, the newest first.\<close>

definition tqs_insert :: "'q \<Rightarrow> 'q list \<Rightarrow> 'q list" where
  "tqs_insert q qs = q # qs"

fun tqs_erase :: "'q \<Rightarrow> 'q list \<Rightarrow> 'q list" where
  "tqs_erase q [] = []"
| "tqs_erase q (p # qs) = (if q = p then qs else p # tqs_erase q qs)"

definition tqs_all_empty :: "'t timer_queue list \<Rightarrow> bool" where
  "tqs_all_empty qs \<longleftrightarrow> (\<forall>q \<in> set qs. tq_empty q)"

fun tqs_wait_duration :: "(int timer_queue \<Rightarrow> int \<Rightarrow> int option) \<Rightarrow> int timer_queue list \<Rightarrow> int \<Rightarrow> int option" where
  "tqs_wait_duration wait [] min_duration = Some min_duration"
| "tqs_wait_duration wait (q # qs) min_duration = Option.bind (wait q min_duration) (tqs_wait_duration wait qs)"

fun tqs_get_ready_timers ::
    "'t::linorder \<Rightarrow> finished \<Rightarrow> 't timer_queue list \<Rightarrow> (finished \<times> 't timer_queue list) option" where
  "tqs_get_ready_timers now ops [] = Some (ops, [])"
| "tqs_get_ready_timers now ops (q # qs) =
     Option.bind (get_ready_timers now ops q) (\<lambda>(ops, q).
       map_option (\<lambda>(ops, qs). (ops, q # qs)) (tqs_get_ready_timers now ops qs))"

fun tqs_get_all_timers :: "wait_op list \<Rightarrow> 't timer_queue list \<Rightarrow> (wait_op list \<times> 't timer_queue list) option" where
  "tqs_get_all_timers ops [] = Some (ops, [])"
| "tqs_get_all_timers ops (q # qs) =
     Option.bind (get_all_timers ops q) (\<lambda>(ops, q).
       map_option (\<lambda>(ops, qs). (ops, q # qs)) (tqs_get_all_timers ops qs))"

text \<open>At shutdown every operation of every queue is handed out.\<close>

lemma tqs_get_all_timers_returns:
  assumes "\<forall>q \<in> set qs. tq_inv q"
  shows "\<exists>out rs. tqs_get_all_timers ops qs = Some (ops @ out, rs) \<and> tqs_all_empty rs \<and>
    mset out = (\<Sum>q \<leftarrow> qs. waiting_of (schedule q))"
  using assms
proof (induction qs arbitrary: ops)
  case Nil
  then show ?case by (simp add: tqs_all_empty_def)
next
  case (Cons q qs)
  obtain xs where ok: "tq_ok q xs" using Cons.prems by (auto simp: tq_inv_def)
  then have l: "list_ok q xs" by (simp add: tq_ok_def)
  let ?mine = "concat (map (\<lambda>x. tm_ops (tq_mem q x)) xs)"
  obtain r where r: "get_all_timers ops q = Some (ops @ ?mine, r)" "tq_empty r"
    using all_loop_all [OF l, of ops] by (auto simp: get_all_timers_def tq_empty_def)
  obtain out rs where IH: "tqs_get_all_timers (ops @ ?mine) qs = Some ((ops @ ?mine) @ out, rs)" "tqs_all_empty rs"
      "mset out = (\<Sum>q \<leftarrow> qs. waiting_of (schedule q))"
    using Cons.IH [of "ops @ ?mine"] Cons.prems by auto
  have "dom (schedule q) = set xs" using schedule_ok [OF ok] by (auto simp: dom_def)
  then have "waiting_of (schedule q) = (\<Sum>x \<in> set xs. mset (tm_ops (tq_mem q x)))"
    unfolding waiting_of_def by (intro sum.cong) (auto simp: ops_at_def schedule_ok [OF ok])
  also have "\<dots> = mset ?mine"
    using list_ok_distinct [OF l] by (simp add: sum.distinct_set_conv_list mset_concat comp_def)
  finally have "waiting_of (schedule q) = mset ?mine" .
  then show ?case using r IH by (intro exI [of _ "?mine @ out"] exI [of _ "r # rs"]) (simp add: tqs_all_empty_def)
qed

lemma to_units_bounds:
  assumes "0 < u" and "\<And>d. 0 < d \<Longrightarrow> unit_count d = d div u" and "1 \<le> m"
  shows "0 \<le> to_units unit_count d m" and "to_units unit_count d m \<le> m" and "to_units unit_count d m = 0 \<longleftrightarrow> d \<le> 0"
    and "0 < d \<Longrightarrow> u * to_units unit_count d m < d + u"
proof -
  have "0 < d \<Longrightarrow> 0 \<le> d div u" using assms(1) by (simp add: pos_imp_zdiv_nonneg_iff)
  then show "0 \<le> to_units unit_count d m" "to_units unit_count d m \<le> m" "to_units unit_count d m = 0 \<longleftrightarrow> d \<le> 0"
    using assms(2) [of d] assms(3) by (auto simp: to_units_def Let_def)
  assume d: "0 < d"
  have le: "u * (d div u) \<le> d" using assms(1) by (simp add: minus_mod_eq_mult_div [symmetric])
  show "u * to_units unit_count d m < d + u"
  proof (cases "d div u = 0")
    case True
    then show ?thesis using d assms(2) [OF d] by (simp add: to_units_def)
  next
    case False
    then have "to_units unit_count d m \<le> d div u" using d assms(2) [OF d] by (simp add: to_units_def Let_def)
    then have "u * to_units unit_count d m \<le> u * (d div u)" using assms(1) by simp
    then show ?thesis using le assms(1) by linarith
  qed
qed

lemma total_milliseconds_eq: "0 < d \<Longrightarrow> total_milliseconds d = d div 1000000"
  by (simp add: total_milliseconds_def duration_cast_def cdiv_def Let_def)

lemma total_microseconds_eq: "0 < d \<Longrightarrow> total_microseconds d = d div 1000"
  by (simp add: total_microseconds_def duration_cast_def cdiv_def Let_def)

text \<open>
  A queue lets the reactor sleep no longer than asked, not at all when a timer is due, and less than one
  unit beyond the next expiry.
\<close>

definition clock_times :: "int timer_queue \<Rightarrow> bool" where
  "clock_times q \<longleftrightarrow> (\<forall>e \<in> fst ` set (tq_heap q). chk64 e = Some e)"

lemma wait_duration_bounds:
  assumes "tq_inv q" and "clock_times q" and "chk64 now = Some now" and "0 < u" and "\<And>d. 0 < d \<Longrightarrow> cnt d = d div u" and "1 \<le> m"
  shows "\<exists>r. wait_duration (to_units cnt) now q m = Some r \<and> 0 \<le> r \<and> r \<le> m \<and> (r = 0 \<longleftrightarrow> (\<exists>a. due now (schedule q) a)) \<and>
    (\<forall>a e ops. schedule q a = Some (Some e, ops) \<longrightarrow> now < e \<longrightarrow> now + u * r < e + u)"
proof -
  obtain xs where ok: "tq_ok q xs" using assms(1) by (auto simp: tq_inv_def)
  then have h: "heap_ok q" "snd ` set (tq_heap q) \<subseteq> set xs" by (simp_all add: tq_ok_def)
  have entry: "(e, a) \<in> set (tq_heap q)" if "schedule q a = Some (Some e, ops)" for a e ops
    using that expiry_iff [OF h(1), of a e] by (simp add: schedule_ok [OF ok] split: if_splits)
  show ?thesis
  proof (cases "tq_heap q = []")
    case True
    then have "schedule q a \<noteq> Some (Some e, ops)" for a e ops using entry by auto
    then show ?thesis using True assms(6) by (auto simp: wait_duration_def due_def)
  next
    case False
    let ?t = "heap_time q 0" and ?d = "clamp64 (heap_time q 0 - now)"
    note top = heap_ok_top [OF h(1) False]
    have "chk64 ?t = Some ?t" using assms(2) top(3) unfolding clock_times_def by (metis fst_conv image_eqI)
    from chrono_subtract_saturates [OF this assms(3)]
    have w: "wait_duration (to_units cnt) now q m = Some (to_units cnt ?d m)" using False by (simp add: wait_duration_def)
    have d: "?d \<le> 0 \<longleftrightarrow> ?t \<le> now" "now < ?t \<Longrightarrow> ?d \<le> ?t - now" by (auto simp: i64_defs)
    note b = to_units_bounds [OF assms(4,5,6), of ?d]
    have "snd (tq_heap q ! 0) \<in> set xs" using top(3) h(2) by force
    then have first: "schedule q (snd (tq_heap q ! 0)) = Some (Some ?t, tm_ops (tq_mem q (snd (tq_heap q ! 0))))"
      using top(1) by (simp add: schedule_ok [OF ok])
    have due: "(\<exists>a. due now (schedule q) a) \<longleftrightarrow> ?t \<le> now"
    proof
      assume "\<exists>a. due now (schedule q) a"
      then obtain a e ops where "schedule q a = Some (Some e, ops)" "e \<le> now" by (auto simp: due_def)
      then show "?t \<le> now" using heap_ok_min(1) [OF h(1) entry] by force
    qed (use first in \<open>auto simp: due_def\<close>)
    have "now + u * to_units cnt ?d m < e + u" if e: "schedule q a = Some (Some e, ops)" "now < e" for a e ops
    proof (cases "now < ?t")
      case True
      have "?t \<le> e" using heap_ok_min(1) [OF h(1) entry [OF e(1)]] .
      then show ?thesis using b(4) d True by (simp add: not_le [symmetric])
    next
      case False
      then have "to_units cnt ?d m = 0" using b(3) d(1) by simp
      then show ?thesis using e(2) assms(4) by simp
    qed
    then show ?thesis using w b(1-3) d(1) due by auto
  qed
qed

text \<open>
  Over several queues the bound the caller gives is not kept: a queue whose next expiry is less than a
  unit away answers 1 whatever the bound, also when another queue has asked not to sleep at all.
\<close>

definition sample_queue :: "int \<Rightarrow> int timer_queue" where
  "sample_queue t = snd (enqueue_timer (\<lambda>_. False) t 1 sample_op new_timer_queue)"

lemma sample_queue_heap: "tq_heap (sample_queue t) = [(t, 1)]"
  by (simp add: sample_queue_def enqueue_timer_def new_timer_queue_def new_timer_data_def in_list_def upd_timer_def
      link_timer_def up_heap.simps set_index_def NO_INDEX_def Let_def)

lemma due_queue_waits:
  "wait_duration_msec 100 (sample_queue 50) 1000 = Some 0 \<and>
   tqs_wait_duration (wait_duration_msec 100) [sample_queue 50, sample_queue 900000] 1000 = Some 1"
  by (simp add: wait_duration_msec_def wait_duration_def sample_queue_heap heap_time_def chrono_subtract_def i64_defs
      to_msec_def to_units_def total_milliseconds_eq)

end
