(* ===== verification/Spec2Isabelle.thy ===== *)
theory Spec2Isabelle
  imports Raft_Cluster Raft_Commit_Facts Raft_Member_Facts Raft_Client Time_Traits
begin

text \<open>
  A verification of \<^verbatim>\<open>xio\<close>: a networking library in C++ (\<^verbatim>\<open>src/xio\<close>, with its event loop in
  \<^verbatim>\<open>src/xio/detail\<close>) and the Raft consensus server built on it (\<^verbatim>\<open>src/xio/raft\<close>).

  \<^bold>\<open>The program.\<close> A Raft server keeps a log, a term and a vote, and reacts to events: requests and
  responses of other servers, timers, commands of its user, and rounds of its commit thread. Servers
  talk through connections: a client writes requests, a session at the other end reads them, hands
  them to the server and writes its responses. All messages and durable records are byte formats
  made with the classes \<^verbatim>\<open>buffer\<close> and \<^verbatim>\<open>buffer_serializer\<close>. Below that, the event loop keeps queues of
  operations and of timers.

  \<^bold>\<open>How it is modelled.\<close> Classes are records, enumerations are datatypes, and every operation, handler or
  loop is a function with the name it has in the source. A handler takes an environment \<open>renv\<close> (the
  clock, random numbers, the answers of the user's callbacks and state machine) and a server and
  returns a server; what it sends, calls back or saves is recorded in the server (\<open>sv_out\<close>,
  \<open>sv_saved\<close>). Exceptions are values of a state-and-exception monad that keeps the state reached so
  far; an access outside an allocation is an error of its own. Indexes, terms and sizes are natural
  numbers with the wrap-around of 64 bits written out where the code can reach it; bytes, flags and
  checksums are words. Each handler is atomic, as it runs under the server's lock.

  \<^bold>\<open>The theories.\<close>
  \<^item> \<open>Prelude\<close>, \<open>Ordered_Map\<close>: machine types, errors, the monad, bytes of words; \<^verbatim>\<open>std::map\<close>.
  \<^item> \<open>Raft_Buffer\<close>, \<open>Raft_Buffer_Codec\<close> (\<^verbatim>\<open>buffer.cc\<close>), \<open>Raft_Serializer\<close> (\<^verbatim>\<open>buffer_serializer.cc\<close>): the
    blocks of memory with their inline header, all accesses to them, and the reader and writer with a
    byte order. Every sequence of calls stays inside the allocation, with the exceptions that are shown
    (\<open>get_str\<close> at the end of the data, \<open>get_cstr\<close> without a terminator, a raw length that makes the
    position wrap around, the size of a big block), and what is written is read back. The locales \<open>buf_reader\<close> and \<open>buf_codec\<close> state this once for all item types.
  \<^item> \<open>Raft_Crc32\<close> (\<^verbatim>\<open>crc32.cc\<close>): the table-driven routines compute the standard checksum, bit by bit.
  \<^item> \<open>Raft_Codec\<close>, \<open>Raft_Msg_Codec\<close>: log entries, configurations, snapshots, the durable state and the
    payloads of messages, with round trips through their byte formats.
  \<^item> \<open>Raft_Log\<close> (\<^verbatim>\<open>log_store.h\<close>, \<^verbatim>\<open>in_memory_log_store.cc\<close>): the contract of a log store as a locale, which
    the in-memory store is shown to satisfy; its queries answer as the abstract log, out of range too.
  \<^item> \<open>Raft_Msg\<close>, \<open>Raft_Peer\<close>, \<open>Raft_Server\<close>: messages, timers and parameters, the leader's view of a peer,
    the server's state with the operations all handlers share.
  \<^item> \<open>Raft_Replicate\<close>, \<open>Raft_Append\<close> (\<^verbatim>\<open>handle_append_entries.cc\<close>, \<^verbatim>\<open>handle_client_request.cc\<close>): replication
    on the leader and on the follower. The commit index a leader chooses is held by a quorum; a follower
    that accepts a request has exactly the log and the commit index the request asks for.
  \<^item> \<open>Raft_Vote\<close> (\<^verbatim>\<open>handle_vote.cc\<close>, \<^verbatim>\<open>handle_priority.cc\<close>): elections, leadership, priorities.
  \<^item> \<open>Raft_Member\<close>, \<open>Raft_Member_Facts\<close> (\<^verbatim>\<open>handle_join_leave.cc\<close>, \<^verbatim>\<open>handle_snapshot_sync.cc\<close>): membership
    changes one at a time, the peers mirror an applied configuration, quorums that servers count in
    neighbouring configurations meet, snapshots are installed.
  \<^item> \<open>Raft_Commit\<close>, \<open>Raft_Commit_Facts\<close> (\<^verbatim>\<open>handle_commit.cc\<close>): the commit thread executes every committed
    entry in order and ends; clients are answered after execution, with the exceptions that are shown.
  \<^item> \<open>Raft_Dispatch\<close> (\<^verbatim>\<open>raft_server.cc\<close>, \<^verbatim>\<open>handle_timeout.cc\<close>, \<^verbatim>\<open>handle_user_cmd.cc\<close>): the entry points.
  \<^item> \<open>Election\<close>: the voting protocol without code, with the locale \<open>quorums\<close>. \<open>Raft_Steady\<close>,
    \<open>Raft_Election\<close>, \<open>Raft_Drift\<close>: what each handler does to term, vote and role. \<open>Raft_Cluster\<close>: a
    cluster running the handlers, with messages delayed, reordered and lost and servers that crash and
    restart, follows the protocol. Hence a term has at most one leader, and votes survive a restart.
  \<^item> \<open>Raft_Wire\<close>, \<open>Raft_Rpc\<close>, \<open>Raft_Client\<close> (\<^verbatim>\<open>xio_service.cc\<close>): the bytes of requests and responses, the
    session that reads any bytes without a fault and stops at corrupted messages, and the client with
    its queues, which completes requests in order until the first failure.
  \<^item> \<open>Op_Queue\<close>, \<open>Timer_Queue\<close>, \<open>Deadline_Timer\<close>, \<open>Time_Traits\<close> (\<^verbatim>\<open>detail/op_queue.h\<close>,
    \<^verbatim>\<open>detail/timer_queue.h\<close>, \<^verbatim>\<open>detail/deadline_timer_service.h\<close>, \<^verbatim>\<open>detail/impl/epoll_reactor.h\<close> and \<^verbatim>\<open>.cc\<close>,
    \<^verbatim>\<open>detail/chrono_time_traits.h\<close>): the intrusive queue pointer by pointer, the heap of timers with
    the list that links them, the timers a program uses, and how long the reactor may sleep. The
    locales \<open>op_fifo\<close> and \<open>timer_contract\<close> are what the upper layers rely on; from the second it
    follows that no wait is lost and none ends twice or early, up to the shutdown of the reactor,
    which abandons what still waits.

  \<^bold>\<open>Loops and bounds.\<close> Loops are structural recursions or have a termination proof. Where the code has no
  bound of its own, the model has fuel or is a partial function, and that it returns is a theorem: the
  reader of log entries gets the size of the data as fuel, which it never uses up
  (\<open>session_reads_any_bytes\<close>); the nesting of append requests is bounded (\<open>rae_level_enough\<close>); the search
  for a configuration ends when configurations are numbered as the server numbers them
  (\<open>snapshot_search_ends\<close>); the loops over queues and timers return for every well-formed queue. Elections
  are studied for terms below \<open>2 ^ 64\<close>, timers for fewer than \<open>2 ^ 64 - 1\<close> started waits, and the cluster
  for a membership that does not change and for parameters without a custom election quorum.

  \<^bold>\<open>Not modelled.\<close> Threads, locks and condition variables: each handler is a step, and the background
  append thread, the background snapshot reader and the worker threads (\<^verbatim>\<open>global_mgr.cc\<close>) only decide when
  steps happen. The listener, TLS, sockets, descriptors and the reactors for other systems: they are
  system calls and calls into OpenSSL whose behaviour is not in the source. What epoll reports is an
  argument of the reactor's rounds. The scheduler and the strands
  of the event loop: the models admit every order of handlers instead. Statistics, formatting, logging
  and start-up: no decision depends on them. Executors, coroutines and the class templates for sockets,
  buffers and streams: they are resolved by the compiler or forward to services. State machine, state
  manager and callbacks are interfaces for user code; what they answer is part of the environment. That
  committed entries survive a change of leader is not shown; the lemmas on votes, on the commit index and
  on the follower's log are the parts of that argument that are.
\<close>

end
